(* ===== verification/SbiePrelude.thy ===== *)
theory SbiePrelude
  imports Main "HOL-Library.Word"
begin

text \<open>
  Shared vocabulary of the development: the C types of the Sandboxie sources
  (wide strings, fixed-width integers), the C run-time functions the sources call on
  wide strings, and the generic list and option lemmas the component theories use.

  A \<^verbatim>\<open>const WCHAR *\<close> is the list of the code units up to the terminating NUL; a
  pointer into a string is the suffix it points at, and reading \<^verbatim>\<open>*p\<close> at the empty
  suffix reads the NUL.  The code units the sources compare with are all ASCII, so
  a \<^typ>\<open>char\<close> stands for a \<^verbatim>\<open>WCHAR\<close>.
\<close>

unbundle bit_operations_syntax

type_synonym wchar = char
type_synonym wstring = "char list"
type_synonym u8 = "8 word"
type_synonym u16 = "16 word"
type_synonym u32 = "32 word"

named_theorems wstr_simps \<open>rewrite rules for the C string functions\<close>
named_theorems opt_mono \<open>monotonicity of fuelled definitions\<close>
named_theorems ctype_defs \<open>definitions of the character class tests\<close>

abbreviation BS :: wchar where "BS \<equiv> CHR 0x5C"
abbreviation STAR :: wchar where "STAR \<equiv> CHR 0x2A"
abbreviation QMARK :: wchar where "QMARK \<equiv> CHR 0x3F"
abbreviation NUL :: wchar where "NUL \<equiv> CHR 0x00"

section \<open>C run-time functions on wide strings\<close>

text \<open>\<^verbatim>\<open>*p\<close>: the code unit a pointer reads, NUL at the end of the string.\<close>

definition deref :: "wstring \<Rightarrow> wchar" where
  "deref s = (case s of [] \<Rightarrow> NUL | c # _ \<Rightarrow> c)"

text \<open>\<^verbatim>\<open>wcschr(s, c)\<close> for a non-NUL \<open>c\<close>: the offset of the first occurrence.\<close>

definition wcschr :: "wstring \<Rightarrow> wchar \<Rightarrow> nat option" where
  "wcschr s c = (if c \<in> set s then Some (length (takeWhile (\<lambda>x. x \<noteq> c) s)) else None)"

text \<open>\<^verbatim>\<open>towlower\<close> and \<^verbatim>\<open>_wcslwr\<close> in the C locale of the kernel run-time: ASCII letters only.\<close>

definition towlower :: "wchar \<Rightarrow> wchar" where
  "towlower c = (let n = of_char c :: nat in
     if 65 \<le> n \<and> n \<le> 90 then char_of (n + 32) else c)"

definition wcslwr :: "wstring \<Rightarrow> wstring" where
  "wcslwr s = map towlower s"

text \<open>\<^verbatim>\<open>_wcsnicmp(a, b, n) == 0\<close> and \<^verbatim>\<open>_wcsicmp(a, b) == 0\<close>.\<close>

definition wcsnicmp_eq :: "wstring \<Rightarrow> wstring \<Rightarrow> nat \<Rightarrow> bool" where
  "wcsnicmp_eq a b n \<longleftrightarrow> wcslwr (take n a) = wcslwr (take n b)"

definition wcsicmp_eq :: "wstring \<Rightarrow> wstring \<Rightarrow> bool" where
  "wcsicmp_eq a b \<longleftrightarrow> wcslwr a = wcslwr b"

text \<open>A signed 32-bit value after wrap-around.\<close>

definition int32 :: "int \<Rightarrow> int" where
  "int32 x = (x + 2 ^ 31) mod 2 ^ 32 - 2 ^ 31"

section \<open>Lemmas\<close>

lemma deref_Nil [simp, wstr_simps]: "deref [] = NUL"
  by (simp add: deref_def)

lemma deref_Cons [simp, wstr_simps]: "deref (c # s) = c"
  by (simp add: deref_def)

lemma deref_eq_non_nul: "c \<noteq> NUL \<Longrightarrow> deref s = c \<longleftrightarrow> (\<exists>t. s = c # t)"
  by (cases s) auto

lemma wcschr_None_iff: "wcschr s c = None \<longleftrightarrow> c \<notin> set s"
  by (simp add: wcschr_def)

lemma wcschr_notin [simp]: "c \<notin> set s \<Longrightarrow> wcschr s c = None"
  by (simp add: wcschr_def)

lemma wcschr_append_Cons: "c \<notin> set xs \<Longrightarrow> wcschr (xs @ c # ys) c = Some (length xs)"
  by (induction xs) (auto simp: wcschr_def)

lemma wcschr_SomeD:
  assumes "wcschr s c = Some k"
  shows "s = take k s @ c # drop (Suc k) s" and "c \<notin> set (take k s)" and "k < length s"
proof -
  from assms have "c \<in> set s" by (auto simp: wcschr_def split: if_splits)
  then obtain xs ys where s: "s = xs @ c # ys" and c: "c \<notin> set xs"
    by (meson split_list_first)
  with assms have "k = length xs" by (simp add: wcschr_append_Cons)
  with s c show "s = take k s @ c # drop (Suc k) s" "c \<notin> set (take k s)" "k < length s"
    by auto
qed

lemma wcschr_Some_lt: "wcschr s c = Some k \<Longrightarrow> k < length s"
  by (rule wcschr_SomeD(3))

lemma wcschr_nth: "wcschr s c = Some k \<Longrightarrow> s ! k = c"
  using wcschr_SomeD [of s c k] by (metis append_take_drop_id list.sel(1) hd_drop_conv_nth same_append_eq)

lemma length_wcslwr [simp, wstr_simps]: "length (wcslwr s) = length s"
  by (simp add: wcslwr_def)

lemma wcslwr_Nil [simp, wstr_simps]: "wcslwr [] = []"
  by (simp add: wcslwr_def)

lemma wcslwr_append [wstr_simps]: "wcslwr (a @ b) = wcslwr a @ wcslwr b"
  by (simp add: wcslwr_def)

lemma wcslwr_take: "wcslwr (take n s) = take n (wcslwr s)"
  by (simp add: wcslwr_def take_map)

lemma wcslwr_drop: "wcslwr (drop n s) = drop n (wcslwr s)"
  by (simp add: wcslwr_def drop_map)

lemma wcslwr_eq_Nil [simp, wstr_simps]: "wcslwr s = [] \<longleftrightarrow> s = []"
  by (simp add: wcslwr_def)

lemma towlower_idem [simp]: "towlower (towlower c) = towlower c"
proof (cases "65 \<le> (of_char c :: nat) \<and> (of_char c :: nat) \<le> 90")
  case True
  then have "(of_char (char_of ((of_char c :: nat) + 32)) :: nat) = of_char c + 32"
    by simp
  with True show ?thesis by (simp add: towlower_def Let_def)
next
  case False
  then show ?thesis by (auto simp: towlower_def Let_def)
qed

lemma wcslwr_idem [simp, wstr_simps]: "wcslwr (wcslwr s) = wcslwr s"
  by (simp add: wcslwr_def)

lemma wcsicmp_eq_refl [simp]: "wcsicmp_eq a a"
  by (simp add: wcsicmp_eq_def)

lemma wcsicmp_eq_sym: "wcsicmp_eq a b = wcsicmp_eq b a"
  by (auto simp: wcsicmp_eq_def)

lemma wcsicmp_eq_trans: "wcsicmp_eq a b \<Longrightarrow> wcsicmp_eq b c \<Longrightarrow> wcsicmp_eq a c"
  by (simp add: wcsicmp_eq_def)

lemma wcsicmp_eq_length: "wcsicmp_eq a b \<Longrightarrow> length a = length b"
  by (metis length_wcslwr wcsicmp_eq_def)

lemma unat_u16_of_nat: "n < 2 ^ 16 \<Longrightarrow> unat (of_nat n :: u16) = n"
  by (simp add: unat_of_nat)

lemma unat_u32_of_nat: "n < 2 ^ 32 \<Longrightarrow> unat (of_nat n :: u32) = n"
  by (simp add: unat_of_nat)

lemma int32_bounds: "- (2 ^ 31) \<le> int32 x \<and> int32 x < 2 ^ 31"
proof -
  have "0 \<le> (x + 2 ^ 31) mod 2 ^ 32" and "(x + 2 ^ 31) mod 2 ^ 32 < (2 ^ 32 :: int)"
    by (rule pos_mod_sign, simp, rule pos_mod_bound, simp)
  then show ?thesis by (simp add: int32_def)
qed

lemma int32_id: "- (2 ^ 31) \<le> x \<Longrightarrow> x < 2 ^ 31 \<Longrightarrow> int32 x = x"
  by (simp add: int32_def)

section \<open>Fuelled definitions\<close>

text \<open>
  A run with fuel is below another when it has no result or the same one.  The rules
  compose along the syntax of a definition, so that "more fuel, same result" is proved by
  applying them.
\<close>

definition opt_le :: "'a option \<Rightarrow> 'a option \<Rightarrow> bool" where
  "opt_le x y \<longleftrightarrow> x = None \<or> x = y"

lemma opt_le_refl [simp, intro, opt_mono]: "opt_le x x"
  by (simp add: opt_le_def)

lemma opt_le_None [simp, intro]: "opt_le None y"
  by (simp add: opt_le_def)

lemma opt_leD: "opt_le x y \<Longrightarrow> x = Some r \<Longrightarrow> y = Some r"
  by (auto simp: opt_le_def)

lemma opt_le_bind [opt_mono]:
  "opt_le x x' \<Longrightarrow> (\<And>a. opt_le (f a) (f' a)) \<Longrightarrow>
     opt_le (case x of None \<Rightarrow> None | Some a \<Rightarrow> f a) (case x' of None \<Rightarrow> None | Some a \<Rightarrow> f' a)"
  by (auto simp: opt_le_def split: option.splits)

lemma opt_le_map [opt_mono]: "opt_le x x' \<Longrightarrow> opt_le (map_option f x) (map_option f x')"
  by (auto simp: opt_le_def)

lemma opt_le_if [opt_mono]:
  "(b \<Longrightarrow> opt_le x x') \<Longrightarrow> (\<not> b \<Longrightarrow> opt_le y y') \<Longrightarrow>
     opt_le (if b then x else y) (if b then x' else y')"
  by simp

lemma opt_le_case [opt_mono]:
  "(z = None \<Longrightarrow> opt_le x x') \<Longrightarrow> (\<And>a. z = Some a \<Longrightarrow> opt_le (f a) (f' a)) \<Longrightarrow>
     opt_le (case z of None \<Rightarrow> x | Some a \<Rightarrow> f a) (case z of None \<Rightarrow> x' | Some a \<Rightarrow> f' a)"
  by (cases z) auto

text \<open>Code that returns, or faults: an access violation of the source.\<close>

datatype 'a outcome = Fault | Ret 'a

end
