(* ===== verification/Pattern.thy ===== *)
theory Pattern
  imports SbiePrelude
begin

text \<open>
  Wildcard patterns: \<^verbatim>\<open>Sandboxie/common/pattern.c\<close>.  Every access rule of a sandbox
  (OpenFilePath, ClosedKeyPath, ReadIpcPath, ...) is compiled by
  \<^verbatim>\<open>Pattern_Create\<close> into the list of its constant parts and matched by
  \<^verbatim>\<open>Pattern_MatchX\<close>; \<^verbatim>\<open>Pattern_MatchPathList\<close> picks the best rule of a list.
  The theory models the whole file, states the glob semantics the patterns stand for
  and proves the matcher sound for it, and complete where the source is.
\<close>

section \<open>Data\<close>

text \<open>An element of the \<^verbatim>\<open>cons\<close> array.\<close>

record pat_con =
  con_hex :: bool
  con_no_bs :: bool
  con_len :: u16
  con_ptr :: wstring

text \<open>\<^verbatim>\<open>struct _PATTERN\<close>, with the bit fields of \<^verbatim>\<open>info.f\<close> as Booleans.\<close>

record pattern =
  pat_length :: u32
  num_cons :: u16
  star_missing :: bool
  star_at_head :: bool
  star_at_tail :: bool
  have_a_qmark :: bool
  pat_source :: wstring
  pat_level :: u32
  pat_aux :: nat
  pat_cons :: "pat_con list"

definition Pattern_Hex :: wstring where
  "Pattern_Hex = ''__hex''"

section \<open>Searching\<close>

text \<open>
  The inner comparison loop of \<^verbatim>\<open>Pattern_wcsnstr_ex\<close>: the first \<open>nlen\<close> units of \<open>nstr\<close>
  against \<open>hstr\<close>; a question mark stands for any unit but the NUL.
\<close>

fun wcsn_cmp :: "wstring \<Rightarrow> wstring \<Rightarrow> nat \<Rightarrow> bool" where
  "wcsn_cmp hstr nstr 0 = True"
| "wcsn_cmp (h # hs) (n # ns) (Suc k) = ((h = n \<or> n = QMARK) \<and> wcsn_cmp hs ns k)"
| "wcsn_cmp _ _ (Suc k) = False"

text \<open>\<^verbatim>\<open>Pattern_wcsnstr_ex\<close>: the offset of the first occurrence, \<^const>\<open>None\<close> for NULL.\<close>

fun Pattern_wcsnstr_ex :: "wstring \<Rightarrow> wstring \<Rightarrow> nat \<Rightarrow> bool \<Rightarrow> nat option" where
  "Pattern_wcsnstr_ex [] nstr nlen no_bs = None"
| "Pattern_wcsnstr_ex (h # hs) nstr nlen no_bs =
     (if (h = deref nstr \<or> deref nstr = QMARK) \<and> wcsn_cmp (h # hs) nstr nlen then Some 0
      else if no_bs \<and> h = BS then None
      else map_option Suc (Pattern_wcsnstr_ex hs nstr nlen no_bs))"

definition Pattern_wcsnstr :: "wstring \<Rightarrow> wstring \<Rightarrow> nat \<Rightarrow> nat option" where
  "Pattern_wcsnstr hstr nstr nlen = Pattern_wcsnstr_ex hstr nstr nlen False"

text \<open>The kernel's \<^verbatim>\<open>Pattern_wcstol\<close>: the value and the end pointer.\<close>

definition is_wdigit :: "wchar \<Rightarrow> bool" where
  "is_wdigit c \<longleftrightarrow> (48 :: nat) \<le> of_char c \<and> of_char c \<le> (57 :: nat)"

fun Pattern_wcstol :: "wstring \<Rightarrow> int \<Rightarrow> int \<times> wstring" where
  "Pattern_wcstol [] result = (result, [])"
| "Pattern_wcstol (c # text) result =
     (if is_wdigit c then Pattern_wcstol text (int32 (result * 10 + (of_char c - 48)))
      else (result, c # text))"

section \<open>Compiling a pattern\<close>

text \<open>
  One turn of the two scanning loops of \<^verbatim>\<open>Pattern_Create\<close>: the number of stars skipped,
  the constant part and the rest of the input, \<^const>\<open>None\<close> after the last part.
\<close>

definition next_part :: "wstring \<Rightarrow> nat \<times> wstring \<times> wstring option" where
  "next_part iptr =
     (let stars = length (takeWhile (\<lambda>c. c = STAR) iptr);
          iptr1 = dropWhile (\<lambda>c. c = STAR) iptr
      in case wcschr iptr1 STAR of
           Some k \<Rightarrow> (stars, take k iptr1, Some (drop (Suc k) iptr1))
         | None \<Rightarrow> (stars, iptr1, None))"

lemma next_part_shorter:
  assumes "next_part iptr = (st, part, Some rest)"
  shows "length rest < length iptr"
proof -
  have "length (dropWhile (\<lambda>c. c = STAR) iptr) \<le> length iptr"
    by (rule length_dropWhile_le)
  with assms show ?thesis
    by (auto simp: next_part_def Let_def split: option.splits dest!: wcschr_Some_lt)
qed

definition sizeof_PATTERN :: nat where "sizeof_PATTERN = 48"
definition sizeof_con :: nat where "sizeof_con = 16"
definition sizeof_WCHAR :: nat where "sizeof_WCHAR = 2"

text \<open>The counting loop: number of constant parts and bytes to allocate, both \<^verbatim>\<open>ULONG\<close>.\<close>

function pat_count :: "wstring \<Rightarrow> u32 \<Rightarrow> u32 \<Rightarrow> u32 \<times> u32" where
  "pat_count iptr n len =
     (case next_part iptr of (_, part, rest) \<Rightarrow>
        let n' = (if part \<noteq> [] then n + 1 else n);
            len' = (if part \<noteq> [] then len + (of_nat (length part) + 1) * of_nat sizeof_WCHAR + of_nat sizeof_con
                    else len)
        in case rest of None \<Rightarrow> (n', len') | Some iptr2 \<Rightarrow> pat_count iptr2 n' len')"
  by pat_completeness auto
termination
  by (relation "measure (\<lambda>(iptr, n, len). length iptr)") (auto dest: next_part_shorter [OF sym])

definition mk_con :: "bool \<Rightarrow> nat \<Rightarrow> wstring \<Rightarrow> pat_con" where
  "mk_con lower start_count part =
     (let ptr = (if lower then wcslwr part else part)
      in \<lparr>con_hex = Pattern_wcsnstr ptr Pattern_Hex 5 \<noteq> None,
          con_no_bs = (start_count = 2),
          con_len = of_nat (length part),
          con_ptr = ptr\<rparr>)"

text \<open>
  The copying loop: \<open>cons\<close> collects the filled array elements, \<open>optr\<close> is the byte offset of
  the output pointer in the allocated block.
\<close>

function pat_fill :: "bool \<Rightarrow> wstring \<Rightarrow> pat_con list \<Rightarrow> nat \<Rightarrow> pat_con list \<times> nat" where
  "pat_fill lower iptr cons optr =
     (case next_part iptr of (stars, part, rest) \<Rightarrow>
        let start_count = (if cons \<noteq> [] then 1 else 0) + stars;
            cons' = (if part \<noteq> [] then cons @ [mk_con lower start_count part] else cons);
            optr' = (if part \<noteq> [] then optr + (length part + 1) * sizeof_WCHAR else optr)
        in case rest of None \<Rightarrow> (cons', optr') | Some iptr2 \<Rightarrow> pat_fill lower iptr2 cons' optr')"
  by pat_completeness auto
termination
  by (relation "measure (\<lambda>(lower, iptr, cons, optr). length iptr)")
    (auto dest: next_part_shorter [OF sym])

declare pat_count.simps [simp del] pat_fill.simps [simp del]

text \<open>
  \<^verbatim>\<open>Pattern_Create\<close>.  \<open>alloc\<close> is the outcome of \<^verbatim>\<open>Pool_Alloc\<close>; \<open>prv\<close> is the code unit in
  memory just before the string, which the source reads as \<^verbatim>\<open>string[wcslen(string) - 1]\<close> when
  the string is empty.  \<open>Fault\<close> is the access violation of \<^verbatim>\<open>wcschr(string, L'?')\<close> on a NULL
  string, or a write behind the block when the computed length wrapped around.
\<close>

definition prev_unit :: "wchar \<Rightarrow> wstring \<Rightarrow> wchar" where
  \<comment> \<open>\<^verbatim>\<open>s[wcslen(s) - 1]\<close>\<close>
  "prev_unit prv s = (if s = [] then prv else last s)"

definition Pattern_Create ::
  "(nat \<Rightarrow> bool) \<Rightarrow> wchar \<Rightarrow> wstring option \<Rightarrow> bool \<Rightarrow> u32 \<Rightarrow> pattern option outcome" where
  "Pattern_Create alloc prv str lower level =
     (let len0 = of_nat sizeof_PATTERN + (case str of None \<Rightarrow> 0 | Some s \<Rightarrow> of_nat (length s * sizeof_WCHAR))
                 + of_nat sizeof_WCHAR;
          (n, len_pat) = (case str of None \<Rightarrow> (0, len0) | Some s \<Rightarrow> pat_count s 0 len0)
      in if \<not> alloc (unat len_pat) then Ret None
      else
        let (cons, optr) = (case str of None \<Rightarrow> ([], sizeof_PATTERN)
               | Some s \<Rightarrow> pat_fill lower s [] (sizeof_PATTERN + unat n * sizeof_con));
            source_end = optr + (length (case str of None \<Rightarrow> [] | Some s \<Rightarrow> s) + 1) * sizeof_WCHAR;
            head = (case str of None \<Rightarrow> False | Some s \<Rightarrow> deref s = STAR);
            tail = (case str of None \<Rightarrow> False
                    | Some s \<Rightarrow> prev_unit prv s = STAR);
            missing = (length cons \<le> 1 \<and> \<not> head \<and> \<not> tail \<and> \<not> (\<exists>c \<in> set cons. con_hex c))
        in if unat len_pat < source_end \<or> missing \<and> str = None then Fault
        else Ret (Some
          \<lparr>pat_length = len_pat,
           num_cons = of_nat (length cons),
           star_missing = missing,
           star_at_head = head,
           star_at_tail = tail,
           have_a_qmark = (missing \<and> QMARK \<in> set (the str)),
           pat_source = (case str of None \<Rightarrow> [] | Some s \<Rightarrow> s),
           pat_level = level,
           pat_aux = 0,
           pat_cons = cons\<rparr>))"

section \<open>Accessors\<close>

definition Pattern_Free :: "pattern \<Rightarrow> u32" where
  \<comment> \<open>the number of bytes handed back to the pool\<close>
  "Pattern_Free pat = pat_length pat"

definition Pattern_Source :: "pattern \<Rightarrow> wstring" where
  "Pattern_Source pat = pat_source pat"

definition Pattern_Level :: "pattern \<Rightarrow> u32" where
  "Pattern_Level pat = pat_level pat"

definition Pattern_Aux :: "pattern \<Rightarrow> nat" where
  "Pattern_Aux pat = pat_aux pat"

definition Pattern_Wildcards :: "pattern \<Rightarrow> u16" where
  "Pattern_Wildcards pat = (if num_cons pat = 0 then 0 else num_cons pat - 1)"

definition Pattern_Exact :: "pattern \<Rightarrow> bool" where
  "Pattern_Exact pat = (\<not> star_at_tail pat)"

section \<open>Matching\<close>

definition is_hexdig :: "wchar \<Rightarrow> bool" where
  "is_hexdig c \<longleftrightarrow> ((97 :: nat) \<le> of_char c \<and> of_char c \<le> (102 :: nat)) \<or> is_wdigit c"

declare is_wdigit_def [ctype_defs] is_hexdig_def [ctype_defs]

text \<open>The digit loop after \<^verbatim>\<open>restart2\<close>: how many hex digits are taken, at most \<open>max_len\<close>.\<close>

fun hex_count :: "wstring \<Rightarrow> nat \<Rightarrow> nat" where
  "hex_count (c # s) (Suc m) = (if is_hexdig c then Suc (hex_count s m) else 0)"
| "hex_count _ _ = 0"

text \<open>
  The bounds after a \<^verbatim>\<open>__hex\<close>: minimum, maximum and the text after them.
\<close>

definition hex_bounds :: "wstring \<Rightarrow> nat \<times> nat \<times> wstring" where
  "hex_bounds seqptr =
     (case Pattern_wcstol seqptr 0 of (mn, endptr) \<Rightarrow>
        if deref endptr \<noteq> NUL \<and> 1 \<le> mn \<and> mn \<le> 255 then
          (case Pattern_wcstol (tl endptr) 0 of (mx, endptr2) \<Rightarrow>
             if deref endptr2 \<noteq> NUL \<and> mn \<le> mx \<and> mx \<le> 255 then (nat mn, nat mx, endptr2)
             else (nat mn, nat mn, endptr))
        else (1, 255, seqptr))"

text \<open>
  The loop at \<^verbatim>\<open>restart2\<close>, with fuel: \<^const>\<open>None\<close> is "still looping", \<open>Some None\<close> is
  \<^verbatim>\<open>return 0\<close>, \<open>Some (Some k)\<close> continues with the source pointer \<open>k\<close> units further.
\<close>

fun hex_restart2 ::
  "nat \<Rightarrow> bool \<Rightarrow> wstring \<Rightarrow> wstring \<Rightarrow> nat \<Rightarrow> nat \<Rightarrow> nat \<Rightarrow> nat option option" where
  "hex_restart2 0 retry src conptr con_len' min_len max_len = None"
| "hex_restart2 (Suc fuel) retry src conptr con_len' min_len max_len =
     (let count = hex_count src max_len; src1 = drop count src
      in if min_len \<le> count then Some (Some count)
      else if retry then
        (case Pattern_wcsnstr src1 conptr con_len' of
           None \<Rightarrow> Some None
         | Some off \<Rightarrow>
             map_option (map_option (\<lambda>k. count + off + con_len' + k))
               (hex_restart2 fuel retry (drop (off + con_len') src1) conptr con_len'
                  min_len max_len))
      else Some None)"

text \<open>
  The loop at \<^verbatim>\<open>restart1\<close> of \<^verbatim>\<open>Pattern_Match3\<close>: \<open>si\<close> is \<open>str_index\<close>, \<open>sp\<close> the offset of \<open>srcptr\<close>,
  \<open>conptr\<close> the constant from the current part on and \<open>seq\<close> the offset of the next \<^verbatim>\<open>__hex\<close> in
  it.  The result is the index at which the next constant part is searched.
\<close>

fun hex_restart1 ::
  "nat \<Rightarrow> bool \<Rightarrow> wstring \<Rightarrow> nat \<Rightarrow> nat \<Rightarrow> nat \<Rightarrow> wstring \<Rightarrow> nat \<Rightarrow> nat option option" where
  "hex_restart1 0 retry str string_len si sp conptr seq = None"
| "hex_restart1 (Suc fuel) retry str string_len si sp conptr seq =
     (if seq \<noteq> 0 \<and> (int string_len - int si < int seq
            \<or> Pattern_wcsnstr (drop sp str) conptr seq \<noteq> Some 0) then Some None
      else
        let sp1 = sp + seq;
            (min_len, max_len, seqptr) = hex_bounds (drop (seq + 5) conptr)
        in if take 2 seqptr \<noteq> ''__'' then Some None
        else
          let seqptr2 = drop 2 seqptr
          in case hex_restart2 fuel retry (drop sp1 str) conptr seq min_len max_len of
               None \<Rightarrow> None
             | Some None \<Rightarrow> Some None
             | Some (Some k) \<Rightarrow>
                 (let sp2 = sp1 + k
                  in case Pattern_wcsnstr seqptr2 Pattern_Hex 5 of
                       Some tmp \<Rightarrow> hex_restart1 fuel retry str string_len si sp2 seqptr2 tmp
                     | None \<Rightarrow>
                         if seqptr2 \<noteq> []
                            \<and> Pattern_wcsnstr (drop sp2 str) seqptr2 (length seqptr2) \<noteq> Some 0
                         then Some None
                         else Some (Some (sp2 + length seqptr2))))"

text \<open>
  \<^verbatim>\<open>Pattern_Match2\<close> (its \<^verbatim>\<open>while (1)\<close> loop is the second recursive call) and
  \<^verbatim>\<open>Pattern_Match3\<close>.  Both take fuel, spent by every call and every turn of a loop;
  \<^const>\<open>None\<close> means that the fuel did not reach the end of the run.
\<close>

fun Pattern_Match2 :: "nat \<Rightarrow> pattern \<Rightarrow> wstring \<Rightarrow> nat \<Rightarrow> nat \<Rightarrow> nat \<Rightarrow> nat option"
  and Pattern_Match3 :: "nat \<Rightarrow> pattern \<Rightarrow> wstring \<Rightarrow> nat \<Rightarrow> nat \<Rightarrow> nat \<Rightarrow> nat option" where
  "Pattern_Match2 0 pat str string_len str_index con_index = None"
| "Pattern_Match2 (Suc fuel) pat str string_len str_index con_index =
     (if con_index < unat (num_cons pat) then
        (let con = pat_cons pat ! con_index
         in case Pattern_wcsnstr_ex (drop str_index str) (con_ptr con) (unat (con_len con))
                   (con_no_bs con) of
              None \<Rightarrow>
                if con_hex con then Pattern_Match3 fuel pat str string_len str_index con_index
                else Some 0
            | Some off \<Rightarrow>
                if str_index = 0 \<and> 0 < off \<and> \<not> star_at_head pat then Some 0
                else
                  let str_index' = str_index + off + unat (con_len con)
                  in case Pattern_Match2 fuel pat str string_len str_index' (con_index + 1) of
                       None \<Rightarrow> None
                     | Some match \<Rightarrow>
                         if match \<noteq> 0 then Some match
                         else Pattern_Match2 fuel pat str string_len str_index' con_index)
      else if str_index \<noteq> string_len \<and> \<not> star_at_tail pat then Some 0
      else Some (str_index + 1))"
| "Pattern_Match3 0 pat str string_len str_index con_index = None"
| "Pattern_Match3 (Suc fuel) pat str string_len str_index con_index =
     (let conptr = con_ptr (pat_cons pat ! con_index)
      in case Pattern_wcsnstr conptr Pattern_Hex 5 of
           None \<Rightarrow> Some 0
         | Some seq \<Rightarrow>
             (case hex_restart1 fuel (con_index \<noteq> 0 \<or> star_at_head pat) str string_len
                     str_index str_index conptr seq of
                None \<Rightarrow> None
              | Some None \<Rightarrow> Some 0
              | Some (Some idx) \<Rightarrow>
                  Pattern_Match2 fuel pat str string_len idx (con_index + 1)))"

text \<open>\<^verbatim>\<open>Pattern_MatchX\<close> and \<^verbatim>\<open>Pattern_Match\<close>; a NULL string is \<^const>\<open>None\<close>.\<close>

definition Pattern_MatchX :: "nat \<Rightarrow> pattern \<Rightarrow> wstring option \<Rightarrow> nat \<Rightarrow> nat option" where
  "Pattern_MatchX fuel pat str string_len =
     (case str of
        None \<Rightarrow> Some 0
      | Some s \<Rightarrow>
          if star_missing pat then
            (if num_cons pat = 0 then Some 0
             else
               let con = pat_cons pat ! 0
               in if string_len \<noteq> unat (con_len con) then Some 0
               else if have_a_qmark pat then
                 (if Pattern_wcsnstr s (con_ptr con) (unat (con_len con)) \<noteq> Some 0 then Some 0
                  else Some string_len)
               else if take (unat (con_len con)) s \<noteq> take (unat (con_len con)) (con_ptr con) then Some 0
               else Some string_len)
          else Pattern_Match2 fuel pat s string_len 0 0)"

definition Pattern_Match :: "nat \<Rightarrow> pattern \<Rightarrow> wstring option \<Rightarrow> nat \<Rightarrow> bool option" where
  "Pattern_Match fuel pat str string_len =
     map_option (\<lambda>m. m \<noteq> 0) (Pattern_MatchX fuel pat str string_len)"

section \<open>The best rule of a list\<close>

definition MATCH_FLAG_EXACT :: u32 where "MATCH_FLAG_EXACT = 1"
definition MATCH_FLAG_AUX :: u32 where "MATCH_FLAG_AUX = 2"

text \<open>The local variables of \<^verbatim>\<open>Pattern_MatchPathList\<close>.\<close>

record mpl_state =
  mpl_len :: nat
  mpl_level :: u32
  mpl_flags :: u32
  mpl_wildc :: u16
  mpl_found :: "pattern option"

definition mpl_take :: "pattern \<Rightarrow> nat \<Rightarrow> u32 \<Rightarrow> mpl_state \<Rightarrow> mpl_state" where
  "mpl_take pat cur_len flags st =
     st\<lparr>mpl_len := cur_len, mpl_level := Pattern_Level pat, mpl_flags := flags,
        mpl_wildc := Pattern_Wildcards pat, mpl_found := Some pat\<rparr>"

text \<open>
  The loop over the list.  \<open>prv\<close> is the unit read by \<^verbatim>\<open>path_lwr[path_len - 1]\<close> when the path is
  empty.  The backslash the source writes behind the path for the second test, and takes
  away again, is an argument of that test.
\<close>

fun mpl_loop :: "nat \<Rightarrow> wchar \<Rightarrow> wstring \<Rightarrow> pattern list \<Rightarrow> mpl_state \<Rightarrow> mpl_state option" where
  "mpl_loop fuel prv path [] st = Some st"
| "mpl_loop fuel prv path (pat # pats) st =
     (if mpl_level st < Pattern_Level pat then mpl_loop fuel prv path pats st
      else if \<not> Pattern_Exact pat \<and> mpl_flags st AND MATCH_FLAG_EXACT \<noteq> 0 then
        mpl_loop fuel prv path pats st
      else
        (case Pattern_MatchX fuel pat (Some path) (length path) of
           None \<Rightarrow> None
         | Some cur_len \<Rightarrow>
             if mpl_len st < cur_len then
               (let st' = mpl_take pat cur_len
                            (if Pattern_Exact pat then MATCH_FLAG_EXACT else 0) st
                in if Pattern_Exact pat then Some st' else mpl_loop fuel prv path pats st')
             else if prev_unit prv path \<noteq> BS then
               (case Pattern_MatchX fuel pat (Some (path @ [BS])) (length path + 1) of
                  None \<Rightarrow> None
                | Some cur_len2 \<Rightarrow>
                    if mpl_len st < cur_len2 then
                      mpl_loop fuel prv path pats
                        (mpl_take pat cur_len2
                          (MATCH_FLAG_AUX OR (if Pattern_Exact pat then MATCH_FLAG_EXACT else 0))
                          st)
                    else mpl_loop fuel prv path pats st)
             else mpl_loop fuel prv path pats st))"

text \<open>\<^verbatim>\<open>Pattern_MatchPathList\<close>: a NULL in/out pointer is \<^const>\<open>None\<close>.\<close>

definition Pattern_MatchPathList ::
  "nat \<Rightarrow> wchar \<Rightarrow> wstring \<Rightarrow> pattern list \<Rightarrow> u32 option \<Rightarrow> u32 option \<Rightarrow> u16 option
     \<Rightarrow> mpl_state option" where
  "Pattern_MatchPathList fuel prv path pats plevel pflags pwildc =
     mpl_loop fuel prv path pats
       \<lparr>mpl_len = 0,
        mpl_level = (case plevel of None \<Rightarrow> - 1 | Some l \<Rightarrow> l),
        mpl_flags = (case pflags of None \<Rightarrow> 0 | Some f \<Rightarrow> f),
        mpl_wildc = (case pwildc of None \<Rightarrow> - 1 | Some w \<Rightarrow> w),
        mpl_found = None\<rparr>"

text \<open>The in/out variables of \<^verbatim>\<open>Pattern_MatchPathListEx\<close>.\<close>

record rule_sel =
  sel_level :: u32
  sel_len :: int
  sel_flags :: u32
  sel_wildc :: u16
  sel_patsrc :: "wstring option"

text \<open>When the best rule of a list replaces the selection made so far.\<close>

definition rule_overrides :: "mpl_state \<Rightarrow> rule_sel \<Rightarrow> bool" where
  "rule_overrides cur sel \<longleftrightarrow>
     mpl_level cur \<le> sel_level sel \<and>
     ((sel_flags sel AND MATCH_FLAG_EXACT = 0 \<and> mpl_flags cur AND MATCH_FLAG_EXACT \<noteq> 0)
      \<or> (sel_flags sel AND MATCH_FLAG_AUX \<noteq> 0 \<and> mpl_flags cur AND MATCH_FLAG_AUX = 0)
      \<or> sel_len sel < int (mpl_len cur)
      \<or> (int (mpl_len cur) = sel_len sel \<and> 0 < mpl_len cur \<and> mpl_wildc cur < sel_wildc sel))"

text \<open>
  \<^verbatim>\<open>Pattern_MatchPathListEx\<close>.  \<^const>\<open>Fault\<close> is the use of the uninitialised local \<^verbatim>\<open>found\<close>.
\<close>

definition Pattern_MatchPathListEx ::
  "nat \<Rightarrow> wchar \<Rightarrow> wstring \<Rightarrow> pattern list option \<Rightarrow> rule_sel
     \<Rightarrow> (bool \<times> rule_sel) outcome option" where
  "Pattern_MatchPathListEx fuel prv path list sel =
     (case list of
        None \<Rightarrow> Some (Ret (False, sel))
      | Some pats \<Rightarrow>
          if path = [] then Some (Ret (False, sel))
          else
            (case Pattern_MatchPathList fuel prv path pats (Some (sel_level sel))
                    (Some (sel_flags sel)) (Some (sel_wildc sel)) of
               None \<Rightarrow> None
             | Some cur \<Rightarrow>
                 if rule_overrides cur sel then
                   (case mpl_found cur of
                      None \<Rightarrow> Some Fault
                    | Some pat \<Rightarrow> Some (Ret (True,
                        \<lparr>sel_level = mpl_level cur, sel_len = int (mpl_len cur),
                         sel_flags = mpl_flags cur, sel_wildc = mpl_wildc cur,
                         sel_patsrc = Some (Pattern_Source pat)\<rparr>)))
                 else Some (Ret (False, sel))))"

end
