(* ===== verification/PatternCorrect.thy ===== *)
theory PatternCorrect
  imports Pattern
begin

text \<open>
  The meaning of a pattern and the correctness of the matcher of
  \<^verbatim>\<open>Sandboxie/common/pattern.c\<close>: soundness and, for rules that end in a star, completeness
  with respect to the glob semantics, termination with its bound, the size of the block
  \<^verbatim>\<open>Pattern_Create\<close> allocates, and the selection of the best rule of a list.  The last section
  proves where the source departs from the glob semantics.
\<close>

section \<open>The specification\<close>

text \<open>What a pattern means: a star stands for any text, a question mark for one unit.\<close>

fun glob :: "wstring \<Rightarrow> wstring \<Rightarrow> bool" where
  "glob [] s = (s = [])"
| "glob (c # p) s =
     (if c = STAR then glob p s \<or> (case s of [] \<Rightarrow> False | _ # s' \<Rightarrow> glob (c # p) s')
      else (case s of [] \<Rightarrow> False | d # s' \<Rightarrow> (c = d \<or> c = QMARK) \<and> glob p s'))"

text \<open>A text begins with a constant part, with question marks standing for any unit.\<close>

abbreviation qprefix :: "wstring \<Rightarrow> wstring \<Rightarrow> bool" where
  "qprefix c s \<equiv> wcsn_cmp s c (length c)"

text \<open>After a star, the constant parts occur in order; \<open>fr\<close> tells whether the rest is free.\<close>

fun segs :: "wstring list \<Rightarrow> bool \<Rightarrow> wstring \<Rightarrow> bool" where
  "segs [] fr s = (fr \<or> s = [])"
| "segs (c # cs) fr s =
     (\<exists>n \<le> length s. qprefix c (drop n s) \<and> segs cs fr (drop (n + length c) s))"

section \<open>Searching\<close>

lemma wcsn_cmp_length: "wcsn_cmp s c k \<Longrightarrow> k \<le> length s"
  by (induction s c k rule: wcsn_cmp.induct) auto

lemma wcsn_cmp_head:
  "c \<noteq> [] \<Longrightarrow> qprefix c (h # hs) \<Longrightarrow> h = deref c \<or> deref c = QMARK"
  by (cases c) auto

lemma wcsnstr_ex_Some:
  assumes "Pattern_wcsnstr_ex s c (length c) nb = Some k"
  shows "k < length s \<and> qprefix c (drop k s)"
  using assms
  by (induction s c "length c" nb arbitrary: k rule: Pattern_wcsnstr_ex.induct)
    (auto split: if_splits)

lemma wcsnstr_ex_Some_add:
  assumes "Pattern_wcsnstr_ex s c (length c) nb = Some k"
  shows "k + length c \<le> length s"
  using wcsnstr_ex_Some [OF assms] wcsn_cmp_length [of "drop k s" c "length c"] by auto

lemma wcsnstr_ex_complete:
  assumes "c \<noteq> []" and "qprefix c (drop n s)"
  shows "\<exists>k \<le> n. Pattern_wcsnstr_ex s c (length c) False = Some k"
  using assms
proof (induction s arbitrary: n)
  case Nil
  then show ?case using wcsn_cmp_length [of "[]" c "length c"] by auto
next
  case (Cons h hs)
  show ?case
  proof (cases "qprefix c (h # hs)")
    case True
    with wcsn_cmp_head [OF Cons.prems(1) True] show ?thesis by auto
  next
    case False
    with Cons.prems obtain m where n: "n = Suc m" by (cases n) auto
    with Cons.prems have "qprefix c (drop m hs)" by simp
    from Cons.IH [OF Cons.prems(1) this] obtain k
      where "k \<le> m" "Pattern_wcsnstr_ex hs c (length c) False = Some k" by blast
    with False n show ?thesis by auto
  qed
qed

section \<open>The specification by parts\<close>

lemma segs_drop:
  assumes "segs (c # cs) fr (drop k s)"
  shows "segs (c # cs) fr s"
proof -
  from assms obtain n where n: "n \<le> length (drop k s)" "qprefix c (drop n (drop k s))"
    "segs cs fr (drop (n + length c) (drop k s))" by auto
  show ?thesis
  proof (cases "k \<le> length s")
    case True
    with n show ?thesis by (auto intro!: exI [of _ "n + k"] simp: ac_simps)
  next
    case False
    with n show ?thesis by (auto intro!: exI [of _ "length s"])
  qed
qed

lemma segs_drop_tail: "segs cs True (drop k s) \<Longrightarrow> segs cs True s"
  using segs_drop by (cases cs) auto

lemma glob_star: "glob (STAR # p) s \<longleftrightarrow> (\<exists>n \<le> length s. glob p (drop n s))"
proof (induction s)
  case Nil
  then show ?case by simp
next
  case (Cons d s)
  have "(\<exists>n \<le> length (d # s). glob p (drop n (d # s))) \<longleftrightarrow>
      glob p (d # s) \<or> (\<exists>n \<le> length s. glob p (drop n s))"
    (is "?l \<longleftrightarrow> ?r")
  proof
    assume ?l
    then obtain n where "n \<le> length (d # s)" "glob p (drop n (d # s))" by blast
    then show ?r by (cases n) auto
  next
    assume ?r
    then show ?l
    proof
      assume "\<exists>n \<le> length s. glob p (drop n s)"
      then obtain n where "n \<le> length s" "glob p (drop n s)" by blast
      then show ?l by (intro exI [of _ "Suc n"]) simp
    qed (intro exI [of _ 0], simp)
  qed
  with Cons.IH show ?case by simp
qed

lemma glob_const:
  "STAR \<notin> set c \<Longrightarrow> glob (c @ p) s \<longleftrightarrow> qprefix c s \<and> glob p (drop (length c) s)"
proof (induction c arbitrary: s)
  case (Cons a c)
  then show ?case by (cases s) auto
qed simp

lemma glob_stars: "glob (STAR # replicate k STAR @ p) s = glob (STAR # p) s"
proof (induction k arbitrary: s)
  case (Suc k)
  have "glob (STAR # replicate (Suc k) STAR @ p) s
      \<longleftrightarrow> (\<exists>n \<le> length s. glob (STAR # p) (drop n s))"
    using Suc.IH by (subst glob_star) simp
  also have "\<dots> \<longleftrightarrow> glob (STAR # p) s"
  proof
    assume "\<exists>n \<le> length s. glob (STAR # p) (drop n s)"
    then obtain n m where "n \<le> length s" "m \<le> length (drop n s)" "glob p (drop m (drop n s))"
      by (auto simp: glob_star simp del: glob.simps)
    then show "glob (STAR # p) s"
      by (auto simp: glob_star simp del: glob.simps intro!: exI [of _ "m + n"])
  next
    assume "glob (STAR # p) s"
    then show "\<exists>n \<le> length s. glob (STAR # p) (drop n s)"
      by (intro exI [of _ 0]) (simp del: glob.simps)
  qed
  finally show ?case .
qed simp

text \<open>What one turn of the scanning loops takes off the input.\<close>

lemma takeWhile_star: "takeWhile (\<lambda>c. c = STAR) s = replicate (length (takeWhile (\<lambda>c. c = STAR) s)) STAR"
  by (rule replicate_length_same [symmetric]) (auto dest: set_takeWhileD)

lemma next_part_split:
  assumes "next_part s = (k, part, rest)"
  shows "s = replicate k STAR @ part @ (case rest of None \<Rightarrow> [] | Some r \<Rightarrow> STAR # r)"
    and "STAR \<notin> set part" and "part = [] \<Longrightarrow> rest = None"
proof -
  let ?d = "dropWhile (\<lambda>c. c = STAR) s"
  have s: "s = replicate (length (takeWhile (\<lambda>c. c = STAR) s)) STAR @ ?d"
    by (metis takeWhile_dropWhile_id takeWhile_star)
  show "s = replicate k STAR @ part @ (case rest of None \<Rightarrow> [] | Some r \<Rightarrow> STAR # r)"
  proof (cases "wcschr ?d STAR")
    case None
    with assms s show ?thesis by (auto simp: next_part_def Let_def)
  next
    case (Some m)
    with wcschr_SomeD(1) [OF Some] assms s show ?thesis by (auto simp: next_part_def Let_def)
  qed
  show "STAR \<notin> set part"
    using assms
    by (auto simp: next_part_def Let_def wcschr_None_iff split: option.splits dest: wcschr_SomeD)
  show "rest = None" if "part = []"
  proof (cases "wcschr ?d STAR")
    case None
    with assms show ?thesis by (auto simp: next_part_def Let_def)
  next
    case (Some m)
    then have ne: "?d \<noteq> []" using wcschr_Some_lt [OF Some] by (metis length_0_conv not_less_zero)
    have "take m ?d = part" using assms Some unfolding next_part_def Let_def by auto
    with that ne have "m = 0" by (metis take_eq_Nil)
    with wcschr_nth [OF Some] ne have "hd ?d = STAR" by (simp add: hd_conv_nth)
    with hd_dropWhile [OF ne] show ?thesis by blast
  qed
qed

text \<open>The constant parts of a source pattern.\<close>

function segments :: "wstring \<Rightarrow> wstring list" where
  "segments s =
     (case next_part s of (_, part, rest) \<Rightarrow>
        (if part \<noteq> [] then [part] else [])
        @ (case rest of None \<Rightarrow> [] | Some r \<Rightarrow> segments r))"
  by pat_completeness auto
termination
  by (relation "measure length") (auto dest: next_part_shorter [OF sym])

declare segments.simps [simp del]

definition free_tail :: "wstring \<Rightarrow> bool" where
  "free_tail s \<longleftrightarrow> s = [] \<or> last s = STAR"

lemma glob_star_segs: "glob (STAR # s) t \<longleftrightarrow> segs (segments s) (free_tail s) t"
proof (induction s arbitrary: t rule: segments.induct)
  case (1 s)
  obtain k part rest where np: "next_part s = (k, part, rest)" by (cases "next_part s")
  note sp = next_part_split [OF np]
  show ?case
  proof (cases rest)
    case None
    have "glob (STAR # s) t \<longleftrightarrow> glob (STAR # part) t"
      using sp(1) None by (metis append_Nil2 glob_stars option.simps(4))
    also have "\<dots> \<longleftrightarrow> (\<exists>n \<le> length t. qprefix part (drop n t) \<and> drop (n + length part) t = [])"
      using glob_const [OF sp(2), of "[]"] by (auto simp: glob_star ac_simps simp del: glob.simps(2))
    finally have g: "glob (STAR # s) t \<longleftrightarrow>
        (\<exists>n \<le> length t. qprefix part (drop n t) \<and> drop (n + length part) t = [])" .
    show ?thesis
    proof (cases "part = []")
      case True
      with sp(1) None have "free_tail s" by (cases k) (auto simp: free_tail_def last_replicate)
      with g True np None show ?thesis
        by (auto simp: segments.simps [of s] simp del: glob.simps)
    next
      case False
      then have "last part \<noteq> STAR" using sp(2) by (metis last_in_set)
      with sp(1) None False have "\<not> free_tail s" by (simp add: free_tail_def last_append)
      with g False np None show ?thesis
        by (simp add: segments.simps [of s] del: glob.simps)
    qed
  next
    case (Some r)
    then have "part \<noteq> []" using sp(3) by auto
    have IH: "glob (STAR # r) u \<longleftrightarrow> segs (segments r) (free_tail r) u" for u
      using "1.IH" [OF np [symmetric] refl Some] .
    have "glob (STAR # s) t \<longleftrightarrow> glob (STAR # part @ STAR # r) t"
      using sp(1) Some by (metis glob_stars option.simps(5))
    also have "\<dots> \<longleftrightarrow> (\<exists>n \<le> length t. qprefix part (drop n t)
        \<and> glob (STAR # r) (drop (n + length part) t))"
      using glob_const [OF sp(2), of "STAR # r"]
      by (simp add: glob_star [of "part @ STAR # r"] ac_simps del: glob.simps)
    finally have g: "glob (STAR # s) t \<longleftrightarrow> (\<exists>n \<le> length t. qprefix part (drop n t)
        \<and> segs (segments r) (free_tail r) (drop (n + length part) t))"
      using IH by (simp del: glob.simps)
    have "free_tail s = free_tail r"
      using sp(1) Some by (auto simp: free_tail_def last_append)
    with g np Some \<open>part \<noteq> []\<close> show ?thesis
      by (simp add: segments.simps [of s] del: glob.simps)
  qed
qed


section \<open>What \<^verbatim>\<open>Pattern_Create\<close> builds\<close>

abbreviation lw :: "bool \<Rightarrow> wstring \<Rightarrow> wstring" where
  "lw lower s \<equiv> (if lower then wcslwr s else s)"

abbreviation parts :: "pattern \<Rightarrow> wstring list" where
  "parts pat \<equiv> map con_ptr (pat_cons pat)"

definition wf_con :: "pat_con \<Rightarrow> bool" where
  "wf_con c \<longleftrightarrow> con_ptr c \<noteq> [] \<and> unat (con_len c) = length (con_ptr c)"

definition wf_pat :: "pattern \<Rightarrow> bool" where
  "wf_pat pat \<longleftrightarrow> list_all wf_con (pat_cons pat) \<and> unat (num_cons pat) = length (pat_cons pat)"

definition plain_pat :: "pattern \<Rightarrow> bool" where
  \<comment> \<open>no \<^verbatim>\<open>__hex\<close> part\<close>
  "plain_pat pat \<longleftrightarrow> list_all (\<lambda>c. \<not> con_hex c) (pat_cons pat)"

definition single_stars :: "pattern \<Rightarrow> bool" where
  \<comment> \<open>no part behind a double star\<close>
  "single_stars pat \<longleftrightarrow> list_all (\<lambda>c. \<not> con_no_bs c) (pat_cons pat)"

lemma segments_unfold:
  assumes "next_part s = (k, part, rest)"
  shows "segments s = (if part \<noteq> [] then [part] else [])
           @ (case rest of None \<Rightarrow> [] | Some r \<Rightarrow> segments r)"
  using assms by (subst segments.simps) simp

lemma segments_NilD:
  assumes "segments s = []"
  shows "free_tail s"
proof -
  obtain k part rest where np: "next_part s = (k, part, rest)" by (cases "next_part s")
  with assms have "part = []" by (auto simp: segments_unfold [OF np] split: if_splits)
  with next_part_split [OF np] show ?thesis by (cases k) (auto simp: free_tail_def last_replicate)
qed

lemma segments_size: "sum_list (map (\<lambda>p. length p) (segments s)) \<le> length s"
proof (induction s rule: segments.induct)
  case (1 s)
  obtain k part rest where np: "next_part s = (k, part, rest)" by (cases "next_part s")
  have "length s = k + length part + (case rest of None \<Rightarrow> 0 | Some r \<Rightarrow> Suc (length r))"
    by (subst next_part_split(1) [OF np]) (simp split: option.split)
  with "1.IH" [OF np [symmetric] refl] show ?case
    by (cases rest) (fastforce simp: segments_unfold [OF np])+
qed

lemma segments_nonempty: "p \<in> set (segments s) \<Longrightarrow> p \<noteq> []"
proof (induction s rule: segments.induct)
  case (1 s)
  obtain k part rest where np: "next_part s = (k, part, rest)" by (cases "next_part s")
  with "1.IH" [OF np [symmetric] refl] "1.prems" show ?case
    by (cases rest) (auto simp: segments_unfold [OF np] split: if_splits)
qed

lemma segment_length_le: "p \<in> set (segments s) \<Longrightarrow> length p \<le> length s"
  using segments_size [of s] member_le_sum_list [of "length p" "map length (segments s)"] by simp

lemma length_segments_le: "length (segments s) \<le> length s"
proof -
  have "length xs \<le> sum_list (map length xs)" if "\<And>p. p \<in> set xs \<Longrightarrow> p \<noteq> []" for xs :: "wstring list"
    using that
  proof (induction xs)
    case (Cons a xs)
    then have "a \<noteq> []" and "length xs \<le> sum_list (map length xs)" by auto
    then show ?case by (cases a) auto
  qed simp
  with segments_nonempty segments_size [of s] show ?thesis by (meson order_trans)
qed

text \<open>Bytes of the copied constant parts.\<close>

abbreviation seg_bytes :: "wstring list \<Rightarrow> nat" where
  "seg_bytes ps \<equiv> sum_list (map (\<lambda>p. (length p + 1) * sizeof_WCHAR) ps)"

lemma pat_count_eq:
  "pat_count s n len =
     (n + of_nat (length (segments s)), len + of_nat (seg_bytes (segments s) + length (segments s) * sizeof_con))"
proof (induction s n len rule: pat_count.induct)
  case (1 s n len)
  obtain k part rest where np: "next_part s = (k, part, rest)" by (cases "next_part s")
  show ?case
  proof (cases rest)
    case None
    with np show ?thesis
      by (simp add: pat_count.simps [of s] segments_unfold [OF np] Let_def algebra_simps)
  next
    case (Some r)
    with np "1.IH" [OF np [symmetric] refl refl refl Some] show ?thesis
      by (simp add: pat_count.simps [of s] segments_unfold [OF np] Let_def algebra_simps)
  qed
qed

lemma pat_fill_eq:
  "map con_ptr (fst (pat_fill lower s cons optr)) = map con_ptr cons @ map (lw lower) (segments s)
   \<and> snd (pat_fill lower s cons optr) = optr + seg_bytes (segments s)"
proof (induction lower s cons optr rule: pat_fill.induct)
  case (1 lower s cons optr)
  obtain k part rest where np: "next_part s = (k, part, rest)" by (cases "next_part s")
  show ?case
  proof (cases rest)
    case None
    with np show ?thesis
      by (simp add: pat_fill.simps [of lower s] segments_unfold [OF np] mk_con_def Let_def)
  next
    case (Some r)
    with np "1.IH" [OF np [symmetric] refl refl refl refl Some] show ?thesis
      by (simp add: pat_fill.simps [of lower s] segments_unfold [OF np] mk_con_def Let_def)
  qed
qed

lemma pat_fill_len:
  assumes "\<forall>c \<in> set cons. con_len c = of_nat (length (con_ptr c))"
  shows "\<forall>c \<in> set (fst (pat_fill lower s cons optr)). con_len c = of_nat (length (con_ptr c))"
  using assms
proof (induction lower s cons optr rule: pat_fill.induct)
  case (1 lower s cons optr)
  obtain k part rest where np: "next_part s = (k, part, rest)" by (cases "next_part s")
  show ?case
  proof (cases rest)
    case None
    with np "1.prems" show ?thesis
      by (simp add: pat_fill.simps [of lower s] mk_con_def Let_def)
  next
    case (Some r)
    have "\<forall>c \<in> set (if part \<noteq> [] then cons @ [mk_con lower ((if cons \<noteq> [] then 1 else 0) + k) part]
             else cons). con_len c = of_nat (length (con_ptr c))"
      using "1.prems" by (auto simp: mk_con_def Let_def)
    from "1.IH" [OF np [symmetric] refl refl refl refl Some this] np Some show ?thesis
      by (simp add: pat_fill.simps [of lower s] Let_def)
  qed
qed

text \<open>The bytes a pattern needs, and that their 32-bit count does not wrap around for sources of any real length.\<close>

definition block_bytes :: "wstring \<Rightarrow> nat" where
  "block_bytes src = sizeof_PATTERN + length (segments src) * sizeof_con + seg_bytes (segments src)
     + (length src + 1) * sizeof_WCHAR"

lemma seg_bytes_eq: "seg_bytes ps = 2 * sum_list (map length ps) + 2 * length ps"
  by (induction ps) (simp_all add: sizeof_WCHAR_def)

lemma block_no_wrap:
  assumes "length src < 2 ^ 27"
  shows "unat (of_nat (length (segments src)) :: u32) = length (segments src)"
    and "unat (of_nat sizeof_PATTERN + of_nat (length src * sizeof_WCHAR) + of_nat sizeof_WCHAR
      + of_nat (seg_bytes (segments src) + length (segments src) * sizeof_con) :: u32) = block_bytes src"
proof -
  have s: "sum_list (map length (segments src)) \<le> length src" "length (segments src) \<le> length src"
    using segments_size [of src] length_segments_le [of src] by simp_all
  then show "unat (of_nat (length (segments src)) :: u32) = length (segments src)"
    using assms by (intro unat_u32_of_nat) simp
  have "of_nat sizeof_PATTERN + of_nat (length src * sizeof_WCHAR) + of_nat sizeof_WCHAR
      + of_nat (seg_bytes (segments src) + length (segments src) * sizeof_con) = (of_nat (block_bytes src) :: u32)"
    by (simp add: block_bytes_def algebra_simps)
  moreover have "block_bytes src < 2 ^ 32"
    unfolding block_bytes_def seg_bytes_eq using assms s by (simp add: sizeof_PATTERN_def sizeof_con_def sizeof_WCHAR_def)
  ultimately show "unat (of_nat sizeof_PATTERN + of_nat (length src * sizeof_WCHAR) + of_nat sizeof_WCHAR
      + of_nat (seg_bytes (segments src) + length (segments src) * sizeof_con) :: u32) = block_bytes src"
    by (simp only:) (rule unat_u32_of_nat, simp)
qed

text \<open>The facts about a compiled pattern that the matcher relies on.\<close>

definition compiled :: "wstring \<Rightarrow> bool \<Rightarrow> pattern \<Rightarrow> bool" where
  "compiled src lower pat \<longleftrightarrow>
     src \<noteq> [] \<and> parts pat = map (lw lower) (segments src)
     \<and> (star_at_head pat \<longleftrightarrow> hd src = STAR) \<and> (star_at_tail pat \<longleftrightarrow> last src = STAR)
     \<and> (star_missing pat \<longleftrightarrow> length (pat_cons pat) \<le> 1 \<and> hd src \<noteq> STAR
          \<and> last src \<noteq> STAR \<and> plain_pat pat)
     \<and> (have_a_qmark pat \<longleftrightarrow> star_missing pat \<and> QMARK \<in> set src)
     \<and> wf_pat pat"

lemma compiledD:
  assumes "compiled src lower pat"
  shows "src \<noteq> []" and "parts pat = map (lw lower) (segments src)"
    and "star_at_head pat \<longleftrightarrow> hd src = STAR" and "star_at_tail pat \<longleftrightarrow> last src = STAR"
    and "star_missing pat \<longleftrightarrow> length (pat_cons pat) \<le> 1 \<and> hd src \<noteq> STAR
          \<and> last src \<noteq> STAR \<and> plain_pat pat"
    and "have_a_qmark pat \<longleftrightarrow> star_missing pat \<and> QMARK \<in> set src"
    and "wf_pat pat"
  using assms unfolding compiled_def by blast+

lemma Pattern_Create_compiled:
  assumes cr: "Pattern_Create alloc prv (Some src) lower level = Ret (Some pat)"
    and ne: "src \<noteq> []" and short: "length src < 2 ^ 16"
  shows "compiled src lower pat"
  unfolding compiled_def
proof (intro conjI)
  define cons where "cons = fst (pat_fill lower src [] (sizeof_PATTERN + length (segments src) * sizeof_con))"
  have parts: "map con_ptr cons = map (lw lower) (segments src)"
    using pat_fill_eq by (simp add: cons_def)
  have lens: "\<forall>c \<in> set cons. con_len c = of_nat (length (con_ptr c))"
    unfolding cons_def by (rule pat_fill_len) simp
  have pat: "pat_cons pat = cons" "num_cons pat = of_nat (length cons)"
    "star_at_head pat = (hd src = STAR)" "star_at_tail pat = (last src = STAR)"
    "star_missing pat = (length cons \<le> 1 \<and> hd src \<noteq> STAR \<and> last src \<noteq> STAR
        \<and> \<not> (\<exists>c \<in> set cons. con_hex c))"
    "have_a_qmark pat = (star_missing pat \<and> QMARK \<in> set src)"
    using cr ne block_no_wrap(1) [of src] short by (auto simp: Pattern_Create_def Let_def pat_count_eq cons_def prev_unit_def
      deref_def split: prod.splits if_splits list.splits)
  show "src \<noteq> []" by fact
  show "parts pat = map (lw lower) (segments src)" by (simp add: pat(1) parts)
  show "star_at_head pat \<longleftrightarrow> hd src = STAR" "star_at_tail pat \<longleftrightarrow> last src = STAR"
    by (simp_all add: pat)
  show "have_a_qmark pat \<longleftrightarrow> star_missing pat \<and> QMARK \<in> set src" by (rule pat(6))
  show "star_missing pat \<longleftrightarrow> length (pat_cons pat) \<le> 1 \<and> hd src \<noteq> STAR
          \<and> last src \<noteq> STAR \<and> plain_pat pat"
    by (auto simp: pat(1,5) plain_pat_def list_all_iff)
  have "length cons \<le> length src"
    using length_segments_le [of src] arg_cong [OF parts, of length] by simp
  then have n: "unat (num_cons pat) = length (pat_cons pat)"
    using short by (simp add: pat unat_u16_of_nat)
  have "wf_con c" if "c \<in> set cons" for c
  proof -
    have "con_ptr c \<in> set (map con_ptr cons)" using that by simp
    then obtain p where p: "p \<in> set (segments src)" "con_ptr c = lw lower p"
      unfolding parts set_map by blast
    then have "length (con_ptr c) < 2 ^ 16" "con_ptr c \<noteq> []"
      using short segment_length_le [OF p(1)] segments_nonempty [OF p(1)] by auto
    with lens that show ?thesis by (simp add: wf_con_def unat_u16_of_nat)
  qed
  with n show "wf_pat pat" by (simp add: wf_pat_def list_all_iff pat(1))
qed


section \<open>The matcher\<close>

lemma wf_patD:
  assumes "wf_pat pat" and "ci < length (pat_cons pat)"
  shows "con_ptr (pat_cons pat ! ci) \<noteq> []"
    and "unat (con_len (pat_cons pat ! ci)) = length (con_ptr (pat_cons pat ! ci))"
  using assms by (auto simp: wf_pat_def wf_con_def list_all_length)

lemma drop_parts:
  "ci < length (pat_cons pat) \<Longrightarrow>
     drop ci (parts pat) = con_ptr (pat_cons pat ! ci) # drop (Suc ci) (parts pat)"
  by (metis Cons_nth_drop_Suc length_map nth_map)

lemma Match2_sound:
  assumes wf: "wf_pat pat" and plain: "plain_pat pat"
  shows "Pattern_Match2 fuel pat s (length s) si ci = Some m \<Longrightarrow> m \<noteq> 0 \<Longrightarrow> si \<le> length s
    \<Longrightarrow> segs (drop ci (parts pat)) (star_at_tail pat) (drop si s) \<and> m \<le> length s + 1"
proof (induction fuel arbitrary: si ci m)
  case 0
  then show ?case by simp
next
  case (Suc fuel)
  show ?case
  proof (cases "ci < length (pat_cons pat)")
    case False
    with Suc.prems wf show ?thesis by (auto simp: wf_pat_def split: if_splits)
  next
    case True
    note wfc = wf_patD [OF wf True]
    let ?c = "pat_cons pat ! ci"
    have nohex: "\<not> con_hex ?c" using plain True by (simp add: plain_pat_def list_all_length)
    have n: "ci < unat (num_cons pat)" using wf True by (simp add: wf_pat_def)
    show ?thesis
    proof (cases "Pattern_wcsnstr_ex (drop si s) (con_ptr ?c) (length (con_ptr ?c)) (con_no_bs ?c)")
      case None
      with Suc.prems n nohex wfc(2) show ?thesis by (simp add: Let_def)
    next
      case (Some off)
      define si' where "si' = si + off + length (con_ptr ?c)"
      have qp: "off < length (drop si s)" "qprefix (con_ptr ?c) (drop off (drop si s))"
        using wcsnstr_ex_Some [OF Some] by auto
      have le: "si' \<le> length s"
        using wcsnstr_ex_Some_add [OF Some] Suc.prems(3) by (simp add: si'_def)
      have dd: "drop si' s = drop (off + length (con_ptr ?c)) (drop si s)"
        by (simp add: si'_def ac_simps)
      from Suc.prems(1,2) n Some wfc(2) obtain m1 where
        m1: "Pattern_Match2 fuel pat s (length s) si' (ci + 1) = Some m1" and
        m: "m1 \<noteq> 0 \<and> m = m1 \<or> m1 = 0 \<and> Pattern_Match2 fuel pat s (length s) si' ci = Some m"
        by (auto simp: Let_def si'_def split: if_splits option.splits)
      from m show ?thesis
      proof
        assume "m1 \<noteq> 0 \<and> m = m1"
        with Suc.IH [OF m1 _ le] qp dd show ?thesis
          by (auto simp: drop_parts [OF True] intro!: exI [of _ off])
      next
        assume "m1 = 0 \<and> Pattern_Match2 fuel pat s (length s) si' ci = Some m"
        with Suc.IH [OF _ Suc.prems(2) le] have
          "segs (drop ci (parts pat)) (star_at_tail pat) (drop si' s)" "m \<le> length s + 1" by auto
        with dd segs_drop show ?thesis by (metis drop_parts [OF True])
      qed
    qed
  qed
qed

lemma Match2_terminates:
  assumes wf: "wf_pat pat" and plain: "plain_pat pat"
  shows "(length (pat_cons pat) - ci) + (length s - si) < fuel \<Longrightarrow> si \<le> length s
    \<Longrightarrow> \<exists>m. Pattern_Match2 fuel pat s string_len si ci = Some m"
proof (induction fuel arbitrary: si ci)
  case 0
  then show ?case by simp
next
  case (Suc fuel)
  show ?case
  proof (cases "ci < length (pat_cons pat)")
    case False
    with wf show ?thesis by (auto simp: wf_pat_def)
  next
    case True
    note wfc = wf_patD [OF wf True]
    let ?c = "pat_cons pat ! ci"
    have nohex: "\<not> con_hex ?c" using plain True by (simp add: plain_pat_def list_all_length)
    have n: "ci < unat (num_cons pat)" using wf True by (simp add: wf_pat_def)
    show ?thesis
    proof (cases "Pattern_wcsnstr_ex (drop si s) (con_ptr ?c) (length (con_ptr ?c)) (con_no_bs ?c)")
      case None
      with n nohex wfc(2) show ?thesis by (simp add: Let_def)
    next
      case (Some off)
      define si' where "si' = si + off + length (con_ptr ?c)"
      have le: "si' \<le> length s"
        using wcsnstr_ex_Some_add [OF Some] Suc.prems(2) by (simp add: si'_def)
      have gt: "si < si'" using wfc(1) by (simp add: si'_def)
      have "\<exists>m. Pattern_Match2 fuel pat s string_len si' (ci + 1) = Some m"
        by (rule Suc.IH [OF _ le]) (use Suc.prems(1) True gt le in linarith)
      moreover have "\<exists>m. Pattern_Match2 fuel pat s string_len si' ci = Some m"
        by (rule Suc.IH [OF _ le]) (use Suc.prems(1) True gt le in linarith)
      ultimately show ?thesis
        using n Some wfc(2) by (auto simp: Let_def si'_def)
    qed
  qed
qed

lemma Match2_complete:
  assumes wf: "wf_pat pat" and plain: "plain_pat pat" and single: "single_stars pat"
    and tail: "star_at_tail pat"
  shows "segs (drop ci (parts pat)) True (drop si s) \<Longrightarrow> length (pat_cons pat) - ci < fuel
    \<Longrightarrow> si = 0 \<and> \<not> star_at_head pat \<longrightarrow> ci < length (pat_cons pat) \<and> qprefix (parts pat ! ci) s
    \<Longrightarrow> \<exists>m. Pattern_Match2 fuel pat s string_len si ci = Some m \<and> m \<noteq> 0"
proof (induction fuel arbitrary: si ci)
  case 0
  then show ?case by simp
next
  case (Suc fuel)
  show ?case
  proof (cases "ci < length (pat_cons pat)")
    case False
    with wf tail show ?thesis by (auto simp: wf_pat_def)
  next
    case True
    note wfc = wf_patD [OF wf True]
    let ?c = "pat_cons pat ! ci"
    let ?p = "con_ptr ?c"
    have n: "ci < unat (num_cons pat)" using wf True by (simp add: wf_pat_def)
    have bs: "\<not> con_no_bs ?c" using single True by (simp add: single_stars_def list_all_length)
    from Suc.prems(1) obtain k where k: "qprefix ?p (drop k (drop si s))"
      "segs (drop (Suc ci) (parts pat)) True (drop (k + length ?p) (drop si s))"
      by (auto simp: drop_parts [OF True])
    from wcsnstr_ex_complete [OF wfc(1) k(1)] obtain off where
      off: "off \<le> k" "Pattern_wcsnstr_ex (drop si s) ?p (length ?p) False = Some off" by blast
    have anch: "\<not> (si = 0 \<and> 0 < off \<and> \<not> star_at_head pat)"
    proof
      assume a: "si = 0 \<and> 0 < off \<and> \<not> star_at_head pat"
      with Suc.prems(3) True have "qprefix ?p (drop 0 (drop si s))" by simp
      from wcsnstr_ex_complete [OF wfc(1) this] off(2) a show False by auto
    qed
    have "drop (k + length ?p) (drop si s)
        = drop (k - off) (drop (off + length ?p) (drop si s))"
      using off(1) by (simp add: ac_simps)
    with k(2) have sg: "segs (drop (Suc ci) (parts pat)) True (drop (si + off + length ?p) s)"
      using segs_drop_tail by (simp add: ac_simps)
    have "\<exists>m. Pattern_Match2 fuel pat s string_len (si + off + length ?p) (Suc ci) = Some m \<and> m \<noteq> 0"
      by (rule Suc.IH [OF sg]) (use Suc.prems(2) True wfc(1) in auto)
    with n off(2) bs wfc(2) anch show ?thesis by (auto simp: Let_def)
  qed
qed


section \<open>Matching a compiled pattern\<close>

lemma towlower_star [simp]: "towlower c = STAR \<longleftrightarrow> c = STAR"
  and towlower_qmark [simp]: "towlower c = QMARK \<longleftrightarrow> c = QMARK"
proof -
  have "towlower c \<noteq> STAR" "towlower c \<noteq> QMARK" if "65 \<le> (of_char c :: nat)" "of_char c \<le> (90 :: nat)"
  proof -
    from that have "(of_char (towlower c) :: nat) = of_char c + 32" by (simp add: towlower_def)
    with that show "towlower c \<noteq> STAR" "towlower c \<noteq> QMARK" by auto
  qed
  then show "towlower c = STAR \<longleftrightarrow> c = STAR" "towlower c = QMARK \<longleftrightarrow> c = QMARK"
    by (auto simp: towlower_def Let_def)
qed

lemma star_in_lw [simp]: "STAR \<in> set (lw lower s) \<longleftrightarrow> STAR \<in> set s"
  and qmark_in_lw [simp]: "QMARK \<in> set (lw lower s) \<longleftrightarrow> QMARK \<in> set s"
  by (auto simp: wcslwr_def image_iff eq_commute [of STAR] eq_commute [of QMARK])

lemma next_part_lw:
  assumes "next_part s = (k, part, rest)"
  shows "next_part (lw lower s) = (k, lw lower part, map_option (lw lower) rest)"
proof -
  have "takeWhile (\<lambda>c. c = STAR) (wcslwr s) = wcslwr (takeWhile (\<lambda>c. c = STAR) s)"
    "dropWhile (\<lambda>c. c = STAR) (wcslwr s) = wcslwr (dropWhile (\<lambda>c. c = STAR) s)"
    by (simp_all add: wcslwr_def takeWhile_map dropWhile_map comp_def)
  moreover have "wcschr (wcslwr t) STAR = wcschr t STAR" for t
    using star_in_lw [of True t] by (simp add: wcschr_def wcslwr_def takeWhile_map comp_def)
  ultimately show ?thesis
    using assms
    by (cases "wcschr (dropWhile (\<lambda>c. c = STAR) s) STAR")
      (auto simp: next_part_def Let_def wcslwr_take wcslwr_drop)
qed

lemma segments_lw: "segments (lw lower s) = map (lw lower) (segments s)"
proof (induction s rule: segments.induct)
  case (1 s)
  obtain k part rest where np: "next_part s = (k, part, rest)" by (cases "next_part s")
  show ?case
    using "1.IH" [OF np [symmetric] refl]
    by (cases rest) (simp_all add: segments_unfold [OF np] segments_unfold [OF next_part_lw [OF np]])
qed

lemma free_tail_lw [simp]: "free_tail (lw lower s) = free_tail s"
  by (cases "s = []") (auto simp: free_tail_def wcslwr_def last_map)

lemma qprefix_refl [simp]: "qprefix c c"
  by (induction c) auto

lemma qprefix_eq: "QMARK \<notin> set c \<Longrightarrow> qprefix c s \<Longrightarrow> take (length c) s = c"
proof (induction c arbitrary: s)
  case (Cons a c)
  then show ?case by (cases s) auto
qed simp


text \<open>The first constant part of a pattern that does not begin with a star.\<close>

lemma no_head_star:
  assumes c: "compiled src lower pat" and "hd src \<noteq> STAR"
  obtains part rest where "next_part src = (0, part, rest)" "part \<noteq> []"
proof -
  obtain k part rest where np: "next_part src = (k, part, rest)" by (cases "next_part src")
  note sp = next_part_split [OF np]
  from sp(1) compiledD(1) [OF c] assms(2) have "k = 0" by (cases k) auto
  moreover have "part \<noteq> []"
  proof
    assume "part = []"
    with sp \<open>k = 0\<close> compiledD(1) [OF c] show False by simp
  qed
  ultimately show thesis using that np by blast
qed

lemma glob_anchored:
  assumes c: "compiled src lower pat" and np: "next_part src = (0, part, rest)" and ne: "part \<noteq> []"
  shows "glob (lw lower src) t \<longleftrightarrow> qprefix (parts pat ! 0) t
     \<and> segs (drop 1 (parts pat)) (free_tail src \<and> rest \<noteq> None) (drop (length (parts pat ! 0)) t)"
proof -
  note sp = next_part_split [OF next_part_lw [OF np, of lower]]
  have parts: "parts pat = lw lower part # (case rest of None \<Rightarrow> [] | Some r \<Rightarrow> map (lw lower) (segments r))"
    using ne by (simp add: compiledD(2) [OF c] segments_unfold [OF np] split: option.split)
  show ?thesis
  proof (cases rest)
    case None
    have "glob (lw lower src) t \<longleftrightarrow> glob (lw lower part @ []) t"
      using sp(1) None by (simp only: option.map option.case replicate_0 append_Nil)
    then show ?thesis
      using glob_const [OF sp(2), of "[]"] None parts by simp
  next
    case (Some r)
    have "glob (lw lower src) t \<longleftrightarrow> glob (lw lower part @ STAR # lw lower r) t"
      using sp(1) Some by (simp only: option.map option.case replicate_0 append_Nil)
    also have "\<dots> \<longleftrightarrow> qprefix (lw lower part) t
        \<and> segs (map (lw lower) (segments r)) (free_tail r) (drop (length (lw lower part)) t)"
      using glob_const [OF sp(2)] glob_star_segs [of "lw lower r"]
      by (simp only: segments_lw free_tail_lw)
    finally show ?thesis
      using next_part_split(1) [OF np] Some parts
      by (auto simp: free_tail_def last_append)
  qed
qed

lemma glob_head_star:
  assumes c: "compiled src lower pat" and "hd src = STAR"
  shows "glob (lw lower src) t \<longleftrightarrow> segs (parts pat) (star_at_tail pat) t"
proof -
  obtain s where s: "src = STAR # s" using assms(2) compiledD(1) [OF c] by (cases src) auto
  have "next_part (STAR # s) = (case next_part s of (k, part, rest) \<Rightarrow> (Suc k, part, rest))"
    by (cases "wcschr (dropWhile (\<lambda>c. c = STAR) s) STAR") (simp_all add: next_part_def Let_def)
  then have "segments src = segments s"
    using s by (subst (1 2) segments.simps) (simp split: prod.split)
  moreover have "lw lower src = STAR # lw lower s"
    using s by (simp add: wcslwr_def)
  moreover have "free_tail s = star_at_tail pat"
    using s compiledD(4) [OF c] by (auto simp: free_tail_def)
  ultimately show ?thesis
    using glob_star_segs [of "lw lower s" t] by (simp only: segments_lw free_tail_lw compiledD(2) [OF c])
qed

lemma no_star:
  assumes c: "compiled src lower pat" and "star_missing pat"
  shows "next_part src = (0, src, None)" and "STAR \<notin> set src"
proof -
  from assms(2) compiledD(5) [OF c] have h: "hd src \<noteq> STAR" "last src \<noteq> STAR" "length (pat_cons pat) \<le> 1" by auto
  obtain part rest where np: "next_part src = (0, part, rest)" "part \<noteq> []"
    using no_head_star [OF c h(1)] .
  note sp = next_part_split [OF np(1)]
  have "rest = None"
  proof (rule ccontr)
    assume "rest \<noteq> None"
    then obtain r where r: "rest = Some r" by auto
    have "length (segments src) \<le> 1" using h(3) arg_cong [OF compiledD(2) [OF c], of length] by simp
    then have "segments r = []" using np r by (simp add: segments_unfold [OF np(1)])
    moreover have "r \<noteq> [] \<and> last r \<noteq> STAR" using h(2) sp(1) r by (auto simp: last_append split: if_splits)
    ultimately show False using segments_NilD [of r] by (simp add: free_tail_def)
  qed
  with sp np show "next_part src = (0, src, None)" "STAR \<notin> set src" by auto
qed


lemma no_star_missing:
  assumes c: "compiled src lower pat" and "STAR \<notin> set src" and "plain_pat pat"
  shows "star_missing pat"
proof -
  have h: "hd src \<noteq> STAR" "last src \<noteq> STAR"
    using assms(2) compiledD(1) [OF c] by (metis hd_in_set, metis last_in_set)
  obtain part rest where np: "next_part src = (0, part, rest)" "part \<noteq> []"
    using no_head_star [OF c h(1)] .
  with next_part_split(1) [OF np(1)] assms(2) have "rest = None" by (cases rest) auto
  then have "length (segments src) \<le> 1" by (simp add: segments_unfold [OF np(1)])
  with h assms(3) show ?thesis
    using compiledD(5) [OF c] arg_cong [OF compiledD(2) [OF c], of length] by simp
qed

lemma tail_anchored:
  assumes c: "compiled src lower pat" and np: "next_part src = (0, part, rest)" and ne: "part \<noteq> []"
  shows "(free_tail src \<and> rest \<noteq> None) = star_at_tail pat"
proof (cases rest)
  case None
  with next_part_split [OF np] ne have "last src \<noteq> STAR" by (metis append_Nil append_Nil2
    last_in_set option.case(1) replicate_0)
  with None compiledD(4) [OF c] show ?thesis by simp
next
  case (Some r)
  with compiledD(4) [OF c] compiledD(1) [OF c] show ?thesis by (simp add: free_tail_def)
qed

lemma first_con:
  assumes c: "compiled src lower pat" and "part \<noteq> []" and "next_part src = (0, part, rest)"
  shows "0 < length (pat_cons pat)" and "parts pat = con_ptr (pat_cons pat ! 0) # drop 1 (parts pat)"
    and "parts pat ! 0 = lw lower part"
proof -
  have p: "parts pat \<noteq> []" using assms(2,3) compiledD(2) [OF c] by (simp add: segments_unfold)
  then show l: "0 < length (pat_cons pat)" by simp
  show "parts pat = con_ptr (pat_cons pat ! 0) # drop 1 (parts pat)"
    using drop_parts [OF l] by simp
  show "parts pat ! 0 = lw lower part"
    using assms(2,3) by (simp add: compiledD(2) [OF c] segments_unfold)
qed

lemma MatchX_missing:
  assumes c: "compiled src lower pat" and "star_missing pat"
  shows "Pattern_MatchX fuel pat (Some s) (length s) =
    Some (if glob (lw lower src) s then length s else 0)"
proof -
  note ns = no_star [OF assms]
  note fc = first_con [OF c compiledD(1) [OF c] ns(1)]
  note wfc = wf_patD [OF compiledD(7) [OF c] fc(1)]
  let ?p = "con_ptr (pat_cons pat ! 0)"
  have p: "?p = lw lower src" using fc(1,3) by simp
  have n: "num_cons pat \<noteq> 0" using compiledD(7) [OF c] fc(1) by (auto simp: wf_pat_def)
  have "length (segments src) \<le> 1" by (simp add: segments_unfold [OF ns(1)])
  moreover have "parts pat ! 0 = ?p" using fc(1) by simp
  ultimately have g: "glob (lw lower src) s \<longleftrightarrow> qprefix ?p s \<and> length s \<le> length ?p"
    using glob_anchored [OF c ns(1) compiledD(1) [OF c], of s] arg_cong [OF compiledD(2) [OF c], of length] by simp
  show ?thesis
  proof (cases "length s = length ?p")
    case False
    with g n wfc(2) assms(2) wcsn_cmp_length [of s ?p "length ?p"] show ?thesis
      by (auto simp: Pattern_MatchX_def Let_def)
  next
    case True
    have "Pattern_wcsnstr s ?p (length ?p) = Some 0 \<longleftrightarrow> qprefix ?p s"
      using wcsnstr_ex_Some [of s ?p False 0] wcsnstr_ex_complete [OF wfc(1), of 0 s]
      by (auto simp: Pattern_wcsnstr_def)
    moreover have "take (length ?p) s = ?p \<longleftrightarrow> qprefix ?p s" if "QMARK \<notin> set src"
    proof
      assume "take (length ?p) s = ?p"
      then have "s = ?p" using True by simp
      then show "qprefix ?p s" by (simp only: qprefix_refl)
    next
      assume "qprefix ?p s"
      moreover have "QMARK \<notin> set ?p" using that by (simp only: p qmark_in_lw not_False_eq_True)
      ultimately show "take (length ?p) s = ?p" using qprefix_eq by blast
    qed
    ultimately show ?thesis
      using True g n wfc(2) assms(2) compiledD(6) [OF c] by (simp add: Pattern_MatchX_def Let_def)
  qed
qed

lemma Match2_sound_anchored:
  assumes c: "compiled src lower pat" and plain: "plain_pat pat" and miss: "\<not> star_missing pat" and head: "hd src \<noteq> STAR"
    and m: "Pattern_Match2 fuel pat s (length s) 0 0 = Some m" "m \<noteq> 0"
  shows "glob (lw lower src) s"
proof -
  obtain part rest where np: "next_part src = (0, part, rest)" "part \<noteq> []"
    using no_head_star [OF c head] .
  note fc = first_con [OF c np(2,1)]
  note wfc = wf_patD [OF compiledD(7) [OF c] fc(1)]
  let ?c = "pat_cons pat ! 0"
  let ?p = "con_ptr ?c"
  obtain f where f: "fuel = Suc f" using m(1) by (cases fuel) auto
  have n: "0 < unat (num_cons pat)" using compiledD(7) [OF c] fc(1) by (simp add: wf_pat_def)
  have nohex: "\<not> con_hex ?c" using plain fc(1) by (simp add: plain_pat_def list_all_length)
  from m n f nohex wfc(2) head compiledD(3) [OF c] obtain m1 where
    off: "Pattern_wcsnstr_ex s ?p (length ?p) (con_no_bs ?c) = Some 0" and
    m1: "Pattern_Match2 f pat s (length s) (length ?p) (0 + 1) = Some m1" and
    d: "m1 \<noteq> 0 \<or> m1 = 0 \<and> Pattern_Match2 f pat s (length s) (length ?p) 0 = Some m"
    by (auto simp: Let_def split: if_splits option.splits)
  have qp: "qprefix ?p s" and le: "length ?p \<le> length s"
    using wcsnstr_ex_Some [OF off] wcsnstr_ex_Some_add [OF off] by auto
  have "segs (drop 1 (parts pat)) (star_at_tail pat) (drop (length ?p) s)"
  proof (cases "m1 = 0")
    case False
    then show ?thesis using Match2_sound [OF compiledD(7) [OF c] plain m1 _ le] by simp
  next
    case True
    with d Match2_sound [OF compiledD(7) [OF c] plain _ m(2) le, of f 0] have
      "segs (parts pat) (star_at_tail pat) (drop (length ?p) s)" by simp
    then obtain k where k: "segs (drop 1 (parts pat)) (star_at_tail pat)
        (drop (k + length ?p) (drop (length ?p) s))"
      using fc(2) by (metis segs.simps(2))
    show ?thesis
    proof (cases "drop 1 (parts pat)")
      case Nil
      then have "length (pat_cons pat) \<le> 1" by simp
      with miss compiledD(5) [OF c] head plain have "star_at_tail pat" using compiledD(4) [OF c] by blast
      with Nil show ?thesis by simp
    next
      case (Cons q qs)
      with k segs_drop show ?thesis by metis
    qed
  qed
  with qp glob_anchored [OF c np] tail_anchored [OF c np] fc show ?thesis by simp
qed

lemma MatchX_sound:
  assumes c: "compiled src lower pat" and "plain_pat pat" and "Pattern_MatchX fuel pat (Some s) (length s) = Some m" and "m \<noteq> 0"
  shows "glob (lw lower src) s" and "m \<le> length s + 1"
proof -
  have "glob (lw lower src) s \<and> m \<le> length s + 1"
  proof (cases "star_missing pat")
    case True
    with MatchX_missing [OF c True] assms(3,4) show ?thesis by (auto split: if_splits)
  next
    case False
    with assms(3) have m2: "Pattern_Match2 fuel pat s (length s) 0 0 = Some m"
      by (simp add: Pattern_MatchX_def)
    note snd = Match2_sound [OF compiledD(7) [OF c] assms(2) m2 assms(4)]
    show ?thesis
    proof (cases "hd src = STAR")
      case True
      with snd glob_head_star [OF c] show ?thesis by simp
    next
      case neq: False
      with snd Match2_sound_anchored [OF c assms(2) False neq m2 assms(4)] show ?thesis by simp
    qed
  qed
  then show "glob (lw lower src) s" "m \<le> length s + 1" by auto
qed

lemma MatchX_complete:
  assumes c: "compiled src lower pat" and plain: "plain_pat pat" and single: "single_stars pat"
    and tail: "last src = STAR \<or> STAR \<notin> set src"
    and g: "glob (lw lower src) s" and fuel: "length (pat_cons pat) < fuel"
  shows "\<exists>m. Pattern_MatchX fuel pat (Some s) (length s) = Some m \<and> m \<noteq> 0"
proof (cases "star_missing pat")
  case True
  note ns = no_star [OF c True]
  have "s \<noteq> []"
  proof
    assume "s = []"
    with g glob_anchored [OF c ns(1) compiledD(1) [OF c], of s] first_con(3) [OF c compiledD(1) [OF c] ns(1)]
    have "qprefix (lw lower src) []" by simp
    from wcsn_cmp_length [OF this] compiledD(1) [OF c] show False by (simp split: if_splits)
  qed
  with g MatchX_missing [OF c True] show ?thesis by simp
next
  case False
  with tail no_star_missing [OF c] plain have "last src = STAR" by blast
  with compiledD(4) [OF c] have t: "star_at_tail pat" by simp
  have "\<exists>m. Pattern_Match2 fuel pat s (length s) 0 0 = Some m \<and> m \<noteq> 0"
  proof (cases "hd src = STAR")
    case True
    with g glob_head_star [OF c] t have "segs (drop 0 (parts pat)) True (drop 0 s)" by simp
    from Match2_complete [OF compiledD(7) [OF c] plain single t this] fuel compiledD(3) [OF c] True show ?thesis by simp
  next
    case neq: False
    obtain part rest where np: "next_part src = (0, part, rest)" "part \<noteq> []"
      using no_head_star [OF c neq] .
    note fc = first_con [OF c np(2,1)]
    from g glob_anchored [OF c np, of s] tail_anchored [OF c np] t
    have qp: "qprefix (parts pat ! 0) s"
      and sg: "segs (drop 1 (parts pat)) True (drop (length (parts pat ! 0)) s)" by auto
    have "parts pat ! 0 = con_ptr (pat_cons pat ! 0)" using fc(1) by simp
    with qp sg have "segs (con_ptr (pat_cons pat ! 0) # drop 1 (parts pat)) True s"
      unfolding segs.simps by (intro exI [of _ 0]) simp
    then have "segs (parts pat) True s" by (subst fc(2))
    then have "segs (drop 0 (parts pat)) True (drop 0 s)" by simp
    from Match2_complete [OF compiledD(7) [OF c] plain single t this] fuel qp fc(1) show ?thesis by simp
  qed
  with False show ?thesis by (simp add: Pattern_MatchX_def)
qed

lemma MatchX_total:
  assumes c: "compiled src lower pat" and "plain_pat pat" and "length (pat_cons pat) + length s < fuel"
  shows "\<exists>m \<le> length s + 1. Pattern_MatchX fuel pat (Some s) (length s) = Some m"
proof (cases "star_missing pat")
  case True
  then show ?thesis by (simp add: MatchX_missing [OF c])
next
  case False
  with Match2_terminates [OF compiledD(7) [OF c] assms(2), of 0 s 0 fuel "length s"] assms(3)
  obtain m where m: "Pattern_MatchX fuel pat (Some s) (length s) = Some m"
    by (auto simp: Pattern_MatchX_def)
  with MatchX_sound(2) [OF c assms(2) m] show ?thesis by (cases "m = 0") auto
qed


section \<open>More fuel changes nothing\<close>

lemma hex_restart2_mono:
  "fuel \<le> fuel' \<Longrightarrow> opt_le (hex_restart2 fuel retry src conptr cl mn mx)
     (hex_restart2 fuel' retry src conptr cl mn mx)"
proof (induction fuel arbitrary: fuel' src)
  case (Suc fuel)
  then obtain f where f: "fuel' = Suc f" "fuel \<le> f" by (cases fuel') auto
  show ?case
    unfolding f(1) hex_restart2.simps Let_def
    by (intro opt_le_if opt_le_refl opt_le_case opt_le_map Suc.IH [OF f(2)])
qed simp

lemma hex_restart1_mono:
  "fuel \<le> fuel' \<Longrightarrow> opt_le (hex_restart1 fuel retry str slen si sp conptr seq)
     (hex_restart1 fuel' retry str slen si sp conptr seq)"
proof (induction fuel arbitrary: fuel' sp conptr seq)
  case (Suc fuel)
  then obtain f where f: "fuel' = Suc f" "fuel \<le> f" by (cases fuel') auto
  obtain mn mx sq where hb: "hex_bounds (drop (seq + 5) conptr) = (mn, mx, sq)"
    by (cases "hex_bounds (drop (seq + 5) conptr)")
  show ?case
    unfolding f(1) hex_restart1.simps Let_def hb prod.case
    by (intro opt_le_if opt_le_refl opt_le_bind opt_le_case hex_restart2_mono [OF f(2)]
        Suc.IH [OF f(2)])
qed simp

lemma Match23_mono:
  "fuel \<le> fuel' \<Longrightarrow>
     opt_le (Pattern_Match2 fuel pat str slen si ci) (Pattern_Match2 fuel' pat str slen si ci)
   \<and> opt_le (Pattern_Match3 fuel pat str slen si ci) (Pattern_Match3 fuel' pat str slen si ci)"
proof (induction fuel arbitrary: fuel' si ci)
  case (Suc fuel)
  then obtain f where f: "fuel' = Suc f" "fuel \<le> f" by (cases fuel') auto
  note IH = Suc.IH [OF f(2), THEN conjunct1] Suc.IH [OF f(2), THEN conjunct2]
  show ?case
    unfolding f(1) Pattern_Match2.simps Pattern_Match3.simps Let_def
    by (intro conjI opt_le_if opt_le_refl opt_le_case [where z = "Pattern_wcsnstr_ex _ _ _ _"]
        opt_le_case [where z = "Pattern_wcsnstr _ _ _"] opt_le_bind hex_restart1_mono [OF f(2)]
        opt_le_case IH)
qed simp

lemma MatchX_mono:
  assumes "Pattern_MatchX fuel pat str slen = Some r" and "fuel \<le> fuel'"
  shows "Pattern_MatchX fuel' pat str slen = Some r"
proof -
  have "opt_le (Pattern_MatchX fuel pat str slen) (Pattern_MatchX fuel' pat str slen)"
    unfolding Pattern_MatchX_def Let_def
    by (intro opt_le_case opt_le_if opt_le_refl Match23_mono [OF assms(2), THEN conjunct1])
  with assms(1) show ?thesis by (rule opt_leD [rotated])
qed

section \<open>Choosing the best rule\<close>

text \<open>What a rule contributes: its own match length, or that with a backslash behind the path.\<close>

definition rule_matches :: "nat \<Rightarrow> wstring \<Rightarrow> pattern \<Rightarrow> nat \<Rightarrow> bool" where
  "rule_matches fuel path pat m \<longleftrightarrow> m \<noteq> 0 \<and>
     (Pattern_MatchX fuel pat (Some path) (length path) = Some m
      \<or> Pattern_MatchX fuel pat (Some (path @ [BS])) (length path + 1) = Some m)"

definition mpl_ok :: "nat \<Rightarrow> wstring \<Rightarrow> pattern set \<Rightarrow> mpl_state \<Rightarrow> mpl_state \<Rightarrow> bool" where
  "mpl_ok fuel path P st st' \<longleftrightarrow> mpl_level st' \<le> mpl_level st \<and>
     (st' = st \<or> (\<exists>pat \<in> P. mpl_found st' = Some pat \<and> mpl_level st' = Pattern_Level pat
        \<and> mpl_len st < mpl_len st' \<and> rule_matches fuel path pat (mpl_len st')))"

lemma mpl_ok_refl [simp]: "mpl_ok fuel path P st st"
  by (simp add: mpl_ok_def)

lemma mpl_ok_trans:
  "mpl_ok fuel path P st st' \<Longrightarrow> mpl_ok fuel path P st' st'' \<Longrightarrow> mpl_ok fuel path P st st''"
  unfolding mpl_ok_def by (elim conjE disjE bexE) (auto intro: order_trans less_trans)

lemma mpl_ok_mono: "mpl_ok fuel path P st st' \<Longrightarrow> P \<subseteq> Q \<Longrightarrow> mpl_ok fuel path Q st st'"
  by (auto simp: mpl_ok_def)

lemma mpl_take_ok:
  assumes "\<not> mpl_level st < Pattern_Level pat" and "mpl_len st < m" and "rule_matches fuel path pat m"
    and "pat \<in> P"
  shows "mpl_ok fuel path P st (mpl_take pat m fl st)"
  using assms by (auto simp: mpl_ok_def mpl_take_def)

lemma mpl_loop_ok:
  "mpl_loop fuel prv path pats st = Some st' \<Longrightarrow> mpl_ok fuel path (set pats) st st'"
proof (induction pats arbitrary: st)
  case (Cons pat pats)
  have sub: "mpl_ok fuel path (set (pat # pats)) st st'"
    if "mpl_loop fuel prv path pats st = Some st'" for st
    using mpl_ok_mono [OF Cons.IH [OF that]] by auto
  have tk: "mpl_ok fuel path (set (pat # pats)) st st'"
    if "mpl_loop fuel prv path pats (mpl_take pat m fl st) = Some st'"
      "\<not> mpl_level st < Pattern_Level pat" "mpl_len st < m" "rule_matches fuel path pat m" for m fl
    using mpl_ok_trans [OF mpl_take_ok [OF that(2-4), of "set (pat # pats)" fl] sub [OF that(1)]] by simp
  have rm: "rule_matches fuel path pat m" if "0 < m"
    "Pattern_MatchX fuel pat (Some path) (length path) = Some m
     \<or> Pattern_MatchX fuel pat (Some (path @ [BS])) (Suc (length path)) = Some m" for m
    using that by (auto simp: rule_matches_def)
  have tk1: "mpl_ok fuel path (set (pat # pats)) st (mpl_take pat m fl st)"
    if "\<not> mpl_level st < Pattern_Level pat" "mpl_len st < m" "rule_matches fuel path pat m" for m fl
    using mpl_take_ok [OF that] by simp
  show ?case
  proof (cases "mpl_level st < Pattern_Level pat
      \<or> \<not> Pattern_Exact pat \<and> mpl_flags st AND MATCH_FLAG_EXACT \<noteq> 0")
    case True
    with Cons.prems have "mpl_loop fuel prv path pats st = Some st'" by (auto split: if_splits)
    then show ?thesis by (rule sub)
  next
    case tested: False
    with Cons.prems obtain m where m: "Pattern_MatchX fuel pat (Some path) (length path) = Some m"
      by (auto split: if_splits option.splits)
    show ?thesis
    proof (cases "mpl_len st < m")
      case True
      with Cons.prems tested m rm [of m] tk tk1 show ?thesis
        by (auto simp: Let_def split: if_splits)
    next
      case False
      with Cons.prems tested m rm tk sub show ?thesis
        by (auto split: if_splits option.splits)
    qed
  qed
qed simp


lemma mpl_loop_longest:
  assumes "mpl_loop fuel prv path pats st = Some st'"
    and "\<forall>pat \<in> set pats. \<not> Pattern_Exact pat \<and> Pattern_Level pat = mpl_level st"
    and "mpl_flags st AND MATCH_FLAG_EXACT = 0"
    and "pat \<in> set pats" and "Pattern_MatchX fuel pat (Some path) (length path) = Some m"
  shows "m \<le> mpl_len st'"
  using assms
proof (induction pats arbitrary: st)
  case (Cons p ps)
  have ge: "mpl_len s1 \<le> mpl_len st'" if "mpl_loop fuel prv path ps s1 = Some st'" for s1
    using mpl_loop_ok [OF that] by (auto simp: mpl_ok_def)
  have fl: "(MATCH_FLAG_AUX OR 0) AND MATCH_FLAG_EXACT = 0"
    by (simp add: MATCH_FLAG_AUX_def MATCH_FLAG_EXACT_def)
  have p: "\<not> Pattern_Exact p" "Pattern_Level p = mpl_level st" using Cons.prems(2) by auto
  from Cons.prems(1,3) p obtain k where k: "Pattern_MatchX fuel p (Some path) (length path) = Some k"
    by (auto split: option.splits)
  have "\<exists>s1. mpl_loop fuel prv path ps s1 = Some st' \<and> mpl_level s1 = mpl_level st
      \<and> mpl_flags s1 AND MATCH_FLAG_EXACT = 0 \<and> k \<le> mpl_len s1"
  proof (cases "mpl_len st < k")
    case True
    with Cons.prems(1,3) p k show ?thesis
      by (intro exI [of _ "mpl_take p k 0 st"]) (simp add: mpl_take_def Let_def)
  next
    case False
    show ?thesis
    proof (cases "mpl_loop fuel prv path ps st = Some st'")
      case True
      with False Cons.prems(3) show ?thesis by auto
    next
      case neq: False
      with False Cons.prems(1,3) p k obtain k2 where
        "mpl_loop fuel prv path ps (mpl_take p k2 (MATCH_FLAG_AUX OR 0) st) = Some st'" "mpl_len st < k2"
        by (auto split: option.splits if_splits)
      with False p fl show ?thesis
        by (intro exI [of _ "mpl_take p k2 (MATCH_FLAG_AUX OR 0) st"]) (simp add: mpl_take_def)
    qed
  qed
  then obtain s1 where s1: "mpl_loop fuel prv path ps s1 = Some st'" "mpl_level s1 = mpl_level st"
    "mpl_flags s1 AND MATCH_FLAG_EXACT = 0" "k \<le> mpl_len s1" by blast
  show ?case
  proof (cases "pat = p")
    case True
    with k Cons.prems(5) s1 ge [OF s1(1)] show ?thesis by simp
  next
    case False
    with Cons.prems(4) have "pat \<in> set ps" by simp
    with Cons.IH [OF s1(1) _ s1(3) _ Cons.prems(5)] Cons.prems(2) s1(2) show ?thesis by simp
  qed
qed simp

lemma MatchPathListEx_sound:
  assumes "Pattern_MatchPathListEx fuel prv path list sel = Some r" and "0 \<le> sel_len sel"
  shows "\<exists>b sel'. r = Ret (b, sel') \<and> sel_level sel' \<le> sel_level sel \<and> 0 \<le> sel_len sel' \<and>
    (if b then \<exists>pats pat m. list = Some pats \<and> pat \<in> set pats \<and> rule_matches fuel path pat m
        \<and> sel_len sel' = int m \<and> sel_level sel' = Pattern_Level pat
        \<and> sel_patsrc sel' = Some (Pattern_Source pat)
     else sel' = sel)"
proof (cases "list = None \<or> path = []")
  case True
  with assms show ?thesis by (auto simp: Pattern_MatchPathListEx_def split: option.splits)
next
  case False
  then obtain pats where l: "list = Some pats" by auto
  define st where "st = \<lparr>mpl_len = 0, mpl_level = sel_level sel, mpl_flags = sel_flags sel,
    mpl_wildc = sel_wildc sel, mpl_found = None\<rparr>"
  from assms(1) False l obtain cur where cur: "mpl_loop fuel prv path pats st = Some cur"
    by (auto simp: Pattern_MatchPathListEx_def Pattern_MatchPathList_def st_def split: option.splits)
  note ok = mpl_loop_ok [OF cur]
  show ?thesis
  proof (cases "cur = st")
    case True
    then have "\<not> rule_overrides cur sel" using assms(2) by (auto simp: rule_overrides_def st_def)
    with assms cur l False show ?thesis
      by (auto simp: Pattern_MatchPathListEx_def Pattern_MatchPathList_def st_def)
  next
    case neq: False
    with ok obtain pat where pat: "pat \<in> set pats" "mpl_found cur = Some pat"
      "mpl_level cur = Pattern_Level pat" "rule_matches fuel path pat (mpl_len cur)"
      "mpl_level cur \<le> sel_level sel"
      by (auto simp: mpl_ok_def st_def)
    show ?thesis
    proof (cases "rule_overrides cur sel")
      case True
      with assms cur l False pat(2) have r: "r = Ret (True, \<lparr>sel_level = mpl_level cur,
          sel_len = int (mpl_len cur), sel_flags = mpl_flags cur, sel_wildc = mpl_wildc cur,
          sel_patsrc = Some (Pattern_Source pat)\<rparr>)"
        by (simp add: Pattern_MatchPathListEx_def Pattern_MatchPathList_def st_def)
      from pat l show ?thesis unfolding r by auto
    next
      case keep: False
      with assms cur l False have r: "r = Ret (False, sel)"
        by (simp add: Pattern_MatchPathListEx_def Pattern_MatchPathList_def st_def)
      from assms(2) show ?thesis unfolding r by auto
    qed
  qed
qed

section \<open>The properties\<close>

text \<open>The rule compiled from a source text, for the closed examples below.\<close>

fun the_pat :: "pattern option outcome \<Rightarrow> pattern" where
  "the_pat (Ret (Some pat)) = pat"

definition rule_pat :: "wstring \<Rightarrow> pattern" where
  "rule_pat src = the_pat (Pattern_Create (\<lambda>_. True) NUL (Some src) True 3)"

text \<open>
  C4.  Soundness of the matcher: whenever \<^verbatim>\<open>Pattern_Match\<close> returns TRUE for a rule compiled by
  \<^verbatim>\<open>Pattern_Create\<close> (without \<^verbatim>\<open>__hex\<close> parts), the path is matched by the rule read as a glob.
\<close>

theorem pattern_match_sound:
  assumes "Pattern_Create alloc prv (Some src) lower level = Ret (Some pat)"
    and "src \<noteq> []" and "length src < 2 ^ 16" and "plain_pat pat"
    and "Pattern_Match fuel pat (Some path) (length path) = Some True"
  shows "glob (lw lower src) path"
proof -
  from assms(5) obtain m where
    "Pattern_MatchX fuel pat (Some path) (length path) = Some m" "m \<noteq> 0"
    by (auto simp: Pattern_Match_def)
  then show ?thesis
    using MatchX_sound(1) [OF Pattern_Create_compiled [OF assms(1-3)] assms(4)] by blast
qed

theorem pattern_match_sound_witness:
  "Pattern_Create (\<lambda>_. True) NUL (Some ''C:a?b*c*'') True 3 = Ret (Some (rule_pat ''C:a?b*c*''))
   \<and> glob (lw True ''C:a?b*c*'') ''c:axbyycz''"
proof -
  have c: "Pattern_Create (\<lambda>_. True) NUL (Some ''C:a?b*c*'') True 3 = Ret (Some (rule_pat ''C:a?b*c*''))"
    by code_simp
  have p: "plain_pat (rule_pat ''C:a?b*c*'')"
    by code_simp
  have m: "Pattern_Match 20 (rule_pat ''C:a?b*c*'') (Some ''c:axbyycz'') (length ''c:axbyycz'') = Some True"
    by code_simp
  show ?thesis using c pattern_match_sound [OF c _ _ p m] by simp
qed


text \<open>
  C14.  Completeness: a rule that ends in a star, or has no star at all, and has neither a double star nor a \<^verbatim>\<open>__hex\<close> part,
  matches every path the glob describes, given fuel for one call per constant part.  A double star is the
  documented star for one level of a path: there the matcher refuses paths that the glob, in which it is
  like a star, describes.
\<close>

theorem pattern_match_complete:
  assumes "Pattern_Create alloc prv (Some src) lower level = Ret (Some pat)"
    and "src \<noteq> []" and "length src < 2 ^ 16" and "plain_pat pat" and "single_stars pat"
    and "last src = STAR \<or> STAR \<notin> set src"
    and "glob (lw lower src) path" and "length src < fuel"
  shows "Pattern_Match fuel pat (Some path) (length path) = Some True"
proof -
  note c = Pattern_Create_compiled [OF assms(1-3)]
  have "length (pat_cons pat) \<le> length src"
    using length_segments_le [of src] arg_cong [OF compiledD(2) [OF c], of length] by simp
  with assms(8) have "length (pat_cons pat) < fuel" by simp
  from MatchX_complete [OF c assms(4-7) this] show ?thesis by (auto simp: Pattern_Match_def)
qed

theorem pattern_match_complete_witness:
  "glob (lw True ''C:a?b*'') ''c:axbyy'' \<and>
   Pattern_Match 20 (rule_pat ''C:a?b*'') (Some ''c:axbyy'') (length ''c:axbyy'') = Some True"
proof -
  have c: "Pattern_Create (\<lambda>_. True) NUL (Some ''C:a?b*'') True 3 = Ret (Some (rule_pat ''C:a?b*''))"
    by code_simp
  have p: "plain_pat (rule_pat ''C:a?b*'')" by code_simp
  have s: "single_stars (rule_pat ''C:a?b*'')" by code_simp
  have g: "glob (lw True ''C:a?b*'') ''c:axbyy''" by code_simp
  show ?thesis using g pattern_match_complete [OF c _ _ p s _ g, of 20] by simp
qed

text \<open>
  C32.  The matcher returns: with fuel for the parts and the path, \<^verbatim>\<open>Pattern_MatchX\<close> has a
  result of at most one more than the length of the path, and more fuel does not change it.
\<close>

theorem pattern_matchX_returns:
  assumes "Pattern_Create alloc prv (Some src) lower level = Ret (Some pat)"
    and "src \<noteq> []" and "length src < 2 ^ 16" and "plain_pat pat"
  shows "\<exists>m \<le> length path + 1. \<forall>fuel.
    Pattern_MatchX (length src + length path + 1 + fuel) pat (Some path) (length path) = Some m"
proof -
  note c = Pattern_Create_compiled [OF assms(1-3)]
  have "length (pat_cons pat) \<le> length src"
    using length_segments_le [of src] arg_cong [OF compiledD(2) [OF c], of length] by simp
  then have "length (pat_cons pat) + length path < length src + length path + 1" by simp
  from MatchX_total [OF c assms(4) this] obtain m where "m \<le> length path + 1"
    "Pattern_MatchX (length src + length path + 1) pat (Some path) (length path) = Some m" by blast
  then show ?thesis using MatchX_mono by (metis le_add1)
qed

theorem pattern_matchX_returns_witness:
  "\<exists>m \<le> length ''xab'' + 1. \<forall>fuel. Pattern_MatchX (length ''*a*'' + length ''xab'' + 1 + fuel)
     (rule_pat ''*a*'') (Some ''xab'') (length ''xab'') = Some m"
proof -
  have c: "Pattern_Create (\<lambda>_. True) NUL (Some ''*a*'') True 3 = Ret (Some (rule_pat ''*a*''))"
    by code_simp
  have p: "plain_pat (rule_pat ''*a*'')" by code_simp
  show ?thesis by (rule pattern_matchX_returns [OF c _ _ p]) simp_all
qed

text \<open>
  C33.  For a source of less than \<open>2 ^ 27\<close> characters the 32-bit length that \<^verbatim>\<open>Pattern_Create\<close> computes does
  not wrap around: the function does not write behind the block, and behind the array of constant
  parts the copying loop and the copy of the source text end exactly at the computed length.
\<close>

theorem pattern_create_fills_block:
  assumes "length src < 2 ^ 27"
  shows "if alloc (block_bytes src)
    then \<exists>pat. Pattern_Create alloc prv (Some src) lower level = Ret (Some pat) \<and> unat (pat_length pat) = block_bytes src
      \<and> snd (pat_fill lower src [] (sizeof_PATTERN + length (pat_cons pat) * sizeof_con))
          + (length src + 1) * sizeof_WCHAR = unat (pat_length pat)
    else Pattern_Create alloc prv (Some src) lower level = Ret None"
proof -
  note n = block_no_wrap [OF assms]
  let ?o = "sizeof_PATTERN + length (segments src) * sizeof_con"
  obtain cons optr where f: "pat_fill lower src [] ?o = (cons, optr)" by (cases "pat_fill lower src [] ?o")
  have l: "length cons = length (segments src)"
    using arg_cong [OF pat_fill_eq [THEN conjunct1, of lower src "[]" ?o], of length] f by simp
  have e: "optr + (length src + 1) * sizeof_WCHAR = block_bytes src"
    using pat_fill_eq [THEN conjunct2, of lower src "[]" ?o] f by (simp add: block_bytes_def algebra_simps)
  show ?thesis using n e l f by (simp add: Pattern_Create_def Let_def pat_count_eq)
qed

theorem pattern_create_fills_block_witness:
  "\<exists>pat. Pattern_Create (\<lambda>_. True) NUL (Some ''a*b'') True 3 = Ret (Some pat) \<and> unat (pat_length pat) = 96"
proof -
  have "block_bytes ''a*b'' = 96" by code_simp
  then show ?thesis using pattern_create_fills_block [of "''a*b''" "\<lambda>_. True" NUL True 3] by auto
qed

text \<open>
  C34.  \<^verbatim>\<open>Pattern_MatchPathListEx\<close> never uses its uninitialised local, never makes the level worse,
  leaves everything alone when it returns FALSE, and returns TRUE only for a rule of the list that
  matches the path (or the path with a backslash behind it) with the reported length and level.
\<close>

theorem match_path_list_ex_sound:
  assumes "Pattern_MatchPathListEx fuel prv path list sel = Some r" and "0 \<le> sel_len sel"
  shows "\<exists>b sel'. r = Ret (b, sel') \<and> sel_level sel' \<le> sel_level sel \<and> 0 \<le> sel_len sel' \<and>
    (if b then \<exists>pats pat m. list = Some pats \<and> pat \<in> set pats \<and> rule_matches fuel path pat m
        \<and> sel_len sel' = int m \<and> sel_level sel' = Pattern_Level pat
        \<and> sel_patsrc sel' = Some (Pattern_Source pat)
     else sel' = sel)"
  by (rule MatchPathListEx_sound [OF assms])

theorem match_path_list_ex_sound_witness:
  "\<exists>b sel'. Pattern_MatchPathListEx 20 NUL ''ab'' (Some [rule_pat ''a*''])
      \<lparr>sel_level = 3, sel_len = 0, sel_flags = 0, sel_wildc = - 1, sel_patsrc = None\<rparr>
     = Some (Ret (b, sel')) \<and> sel_level sel' \<le> 3"
proof -
  obtain r where r: "Pattern_MatchPathListEx 20 NUL ''ab'' (Some [rule_pat ''a*''])
      \<lparr>sel_level = 3, sel_len = 0, sel_flags = 0, sel_wildc = - 1, sel_patsrc = None\<rparr> = Some r"
  proof -
    have "Pattern_MatchPathListEx 20 NUL ''ab'' (Some [rule_pat ''a*''])
      \<lparr>sel_level = 3, sel_len = 0, sel_flags = 0, sel_wildc = - 1, sel_patsrc = None\<rparr> \<noteq> None"
      by code_simp
    with that show thesis by auto
  qed
  show ?thesis using match_path_list_ex_sound [OF r] r by auto
qed

text \<open>
   Among rules of one level that end in a star, \<^verbatim>\<open>Pattern_MatchPathList\<close> reports a match at
  least as long as that of every rule in the list: the most specific rule wins.
\<close>

theorem match_path_list_longest:
  assumes "Pattern_MatchPathList fuel prv path pats (Some level) (Some 0) wildc = Some res"
    and "\<forall>pat \<in> set pats. star_at_tail pat \<and> Pattern_Level pat = level"
    and "pat \<in> set pats" and "Pattern_MatchX fuel pat (Some path) (length path) = Some m"
  shows "m \<le> mpl_len res"
  by (rule mpl_loop_longest [OF assms(1) [unfolded Pattern_MatchPathList_def option.case] _ _ assms(3,4)])
    (use assms(2) in \<open>auto simp: Pattern_Exact_def\<close>)

theorem match_path_list_longest_witness:
  "\<exists>res. Pattern_MatchPathList 20 NUL ''ab'' [rule_pat ''a*'', rule_pat ''ab*''] (Some 3) (Some 0)
      None = Some res \<and> 3 \<le> mpl_len res"
proof -
  have "Pattern_MatchPathList 20 NUL ''ab'' [rule_pat ''a*'', rule_pat ''ab*''] (Some 3) (Some 0)
      None \<noteq> None" by code_simp
  then obtain res where res: "Pattern_MatchPathList 20 NUL ''ab'' [rule_pat ''a*'', rule_pat ''ab*'']
      (Some 3) (Some 0) None = Some res" by auto
  have a: "\<forall>pat \<in> set [rule_pat ''a*'', rule_pat ''ab*'']. star_at_tail pat \<and> Pattern_Level pat = 3"
    by code_simp
  have m: "Pattern_MatchX 20 (rule_pat ''ab*'') (Some ''ab'') (length ''ab'') = Some 3" by code_simp
  have "rule_pat ''ab*'' \<in> set [rule_pat ''a*'', rule_pat ''ab*'']" by (simp only: list.set) blast
  from match_path_list_longest [OF res a this m] res show ?thesis by blast
qed


section \<open>Where the source departs from the glob semantics\<close>

text \<open>
   The loop of \<^verbatim>\<open>Pattern_Match2\<close> resumes behind the last occurrence, so it misses occurrences
  that overlap it: the rule \<^verbatim>\<open>*aa\<close> does not match \<^verbatim>\<open>aaa\<close>, which the glob describes.
\<close>

theorem pattern_match_misses_overlap:
  "glob ''*aa'' ''aaa'' \<and>
   Pattern_Match (20 + fuel) (rule_pat ''*aa'') (Some ''aaa'') (length ''aaa'') = Some False"
proof -
  have "Pattern_MatchX 20 (rule_pat ''*aa'') (Some ''aaa'') (length ''aaa'') = Some 0"
    by code_simp
  then have "Pattern_MatchX (20 + fuel) (rule_pat ''*aa'') (Some ''aaa'') (length ''aaa'') = Some 0"
    by (rule MatchX_mono) simp
  moreover have "glob ''*aa'' ''aaa''" by code_simp
  ultimately show ?thesis by (simp add: Pattern_Match_def)
qed

text \<open>
   A double star is meant not to cross a backslash, but the anchoring test of
  \<^verbatim>\<open>Pattern_Match2\<close> is made for the first occurrence only: \<^verbatim>\<open>ab**c\<close> matches
  \<^verbatim>\<open>ab\abxc\<close>, where a backslash separates the two constant parts' first occurrences.
\<close>

theorem pattern_match_double_star_crosses:
  "Pattern_Match (20 + fuel) (rule_pat ''ab**c'') (Some (''ab'' @ BS # ''abxc'')) 7 = Some True \<and>
   con_no_bs (pat_cons (rule_pat ''ab**c'') ! 1) \<and> \<not> star_at_head (rule_pat ''ab**c'')"
proof -
  have "Pattern_MatchX 20 (rule_pat ''ab**c'') (Some (''ab'' @ BS # ''abxc'')) 7 = Some 8"
    by code_simp
  then have "Pattern_MatchX (20 + fuel) (rule_pat ''ab**c'') (Some (''ab'' @ BS # ''abxc'')) 7 = Some 8"
    by (rule MatchX_mono) simp
  moreover have "con_no_bs (pat_cons (rule_pat ''ab**c'') ! 1)" by code_simp
  moreover have "\<not> star_at_head (rule_pat ''ab**c'')" by code_simp
  ultimately show ?thesis by (simp add: Pattern_Match_def)
qed

lemma hex_restart2_stuck: "hex_restart2 fuel True ''_'' ''__hex__'' 0 1 255 = None"
proof (induction fuel)
  case (Suc fuel)
  have "hex_count ''_'' 255 = 0" by code_simp
  moreover have "Pattern_wcsnstr ''_'' ''__hex__'' 0 = Some 0" by code_simp
  ultimately show ?case using Suc by (simp add: Let_def)
qed simp

lemma hex_restart2_g: "hex_restart2 fuel True ''g_'' ''__hex__'' 0 1 255 = None"
proof (cases fuel)
  case (Suc f)
  have "hex_count ''g_'' 255 = 0" by code_simp
  moreover have "Pattern_wcsnstr ''g_'' ''__hex__'' 0 = Some 1" by code_simp
  ultimately show ?thesis using Suc hex_restart2_stuck by (simp add: Let_def)
qed simp

text \<open>
   A constant part that begins with \<^verbatim>\<open>__hex\<close> behind a star makes \<^verbatim>\<open>Pattern_Match3\<close> search for the
  empty prefix, which "occurs" at the next underscore without any progress: matching
  \<^verbatim>\<open>*__hex__\<close> against \<^verbatim>\<open>g_\<close> never returns, whatever the fuel.
\<close>

theorem pattern_match_hex_loops:
  "Pattern_Match fuel (rule_pat ''*__hex__'') (Some ''g_'') (length ''g_'') = None"
proof -
  let ?p = "rule_pat ''*__hex__''"
  have c: "\<not> star_missing ?p" "unat (num_cons ?p) = 1" "star_at_head ?p"
    "con_ptr (pat_cons ?p ! 0) = ''__hex__''" "con_hex (pat_cons ?p ! 0)"
    "unat (con_len (pat_cons ?p ! 0)) = 7" "\<not> con_no_bs (pat_cons ?p ! 0)"
    by code_simp+
  have w: "Pattern_wcsnstr_ex ''g_'' ''__hex__'' 7 False = None"
    "Pattern_wcsnstr ''__hex__'' Pattern_Hex 5 = Some 0"
    "hex_bounds (drop 5 ''__hex__'') = (1, 255, ''__'')"
    by code_simp+
  have h1: "hex_restart1 f True ''g_'' 2 0 0 ''__hex__'' 0 = None" for f
    using w(3) hex_restart2_g by (cases f) (simp_all add: Let_def)
  have m3: "Pattern_Match3 f ?p ''g_'' 2 0 0 = None" for f
    using c w h1 by (cases f) (simp_all add: Let_def)
  have "Pattern_Match2 fuel ?p ''g_'' 2 0 0 = None"
    using c w m3 by (cases fuel) (simp_all add: Let_def)
  with c(1) show ?thesis by (simp add: Pattern_Match_def Pattern_MatchX_def numeral_2_eq_2)
qed

end
