(* ===== verification/StrUtil.thy ===== *)
theory StrUtil
  imports SbiePrelude
begin

text \<open>
  The tag syntax of settings, \<^verbatim>\<open>Sandboxie/common/str_util.c\<close>: lists of \<^verbatim>\<open>name=value\<close> with a separator, values
  in quotation marks or plain.  Pointers into a string are offsets; the offset of the terminating
  NUL is the length.
\<close>

definition at :: "wstring \<Rightarrow> nat \<Rightarrow> wchar" where
  "at s i = deref (drop i s)"

definition tag_ws :: "wchar \<Rightarrow> bool" where
  "tag_ws c \<longleftrightarrow> c = CHR '' '' \<or> c = CHR 0x0D \<or> c = CHR 0x0A \<or> c = CHR 0x09"

text \<open>\<^verbatim>\<open>Config_SkipWhiteSpace\<close> and \<^verbatim>\<open>Config_TrimWhiteSpace\<close>; the latter keeps line feeds.\<close>

definition Config_SkipWhiteSpace :: "wstring \<Rightarrow> nat \<Rightarrow> nat" where
  "Config_SkipWhiteSpace s i = i + length (takeWhile tag_ws (drop i s))"

fun Config_TrimWhiteSpace :: "wstring \<Rightarrow> nat \<Rightarrow> nat \<Rightarrow> nat" where
  "Config_TrimWhiteSpace s i 0 = 0"
| "Config_TrimWhiteSpace s i (Suc n) =
     (if tag_ws (at s (i + n)) \<and> at s (i + n) \<noteq> CHR 0x0A then Config_TrimWhiteSpace s i n else Suc n)"

definition wcschr_from :: "wstring \<Rightarrow> nat \<Rightarrow> wchar \<Rightarrow> nat option" where
  "wcschr_from s i c = map_option (\<lambda>k. i + k) (wcschr (drop i s) c)"

abbreviation DQUOTE :: wchar where "DQUOTE \<equiv> CHR 0x22"
abbreviation SQUOTE :: wchar where "SQUOTE \<equiv> CHR 0x27"

text \<open>Where the search for the separator from offset \<open>e\<close> ends: at the limit, or at the end of the string.\<close>

definition tag_end :: "wstring \<Rightarrow> nat option \<Rightarrow> nat \<Rightarrow> wchar \<Rightarrow> nat" where
  "tag_end s strEnd e sep =
     (case strEnd of
        Some lim \<Rightarrow> (case wcschr_from s e sep of None \<Rightarrow> lim | Some t \<Rightarrow> if lim < t then lim else t)
      | None \<Rightarrow> (case wcschr_from s e sep of None \<Rightarrow> max e (length s) | Some t \<Rightarrow> t))"

definition skip_sep :: "wstring \<Rightarrow> nat option \<Rightarrow> nat \<Rightarrow> nat" where
  "skip_sep s strEnd t =
     (if at s t \<noteq> NUL \<and> (case strEnd of None \<Rightarrow> True | Some lim \<Rightarrow> t < lim) then t + 1 else t)"

text \<open>
  \<^verbatim>\<open>SbieDll_GetTagValue\<close>: the returned pointer, the value and its length.  NULL is \<^const>\<open>None\<close>.  When white
  space reaches behind \<open>strEnd\<close>, the length wraps around to almost \<^verbatim>\<open>2^32\<close> and the trimming reads there:
  the outer \<^const>\<open>None\<close>.
\<close>

definition SbieDll_GetTagValue ::
  "wstring \<Rightarrow> nat \<Rightarrow> nat option \<Rightarrow> wchar \<Rightarrow> (nat option \<times> nat option \<times> nat) option" where
  "SbieDll_GetTagValue s pos strEnd sep =
     (let str = Config_SkipWhiteSpace s pos; q = at s str
      in if q = DQUOTE \<or> q = SQUOTE then
           (case wcschr_from s (str + 1) q of
              None \<Rightarrow> Some (None, None, 0)
            | Some e \<Rightarrow> Some (Some (skip_sep s strEnd (tag_end s strEnd (e + 1) sep)), Some (str + 1), e - (str + 1)))
         else
           let t = tag_end s strEnd str sep
           in if t < str then None
              else Some (Some (skip_sep s strEnd t), Some str, Config_TrimWhiteSpace s str (t - str)))"

lemma skip_ws_ge: "i \<le> Config_SkipWhiteSpace s i"
  by (simp add: Config_SkipWhiteSpace_def)

lemma wcschr_from_ge: "wcschr_from s i c = Some k \<Longrightarrow> i \<le> k \<and> k < length s"
  by (auto simp: wcschr_from_def dest: wcschr_Some_lt)

lemma tag_end_ge: "e \<le> tag_end s None e sep"
  by (auto simp: tag_end_def split: option.splits dest: wcschr_from_ge)

lemma skip_sep_ge: "t \<le> skip_sep s strEnd t"
  by (simp add: skip_sep_def)

lemma GetTagValue_ge:
  "SbieDll_GetTagValue s pos None sep = Some (Some next, v, len) \<Longrightarrow> pos \<le> next"
proof -
  assume a: "SbieDll_GetTagValue s pos None sep = Some (Some next, v, len)"
  let ?str = "Config_SkipWhiteSpace s pos"
  have "\<exists>e. ?str \<le> e \<and> next = skip_sep s None (tag_end s None e sep)"
  proof (cases "at s ?str = DQUOTE \<or> at s ?str = SQUOTE")
    case True
    with a obtain e where "wcschr_from s (?str + 1) (at s ?str) = Some e" "next = skip_sep s None (tag_end s None (e + 1) sep)"
      by (auto simp: SbieDll_GetTagValue_def Let_def split: option.splits)
    with wcschr_from_ge show ?thesis by (intro exI [of _ "e + 1"]) fastforce
  next
    case False
    with a show ?thesis by (intro exI [of _ ?str]) (auto simp: SbieDll_GetTagValue_def Let_def split: if_splits)
  qed
  then obtain e where "?str \<le> e" "next = skip_sep s None (tag_end s None e sep)" by blast
  then show ?thesis
    using skip_ws_ge [of pos s] tag_end_ge [of e s sep] skip_sep_ge [of "tag_end s None e sep" s None] by linarith
qed

text \<open>
  \<^verbatim>\<open>SbieDll_EnumTagValues\<close> with a callback on name, length, value and length that updates a parameter and
  tells whether to go on; \<^const>\<open>None\<close> is the fault of \<^const>\<open>SbieDll_GetTagValue\<close>.
\<close>

function SbieDll_EnumTagValues ::
  "wstring \<Rightarrow> nat \<Rightarrow> (nat \<Rightarrow> nat \<Rightarrow> nat option \<Rightarrow> nat \<Rightarrow> 'p \<Rightarrow> bool \<times> 'p) \<Rightarrow> 'p \<Rightarrow> wchar \<Rightarrow> wchar \<Rightarrow> 'p option" where
  "SbieDll_EnumTagValues s pos enumProc param eq sep =
     (if at s pos = NUL then Some param
      else
        let name = Config_SkipWhiteSpace s pos
        in case wcschr_from s name eq of
             None \<Rightarrow> Some param
           | Some t \<Rightarrow>
               (case SbieDll_GetTagValue s (t + 1) None sep of
                  None \<Rightarrow> None
                | Some (None, _, _) \<Rightarrow> Some param
                | Some (Some next, v, vlen) \<Rightarrow>
                    (case enumProc name (Config_TrimWhiteSpace s name (t - name)) v vlen param of
                       (False, param1) \<Rightarrow> Some param1
                     | (True, param1) \<Rightarrow> SbieDll_EnumTagValues s next enumProc param1 eq sep)))"
  by pat_completeness auto
termination
proof (relation "measure (\<lambda>(s, pos, _). length s - pos)", goal_cases)
  case (2 s pos enumProc param eq sep)
  note p = this
  show ?case using skip_ws_ge [of pos s] p by (fastforce dest!: wcschr_from_ge GetTagValue_ge)
qed simp

declare SbieDll_EnumTagValues.simps [simp del]

text \<open>\<^verbatim>\<open>Config_TagFindProc\<close> and \<^verbatim>\<open>SbieDll_FindTagValuePtr\<close>; the parameter is the value that was found.\<close>

definition Config_TagFindProc ::
  "wstring \<Rightarrow> wstring \<Rightarrow> nat \<Rightarrow> nat \<Rightarrow> nat option \<Rightarrow> nat \<Rightarrow> nat option \<times> nat \<Rightarrow> bool \<times> (nat option \<times> nat)" where
  "Config_TagFindProc s tag_name name name_len v vlen param =
     (if length tag_name = name_len \<and> wcsnicmp_eq tag_name (drop name s) name_len
      then (False, (v, vlen)) else (True, param))"

definition SbieDll_FindTagValuePtr ::
  "wstring \<Rightarrow> nat option \<Rightarrow> wstring \<Rightarrow> wchar \<Rightarrow> wchar \<Rightarrow> (nat \<times> nat) option option" where
  "SbieDll_FindTagValuePtr s string tag_name eq sep =
     (case string of
        None \<Rightarrow> Some None
      | Some pos \<Rightarrow>
          map_option (\<lambda>(v, vlen). case v of None \<Rightarrow> None | Some i \<Rightarrow> Some (i, vlen))
            (SbieDll_EnumTagValues s pos (Config_TagFindProc s tag_name) (None, 0) eq sep))"

text \<open>
  \<^verbatim>\<open>SbieDll_FindTagValue\<close>: FALSE, or the text in the buffer of \<open>value_size\<close> bytes.  \<^const>\<open>Fault\<close> is the handler for invalid
  parameters, which \<^verbatim>\<open>wcsncpy_s\<close> calls when the buffer cannot hold the value and its end.
\<close>

definition SbieDll_FindTagValue :: "wstring \<Rightarrow> wstring \<Rightarrow> nat \<Rightarrow> wchar \<Rightarrow> wchar \<Rightarrow> wstring option outcome option" where
  "SbieDll_FindTagValue s tag_name value_size eq sep =
     map_option (\<lambda>found. case found of
         None \<Rightarrow> Ret None
       | Some (i, n) \<Rightarrow> let txt = take n (drop i s)
           in if length txt < value_size div 2 then Ret (Some txt) else Fault)
       (SbieDll_FindTagValuePtr s (Some 0) tag_name eq sep)"

text \<open>\<^verbatim>\<open>wcsistr\<close>: the offset of the first occurrence up to case.\<close>

fun wcsistr_loop :: "wstring \<Rightarrow> wstring \<Rightarrow> nat \<Rightarrow> nat option" where
  "wcsistr_loop [] what i = None"
| "wcsistr_loop (c # s) what i =
     (if wcsnicmp_eq (c # s) what (length what) then Some i else wcsistr_loop s what (i + 1))"

definition wcsistr :: "wstring \<Rightarrow> wstring \<Rightarrow> nat option" where
  "wcsistr str what = (if what = [] then Some 0 else wcsistr_loop str what 0)"

section \<open>Tags that were printed are found\<close>

text \<open>A list of tags in the plain syntax, each followed by the separator.\<close>

definition tags_text :: "(wstring \<times> wstring) list \<Rightarrow> wstring" where
  "tags_text tags = concat (map (\<lambda>(n, v). n @ ''='' @ v @ '';'') tags)"

definition plain_name :: "wstring \<Rightarrow> bool" where
  "plain_name n \<longleftrightarrow> n \<noteq> [] \<and> \<not> tag_ws (hd n) \<and> \<not> tag_ws (last n) \<and> CHR ''='' \<notin> set n \<and> NUL \<notin> set n"

definition plain_value :: "wchar \<Rightarrow> wstring \<Rightarrow> bool" where
  "plain_value sep v \<longleftrightarrow> v \<noteq> [] \<and> \<not> tag_ws (hd v) \<and> \<not> tag_ws (last v) \<and> hd v \<noteq> DQUOTE \<and> hd v \<noteq> SQUOTE
     \<and> sep \<notin> set v \<and> NUL \<notin> set v"

text \<open>Offset and length of the value of a tag in the printed list.\<close>

fun find_tag :: "nat \<Rightarrow> (wstring \<times> wstring) list \<Rightarrow> wstring \<Rightarrow> (nat \<times> nat) option" where
  "find_tag base [] name = None"
| "find_tag base ((n, v) # tags) name =
     (if wcsicmp_eq name n then Some (base + length n + 1, length v)
      else find_tag (base + length n + length v + 2) tags name)"

lemma tags_text_simps [simp]:
  "tags_text [] = []" "tags_text ((n, v) # tags) = n @ CHR ''='' # v @ CHR '';'' # tags_text tags"
  by (simp_all add: tags_text_def)

lemma at_append: "at (pre @ s) (length pre + i) = deref (drop i s)"
  by (simp add: at_def)

lemma at_append0: "at (pre @ s) (length pre) = deref s"
  by (simp add: at_def)

lemma skip_ws_append: "\<not> tag_ws (deref s) \<Longrightarrow> Config_SkipWhiteSpace (pre @ s) (length pre) = length pre"
  by (cases s) (simp_all add: Config_SkipWhiteSpace_def)

lemma trim_ws_append: "v \<noteq> [] \<Longrightarrow> \<not> tag_ws (last v) \<Longrightarrow> Config_TrimWhiteSpace (pre @ v @ s) (length pre) (length v) = length v"
proof -
  assume v: "v \<noteq> []" "\<not> tag_ws (last v)"
  then obtain n where n: "length v = Suc n" by (cases v) auto
  then have "at (pre @ v @ s) (length pre + n) = last v"
    using v(1) at_append [of pre "v @ s" n] by (simp add: last_conv_nth deref_def Cons_nth_drop_Suc [symmetric] nth_append)
  with v n show ?thesis by simp
qed

lemma wcschr_from_append: "c \<notin> set v \<Longrightarrow> wcschr_from (pre @ v @ c # s) (length pre) c = Some (length pre + length v)"
  by (simp add: wcschr_from_def wcschr_append_Cons)

lemma tag_end_sep:
  "sep \<notin> set v \<Longrightarrow> (\<And>l. lim = Some l \<Longrightarrow> length pre + length v \<le> l) \<Longrightarrow>
     tag_end (pre @ v @ sep # s) lim (length pre) sep = length pre + length v"
  by (cases lim) (simp_all add: tag_end_def wcschr_from_append)

lemma tag_end_lim:
  assumes "sep \<notin> set v"
  shows "tag_end (pre @ v @ s) (Some (length pre + length v)) (length pre) sep = length pre + length v"
proof (cases "wcschr_from (pre @ v @ s) (length pre) sep")
  case (Some t)
  then obtain k where k: "t = length pre + k" "wcschr (v @ s) sep = Some k" by (auto simp: wcschr_from_def)
  have "\<not> k < length v" using wcschr_nth [OF k(2)] assms by (auto simp: nth_append dest: nth_mem)
  with Some k(1) show ?thesis by (auto simp: tag_end_def)
qed (simp add: tag_end_def)

lemma plain_valueD:
  assumes "plain_value sep v"
  shows "v \<noteq> []" "\<not> tag_ws (last v)" "sep \<notin> set v" "\<not> tag_ws (deref (v @ s))" "deref (v @ s) \<noteq> DQUOTE" "deref (v @ s) \<noteq> SQUOTE"
  using assms by (cases v; simp add: plain_value_def)+

lemma GetTagValue_end:
  assumes "plain_value sep v" "tag_end (pre @ v @ s) lim (length pre) sep = length pre + length v"
  shows "SbieDll_GetTagValue (pre @ v @ s) (length pre) lim sep =
    Some (Some (skip_sep (pre @ v @ s) lim (length pre + length v)), Some (length pre), length v)"
  using plain_valueD [OF assms(1)] assms(2)
  by (simp add: SbieDll_GetTagValue_def Let_def skip_ws_append at_append0 trim_ws_append)

lemma GetTagValue_sep:
  assumes "plain_value sep v" "sep \<noteq> NUL" "\<And>l. lim = Some l \<Longrightarrow> length pre + length v < l"
  shows "SbieDll_GetTagValue (pre @ v @ sep # s) (length pre) lim sep =
    Some (Some (length pre + length v + 1), Some (length pre), length v)"
proof -
  have "tag_end (pre @ v @ sep # s) lim (length pre) sep = length pre + length v"
    using plain_valueD(3) [OF assms(1)] assms(3) by (intro tag_end_sep) (auto intro: less_imp_le)
  moreover have "at (pre @ v @ sep # s) (length pre + length v) = sep"
    using at_append [of pre "v @ sep # s" "length v"] by simp
  ultimately show ?thesis
    using GetTagValue_end [OF assms(1), of pre "sep # s" lim] assms(2,3) by (auto simp: skip_sep_def split: option.splits)
qed

lemma GetTagValue_lim:
  assumes "plain_value sep v"
  shows "SbieDll_GetTagValue (pre @ v @ s) (length pre) (Some (length pre + length v)) sep =
    Some (Some (length pre + length v), Some (length pre), length v)"
  using GetTagValue_end [OF assms tag_end_lim] plain_valueD(3) [OF assms] by (simp add: skip_sep_def)

lemma tag_name_eq: "length name = length n \<and> wcsnicmp_eq name (n @ s) (length n) \<longleftrightarrow> wcsicmp_eq name n"
  using wcsicmp_eq_length [of name n] by (auto simp: wcsnicmp_eq_def wcsicmp_eq_def)

lemma EnumTagValues_tags:
  "\<forall>(n, v) \<in> set tags. plain_name n \<and> plain_value CHR '';'' v \<Longrightarrow>
     SbieDll_EnumTagValues (pre @ tags_text tags) (length pre) (Config_TagFindProc (pre @ tags_text tags) name) (None, 0) CHR ''='' CHR '';'' =
       Some (case find_tag (length pre) tags name of None \<Rightarrow> (None, 0) | Some (i, n) \<Rightarrow> (Some i, n))"
proof (induction tags arbitrary: pre)
  case Nil
  then show ?case by (simp add: SbieDll_EnumTagValues.simps at_def)
next
  case (Cons t tags)
  obtain n v where t: "t = (n, v)" by (cases t)
  let ?s = "pre @ tags_text (t # tags)"
  let ?pre = "pre @ n @ CHR ''='' # v @ '';''"
  have s: "?s = pre @ n @ CHR ''='' # v @ CHR '';'' # tags_text tags" "?s = ?pre @ tags_text tags"
    "?s = (pre @ n @ ''='') @ v @ CHR '';'' # tags_text tags" by (simp_all add: t)
  have n: "n \<noteq> []" "\<not> tag_ws (last n)" "CHR ''='' \<notin> set n" "\<not> tag_ws (deref (n @ r))" "deref (n @ r) \<noteq> NUL" for r
    using Cons.prems by (cases n; auto simp: t plain_name_def)+
  have v: "plain_value CHR '';'' v" using Cons.prems by (simp add: t)
  have 1: "at ?s (length pre) \<noteq> NUL" "Config_SkipWhiteSpace ?s (length pre) = length pre"
    unfolding s(1) at_append0 using n by (simp_all add: skip_ws_append)
  have 2: "wcschr_from ?s (length pre) CHR ''='' = Some (length pre + length n)"
    unfolding s(1) by (rule wcschr_from_append [OF n(3)])
  have 3: "SbieDll_GetTagValue ?s (length pre + length n + 1) None CHR '';'' =
      Some (Some (length ?pre), Some (length pre + length n + 1), length v)"
    using GetTagValue_sep [OF v, of None "pre @ n @ ''=''" "tags_text tags"] unfolding s(3) by simp
  have 4: "Config_TrimWhiteSpace ?s (length pre) (length n) = length n"
    unfolding s(1) by (rule trim_ws_append [OF n(1,2)])
  have 5: "length name = length n \<and> wcsnicmp_eq name (drop (length pre) ?s) (length n) \<longleftrightarrow> wcsicmp_eq name n"
    unfolding s(1) using tag_name_eq [of name n] by simp
  show ?case
  proof (cases "wcsicmp_eq name n")
    case True
    with 1 2 3 4 5 show ?thesis
      by (subst SbieDll_EnumTagValues.simps) (simp add: Let_def Config_TagFindProc_def t del: tags_text_simps)
  next
    case False
    have "SbieDll_EnumTagValues ?s (length pre) (Config_TagFindProc ?s name) (None, 0) CHR ''='' CHR '';'' =
        SbieDll_EnumTagValues ?s (length ?pre) (Config_TagFindProc ?s name) (None, 0) CHR ''='' CHR '';''"
      using 1 2 3 4 5 False
      by (subst SbieDll_EnumTagValues.simps) (auto simp: Let_def Config_TagFindProc_def simp del: tags_text_simps)
    also have "\<dots> = Some (case find_tag (length ?pre) tags name of None \<Rightarrow> (None, 0) | Some (i, n) \<Rightarrow> (Some i, n))"
      unfolding s(2) by (rule Cons.IH) (use Cons.prems in simp)
    finally show ?thesis using False by (simp add: t add.assoc)
  qed
qed

lemma FindTagValuePtr_tags:
  "\<forall>(n, v) \<in> set tags. plain_name n \<and> plain_value CHR '';'' v \<Longrightarrow>
     SbieDll_FindTagValuePtr (pre @ tags_text tags) (Some (length pre)) name CHR ''='' CHR '';'' = Some (find_tag (length pre) tags name)"
  by (simp add: SbieDll_FindTagValuePtr_def EnumTagValues_tags split: option.splits)

lemma find_tag_text:
  "map_option (\<lambda>(i, n). take n (drop i (pre @ tags_text tags))) (find_tag (length pre) tags name) =
     map_option snd (List.find (\<lambda>(n, v). wcsicmp_eq name n) tags)"
proof (induction tags arbitrary: pre)
  case (Cons t tags)
  obtain n v where t: "t = (n, v)" by (cases t)
  have s: "pre @ tags_text (t # tags) = (pre @ n @ CHR ''='' # v @ '';'') @ tags_text tags"
    and l: "length pre + length n + length v + 2 = length (pre @ n @ CHR ''='' # v @ '';'')" by (simp_all add: t)
  show ?case
  proof (cases "wcsicmp_eq name n")
    case True
    then show ?thesis by (simp add: t)
  next
    case False
    then have "find_tag (length pre) (t # tags) name = find_tag (length (pre @ n @ CHR ''='' # v @ '';'')) tags name"
      by (simp add: t del: length_append flip: l)
    with Cons.IH [of "pre @ n @ CHR ''='' # v @ '';''"] s False show ?thesis by (simp add: t)
  qed
qed simp

text \<open>
  C31. Tags in the syntax of the settings are found again: for a list of tags whose names and values need
  no quotation marks, the value that is found for a name is the value of the first tag with that name
  up to case, and none when there is no such tag; a value that does not fit into the buffer with its
  end is refused by \<^verbatim>\<open>wcsncpy_s\<close>.
\<close>

theorem FindTagValue_roundtrip:
  assumes "\<forall>(n, v) \<in> set tags. plain_name n \<and> plain_value CHR '';'' v"
  shows "SbieDll_FindTagValue (tags_text tags) name value_size CHR ''='' CHR '';'' =
    Some (case List.find (\<lambda>(n, v). wcsicmp_eq name n) tags of
        None \<Rightarrow> Ret None
      | Some (n, v) \<Rightarrow> if length v < value_size div 2 then Ret (Some v) else Fault)"
proof -
  have "SbieDll_FindTagValuePtr (tags_text tags) (Some 0) name CHR ''='' CHR '';'' = Some (find_tag 0 tags name)"
    using FindTagValuePtr_tags [OF assms, of "[]" name] by simp
  then show ?thesis using find_tag_text [of "[]" tags name]
    by (cases "find_tag 0 tags name"; cases "List.find (\<lambda>(n, v). wcsicmp_eq name n) tags")
      (auto simp: SbieDll_FindTagValue_def Let_def)
qed

theorem FindTagValue_roundtrip_witness:
  "SbieDll_FindTagValue (tags_text [(''Port'', ''80,443''), (''Protocol'', ''TCP'')]) ''protocol'' 8 CHR ''='' CHR '';'' = Some (Ret (Some ''TCP''))"
proof -
  let ?tags = "[(''Port'', ''80,443''), (''Protocol'', ''TCP'')]"
  have "\<forall>(n, v) \<in> set ?tags. plain_name n \<and> plain_value CHR '';'' v" by code_simp
  moreover have "List.find (\<lambda>(n, v). wcsicmp_eq ''protocol'' n) ?tags = Some (''Protocol'', ''TCP'')" by code_simp
  ultimately show ?thesis using FindTagValue_roundtrip [of ?tags "''protocol''" 8] by simp
qed

end
