(* ===== verification/RBTree.thy ===== *)
theory RBTree
  imports SbiePrelude
begin

text \<open>
  The red-black tree of \<^verbatim>\<open>Sandboxie/common/rbtree.c\<close>, which holds the port and address ranges of the
  network rules: insertion with its fixup loop, the search for the greatest key that is not above a
  given one, and the walk through the tree in order.  A node with its parent pointers is a subtree
  together with the path from it to the root, one frame per ancestor; following \<^verbatim>\<open>parent\<close> is taking
  the first frame off.
\<close>

section \<open>Trees and paths\<close>

datatype color = BLACK | RED

text \<open>\<^verbatim>\<open>RBTREE_NULL\<close>, or a node with its color, left subtree, data and right subtree.\<close>

datatype 'a rbnode = RBTREE_NULL | RBNode color "'a rbnode" 'a "'a rbnode"

fun node_color :: "'a rbnode \<Rightarrow> color" where
  "node_color RBTREE_NULL = BLACK"
| "node_color (RBNode c l a r) = c"

fun paint :: "color \<Rightarrow> 'a rbnode \<Rightarrow> 'a rbnode" where
  "paint c RBTREE_NULL = RBTREE_NULL"
| "paint c (RBNode _ l a r) = RBNode c l a r"

text \<open>
  The parent of a left child has the data and the right subtree that are not below the child, the
  parent of a right child the left subtree and the data.
\<close>

datatype 'a frame = LeftFrame color 'a "'a rbnode" | RightFrame color "'a rbnode" 'a

fun frame_color :: "'a frame \<Rightarrow> color" where
  "frame_color (LeftFrame c a r) = c"
| "frame_color (RightFrame c l a) = c"

text \<open>The node a frame stands for, with a child put in; the whole tree above a node.\<close>

fun close :: "'a rbnode \<Rightarrow> 'a frame \<Rightarrow> 'a rbnode" where
  "close t (LeftFrame c a r) = RBNode c t a r"
| "close t (RightFrame c l a) = RBNode c l a t"

fun plug :: "'a rbnode \<Rightarrow> 'a frame list \<Rightarrow> 'a rbnode" where
  "plug t [] = t"
| "plug t (f # p) = plug (close t f) p"

text \<open>\<^verbatim>\<open>rbtree_t\<close>; the data carries its key.\<close>

record ('k, 'v) rbtree_t =
  rb_root :: "('k \<times> 'v) rbnode"
  rb_count :: nat
  rb_cmp :: "'k \<Rightarrow> 'k \<Rightarrow> int"

definition rbtree_init :: "('k \<Rightarrow> 'k \<Rightarrow> int) \<Rightarrow> ('k, 'v) rbtree_t" where
  "rbtree_init cmpf = \<lparr>rb_root = RBTREE_NULL, rb_count = 0, rb_cmp = cmpf\<rparr>"

section \<open>Insertion\<close>

text \<open>The rotations on the subtree of the node; there is nothing to rotate without the child.\<close>

fun rbtree_rotate_left :: "'a rbnode \<Rightarrow> 'a rbnode" where
  "rbtree_rotate_left (RBNode c l a (RBNode c2 l2 b r2)) = RBNode c2 (RBNode c l a l2) b r2"
| "rbtree_rotate_left t = t"

fun rbtree_rotate_right :: "'a rbnode \<Rightarrow> 'a rbnode" where
  "rbtree_rotate_right (RBNode c (RBNode c2 l2 b r2) a r) = RBNode c2 l2 b (RBNode c r2 a r)"
| "rbtree_rotate_right t = t"

text \<open>
  The loop of \<^verbatim>\<open>rbtree_insert_fixup\<close> at the node \<open>t\<close> with the path \<open>p\<close>; the result is the root.  A red root
  would make the loop read and repaint \<^verbatim>\<open>RBTREE_NULL\<close> as the grandparent: \<^const>\<open>None\<close>.  Behind the rotation
  at the grandparent the parent of the node is black, and the loop ends.
\<close>

fun insert_fixup :: "'a rbnode \<Rightarrow> 'a frame list \<Rightarrow> 'a rbnode option" where
  "insert_fixup t [] = Some (paint BLACK t)"
| "insert_fixup t [f] = (if frame_color f = RED then None else Some (paint BLACK (close t f)))"
| "insert_fixup t (f # LeftFrame gc g uncle # p) =
     (if frame_color f = BLACK then Some (paint BLACK (plug t (f # LeftFrame gc g uncle # p)))
      else if node_color uncle = RED then
        insert_fixup (RBNode RED (paint BLACK (close t f)) g (paint BLACK uncle)) p
      else
        let parent = (case f of
              RightFrame _ _ _ \<Rightarrow> rbtree_rotate_left (close t f)
            | LeftFrame _ _ _ \<Rightarrow> close t f)
        in Some (paint BLACK (plug (rbtree_rotate_right (RBNode RED (paint BLACK parent) g uncle)) p)))"
| "insert_fixup t (f # RightFrame gc uncle g # p) =
     (if frame_color f = BLACK then Some (paint BLACK (plug t (f # RightFrame gc uncle g # p)))
      else if node_color uncle = RED then
        insert_fixup (RBNode RED (paint BLACK uncle) g (paint BLACK (close t f))) p
      else
        let parent = (case f of
              LeftFrame _ _ _ \<Rightarrow> rbtree_rotate_right (close t f)
            | RightFrame _ _ _ \<Rightarrow> close t f)
        in Some (paint BLACK (plug (rbtree_rotate_left (RBNode RED uncle g (paint BLACK parent))) p)))"

text \<open>"Lets find the new parent": the path at which to insert, \<^const>\<open>None\<close> when the key is there already.\<close>

fun insert_path :: "('k \<Rightarrow> 'k \<Rightarrow> int) \<Rightarrow> 'k \<Rightarrow> ('k \<times> 'v) rbnode \<Rightarrow> ('k \<times> 'v) frame list
    \<Rightarrow> ('k \<times> 'v) frame list option" where
  "insert_path cmp k RBTREE_NULL p = Some p"
| "insert_path cmp k (RBNode c l a r) p =
     (let d = cmp k (fst a)
      in if d = 0 then None
      else if d < 0 then insert_path cmp k l (LeftFrame c a r # p)
      else insert_path cmp k r (RightFrame c l a # p))"

text \<open>\<^verbatim>\<open>rbtree_insert\<close>: whether the node was inserted, and the tree; \<^const>\<open>None\<close> is the fault of the fixup.\<close>

definition rbtree_insert :: "'k \<times> 'v \<Rightarrow> ('k, 'v) rbtree_t \<Rightarrow> (bool \<times> ('k, 'v) rbtree_t) option" where
  "rbtree_insert data t =
     (case insert_path (rb_cmp t) (fst data) (rb_root t) [] of
        None \<Rightarrow> Some (False, t)
      | Some p \<Rightarrow>
          map_option (\<lambda>root. (True, t\<lparr>rb_root := root, rb_count := rb_count t + 1\<rparr>))
            (insert_fixup (RBNode RED RBTREE_NULL data RBTREE_NULL) p))"

section \<open>Searching and walking\<close>

text \<open>\<^verbatim>\<open>rbtree_find_less_equal\<close>: whether the match is exact, and the result, \<^const>\<open>None\<close> for NULL.\<close>

fun find_less_equal :: "('k \<Rightarrow> 'k \<Rightarrow> int) \<Rightarrow> 'k \<Rightarrow> ('k \<times> 'v) rbnode \<Rightarrow> ('k \<times> 'v) option
    \<Rightarrow> bool \<times> ('k \<times> 'v) option" where
  "find_less_equal cmp k RBTREE_NULL res = (False, res)"
| "find_less_equal cmp k (RBNode c l a r) res =
     (let d = cmp k (fst a)
      in if d = 0 then (True, Some a)
      else if d < 0 then find_less_equal cmp k l res
      else find_less_equal cmp k r (Some a))"

definition rbtree_find_less_equal :: "('k, 'v) rbtree_t \<Rightarrow> 'k \<Rightarrow> bool \<times> ('k \<times> 'v) option" where
  "rbtree_find_less_equal t k = find_less_equal (rb_cmp t) k (rb_root t) None"

definition rbtree_search :: "('k, 'v) rbtree_t \<Rightarrow> 'k \<Rightarrow> ('k \<times> 'v) option" where
  "rbtree_search t k = (case rbtree_find_less_equal t k of (True, res) \<Rightarrow> res | (False, _) \<Rightarrow> None)"

text \<open>A node in the tree: its subtree and the path to the root; \<^verbatim>\<open>RBTREE_NULL\<close> is any pair with that subtree.\<close>

fun go_left :: "'a rbnode \<Rightarrow> 'a frame list \<Rightarrow> 'a rbnode \<times> 'a frame list" where
  "go_left (RBNode c (RBNode c2 l2 b r2) a r) p = go_left (RBNode c2 l2 b r2) (LeftFrame c a r # p)"
| "go_left t p = (t, p)"

fun go_up :: "'a rbnode \<Rightarrow> 'a frame list \<Rightarrow> 'a rbnode \<times> 'a frame list" where
  "go_up t [] = (RBTREE_NULL, [])"
| "go_up t (RightFrame c l a # p) = go_up (RBNode c l a t) p"
| "go_up t (LeftFrame c a r # p) = (RBNode c t a r, p)"

definition rbtree_first :: "('k, 'v) rbtree_t \<Rightarrow> ('k \<times> 'v) rbnode \<times> ('k \<times> 'v) frame list" where
  "rbtree_first t = go_left (rb_root t) []"

fun rbtree_next :: "'a rbnode \<times> 'a frame list \<Rightarrow> 'a rbnode \<times> 'a frame list" where
  "rbtree_next (RBTREE_NULL, p) = (RBTREE_NULL, p)"
| "rbtree_next (RBNode c l a r, p) =
     (if r \<noteq> RBTREE_NULL then go_left r (RightFrame c l a # p) else go_up (RBNode c l a r) p)"

text \<open>The data a loop over \<^verbatim>\<open>rbtree_first\<close> and \<^verbatim>\<open>rbtree_next\<close> sees, at most \<open>fuel\<close> of them.\<close>

fun walk :: "nat \<Rightarrow> 'a rbnode \<times> 'a frame list \<Rightarrow> 'a list" where
  "walk 0 loc = []"
| "walk (Suc fuel) loc =
     (case fst loc of RBTREE_NULL \<Rightarrow> [] | RBNode c l a r \<Rightarrow> a # walk fuel (rbtree_next loc))"

definition rbtree_elems :: "('k, 'v) rbtree_t \<Rightarrow> ('k \<times> 'v) list" where
  "rbtree_elems t = walk (rb_count t + 1) (rbtree_first t)"

section \<open>In order\<close>

fun inorder :: "'a rbnode \<Rightarrow> 'a list" where
  "inorder RBTREE_NULL = []"
| "inorder (RBNode c l a r) = inorder l @ a # inorder r"

text \<open>The data left and right of the subtree in the whole tree.\<close>

fun before_path :: "'a frame list \<Rightarrow> 'a list" where
  "before_path [] = []"
| "before_path (LeftFrame c a r # p) = before_path p"
| "before_path (RightFrame c l a # p) = before_path p @ inorder l @ [a]"

fun after_path :: "'a frame list \<Rightarrow> 'a list" where
  "after_path [] = []"
| "after_path (LeftFrame c a r # p) = a # inorder r @ after_path p"
| "after_path (RightFrame c l a # p) = after_path p"

lemma inorder_plug: "inorder (plug t p) = before_path p @ inorder t @ after_path p"
proof (induction p arbitrary: t)
  case (Cons f p)
  then show ?case by (cases f) auto
qed simp

lemma inorder_paint [simp]: "inorder (paint c t) = inorder t"
  by (cases t) auto

lemma inorder_rotate [simp]: "inorder (rbtree_rotate_left t) = inorder t" "inorder (rbtree_rotate_right t) = inorder t"
  by (cases t rule: rbtree_rotate_left.cases; simp) (cases t rule: rbtree_rotate_right.cases; simp)

lemma insert_fixup_inorder: "insert_fixup t p = Some t' \<Longrightarrow> inorder t' = inorder (plug t p)"
proof (induction t p rule: insert_fixup.induct)
  case (3 t f gc g uncle p)
  show ?case
  proof (cases "frame_color f = BLACK")
    case True
    with 3 show ?thesis by auto
  next
    case False
    show ?thesis
    proof (cases "node_color uncle = RED")
      case True
      with 3 False show ?thesis by (cases f) (auto simp: inorder_plug)
    next
      case black: False
      with 3(2) False show ?thesis by (cases f) (auto simp: inorder_plug Let_def)
    qed
  qed
next
  case (4 t f gc uncle g p)
  show ?case
  proof (cases "frame_color f = BLACK")
    case True
    with 4 show ?thesis by auto
  next
    case False
    show ?thesis
    proof (cases "node_color uncle = RED")
      case True
      with 4 False show ?thesis by (cases f) (auto simp: inorder_plug)
    next
      case black: False
      with 4(2) False show ?thesis by (cases f) (auto simp: inorder_plug Let_def)
    qed
  qed
qed (auto simp: inorder_plug split: if_splits)

section \<open>Walking is in order\<close>

lemma go_left_spec:
  "go_left t p = (t', p') \<Longrightarrow> t \<noteq> RBTREE_NULL \<Longrightarrow>
    \<exists>c a r. t' = RBNode c RBTREE_NULL a r \<and> before_path p' = before_path p \<and>
      a # inorder r @ after_path p' = inorder t @ after_path p"
  by (induction t p rule: go_left.induct) auto

lemma go_up_spec:
  "go_up t p = (t', p') \<Longrightarrow>
     (t' = RBTREE_NULL \<and> after_path p = []) \<or> (\<exists>c l a r. t' = RBNode c l a r \<and> a # inorder r @ after_path p' = after_path p)"
  by (induction t p rule: go_up.induct) auto

text \<open>The data at and behind a node that is reached by a step: its left subtree is done.\<close>

fun rest_of :: "'a rbnode \<times> 'a frame list \<Rightarrow> 'a list" where
  "rest_of (RBTREE_NULL, p) = []"
| "rest_of (RBNode c l a r, p) = a # inorder r @ after_path p"

lemma rest_of_next: "rest_of (rbtree_next (RBNode c l a r, p)) = inorder r @ after_path p"
proof (cases "r = RBTREE_NULL")
  case True
  obtain t' p' where g: "go_up (RBNode c l a r) p = (t', p')" by (cases "go_up (RBNode c l a r) p")
  from go_up_spec [OF g] g True show ?thesis by auto
next
  case False
  obtain t' p' where g: "go_left r (RightFrame c l a # p) = (t', p')" by (cases "go_left r (RightFrame c l a # p)")
  from go_left_spec [OF g False] g False show ?thesis by auto
qed

lemma walk_rest: "length (rest_of loc) < fuel \<Longrightarrow> walk fuel loc = rest_of loc"
proof (induction fuel arbitrary: loc)
  case (Suc fuel)
  obtain t p where loc: "loc = (t, p)" by (cases loc)
  show ?case
  proof (cases t)
    case RBTREE_NULL
    then show ?thesis by (simp add: loc)
  next
    case (RBNode c l a r)
    with Suc.prems loc have "walk fuel (rbtree_next loc) = rest_of (rbtree_next loc)"
      by (intro Suc.IH) (simp add: rest_of_next del: rbtree_next.simps)
    with RBNode loc show ?thesis by (simp add: rest_of_next del: rbtree_next.simps)
  qed
qed simp

lemma rest_of_first: "rest_of (rbtree_first t) = inorder (rb_root t)"
proof (cases "rb_root t = RBTREE_NULL")
  case True
  then show ?thesis by (simp add: rbtree_first_def)
next
  case False
  obtain t' p' where g: "go_left (rb_root t) [] = (t', p')" by (cases "go_left (rb_root t) []")
  from go_left_spec [OF g False] g show ?thesis by (auto simp: rbtree_first_def)
qed

section \<open>Red-black balance\<close>

fun bheight :: "'a rbnode \<Rightarrow> nat" where
  "bheight RBTREE_NULL = 0"
| "bheight (RBNode c l a r) = bheight l + (if c = BLACK then 1 else 0)"

text \<open>No red node has a red child, and all paths have the same number of black nodes.\<close>

fun rb_ok :: "'a rbnode \<Rightarrow> bool" where
  "rb_ok RBTREE_NULL = True"
| "rb_ok (RBNode c l a r) \<longleftrightarrow> (c = RED \<longrightarrow> node_color l = BLACK \<and> node_color r = BLACK)
     \<and> bheight l = bheight r \<and> rb_ok l \<and> rb_ok r"

text \<open>A path whose hole takes a tree of black height \<open>h\<close>; a red frame has a black parent.\<close>

fun path_ok :: "nat \<Rightarrow> 'a frame list \<Rightarrow> bool" where
  "path_ok h [] = True"
| "path_ok h (f # p) \<longleftrightarrow>
     (case f of
        LeftFrame c a r \<Rightarrow> rb_ok r \<and> bheight r = h \<and> (c = RED \<longrightarrow> node_color r = BLACK)
      | RightFrame c l a \<Rightarrow> rb_ok l \<and> bheight l = h \<and> (c = RED \<longrightarrow> node_color l = BLACK))
     \<and> (frame_color f = RED \<longrightarrow> (\<exists>f2 q. p = f2 # q \<and> frame_color f2 = BLACK))
     \<and> path_ok (h + (if frame_color f = BLACK then 1 else 0)) p"

lemma neq_RED [simp]: "c \<noteq> RED \<longleftrightarrow> c = BLACK" "c \<noteq> BLACK \<longleftrightarrow> c = RED"
  by (cases c; simp)+

lemma plug_rb_ok:
  "path_ok (bheight t) p \<Longrightarrow> rb_ok t \<Longrightarrow> (node_color t = RED \<Longrightarrow> p = [] \<or> frame_color (hd p) = BLACK) \<Longrightarrow> rb_ok (plug t p)"
proof (induction p arbitrary: t)
  case (Cons f p)
  have red: "node_color t = RED \<longrightarrow> frame_color f = BLACK" using Cons.prems(3) by auto
  have "rb_ok (close t f)" using Cons.prems(1,2) red by (cases f) (auto simp: neq_RED)
  moreover have "path_ok (bheight (close t f)) p" using Cons.prems(1) by (cases f) auto
  moreover have "node_color (close t f) = frame_color f" by (cases f) auto
  moreover have "frame_color f = RED \<Longrightarrow> p = [] \<or> frame_color (hd p) = BLACK" using Cons.prems(1) by auto
  ultimately show ?case using Cons.IH [of "close t f"] by simp
qed simp

lemma rb_ok_paint: "rb_ok t \<Longrightarrow> rb_ok (paint BLACK t)" "t \<noteq> RBTREE_NULL \<Longrightarrow> node_color (paint c t) = c"
  "node_color (paint BLACK t) = BLACK"
  by (cases t; simp)+

lemma bheight_paint_red: "node_color t = RED \<Longrightarrow> bheight (paint BLACK t) = bheight t + 1"
  by (cases t) auto

lemma insert_fixup_ok:
  "path_ok (bheight t) p \<Longrightarrow> rb_ok t \<Longrightarrow> node_color t = RED \<Longrightarrow>
     \<exists>t'. insert_fixup t p = Some t' \<and> rb_ok t' \<and> node_color t' = BLACK"
proof (induction t p rule: insert_fixup.induct)
  case (1 t)
  then show ?case by (simp add: rb_ok_paint)
next
  case (2 t f)
  then show ?case using plug_rb_ok [of t "[f]"] by (cases "frame_color f = RED") (auto simp: rb_ok_paint)
next
  case (3 t f gc g uncle p)
  show ?case
  proof (cases "frame_color f = BLACK")
    case True
    then show ?thesis using plug_rb_ok [OF "3.prems"(1,2)] by (simp add: rb_ok_paint)
  next
    case red: False
    then have g: "gc = BLACK" "rb_ok uncle" "bheight uncle = bheight t" "path_ok (bheight t + 1) p"
      using "3.prems"(1) by (auto split: frame.splits)
    obtain ct tl x tr where t: "t = RBNode RED tl x tr" using "3.prems"(3) by (cases t) auto
    show ?thesis
    proof (cases "node_color uncle = RED")
      case True
      let ?t = "RBNode RED (paint BLACK (close t f)) g (paint BLACK uncle)"
      have "rb_ok ?t" "bheight ?t = bheight t + 1"
        using "3.prems" red g True by (cases f; auto simp: rb_ok_paint bheight_paint_red)+
      with "3.IH" [OF _ True] red g(4) True show ?thesis by simp
    next
      case black: False
      let ?r = "rbtree_rotate_right (RBNode RED (paint BLACK (case f of
              RightFrame _ _ _ \<Rightarrow> rbtree_rotate_left (close t f) | LeftFrame _ _ _ \<Rightarrow> close t f)) g uncle)"
      have "rb_ok ?r" "bheight ?r = bheight t + 1" "node_color ?r = BLACK"
        using "3.prems" red g black t by (cases f; auto)+
      with plug_rb_ok [of ?r p] g(4) red black show ?thesis by (simp add: Let_def rb_ok_paint)
    qed
  qed
next
  case (4 t f gc uncle g p)
  show ?case
  proof (cases "frame_color f = BLACK")
    case True
    then show ?thesis using plug_rb_ok [OF "4.prems"(1,2)] by (simp add: rb_ok_paint)
  next
    case red: False
    then have g: "gc = BLACK" "rb_ok uncle" "bheight uncle = bheight t" "path_ok (bheight t + 1) p"
      using "4.prems"(1) by (auto split: frame.splits)
    obtain ct tl x tr where t: "t = RBNode RED tl x tr" using "4.prems"(3) by (cases t) auto
    show ?thesis
    proof (cases "node_color uncle = RED")
      case True
      let ?t = "RBNode RED (paint BLACK uncle) g (paint BLACK (close t f))"
      have "rb_ok ?t" "bheight ?t = bheight t + 1"
        using "4.prems" red g True by (cases f; auto simp: rb_ok_paint bheight_paint_red)+
      with "4.IH" [OF _ True] red g(4) True show ?thesis by simp
    next
      case black: False
      let ?r = "rbtree_rotate_left (RBNode RED uncle g (paint BLACK (case f of
              LeftFrame _ _ _ \<Rightarrow> rbtree_rotate_right (close t f) | RightFrame _ _ _ \<Rightarrow> close t f)))"
      have "rb_ok ?r" "bheight ?r = bheight t + 1" "node_color ?r = BLACK"
        using "4.prems" red g black t by (cases f; auto)+
      with plug_rb_ok [of ?r p] g(4) red black show ?thesis by (simp add: Let_def rb_ok_paint)
    qed
  qed
qed

lemma insert_path_ok:
  "insert_path cmp k t p = Some p' \<Longrightarrow> path_ok (bheight t) p \<Longrightarrow> rb_ok t \<Longrightarrow>
     (node_color t = RED \<Longrightarrow> \<exists>f q. p = f # q \<and> frame_color f = BLACK) \<Longrightarrow> path_ok 0 p'"
proof (induction cmp k t p rule: insert_path.induct)
  case (2 cmp k c l a r p)
  then show ?case by (cases c) (auto simp: Let_def split: if_splits)
qed simp

text \<open>The height of a balanced tree is logarithmic in its size.\<close>

fun rb_height :: "'a rbnode \<Rightarrow> nat" where
  "rb_height RBTREE_NULL = 0"
| "rb_height (RBNode c l a r) = 1 + max (rb_height l) (rb_height r)"

lemma rb_height_bheight: "rb_ok t \<Longrightarrow> rb_height t \<le> 2 * bheight t + (if node_color t = RED then 1 else 0)"
  by (induction t rule: rb_ok.induct) (auto split: if_splits)

lemma bheight_size: "rb_ok t \<Longrightarrow> 2 ^ bheight t \<le> length (inorder t) + 1"
proof (induction t rule: rb_ok.induct)
  case (2 c l a r)
  then have "2 ^ bheight l \<le> length (inorder l) + 1" "(2::nat) ^ bheight l \<le> length (inorder r) + 1" by auto
  then show ?case by auto
qed simp

section \<open>The interface of an ordered tree\<close>

text \<open>
  What the tree needs of the comparison: the sign decides a strict linear order.
\<close>

locale cmp_order =
  fixes cmp :: "'k \<Rightarrow> 'k \<Rightarrow> int"
  assumes cmp_eq: "cmp a b = 0 \<longleftrightarrow> a = b"
    and cmp_flip: "0 < cmp a b \<longleftrightarrow> cmp b a < 0"
    and cmp_trans: "cmp a b < 0 \<Longrightarrow> cmp b c < 0 \<Longrightarrow> cmp a c < 0"
begin

definition in_order :: "('k \<times> 'v) list \<Rightarrow> bool" where
  "in_order xs \<longleftrightarrow> sorted_wrt (\<lambda>a b. cmp (fst a) (fst b) < 0) xs"

definition rb_inv :: "('k, 'v) rbtree_t \<Rightarrow> bool" where
  "rb_inv t \<longleftrightarrow> rb_cmp t = cmp \<and> rb_ok (rb_root t) \<and> node_color (rb_root t) = BLACK
     \<and> rb_count t = length (inorder (rb_root t)) \<and> in_order (inorder (rb_root t))"

lemma cmp_cases: "cmp a b < 0 \<or> a = b \<or> cmp b a < 0"
  using cmp_eq [of a b] cmp_flip [of a b] by linarith

lemma cmp_irrefl [simp]: "cmp a a = 0"
  by (simp add: cmp_eq)

lemma insert_path_None:
  "insert_path cmp k t p = None \<Longrightarrow> k \<in> fst ` set (inorder t)"
  by (induction t arbitrary: p) (auto simp: Let_def cmp_eq split: if_splits)

lemma insert_path_Some:
  "insert_path cmp k t p = Some p' \<Longrightarrow> in_order (before_path p @ inorder t @ after_path p) \<Longrightarrow>
     \<forall>a \<in> set (before_path p). cmp (fst a) k < 0 \<Longrightarrow> \<forall>a \<in> set (after_path p). cmp k (fst a) < 0 \<Longrightarrow>
     before_path p' @ after_path p' = before_path p @ inorder t @ after_path p \<and>
     (\<forall>a \<in> set (before_path p'). cmp (fst a) k < 0) \<and> (\<forall>a \<in> set (after_path p'). cmp k (fst a) < 0)"
proof (induction t arbitrary: p)
  case (RBNode c l a r)
  show ?case
  proof (cases "cmp k (fst a) < 0")
    case True
    have "\<forall>b \<in> set (inorder r). cmp (fst a) (fst b) < 0"
      using RBNode.prems(2) by (auto simp: in_order_def sorted_wrt_append)
    then have "\<forall>b \<in> set (inorder r). cmp k (fst b) < 0" using cmp_trans [OF True] by blast
    then have af: "\<forall>b \<in> set (after_path (LeftFrame c a r # p)). cmp k (fst b) < 0" using True RBNode.prems(4) by auto
    have "insert_path cmp k l (LeftFrame c a r # p) = Some p'" using RBNode.prems(1) True by (simp add: Let_def)
    from RBNode.IH(1) [OF this _ _ af] RBNode.prems(2,3) show ?thesis by simp
  next
    case False
    have ne: "cmp k (fst a) \<noteq> 0" using RBNode.prems(1) by (auto simp: Let_def split: if_splits)
    with False have gt: "cmp (fst a) k < 0" using cmp_flip [of k "fst a"] by linarith
    have "\<forall>b \<in> set (inorder l). cmp (fst b) (fst a) < 0"
      using RBNode.prems(2) by (auto simp: in_order_def sorted_wrt_append)
    then have "\<forall>b \<in> set (inorder l). cmp (fst b) k < 0" using cmp_trans [OF _ gt] by blast
    then have be: "\<forall>b \<in> set (before_path (RightFrame c l a # p)). cmp (fst b) k < 0" using gt RBNode.prems(3) by auto
    have "insert_path cmp k r (RightFrame c l a # p) = Some p'" using RBNode.prems(1) False ne by (simp add: Let_def)
    from RBNode.IH(2) [OF this _ be] RBNode.prems(2,4) show ?thesis by simp
  qed
qed simp

text \<open>Insertion keeps the invariant; it adds the data between the smaller and the larger keys.\<close>

lemma rbtree_insert_ok:
  assumes "rb_inv t"
  shows "\<exists>ok t'. rbtree_insert data t = Some (ok, t') \<and> rb_inv t' \<and> (ok \<longleftrightarrow> fst data \<notin> fst ` set (inorder (rb_root t)))
    \<and> (ok \<longrightarrow> (\<exists>l r. inorder (rb_root t) = l @ r \<and> inorder (rb_root t') = l @ data # r)) \<and> (\<not> ok \<longrightarrow> t' = t)"
proof (cases "insert_path cmp (fst data) (rb_root t) []")
  case None
  with assms show ?thesis using insert_path_None [OF None] by (auto simp: rbtree_insert_def rb_inv_def)
next
  case (Some p)
  let ?n = "RBNode RED RBTREE_NULL data RBTREE_NULL"
  have io: "in_order (inorder (rb_root t))" using assms by (simp add: rb_inv_def)
  have ip: "before_path p @ after_path p = inorder (rb_root t)" "\<forall>a \<in> set (before_path p). cmp (fst a) (fst data) < 0"
    "\<forall>a \<in> set (after_path p). cmp (fst data) (fst a) < 0"
    using insert_path_Some [OF Some] io by auto
  have po: "path_ok 0 p" using insert_path_ok [OF Some] assms by (simp add: rb_inv_def)
  obtain root where r: "insert_fixup ?n p = Some root" "rb_ok root" "node_color root = BLACK"
    using insert_fixup_ok [of ?n p] po by auto
  have ir: "inorder root = before_path p @ data # after_path p"
    using insert_fixup_inorder [OF r(1)] by (simp add: inorder_plug)
  have "in_order (before_path p @ after_path p)" using io ip(1) by simp
  then have "in_order (inorder root)" unfolding ir using ip(2,3) by (auto simp: in_order_def sorted_wrt_append)
  moreover have "fst data \<notin> fst ` set (before_path p @ after_path p)"
    using ip(2,3) cmp_irrefl [of "fst data"] by fastforce
  moreover have e: "rbtree_insert data t = Some (True, t\<lparr>rb_root := root, rb_count := rb_count t + 1\<rparr>)"
    using assms Some r(1) by (simp add: rbtree_insert_def rb_inv_def)
  moreover have "length (inorder root) = rb_count t + 1"
    using assms ir arg_cong [OF ip(1), of length] by (simp add: rb_inv_def)
  ultimately have inv: "rb_inv (t\<lparr>rb_root := root, rb_count := rb_count t + 1\<rparr>)" and nk: "fst data \<notin> fst ` set (inorder (rb_root t))"
    using assms r(2,3) ip(1) by (simp_all add: rb_inv_def)
  show ?thesis
  proof (intro exI conjI)
    show "rbtree_insert data t = Some (True, t\<lparr>rb_root := root, rb_count := rb_count t + 1\<rparr>)" by (rule e)
    show "rb_inv (t\<lparr>rb_root := root, rb_count := rb_count t + 1\<rparr>)" by (rule inv)
    show "True \<longleftrightarrow> fst data \<notin> fst ` set (inorder (rb_root t))" using nk by simp
    show "True \<longrightarrow> (\<exists>l r. inorder (rb_root t) = l @ r \<and> inorder (rb_root (t\<lparr>rb_root := root, rb_count := rb_count t + 1\<rparr>)) = l @ data # r)"
      using ir ip(1) [symmetric] by auto
  qed simp
qed

text \<open>The search returns the last entry whose key is not above the given one.\<close>

definition last_le :: "'k \<Rightarrow> ('k \<times> 'v) list \<Rightarrow> ('k \<times> 'v) option" where
  "last_le k xs = (let ys = filter (\<lambda>a. cmp (fst a) k \<le> 0) xs in if ys = [] then None else Some (last ys))"

lemma filter_le_sorted:
  assumes "in_order (xs @ a # ys)"
  shows "cmp k (fst a) < 0 \<Longrightarrow> filter (\<lambda>b. cmp (fst b) k \<le> 0) (xs @ a # ys) = filter (\<lambda>b. cmp (fst b) k \<le> 0) xs"
    and "cmp (fst a) k \<le> 0 \<Longrightarrow> filter (\<lambda>b. cmp (fst b) k \<le> 0) (xs @ a # ys) = xs @ a # filter (\<lambda>b. cmp (fst b) k \<le> 0) ys"
proof -
  show "filter (\<lambda>b. cmp (fst b) k \<le> 0) (xs @ a # ys) = filter (\<lambda>b. cmp (fst b) k \<le> 0) xs" if lt: "cmp k (fst a) < 0"
  proof -
    have "\<not> cmp (fst b) k \<le> 0" if "b \<in> set (a # ys)" for b
    proof -
      have "cmp k (fst b) < 0" using that lt assms cmp_trans [OF lt] by (auto simp: in_order_def sorted_wrt_append)
      then show ?thesis using cmp_flip [of "fst b" k] by linarith
    qed
    then show ?thesis by (simp add: filter_empty_conv)
  qed
  show "filter (\<lambda>b. cmp (fst b) k \<le> 0) (xs @ a # ys) = xs @ a # filter (\<lambda>b. cmp (fst b) k \<le> 0) ys" if le: "cmp (fst a) k \<le> 0"
  proof -
    have "cmp (fst b) k \<le> 0" if "b \<in> set xs" for b
    proof -
      have "cmp (fst b) (fst a) < 0" using that assms by (auto simp: in_order_def sorted_wrt_append)
      then show ?thesis using le cmp_trans [of "fst b" "fst a" k] cmp_eq [of "fst a" k] by fastforce
    qed
    with le show ?thesis by (simp add: filter_id_conv)
  qed
qed

lemma find_less_equal_last:
  "in_order (inorder t) \<Longrightarrow> find_less_equal cmp k t res =
     (k \<in> fst ` set (inorder t), case last_le k (inorder t) of None \<Rightarrow> res | Some a \<Rightarrow> Some a)"
proof (induction t arbitrary: res)
  case RBTREE_NULL
  then show ?case by (simp add: last_le_def)
next
  case (RBNode c l a r)
  have io: "in_order (inorder l)" "in_order (inorder r)" using RBNode.prems by (auto simp: in_order_def sorted_wrt_append)
  have sep: "\<forall>b \<in> set (inorder l). cmp (fst b) (fst a) < 0" "\<forall>b \<in> set (inorder r). cmp (fst a) (fst b) < 0"
    using RBNode.prems by (auto simp: in_order_def sorted_wrt_append)
  note fl = filter_le_sorted [OF RBNode.prems [unfolded inorder.simps], of k]
  consider (eq) "k = fst a" | (lt) "cmp k (fst a) < 0" | (gt) "cmp (fst a) k < 0" using cmp_cases by blast
  then show ?case
  proof cases
    case eq
    have "filter (\<lambda>b. cmp (fst b) k \<le> 0) (inorder r) = []"
      unfolding filter_empty_conv
    proof
      fix b
      assume "b \<in> set (inorder r)"
      with sep(2) eq have "cmp k (fst b) < 0" by simp
      then show "\<not> cmp (fst b) k \<le> 0" using cmp_flip [of "fst b" k] by linarith
    qed
    with eq fl(2) show ?thesis by (simp add: last_le_def Let_def)
  next
    case lt
    then have "k \<notin> fst ` set (a # inorder r)" using sep(2) cmp_trans [OF lt] cmp_irrefl by fastforce
    with lt fl(1) RBNode.IH(1) [OF io(1)] show ?thesis by (auto simp: Let_def last_le_def)
  next
    case gt
    then have d: "cmp k (fst a) > 0" using cmp_flip by simp
    have "k \<notin> fst ` set (inorder l @ [a])" using sep(1) gt cmp_trans cmp_irrefl by fastforce
    with gt d fl(2) RBNode.IH(2) [OF io(2)] show ?thesis
      by (auto simp: Let_def last_le_def)
  qed
qed

lemma rbtree_find_less_equal_ok:
  "rb_inv t \<Longrightarrow> rbtree_find_less_equal t k = (k \<in> fst ` set (inorder (rb_root t)), last_le k (inorder (rb_root t)))"
  using find_less_equal_last [of "rb_root t" k None]
  by (auto simp: rbtree_find_less_equal_def rb_inv_def split: option.splits)

lemma rbtree_elems_ok: "rb_inv t \<Longrightarrow> rbtree_elems t = inorder (rb_root t)"
  unfolding rbtree_elems_def by (subst walk_rest) (simp_all add: rest_of_first rb_inv_def)

lemma rb_inv_init: "rb_inv (rbtree_init cmp)"
  by (simp add: rb_inv_def rbtree_init_def in_order_def)

lemma rb_height_bound:
  assumes "rb_inv t"
  shows "2 ^ rb_height (rb_root t) \<le> (rb_count t + 1) ^ 2"
proof -
  have ok: "rb_ok (rb_root t)" "node_color (rb_root t) = BLACK" "rb_count t = length (inorder (rb_root t))"
    using assms by (auto simp: rb_inv_def)
  have "rb_height (rb_root t) \<le> 2 * bheight (rb_root t)" using rb_height_bheight [OF ok(1)] ok(2) by simp
  then have "(2::nat) ^ rb_height (rb_root t) \<le> 2 ^ (2 * bheight (rb_root t))" by (rule power_increasing) simp
  also have "\<dots> = (2 ^ bheight (rb_root t)) ^ 2" by (metis power_mult mult.commute)
  also have "\<dots> \<le> (rb_count t + 1) ^ 2" using bheight_size [OF ok(1)] ok(3) by (intro power_mono) auto
  finally show ?thesis .
qed

end

end
