(* ===== verification/ProcessRules.thy ===== *)
theory ProcessRules
  imports PatternCorrect
begin

text \<open>
  Which rules apply to a process and what they decide: \<^verbatim>\<open>Sandboxie/core/drv/process_util.c\<close>.
  Image names and process groups (\<^verbatim>\<open>Process_MatchImage\<close>, \<^verbatim>\<open>Process_MatchImageGroup\<close>), settings
  that depend on the image (\<^verbatim>\<open>Process_GetConfEx\<close>), the rule lists of a process
  (\<^verbatim>\<open>Process_GetPaths\<close>, \<^verbatim>\<open>Process_AddPath\<close>) and the decision over them
  (\<^verbatim>\<open>Process_MatchPath\<close>, \<^verbatim>\<open>Process_MatchPathEx\<close>).
\<close>

section \<open>Data\<close>

text \<open>The fields of \<^verbatim>\<open>BOX\<close> and \<^verbatim>\<open>PROCESS\<close> the functions below read; \<open>proc_addr\<close> is the address.\<close>

record box_rec =
  box_name :: wstring
  box_session_id :: u32

record process =
  proc_addr :: nat
  proc_box :: box_rec
  proc_pid :: nat
  starter_id :: nat
  create_time :: "64 word"
  proc_image_name :: wstring
  terminated :: bool
  untouchable :: bool
  image_from_box :: bool
  image_sbie :: bool
  protect_host_images :: bool
  always_close_for_boxed :: bool
  restrict_devices :: bool
  use_privacy_mode :: bool
  bAppCompartment :: bool
  use_rule_specificity :: bool
  file_block_network_files :: bool

text \<open>
  What the functions call: the allocator, \<^verbatim>\<open>Conf_Expand\<close>, \<^verbatim>\<open>File_TranslateReparsePoints\<close>, and the
  configuration.  \<open>env_conf section setting\<close> lists what \<^verbatim>\<open>Conf_Get(section, setting, index)\<close>
  returns for index 0, 1, ... up to the first NULL.  \<open>env_prv\<close> and \<open>env_stack\<close> are the values of
  memory the source reads without having written it (see \<^const>\<open>Pattern_Create\<close> and
  \<open>Process_AddPath\<close>).
\<close>

record conf_env =
  env_alloc :: "nat \<Rightarrow> bool"
  env_expand :: "wstring \<Rightarrow> wstring option \<Rightarrow> wstring option"
  env_reparse :: "wstring \<Rightarrow> wstring option"
  env_conf :: "wstring \<Rightarrow> wstring \<Rightarrow> wstring list"
  env_prv :: wchar
  env_stack :: u32

section \<open>Who may touch whom\<close>

text \<open>
  \<^verbatim>\<open>Process_IsSameBox\<close>; \<open>proc_find\<close> is \<^verbatim>\<open>Process_Find\<close>, called when no process object is given.
\<close>

definition Process_IsSameBox ::
  "(nat \<Rightarrow> process option) \<Rightarrow> process \<Rightarrow> process option \<Rightarrow> nat \<Rightarrow> bool" where
  "Process_IsSameBox proc_find proc proc2 proc2_pid =
     (case (case proc2 of Some p \<Rightarrow> Some p | None \<Rightarrow> proc_find proc2_pid) of
        None \<Rightarrow> False
      | Some p2 \<Rightarrow>
          if proc_addr p2 = proc_addr proc then True
          else if \<not> terminated p2 \<and> \<not> untouchable p2 then
            (if \<not> image_from_box p2 \<and> protect_host_images p2 \<and> image_from_box proc then False
             else box_session_id (proc_box proc) = box_session_id (proc_box p2)
                  \<and> length (box_name (proc_box proc)) = length (box_name (proc_box p2))
                  \<and> wcsicmp_eq (box_name (proc_box proc)) (box_name (proc_box p2)))
          else False)"

definition Process_IsStarter :: "process \<Rightarrow> process \<Rightarrow> bool" where
  "Process_IsStarter proc1 proc2 =
     (if create_time proc2 < create_time proc1 then False
      else if box_session_id (proc_box proc1) \<noteq> box_session_id (proc_box proc2) then False
      else proc_pid proc1 = starter_id proc2)"

section \<open>Image names and process groups\<close>

text \<open>The length of the first item of a comma-separated list, and the text behind it.\<close>

definition item_len :: "wstring \<Rightarrow> nat" where
  "item_len value = (case wcschr value CHR '','' of Some k \<Rightarrow> k | None \<Rightarrow> length value)"

definition next_item :: "wstring \<Rightarrow> wstring" where
  "next_item value = dropWhile (\<lambda>c. c = CHR '','') (drop (item_len value) value)"

lemma next_item_shorter:
  assumes "value \<noteq> []"
  shows "length (next_item value) < length value"
proof (cases "item_len value = 0")
  case True
  with assms have "deref value = CHR '',''"
    by (cases "value") (auto simp: item_len_def wcschr_def split: option.splits if_splits)
  with assms True show ?thesis
    by (cases "value") (auto simp: next_item_def le_imp_less_Suc length_dropWhile_le)
next
  case False
  have "length (next_item value) \<le> length value - item_len value"
    using length_dropWhile_le [of _ "drop (item_len value) value"] by (simp add: next_item_def)
  with assms False show ?thesis by (cases "value") auto
qed

text \<open>
  The text \<^verbatim>\<open>Process_MatchImage\<close> expands: the first \<open>pat_len\<close> units of \<open>pat_str\<close>, or all of it.
  \<^const>\<open>None\<close> is a failed allocation.
\<close>

definition image_text :: "conf_env \<Rightarrow> wstring \<Rightarrow> nat \<Rightarrow> wstring option" where
  "image_text env pat_str pat_len =
     (if pat_len \<noteq> 0 then
        (if env_alloc env ((pat_len + 1) * sizeof_WCHAR) then Some (take pat_len pat_str) else None)
      else Some pat_str)"

text \<open>The value of a ProcessGroup setting behind the name of the group, if it is that group's.\<close>

definition group_items :: "wstring \<Rightarrow> nat \<Rightarrow> wstring \<Rightarrow> wstring option" where
  "group_items grp group_len value =
     (if length value \<le> group_len + 1 then None
      else if \<not> wcsnicmp_eq value grp group_len then None
      else if deref (drop group_len value) \<noteq> CHR '','' then None
      else Some (drop (group_len + 1) value))"

text \<open>
  \<^verbatim>\<open>Process_MatchImage\<close> and \<^verbatim>\<open>Process_MatchImageGroup\<close>; the group's two loops are
  \<open>match_group_values\<close> (over the settings) and \<open>match_group_items\<close> (over the items of one).
  \<open>fuel\<close> is that of the pattern matcher, \<^const>\<open>None\<close> a match that did not end.
\<close>

function Process_MatchImage ::
    "nat \<Rightarrow> conf_env \<Rightarrow> wstring \<Rightarrow> wstring \<Rightarrow> nat \<Rightarrow> wstring \<Rightarrow> nat \<Rightarrow> bool option"
  and Process_MatchImageGroup ::
    "nat \<Rightarrow> conf_env \<Rightarrow> wstring \<Rightarrow> wstring \<Rightarrow> nat \<Rightarrow> wstring \<Rightarrow> nat \<Rightarrow> bool option"
  and match_group_values ::
    "nat \<Rightarrow> conf_env \<Rightarrow> wstring \<Rightarrow> wstring \<Rightarrow> nat \<Rightarrow> wstring \<Rightarrow> nat \<Rightarrow> wstring list \<Rightarrow> bool option"
  and match_group_items ::
    "nat \<Rightarrow> conf_env \<Rightarrow> wstring \<Rightarrow> wstring \<Rightarrow> nat \<Rightarrow> wstring \<Rightarrow> bool option" where
  "Process_MatchImage fuel env box pat_str pat_len test_str depth =
     (case image_text env pat_str pat_len of
        None \<Rightarrow> Some False
      | Some txt \<Rightarrow>
          (case env_expand env txt None of
             None \<Rightarrow> Some False
           | Some expnd \<Rightarrow>
               (case Pattern_Create (env_alloc env) (env_prv env) (Some expnd) True 0 of
                  Ret (Some pat) \<Rightarrow>
                    if deref pat_str = CHR ''<'' then
                      Process_MatchImageGroup fuel env box (Pattern_Source pat) 0 test_str (depth + 1)
                    else if \<not> env_alloc env ((length test_str + 1) * sizeof_WCHAR) then Some False
                    else Pattern_Match fuel pat (Some (wcslwr test_str)) (length (wcslwr test_str))
                | _ \<Rightarrow> Some False)))"
| "Process_MatchImageGroup fuel env box grp group_len test_str depth =
     match_group_values fuel env box grp (if group_len = 0 then length grp else group_len)
       test_str depth (env_conf env box ''ProcessGroup'')"
| "match_group_values fuel env box grp group_len test_str depth [] = Some False"
| "match_group_values fuel env box grp group_len test_str depth (value # values) =
     (case group_items grp group_len value of
        None \<Rightarrow> match_group_values fuel env box grp group_len test_str depth values
      | Some items \<Rightarrow>
          (case match_group_items fuel env box test_str depth items of
             None \<Rightarrow> None
           | Some match \<Rightarrow>
               if match then Some True
               else match_group_values fuel env box grp group_len test_str depth values))"
| "match_group_items fuel env box test_str depth value =
     (if value = [] then Some False
      else
        (case (if item_len value = 0 then Some False
               else if deref value \<noteq> CHR ''<'' then
                 Process_MatchImage fuel env box value (item_len value) test_str (depth + 1)
               else if depth < 6 then
                 Process_MatchImageGroup fuel env box value (item_len value) test_str (depth + 1)
               else Some False) of
           None \<Rightarrow> None
         | Some match \<Rightarrow>
             if match then Some True
             else match_group_items fuel env box test_str depth (next_item value)))"
  by pat_completeness auto
termination
proof (relation "measures
  [case_sum (case_sum (\<lambda>(_, _, _, pat_str, _). if deref pat_str = CHR ''<'' then 8 else 0)
               (\<lambda>(_, _, _, _, _, _, depth). 7 - depth))
            (case_sum (\<lambda>(_, _, _, _, _, _, depth, _). 7 - depth) (\<lambda>(_, _, _, _, depth, _). 7 - depth)),
   case_sum (case_sum (\<lambda>_. 0) (\<lambda>_. 3)) (case_sum (\<lambda>_. 2) (\<lambda>_. 1)),
   case_sum (case_sum (\<lambda>_. 0) (\<lambda>_. 0))
            (case_sum (\<lambda>(_, _, _, _, _, _, _, vs). length vs) (\<lambda>(_, _, _, _, _, v). length v))]",
  goal_cases)
qed (auto simp: next_item_shorter)

declare Process_MatchImage.simps [simp del] Process_MatchImageGroup.simps [simp del]
  match_group_items.simps [simp del]

section \<open>Settings that depend on the image\<close>

text \<open>
  \<^verbatim>\<open>Process_MatchImageAndGetValue\<close>: the value behind the image name, \<^const>\<open>None\<close> for NULL, and
  what was stored through \<^verbatim>\<open>pLevel\<close>, \<^const>\<open>None\<close> when nothing was.
\<close>

definition Process_MatchImageAndGetValue ::
  "nat \<Rightarrow> conf_env \<Rightarrow> wstring \<Rightarrow> wstring \<Rightarrow> wstring \<Rightarrow> (wstring option \<times> u32 option) option" where
  "Process_MatchImageAndGetValue fuel env box value ImageName =
     (case wcschr value CHR '','' of
        Some tmp \<Rightarrow>
          (let inv = (deref value = CHR ''!'');
               value1 = (if inv then tl value else value);
               len = (if inv then tmp - 1 else tmp);
               rest = drop (tmp + 1) value;
               ret = (if rest = [] then None else Some rest)
           in if len \<noteq> 0 then
                (case Process_MatchImage fuel env box value1 len ImageName 1 of
                   None \<Rightarrow> None
                 | Some match \<Rightarrow>
                     if match = inv then Some (None, None)
                     else Some (ret, Some (if len = 1 \<and> deref value1 = STAR then 2
                                           else if inv then 1 else 0)))
              else Some (ret, None))
      | None \<Rightarrow> Some (if value = [] then None else Some value, Some 3))"

text \<open>The loop of \<^verbatim>\<open>Process_GetConfEx\<close>.\<close>

fun getconf_loop ::
  "nat \<Rightarrow> conf_env \<Rightarrow> wstring \<Rightarrow> wstring \<Rightarrow> wstring list \<Rightarrow> wstring option \<Rightarrow> u32
     \<Rightarrow> wstring option option" where
  "getconf_loop fuel env box img [] found_value found_level = Some found_value"
| "getconf_loop fuel env box img (v # values) found_value found_level =
     (case Process_MatchImageAndGetValue fuel env box v img of
        None \<Rightarrow> None
      | Some (value, lv) \<Rightarrow>
          (let level = (case lv of None \<Rightarrow> - 1 | Some l \<Rightarrow> l)
           in if value = None \<or> found_level < level
              then getconf_loop fuel env box img values found_value found_level
              else getconf_loop fuel env box img values value level))"

definition Process_GetConfEx ::
  "nat \<Rightarrow> conf_env \<Rightarrow> wstring \<Rightarrow> wstring \<Rightarrow> wstring \<Rightarrow> wstring option option" where
  "Process_GetConfEx fuel env box image_name setting =
     getconf_loop fuel env box image_name (env_conf env box setting) None (- 1)"

definition Process_GetConf ::
  "nat \<Rightarrow> conf_env \<Rightarrow> process \<Rightarrow> wstring \<Rightarrow> wstring option option" where
  "Process_GetConf fuel env proc setting =
     Process_GetConfEx fuel env (box_name (proc_box proc)) (proc_image_name proc) setting"

definition Process_GetConfEx_bool ::
  "nat \<Rightarrow> conf_env \<Rightarrow> wstring \<Rightarrow> wstring \<Rightarrow> wstring \<Rightarrow> bool \<Rightarrow> bool option" where
  "Process_GetConfEx_bool fuel env box image_name setting dflt =
     map_option (\<lambda>value. case value of
         None \<Rightarrow> dflt
       | Some v \<Rightarrow> if deref v = CHR ''y'' \<or> deref v = CHR ''Y'' then True
                   else if deref v = CHR ''n'' \<or> deref v = CHR ''N'' then False
                   else dflt)
       (Process_GetConfEx fuel env box image_name setting)"

definition Process_GetConf_bool ::
  "nat \<Rightarrow> conf_env \<Rightarrow> process \<Rightarrow> wstring \<Rightarrow> bool \<Rightarrow> bool option" where
  "Process_GetConf_bool fuel env proc setting dflt =
     Process_GetConfEx_bool fuel env (box_name (proc_box proc)) (proc_image_name proc) setting dflt"

section \<open>The rule lists of a process\<close>

text \<open>The copying loop of \<^verbatim>\<open>Process_AddPath_2\<close>: a backslash before a backslash is skipped.\<close>

fun remove_backslashes :: "wstring \<Rightarrow> wstring" where
  "remove_backslashes [] = []"
| "remove_backslashes (c # s) =
     (if c = BS \<and> deref s = BS then remove_backslashes s else c # remove_backslashes s)"

text \<open>
  The text \<^verbatim>\<open>Process_AddPath_2\<close> builds from the expanded value, and the bytes it allocates for it.
\<close>

definition path_text :: "bool \<Rightarrow> bool \<Rightarrow> wstring \<Rightarrow> wstring" where
  "path_text AddStar RemoveBackslashes expand =
     (if RemoveBackslashes then remove_backslashes expand else expand)
       @ (if AddStar \<and> STAR \<notin> set expand then [STAR] else [])"

definition path_text_bytes :: "bool \<Rightarrow> wstring \<Rightarrow> nat" where
  "path_text_bytes AddStar expand =
     (length expand + 1) * sizeof_WCHAR
       + (if AddStar \<and> STAR \<notin> set expand then sizeof_WCHAR else 0)"

text \<open>
  \<^verbatim>\<open>Process_AddPath_2\<close>: the result, \<^verbatim>\<open>*Reparsed\<close> and the new list.  \<^verbatim>\<open>List_Insert_Before(list, NULL,
  pat)\<close> inserts at the head, \<^verbatim>\<open>List_Insert_After(list, NULL, pat)\<close> at the tail.
\<close>

definition Process_AddPath_2 ::
  "conf_env \<Rightarrow> pattern list \<Rightarrow> wstring \<Rightarrow> wstring option \<Rightarrow> bool \<Rightarrow> bool \<Rightarrow> bool \<Rightarrow> bool \<Rightarrow> u32
     \<Rightarrow> bool \<times> bool \<times> pattern list" where
  "Process_AddPath_2 env lst value setting_name AddFirst AddStar RemoveBackslashes CheckReparse Level =
     (case env_expand env value setting_name of
        None \<Rightarrow> (False, False, lst)
      | Some expand \<Rightarrow>
          if \<not> env_alloc env (path_text_bytes AddStar expand) then (False, False, lst)
          else
            let tmp = path_text AddStar RemoveBackslashes expand;
                tmp2 = (if CheckReparse then env_reparse env tmp else None);
                reparsed = (case tmp2 of None \<Rightarrow> False | Some t \<Rightarrow> \<not> wcsicmp_eq tmp t);
                tmp3 = (case tmp2 of None \<Rightarrow> tmp | Some t \<Rightarrow> t)
            in case Pattern_Create (env_alloc env) (env_prv env) (Some tmp3) True Level of
                 Ret (Some pat) \<Rightarrow> (True, reparsed, if AddFirst then pat # lst else lst @ [pat])
               | _ \<Rightarrow> (False, reparsed, lst))"

text \<open>
  The two calls \<^verbatim>\<open>Process_AddPath\<close> makes for a value: with the reparse points followed, and, if
  that changed the path, once more for the path as written.
\<close>

definition add_path_pair ::
  "conf_env \<Rightarrow> pattern list \<Rightarrow> wstring \<Rightarrow> wstring option \<Rightarrow> bool \<Rightarrow> bool \<Rightarrow> bool \<Rightarrow> bool \<Rightarrow> u32
     \<Rightarrow> bool \<times> pattern list" where
  "add_path_pair env lst value setting_name AddFirst AddStar RemoveBackslashes CheckReparse Level =
     (case Process_AddPath_2 env lst value setting_name AddFirst AddStar RemoveBackslashes
             CheckReparse Level of
        (ok, reparsed, lst1) \<Rightarrow>
          if ok \<and> CheckReparse \<and> reparsed then
            (case Process_AddPath_2 env lst1 value setting_name AddFirst AddStar RemoveBackslashes
                    False Level of (ok2, _, lst2) \<Rightarrow> (ok2, lst2))
          else (ok, lst1))"

text \<open>The loop over the drive letters.\<close>

fun add_drives ::
  "conf_env \<Rightarrow> wchar list \<Rightarrow> pattern list \<Rightarrow> wstring \<Rightarrow> wstring option \<Rightarrow> bool \<Rightarrow> bool \<Rightarrow> bool \<Rightarrow> bool
     \<Rightarrow> u32 \<Rightarrow> bool \<times> pattern list" where
  "add_drives env [] lst value setting_name AddFirst AddStar RemoveBackslashes CheckReparse Level =
     (True, lst)"
| "add_drives env (d # ds) lst value setting_name AddFirst AddStar RemoveBackslashes CheckReparse Level =
     (case add_path_pair env lst (d # tl value) setting_name AddFirst AddStar RemoveBackslashes
             CheckReparse Level of
        (ok, lst1) \<Rightarrow>
          if ok then add_drives env ds lst1 value setting_name AddFirst AddStar RemoveBackslashes
                       CheckReparse Level
          else (False, lst1))"

text \<open>The setting name behind Normal, Closed, Write, Read or Open.\<close>

definition setting_kind :: "wstring \<Rightarrow> wstring option" where
  "setting_kind setting_name =
     (if wcsnicmp_eq setting_name ''Normal'' 6 \<or> wcsnicmp_eq setting_name ''Closed'' 6
        then Some (drop 6 setting_name)
      else if wcsnicmp_eq setting_name ''Write'' 5 then Some (drop 5 setting_name)
      else if wcsnicmp_eq setting_name ''Read'' 4 \<or> wcsnicmp_eq setting_name ''Open'' 4
        then Some (drop 4 setting_name)
      else None)"

text \<open>\<^verbatim>\<open>RemoveBackslashes\<close>, \<^verbatim>\<open>CheckReparse\<close> and \<^verbatim>\<open>AddDrives\<close>.\<close>

definition path_options :: "wstring option \<Rightarrow> bool \<Rightarrow> bool \<times> bool \<times> bool" where
  "path_options setting_name AddStar =
     (case (case setting_name of None \<Rightarrow> None | Some n \<Rightarrow> setting_kind n) of
        None \<Rightarrow> (False, False, False)
      | Some k \<Rightarrow>
          if wcsnicmp_eq k ''Key'' 3 \<or> wcsnicmp_eq k ''Conf'' 4 then (AddStar, False, False)
          else if wcsnicmp_eq k ''File'' 4 \<or> wcsnicmp_eq k ''Pipe'' 4 then (AddStar, AddStar, True)
          else (False, False, False))"

text \<open>
  \<^verbatim>\<open>Process_AddPath\<close>.  When \<^verbatim>\<open>Process_MatchImageAndGetValue\<close> returns a value without storing a
  level, the local \<^verbatim>\<open>Level\<close> holds what was on the stack.
\<close>

definition Process_AddPath ::
  "nat \<Rightarrow> conf_env \<Rightarrow> process \<Rightarrow> pattern list \<Rightarrow> wstring option \<Rightarrow> bool \<Rightarrow> wstring \<Rightarrow> bool
     \<Rightarrow> (bool \<times> pattern list) option" where
  "Process_AddPath fuel env proc lst setting_name AddFirst value AddStar =
     (case path_options setting_name AddStar of (RemoveBackslashes, CheckReparse, AddDrives) \<Rightarrow>
        (case Process_MatchImageAndGetValue fuel env (box_name (proc_box proc)) value
                (proc_image_name proc) of
           None \<Rightarrow> None
         | Some (None, _) \<Rightarrow> Some (True, lst)
         | Some (Some value1, lv) \<Rightarrow>
             (let Level = (case lv of None \<Rightarrow> env_stack env | Some l \<Rightarrow> l);
                  bar = (RemoveBackslashes \<and> deref value1 = CHR ''|'');
                  value2 = (if bar then tl value1 else value1);
                  AddStar2 = (AddStar \<and> \<not> bar)
              in case add_path_pair env lst value2 setting_name AddFirst AddStar2 RemoveBackslashes
                        CheckReparse Level of
                   (ok, lst1) \<Rightarrow>
                     if ok \<and> AddDrives \<and> (deref value2 = QMARK \<or> deref value2 = STAR)
                        \<and> deref (drop 1 value2) = CHR '':'' then
                       (if env_alloc env ((length value2 + 1) * sizeof_WCHAR) then
                          Some (add_drives env ''ABCDEFGHIJKLMNOPQRSTUVWXYZ'' lst1 value2 setting_name
                                  AddFirst AddStar2 RemoveBackslashes CheckReparse Level)
                        else Some (False, lst1))
                     else Some (ok, lst1))))"

text \<open>The loop of \<^verbatim>\<open>Process_GetPaths\<close>, and the function.\<close>

definition closed_value :: "process \<Rightarrow> wstring \<Rightarrow> wstring \<Rightarrow> wstring option" where
  \<comment> \<open>the treatment of a negated image name in a Closed setting; \<^const>\<open>None\<close> skips the setting\<close>
  "closed_value proc setting_name value =
     (let closed = wcsnicmp_eq setting_name ''Closed'' 6;
          closed_ipc = (closed \<and> wcsnicmp_eq (drop 6 setting_name) ''Ipc'' 3)
      in if closed \<and> deref value = CHR ''!'' then
           (if closed_ipc \<and> image_sbie proc then None
            else if image_from_box proc \<and> always_close_for_boxed proc then
              map_option (\<lambda>k. drop (k + 1) value) (wcschr value CHR '','')
            else Some value)
         else Some value)"

fun getpaths_loop ::
  "nat \<Rightarrow> conf_env \<Rightarrow> process \<Rightarrow> wstring \<Rightarrow> bool \<Rightarrow> wstring list \<Rightarrow> pattern list
     \<Rightarrow> (bool \<times> pattern list) option" where
  "getpaths_loop fuel env proc setting_name AddStar [] lst = Some (True, lst)"
| "getpaths_loop fuel env proc setting_name AddStar (v # values) lst =
     (case closed_value proc setting_name v of
        None \<Rightarrow> getpaths_loop fuel env proc setting_name AddStar values lst
      | Some value \<Rightarrow>
          (case Process_AddPath fuel env proc lst (Some setting_name) False value AddStar of
             None \<Rightarrow> None
           | Some (ok, lst1) \<Rightarrow>
               if ok then getpaths_loop fuel env proc setting_name AddStar values lst1
               else Some (False, lst1)))"

definition Process_GetPaths ::
  "nat \<Rightarrow> conf_env \<Rightarrow> process \<Rightarrow> pattern list \<Rightarrow> wstring \<Rightarrow> wstring \<Rightarrow> bool
     \<Rightarrow> (bool \<times> pattern list) option" where
  "Process_GetPaths fuel env proc lst section_name setting_name AddStar =
     getpaths_loop fuel env proc setting_name AddStar (env_conf env section_name setting_name) lst"

text \<open>One guarded call of \<^verbatim>\<open>Process_GetTemplatePaths\<close>: \<^verbatim>\<open>if (ok && cond) ok = Process_GetPaths(...)\<close>.\<close>

definition template_step ::
  "nat \<Rightarrow> conf_env \<Rightarrow> process \<Rightarrow> wstring \<Rightarrow> bool \<Rightarrow> wstring \<Rightarrow> (bool \<times> pattern list) option
     \<Rightarrow> (bool \<times> pattern list) option" where
  "template_step fuel env proc setting_name cond section_name r =
     (case r of
        None \<Rightarrow> None
      | Some (ok, lst) \<Rightarrow>
          if ok \<and> cond then Process_GetPaths fuel env proc lst section_name setting_name False
          else Some (ok, lst))"

definition Process_GetTemplatePaths ::
  "nat \<Rightarrow> conf_env \<Rightarrow> process \<Rightarrow> pattern list \<Rightarrow> wstring \<Rightarrow> (bool \<times> pattern list) option" where
  "Process_GetTemplatePaths fuel env proc lst setting_name =
     template_step fuel env proc setting_name (bAppCompartment proc) ''TemplateAppCPaths''
       (template_step fuel env proc setting_name (use_privacy_mode proc) ''TemplatePModPaths''
         (template_step fuel env proc setting_name (restrict_devices proc) ''TemplateSModPaths''
           (Process_GetPaths fuel env proc lst ''TemplateDefaultPaths'' setting_name False)))"

section \<open>The decision\<close>

text \<open>
  The two equal loops of \<^verbatim>\<open>Process_MatchPath\<close>: the first rule that matches the path, or the path
  with a backslash behind it.
\<close>

fun match_path_loop :: "nat \<Rightarrow> wstring \<Rightarrow> pattern list \<Rightarrow> wstring option option" where
  "match_path_loop fuel path [] = Some None"
| "match_path_loop fuel path (pat # pats) =
     (case Pattern_Match fuel pat (Some path) (length path) of
        None \<Rightarrow> None
      | Some True \<Rightarrow> Some (Some (Pattern_Source pat))
      | Some False \<Rightarrow>
          if last path \<noteq> BS then
            (case Pattern_Match fuel pat (Some (path @ [BS])) (length path + 1) of
               None \<Rightarrow> None
             | Some True \<Rightarrow> Some (Some (Pattern_Source pat))
             | Some False \<Rightarrow> match_path_loop fuel path pats)
          else match_path_loop fuel path pats)"

text \<open>The result of \<^verbatim>\<open>Process_MatchPath\<close>: \<open>patsrc\<close>, \<open>is_open\<close>, \<open>is_closed\<close>.\<close>

definition Process_MatchPath ::
  "nat \<Rightarrow> conf_env \<Rightarrow> wstring \<Rightarrow> nat \<Rightarrow> pattern list option \<Rightarrow> pattern list option
     \<Rightarrow> (wstring option \<times> bool \<times> bool) option" where
  "Process_MatchPath fuel env path path_len open_list closed_list =
     (if \<not> env_alloc env ((path_len + 4) * sizeof_WCHAR) then Some (None, False, False)
      else
        let path_lwr = wcslwr (take path_len path)
        in if path_lwr = [] then Some (None, False, False)
        else
          (case (case closed_list of None \<Rightarrow> Some None | Some l \<Rightarrow> match_path_loop fuel path_lwr l) of
             None \<Rightarrow> None
           | Some (Some src) \<Rightarrow> Some (Some src, False, True)
           | Some None \<Rightarrow>
               (case (case open_list of None \<Rightarrow> Some None
                        | Some l \<Rightarrow> match_path_loop fuel path_lwr l) of
                  None \<Rightarrow> None
                | Some (Some src) \<Rightarrow> Some (Some src, True, False)
                | Some None \<Rightarrow> Some (None, False, False))))"

definition TRUE_PATH_CLOSED_FLAG :: u32 where "TRUE_PATH_CLOSED_FLAG = 0x00"
definition TRUE_PATH_READ_FLAG :: u32 where "TRUE_PATH_READ_FLAG = 0x10"
definition TRUE_PATH_OPEN_FLAG :: u32 where "TRUE_PATH_OPEN_FLAG = 0x30"
definition TRUE_PATH_MASK :: u32 where "TRUE_PATH_MASK = 0x30"
definition COPY_PATH_CLOSED_FLAG :: u32 where "COPY_PATH_CLOSED_FLAG = 0x00"
definition COPY_PATH_READ_FLAG :: u32 where "COPY_PATH_READ_FLAG = 0x01"
definition COPY_PATH_OPEN_FLAG :: u32 where "COPY_PATH_OPEN_FLAG = 0x03"
definition COPY_PATH_MASK :: u32 where "COPY_PATH_MASK = 0x03"

text \<open>
  The five calls of \<^verbatim>\<open>Pattern_MatchPathListEx\<close> in \<^verbatim>\<open>Process_MatchPathEx\<close>: the list, the flags it
  gives and whether it ends the search when rule specificity is off.
\<close>

type_synonym rule_stage = "pattern list option \<times> u32 \<times> bool"

fun mpx_stages ::
  "nat \<Rightarrow> wchar \<Rightarrow> wstring \<Rightarrow> bool \<Rightarrow> rule_stage list \<Rightarrow> rule_sel \<Rightarrow> u32
     \<Rightarrow> (u32 \<times> wstring option) outcome option" where
  "mpx_stages fuel prv path specific [] sel mp_flags = Some (Ret (mp_flags, sel_patsrc sel))"
| "mpx_stages fuel prv path specific ((lst, fl, stops) # stages) sel mp_flags =
     (case Pattern_MatchPathListEx fuel prv path lst sel of
        None \<Rightarrow> None
      | Some Fault \<Rightarrow> Some Fault
      | Some (Ret (b, sel1)) \<Rightarrow>
          if b then
            (if stops \<and> \<not> specific then Some (Ret (fl, sel_patsrc sel1))
             else mpx_stages fuel prv path specific stages sel1 fl)
          else mpx_stages fuel prv path specific stages sel1 mp_flags)"

definition mpx_rules ::
  "pattern list option \<Rightarrow> pattern list option \<Rightarrow> pattern list option \<Rightarrow> pattern list option
     \<Rightarrow> pattern list option \<Rightarrow> rule_stage list" where
  "mpx_rules normal_list open_list closed_list read_list write_list =
     [(closed_list, TRUE_PATH_CLOSED_FLAG OR COPY_PATH_CLOSED_FLAG, True),
      (write_list, TRUE_PATH_CLOSED_FLAG OR COPY_PATH_OPEN_FLAG, True),
      (read_list, TRUE_PATH_READ_FLAG OR COPY_PATH_READ_FLAG, True),
      (normal_list, TRUE_PATH_READ_FLAG OR COPY_PATH_OPEN_FLAG, False),
      (open_list, TRUE_PATH_OPEN_FLAG, False)]"

definition Process_MatchPathEx ::
  "nat \<Rightarrow> conf_env \<Rightarrow> process \<Rightarrow> wstring \<Rightarrow> nat \<Rightarrow> wchar \<Rightarrow> pattern list option \<Rightarrow> pattern list option
     \<Rightarrow> pattern list option \<Rightarrow> pattern list option \<Rightarrow> pattern list option \<Rightarrow> wstring option
     \<Rightarrow> (u32 \<times> wstring option) outcome option" where
  "Process_MatchPathEx fuel env proc path path_len path_code normal_list open_list closed_list
       read_list write_list patsrc =
     (if \<not> env_alloc env ((path_len + 4) * sizeof_WCHAR) then Some (Ret (0, patsrc))
      else
        let path_lwr = wcslwr (take path_len path)
        in if path_lwr = [] then Some (Ret (0, patsrc))
        else
          mpx_stages fuel (env_prv env) path_lwr (use_rule_specificity proc)
            (mpx_rules normal_list open_list closed_list read_list write_list)
            \<lparr>sel_level = 3, sel_len = 0, sel_flags = 0, sel_wildc = - 1, sel_patsrc = patsrc\<rparr>
            (if path_code = CHR ''n'' \<and> file_block_network_files proc
             then TRUE_PATH_CLOSED_FLAG OR COPY_PATH_CLOSED_FLAG
             else TRUE_PATH_READ_FLAG OR COPY_PATH_OPEN_FLAG))"

section \<open>Lemmas on the decision\<close>

lemma mpl_loop_len_le: "mpl_loop fuel prv path pats st = Some st' \<Longrightarrow> mpl_len st \<le> mpl_len st'"
  using mpl_loop_ok [of fuel prv path pats st st'] by (auto simp: mpl_ok_def)

lemma mpl_loop_finds:
  assumes "mpl_loop fuel prv path pats st = Some st'" and "pat \<in> set pats"
    and "Pattern_Level pat \<le> mpl_level st" and "mpl_len st = 0" and "mpl_flags st = 0"
    and "Pattern_MatchX fuel pat (Some path) (length path) = Some m" and "m \<noteq> 0"
  shows "0 < mpl_len st'"
  using assms(1,2)
proof (induction pats)
  case (Cons p ps)
  show ?case
  proof (cases "mpl_loop fuel prv path ps st = Some st' \<and> pat \<in> set ps")
    case True
    then show ?thesis using Cons.IH by blast
  next
    case False
    have pos: "0 < mpl_len st'" if "mpl_loop fuel prv path ps (mpl_take q k fl st) = Some st'" "0 < k" for q k fl
      using mpl_loop_len_le [OF that(1)] that(2) by (simp add: mpl_take_def)
    show ?thesis
    proof (cases "p = pat")
      case True
      with Cons.prems assms show ?thesis
        by (auto simp: Let_def mpl_take_def dest!: mpl_loop_len_le split: if_splits option.splits)
    next
      case neq: False
      with False Cons.prems have "mpl_loop fuel prv path ps st \<noteq> Some st'" by simp
      with Cons.prems(1) assms(4) pos show ?thesis
        by (auto simp: Let_def mpl_take_def split: if_splits option.splits dest!: mpl_loop_len_le)
    qed
  qed
qed simp

lemma MatchPathListEx_finds:
  assumes "Pattern_MatchPathListEx fuel prv path (Some pats) sel = Some r" and "path \<noteq> []"
    and "sel_len sel = 0" and "sel_flags sel = 0" and "pat \<in> set pats"
    and "Pattern_Level pat \<le> sel_level sel"
    and "Pattern_MatchX fuel pat (Some path) (length path) = Some m" and "m \<noteq> 0"
  shows "\<exists>sel'. r = Ret (True, sel')"
proof -
  from assms(1,2) obtain cur where cur: "mpl_loop fuel prv path pats
      \<lparr>mpl_len = 0, mpl_level = sel_level sel, mpl_flags = sel_flags sel,
       mpl_wildc = sel_wildc sel, mpl_found = None\<rparr> = Some cur"
    by (auto simp: Pattern_MatchPathListEx_def Pattern_MatchPathList_def split: option.splits)
  from mpl_loop_finds [OF cur assms(5) _ _ _ assms(7,8)] assms(4,6) have "0 < mpl_len cur" by simp
  with mpl_loop_ok [OF cur] assms(3) have "rule_overrides cur sel" "mpl_found cur \<noteq> None"
    by (auto simp: mpl_ok_def rule_overrides_def)
  with cur assms(1,2) show ?thesis
    by (auto simp: Pattern_MatchPathListEx_def Pattern_MatchPathList_def)
qed











lemma Pattern_Match_True: "Pattern_Match fuel pat s n = Some True \<longleftrightarrow>
    (\<exists>m. Pattern_MatchX fuel pat s n = Some m \<and> m \<noteq> 0)"
  by (auto simp: Pattern_Match_def)



section \<open>Lemmas on settings\<close>

text \<open>
  The candidates among the settings: for every setting whose image part applies, its value and
  its level.
\<close>

fun conf_candidates ::
  "nat \<Rightarrow> conf_env \<Rightarrow> wstring \<Rightarrow> wstring \<Rightarrow> wstring list \<Rightarrow> (wstring \<times> u32) list option" where
  "conf_candidates fuel env box img [] = Some []"
| "conf_candidates fuel env box img (v # values) =
     (case Process_MatchImageAndGetValue fuel env box v img of
        None \<Rightarrow> None
      | Some (value, lv) \<Rightarrow>
          map_option (\<lambda>cs. case value of None \<Rightarrow> cs
              | Some w \<Rightarrow> (w, case lv of None \<Rightarrow> - 1 | Some l \<Rightarrow> l) # cs)
            (conf_candidates fuel env box img values))"

text \<open>The last of the candidates with the least level.\<close>

definition best_candidate :: "(wstring \<times> u32) list \<Rightarrow> wstring option" where
  "best_candidate cs =
     (if cs = [] then None
      else Some (fst (last (filter (\<lambda>c. \<forall>d \<in> set cs. snd c \<le> snd d) cs))))"

lemma best_candidate_Cons:
  "best_candidate (c # d # cs) =
     (if snd c < snd d then best_candidate (c # cs) else best_candidate (d # cs))"
proof -
  have ne: "filter (\<lambda>e. \<forall>d \<in> set es. snd e \<le> snd d) es \<noteq> []" if "es \<noteq> []" for es :: "(wstring \<times> u32) list"
  proof -
    from that have "finite (snd ` set es)" "snd ` set es \<noteq> {}" by auto
    then have "Min (snd ` set es) \<in> snd ` set es" by (rule Min_in)
    then obtain e where "e \<in> set es" "snd e = Min (snd ` set es)" by auto
    then have "\<forall>d \<in> set es. snd e \<le> snd d" by auto
    with \<open>e \<in> set es\<close> show ?thesis by (auto simp: filter_empty_conv)
  qed
  show ?thesis
  proof (cases "snd c < snd d")
    case True
    then have "filter (\<lambda>e. \<forall>x \<in> set (c # d # cs). snd e \<le> snd x) (c # d # cs)
      = filter (\<lambda>e. \<forall>x \<in> set (c # cs). snd e \<le> snd x) (c # cs)"
      by (auto intro!: filter_cong)
    with True show ?thesis by (simp add: best_candidate_def del: filter.simps)
  next
    case False
    let ?F = "\<lambda>es. filter (\<lambda>e. \<forall>x \<in> set es. snd e \<le> snd x) es"
    have a: "filter (\<lambda>e. \<forall>x \<in> set (c # d # cs). snd e \<le> snd x) (d # cs) = ?F (d # cs)"
      using False by (intro filter_cong) auto
    have "last (?F (c # d # cs)) = last (?F (d # cs))"
      using ne [of "d # cs"] a by (simp only: filter.simps(2) [of _ c]) (auto simp del: filter.simps)
    with False show ?thesis by (simp add: best_candidate_def del: filter.simps)
  qed
qed

lemma getconf_loop_best:
  "getconf_loop fuel env box img values (Some w) l =
     map_option (\<lambda>cs. best_candidate ((w, l) # cs)) (conf_candidates fuel env box img values)"
proof (induction "values" arbitrary: w l)
  case (Cons v "values")
  show ?case
  proof (cases "Process_MatchImageAndGetValue fuel env box v img")
    case (Some r)
    then show ?thesis using Cons
      by (cases r; cases "fst r")
        (auto simp: best_candidate_Cons Let_def option.map_comp comp_def)
  qed simp
qed (simp add: best_candidate_def)

lemma getconf_loop_best_None:
  "getconf_loop fuel env box img values None (- 1) =
     map_option best_candidate (conf_candidates fuel env box img values)"
proof (induction "values")
  case (Cons v "values")
  show ?case
  proof (cases "Process_MatchImageAndGetValue fuel env box v img")
    case (Some r)
    then show ?thesis using Cons
      by (cases r; cases "fst r")
        (auto simp: getconf_loop_best Let_def option.map_comp comp_def not_less)
  qed simp
qed (simp add: best_candidate_def)

section \<open>Lemmas on process groups\<close>

lemma item_len_le: "item_len value \<le> length value"
  by (auto simp: item_len_def split: option.splits dest: wcschr_Some_lt)

text \<open>The items of a comma-separated list.\<close>

function items_of :: "wstring \<Rightarrow> wstring list" where
  "items_of value =
     (if value = [] then []
      else (if item_len value = 0 then [] else [take (item_len value) value]) @ items_of (next_item value))"
  by pat_completeness auto
termination
  by (relation "measure length") (auto simp: next_item_shorter)

declare items_of.simps [simp del]

text \<open>
  The images a process group stands for, as the search finds them: the items of its settings, and
  those of the groups among them.
\<close>

inductive group_finds :: "conf_env \<Rightarrow> wstring \<Rightarrow> wstring \<Rightarrow> wstring \<Rightarrow> bool" for env box where
  direct: "value \<in> set (env_conf env box ''ProcessGroup'') \<Longrightarrow>
     group_items grp (length grp) value = Some items \<Longrightarrow> item \<in> set (items_of items) \<Longrightarrow>
     deref item \<noteq> CHR ''<'' \<Longrightarrow> group_finds env box grp item"
| nested: "value \<in> set (env_conf env box ''ProcessGroup'') \<Longrightarrow>
     group_items grp (length grp) value = Some items \<Longrightarrow> sub \<in> set (items_of items) \<Longrightarrow>
     deref sub = CHR ''<'' \<Longrightarrow> group_finds env box sub item \<Longrightarrow> group_finds env box grp item"

lemma MatchImage_item:
  assumes "n \<noteq> 0" and "deref s \<noteq> CHR ''<''" and "n \<le> length s"
  shows "Process_MatchImage fuel env box s n test depth =
    Process_MatchImage fuel env box (take n s) (length (take n s)) test depth'"
  using assms by (cases s; cases n) (auto simp: Process_MatchImage.simps image_text_def split: option.splits outcome.splits)

lemma group_items_take:
  "n \<le> length grp \<Longrightarrow> group_items (take n grp) (length (take n grp)) value = group_items grp n value"
  by (simp add: group_items_def wcsnicmp_eq_def)

definition group_matches :: "nat \<Rightarrow> conf_env \<Rightarrow> wstring \<Rightarrow> wstring \<Rightarrow> wstring \<Rightarrow> bool" where
  "group_matches fuel env box test grp \<longleftrightarrow>
     (\<exists>item depth. group_finds env box grp item \<and> deref item \<noteq> CHR ''<''
        \<and> Process_MatchImage fuel env box item (length item) test depth = Some True)"

definition item_matches :: "nat \<Rightarrow> conf_env \<Rightarrow> wstring \<Rightarrow> wstring \<Rightarrow> wstring \<Rightarrow> bool" where
  "item_matches fuel env box test item \<longleftrightarrow>
     (if deref item = CHR ''<'' then group_matches fuel env box test item
      else \<exists>depth. Process_MatchImage fuel env box item (length item) test depth = Some True)"

lemma group_matchesI:
  assumes "value \<in> set (env_conf env box ''ProcessGroup'')"
    and "group_items grp (length grp) value = Some items"
    and "item \<in> set (items_of items)" and "item_matches fuel env box test item"
  shows "group_matches fuel env box test grp"
  using assms unfolding group_matches_def item_matches_def
  by (auto split: if_splits intro: group_finds.intros)

lemma deref_take: "n \<noteq> 0 \<Longrightarrow> deref (take n s) = deref s"
  by (cases s; cases n) auto

lemma match_group_sound:
  "Process_MatchImage fuel env box pat_str pat_len test depth = Some True \<Longrightarrow> True"
  "Process_MatchImageGroup fuel env box grp n test depth = Some True \<Longrightarrow> n \<le> length grp \<Longrightarrow>
     group_matches fuel env box test (if n = 0 then grp else take n grp)"
  "match_group_values fuel env box grp k test depth values = Some True \<Longrightarrow>
     \<exists>value \<in> set values. \<exists>items. group_items grp k value = Some items \<and>
       (\<exists>item \<in> set (items_of items). item_matches fuel env box test item)"
  "match_group_items fuel env box test depth value = Some True \<Longrightarrow>
     \<exists>item \<in> set (items_of value). item_matches fuel env box test item"
proof (induction fuel env box pat_str pat_len test depth and fuel env box grp n test depth
    and fuel env box grp k test depth "values" and fuel env box test depth "value"
    rule: Process_MatchImage_Process_MatchImageGroup_match_group_values_match_group_items.induct)
  case (2 fuel env box grp n test depth)
  let ?k = "if n = 0 then length grp else n" and ?g = "if n = 0 then grp else take n grp"
  from 2 obtain "value" items item where "value \<in> set (env_conf env box ''ProcessGroup'')"
    "group_items grp ?k value = Some items" "item \<in> set (items_of items)"
    "item_matches fuel env box test item"
    by (auto simp: Process_MatchImageGroup.simps)
  moreover have "group_items ?g (length ?g) value = group_items grp ?k value"
    using 2 group_items_take [of n grp] by auto
  ultimately show ?case using group_matchesI by metis
next
  case (4 fuel env box grp k test depth v vs)
  then show ?case by (auto split: option.splits if_splits)
next
  case (5 fuel env box test depth v)
  let ?n = "item_len v"
  from 5(4) have ne: "v \<noteq> []" by (auto simp: match_group_items.simps)
  show ?case
  proof (cases "match_group_items fuel env box test depth (next_item v) = Some True
      \<and> (\<exists>item \<in> set (items_of (next_item v)). item_matches fuel env box test item)")
    case True
    with ne show ?thesis by (subst items_of.simps) auto
  next
    case False
    let ?r = "if ?n = 0 then Some False
      else if deref v \<noteq> CHR ''<'' then Process_MatchImage fuel env box v ?n test (depth + 1)
      else if depth < 6 then Process_MatchImageGroup fuel env box v ?n test (depth + 1)
      else Some False"
    have "?r = Some True"
    proof (rule ccontr)
      assume no: "?r \<noteq> Some True"
      with ne 5(4) have r: "?r = Some False" "match_group_items fuel env box test depth (next_item v) = Some True"
        by (simp_all add: match_group_items.simps [of _ _ _ _ _ v] split: option.splits if_splits)
      from 5(3) [OF ne r(1) _ r(2)] r(2) False show False by blast
    qed
    then have n: "?n \<noteq> 0" and m: "deref v \<noteq> CHR ''<'' \<Longrightarrow>
        Process_MatchImage fuel env box v ?n test (depth + 1) = Some True"
      "deref v = CHR ''<'' \<Longrightarrow> depth < 6 \<and>
        Process_MatchImageGroup fuel env box v ?n test (depth + 1) = Some True"
      by (auto split: if_splits)
    have "item_matches fuel env box test (take ?n v)"
      using m 5(2) [OF ne n] n item_len_le [of v] MatchImage_item [OF n _ item_len_le [of v], of fuel env box test "depth + 1" 0]
      by (auto simp: item_matches_def deref_take)
    with ne n show ?thesis by (subst items_of.simps) auto
  qed
qed (simp_all)

text \<open>
  The same without the search: an item of a comma-separated list is a non-empty text between
  commas or the ends; a setting of the group is its name in any case, a comma and such a list.
\<close>

definition listed :: "wstring \<Rightarrow> wstring \<Rightarrow> bool" where
  "listed item items \<longleftrightarrow> item \<noteq> [] \<and> CHR '','' \<notin> set item
     \<and> (\<exists>pre post. items = pre @ item @ post \<and> (pre = [] \<or> last pre = CHR '','') \<and> (post = [] \<or> hd post = CHR '',''))"

inductive group_has :: "conf_env \<Rightarrow> wstring \<Rightarrow> wstring \<Rightarrow> wstring \<Rightarrow> bool" for env box where
  direct_item: "name @ CHR '','' # items \<in> set (env_conf env box ''ProcessGroup'') \<Longrightarrow> wcsicmp_eq name grp \<Longrightarrow>
     listed item items \<Longrightarrow> deref item \<noteq> CHR ''<'' \<Longrightarrow> group_has env box grp item"
| nested_item: "name @ CHR '','' # items \<in> set (env_conf env box ''ProcessGroup'') \<Longrightarrow> wcsicmp_eq name grp \<Longrightarrow>
     listed sub items \<Longrightarrow> deref sub = CHR ''<'' \<Longrightarrow> group_has env box sub item \<Longrightarrow> group_has env box grp item"

lemma listed_behind:
  assumes "listed item b" and "a = [] \<or> last a = CHR '',''"
  shows "listed item (a @ b)"
proof -
  obtain pre post where p: "b = pre @ item @ post" "pre = [] \<or> last pre = CHR '',''" "post = [] \<or> hd post = CHR '',''"
    using assms(1) unfolding listed_def by blast
  have "a @ b = (a @ pre) @ item @ post" "a @ pre = [] \<or> last (a @ pre) = CHR '',''"
    using p assms(2) by (auto simp: last_append)
  then show ?thesis using p(3) assms(1) unfolding listed_def by blast
qed

lemma first_item_split:
  "\<exists>commas. value = take (item_len value) value @ commas @ next_item value \<and> CHR '','' \<notin> set (take (item_len value) value)
     \<and> set commas \<subseteq> {CHR '',''} \<and> (commas = [] \<longrightarrow> next_item value = [])"
proof -
  let ?n = "item_len value" and ?d = "drop (item_len value) value"
  let ?c = "takeWhile (\<lambda>c. c = CHR '','') ?d"
  have "value = take ?n value @ ?c @ next_item value" by (simp add: next_item_def)
  moreover have "CHR '','' \<notin> set (take ?n value)"
    by (auto simp: item_len_def wcschr_def split: option.splits if_splits dest: set_takeWhileD simp flip: takeWhile_eq_take)
  moreover have "?d = [] \<or> hd ?d = CHR '',''"
    using hd_dropWhile [of "\<lambda>x. x \<noteq> CHR '',''" "value"]
    by (auto simp: item_len_def wcschr_def dropWhile_eq_drop [symmetric] split: if_splits)
  then have "?c = [] \<longrightarrow> next_item value = []" by (cases ?d) (auto simp: next_item_def)
  moreover have "set ?c \<subseteq> {CHR '',''}" by (auto dest: set_takeWhileD)
  ultimately show ?thesis by blast
qed

lemma items_of_listed: "item \<in> set (items_of value) \<Longrightarrow> listed item value"
proof (induction "value" rule: items_of.induct)
  case (1 v)
  obtain commas where c: "v = take (item_len v) v @ commas @ next_item v" "CHR '','' \<notin> set (take (item_len v) v)"
    "set commas \<subseteq> {CHR '',''}" "commas = [] \<longrightarrow> next_item v = []" using first_item_split [of v] by blast
  have ne: "v \<noteq> []" using 1(2) by (auto simp: items_of.simps [of v])
  consider "item_len v \<noteq> 0" "item = take (item_len v) v" | "item \<in> set (items_of (next_item v))"
    using 1(2) ne by (auto simp: items_of.simps [of v] split: if_splits)
  then show ?case
  proof cases
    case 1
    have post: "commas @ next_item v = [] \<or> hd (commas @ next_item v) = CHR '',''"
      using c(3,4) by (cases commas) auto
    have "v = [] @ item @ commas @ next_item v" using c(1) 1 by simp
    moreover have "item \<noteq> []" "CHR '','' \<notin> set item" using c(2) 1 ne by auto
    ultimately show ?thesis using post unfolding listed_def by blast
  next
    case 2
    then have l: "listed item (next_item v)" using 1 ne by blast
    then have "commas \<noteq> []" using c(4) by (auto simp: listed_def)
    then have "last (take (item_len v) v @ commas) = CHR '',''" using c(3) last_in_set [of commas] by (auto simp del: last_in_set)
    then show ?thesis using listed_behind [OF l, of "take (item_len v) v @ commas"] c(1) by simp
  qed
qed

lemma group_items_name:
  assumes "group_items grp (length grp) value = Some items"
  shows "\<exists>name. value = name @ CHR '','' # items \<and> wcsicmp_eq name grp"
proof -
  let ?n = "length grp"
  have a: "\<not> length value \<le> ?n + 1" "wcsnicmp_eq value grp ?n" "deref (drop ?n value) = CHR '',''" "items = drop (?n + 1) value"
    using assms by (auto simp: group_items_def split: if_splits)
  have "items = tl (drop ?n value)" using a(4) by (simp add: drop_Suc drop_tl)
  then have "drop ?n value = CHR '','' # items" using a(1,3) by (cases "drop ?n value") auto
  then have "value = take ?n value @ CHR '','' # items" by (metis append_take_drop_id)
  then show ?thesis using a(2) by (auto simp: wcsnicmp_eq_def wcsicmp_eq_def)
qed

lemma group_finds_has: "group_finds env box grp item \<Longrightarrow> group_has env box grp item"
proof (induction rule: group_finds.induct)
  case (direct "value" grp items item)
  then show ?case using group_items_name [OF direct(2)] items_of_listed group_has.direct_item by metis
next
  case (nested "value" grp items sub item)
  then show ?case using group_items_name [OF nested(2)] items_of_listed group_has.nested_item by metis
qed

section \<open>Lemmas on the rule lists\<close>

text \<open>A list that has grown at its tail by rules whose levels satisfy a predicate.\<close>

definition grows :: "(u32 \<Rightarrow> bool) \<Rightarrow> pattern list \<Rightarrow> pattern list \<Rightarrow> bool" where
  "grows P lst lst' \<longleftrightarrow> (\<exists>new. lst' = lst @ new \<and> (\<forall>pat \<in> set new. P (Pattern_Level pat)))"

lemma grows_refl [simp, intro]: "grows P lst lst"
  by (simp add: grows_def)

lemma grows_trans [trans]: "grows P a b \<Longrightarrow> grows P b c \<Longrightarrow> grows P a c"
  by (auto simp: grows_def)

lemma Pattern_Create_level:
  "Pattern_Create alloc prv str lower Level = Ret (Some pat) \<Longrightarrow> Pattern_Level pat = Level"
  by (auto simp: Pattern_Create_def Pattern_Level_def Let_def split: prod.splits if_splits)

lemma AddPath_2_grows:
  assumes "Process_AddPath_2 env lst v sn False star rb cr Level = (ok, rp, lst')" and "P Level"
  shows "grows P lst lst'"
  using assms
  by (auto simp: Process_AddPath_2_def Let_def grows_def dest!: Pattern_Create_level
      split: option.splits if_splits outcome.splits)

lemma add_path_pair_grows:
  assumes "add_path_pair env lst v sn False star rb cr Level = (ok, lst')" and "P Level"
  shows "grows P lst lst'"
  using assms AddPath_2_grows [of env _ _ sn star rb _ Level _ _ _ P]
  by (auto simp: add_path_pair_def split: prod.splits if_splits) (blast intro: grows_trans)

lemma add_drives_grows:
  assumes "add_drives env ds lst v sn False star rb cr Level = (ok, lst')" and "P Level"
  shows "grows P lst lst'"
  using assms
proof (induction ds arbitrary: lst)
  case (Cons d ds)
  from Cons.prems(1) obtain ok1 lst1 where
    p: "add_path_pair env lst (d # tl v) sn False star rb cr Level = (ok1, lst1)"
    "(ok1 \<and> add_drives env ds lst1 v sn False star rb cr Level = (ok, lst')) \<or> lst' = lst1"
    by (auto split: prod.splits if_splits)
  note add_path_pair_grows [of env lst "d # tl v" sn star rb cr Level ok1 lst1 P, OF p(1) Cons.prems(2)]
  with p(2) Cons.IH [OF _ Cons.prems(2)] show ?case by (blast intro: grows_trans)
qed simp

lemma AddPath_grows:
  assumes "Process_AddPath fuel env proc lst sn False v star = Some (ok, lst')"
    and "\<And>w lv. Process_MatchImageAndGetValue fuel env (box_name (proc_box proc)) v
           (proc_image_name proc) = Some (Some w, lv) \<Longrightarrow>
         P (case lv of None \<Rightarrow> env_stack env | Some l \<Rightarrow> l)"
  shows "grows P lst lst'"
proof -
  obtain rb cr dr where o: "path_options sn star = (rb, cr, dr)" by (cases "path_options sn star")
  show ?thesis
  proof (cases "\<exists>w lv. Process_MatchImageAndGetValue fuel env (box_name (proc_box proc)) v
           (proc_image_name proc) = Some (Some w, lv)")
    case True
    then obtain w lv where w: "Process_MatchImageAndGetValue fuel env (box_name (proc_box proc)) v
           (proc_image_name proc) = Some (Some w, lv)" by blast
    let ?bar = "rb \<and> deref w = CHR ''|''"
    let ?v = "if ?bar then tl w else w"
      and ?s = "star \<and> \<not> ?bar" and ?L = "case lv of None \<Rightarrow> env_stack env | Some l \<Rightarrow> l"
    obtain ok1 lst1 where p: "add_path_pair env lst ?v sn False ?s rb cr ?L = (ok1, lst1)"
      by (cases "add_path_pair env lst ?v sn False ?s rb cr ?L") blast
    from assms(1) w p o have "lst' = lst1 \<or> (\<exists>ds. add_drives env ds lst1 ?v sn False ?s rb cr ?L = (ok, lst'))"
      by (auto simp: Process_AddPath_def Let_def simp del: add_drives.simps split: if_splits prod.splits)
    with add_path_pair_grows [of env lst ?v sn ?s rb cr ?L ok1 lst1 P, OF p assms(2) [OF w]] show ?thesis
      using add_drives_grows [of env _ lst1 ?v sn ?s rb cr ?L ok lst' P, OF _ assms(2) [OF w]]
      by (blast intro: grows_trans)
  next
    case False
    with assms(1) o show ?thesis by (auto simp: Process_AddPath_def split: option.splits)
  qed
qed

lemma getpaths_loop_grows:
  assumes "getpaths_loop fuel env proc sn star vs lst = Some (ok, lst')"
    and "\<And>v w x lv. v \<in> set vs \<Longrightarrow> closed_value proc sn v = Some w \<Longrightarrow>
         Process_MatchImageAndGetValue fuel env (box_name (proc_box proc)) w
           (proc_image_name proc) = Some (Some x, lv) \<Longrightarrow>
         P (case lv of None \<Rightarrow> env_stack env | Some l \<Rightarrow> l)"
  shows "grows P lst lst'"
  using assms
proof (induction vs arbitrary: lst)
  case (Cons v vs)
  have rest: "grows P l lst'" if "getpaths_loop fuel env proc sn star vs l = Some (ok, lst')" for l
    by (rule Cons.IH [OF that]) (rule Cons.prems(2), auto)
  show ?case
  proof (cases "closed_value proc sn v")
    case None
    with Cons.prems(1) rest show ?thesis by simp
  next
    case (Some w)
    with Cons.prems(1) obtain ok1 lst1 where
      a: "Process_AddPath fuel env proc lst (Some sn) False w star = Some (ok1, lst1)"
      "(ok1 \<and> getpaths_loop fuel env proc sn star vs lst1 = Some (ok, lst')) \<or> lst' = lst1"
      by (auto split: option.splits if_splits)
    have "grows P lst lst1" using a(1) by (rule AddPath_grows) (use Cons.prems(2) Some in auto)
    with a(2) rest show ?thesis by (blast intro: grows_trans)
  qed
qed simp

text \<open>A setting for which \<^verbatim>\<open>Process_MatchImageAndGetValue\<close> stores a level.\<close>

definition names_image :: "wstring \<Rightarrow> bool" where
  "names_image v \<longleftrightarrow> deref v \<noteq> CHR '','' \<and> take 2 v \<noteq> ''!,''"

lemma MatchImageAndGetValue_level:
  assumes "Process_MatchImageAndGetValue fuel env box v img = Some (Some w, lv)" and "names_image v"
  shows "\<exists>l \<le> 3. lv = Some l"
proof (cases "wcschr v CHR '',''")
  case None
  with assms show ?thesis by (auto simp: Process_MatchImageAndGetValue_def split: if_splits)
next
  case (Some k)
  note k_lt = wcschr_Some_lt [OF Some] and k_nth = wcschr_nth [OF Some]
  have k: "k \<noteq> 0" using k_lt k_nth assms(2) by (cases k; cases v) (auto simp: names_image_def)
  have k1: "k \<noteq> 1" if "deref v = CHR ''!''"
  proof
    assume "k = 1"
    with k_lt k_nth that obtain t where "v = CHR ''!'' # CHR '','' # t"
      by (cases v; cases "tl v") auto
    with assms(2) show False by (simp add: names_image_def)
  qed
  with assms(1) Some k show ?thesis
    by (auto simp: Process_MatchImageAndGetValue_def Let_def split: option.splits if_splits)
qed

lemma length_remove_backslashes: "length (remove_backslashes s) \<le> length s"
  by (induction s rule: remove_backslashes.induct) auto

lemma deref_remove_backslashes: "deref (remove_backslashes s) = deref s"
  by (induction s rule: remove_backslashes.induct) auto

section \<open>The properties\<close>

text \<open>A configuration for the closed examples: no expansion, no reparse points, some settings.\<close>

definition demo_env :: "(wstring \<times> wstring list) list \<Rightarrow> conf_env" where
  "demo_env settings =
     \<lparr>env_alloc = (\<lambda>_. True), env_expand = (\<lambda>v _. Some v), env_reparse = (\<lambda>_. None),
      env_conf = (\<lambda>_ setting. case map_of settings setting of None \<Rightarrow> [] | Some vs \<Rightarrow> vs),
      env_prv = NUL, env_stack = 100\<rparr>"

definition demo_box :: box_rec where
  "demo_box = \<lparr>box_name = ''Box'', box_session_id = 1\<rparr>"

definition demo_proc :: process where
  "demo_proc = \<lparr>proc_addr = 1, proc_box = demo_box, proc_pid = 8, starter_id = 4, create_time = 0,
     proc_image_name = ''a.exe'', terminated = False, untouchable = False, image_from_box = False,
     image_sbie = False, protect_host_images = False, always_close_for_boxed = False,
     restrict_devices = False, use_privacy_mode = False, bAppCompartment = False,
     use_rule_specificity = False, file_block_network_files = False\<rparr>"



text \<open>
  C6.  Without rule specificity a Closed rule cannot be opened again: if some rule of the closed
  list matches the lower-cased path and applies to the process (a level of at most 3), the decision
  is "closed" for the true and the copy path, whatever the other lists hold.
\<close>

theorem closed_rule_wins:
  assumes "Process_MatchPathEx fuel env proc path path_len path_code nl ol (Some cl) rl wl patsrc = Some r"
    and "env_alloc env ((path_len + 4) * sizeof_WCHAR)" and "take path_len path \<noteq> []"
    and "\<not> use_rule_specificity proc"
    and "pat \<in> set cl" and "Pattern_Level pat \<le> 3"
    and "Pattern_Match fuel pat (Some (wcslwr (take path_len path))) (length (take path_len path))
         = Some True"
  shows "\<exists>src. r = Ret (TRUE_PATH_CLOSED_FLAG OR COPY_PATH_CLOSED_FLAG, src)"
proof -
  let ?p = "wcslwr (take path_len path)"
  let ?sel = "\<lparr>sel_level = 3, sel_len = 0, sel_flags = 0, sel_wildc = - 1, sel_patsrc = patsrc\<rparr>"
  from assms(7) obtain m where m: "Pattern_MatchX fuel pat (Some ?p) (length ?p) = Some m" "m \<noteq> 0"
    by (auto simp: Pattern_Match_True)
  from assms(1-3) have "Pattern_MatchPathListEx fuel (env_prv env) ?p (Some cl) ?sel \<noteq> None"
    by (auto simp: Process_MatchPathEx_def mpx_rules_def split: option.splits)
  then obtain r1 where r1: "Pattern_MatchPathListEx fuel (env_prv env) ?p (Some cl) ?sel = Some r1"
    by auto
  from MatchPathListEx_finds [OF r1 _ _ _ assms(5) _ m] assms(3,6) obtain sel1 where
    "r1 = Ret (True, sel1)" by auto
  with r1 assms(1-4) show ?thesis by (auto simp: Process_MatchPathEx_def mpx_rules_def)
qed

theorem closed_rule_wins_witness:
  "\<exists>src. Process_MatchPathEx 20 (demo_env []) demo_proc ''Secret'' 6 CHR ''f'' None
      (Some [rule_pat ''secret'']) (Some [rule_pat ''x*'', rule_pat ''s*'']) None None None
    = Some (Ret (0, src))"
proof -
  let ?cl = "[rule_pat ''x*'', rule_pat ''s*'']"
  have "Process_MatchPathEx 20 (demo_env []) demo_proc ''Secret'' 6 CHR ''f'' None
      (Some [rule_pat ''secret'']) (Some ?cl) None None None \<noteq> None" by code_simp
  then obtain r where r: "Process_MatchPathEx 20 (demo_env []) demo_proc ''Secret'' 6 CHR ''f'' None
      (Some [rule_pat ''secret'']) (Some ?cl) None None None = Some r" by auto
  have i: "rule_pat ''s*'' \<in> set ?cl" by (simp only: list.set) blast
  have l: "Pattern_Level (rule_pat ''s*'') \<le> 3" by code_simp
  have m: "Pattern_Match 20 (rule_pat ''s*'') (Some (wcslwr (take 6 ''Secret''))) (length (take 6 ''Secret''))
      = Some True" by code_simp
  have a: "env_alloc (demo_env []) ((6 + 4) * sizeof_WCHAR)" "\<not> use_rule_specificity demo_proc"
    by (simp_all add: demo_env_def demo_proc_def)
  from closed_rule_wins [OF r a(1) _ a(2) i l m] show ?thesis
    unfolding r by (auto simp: TRUE_PATH_CLOSED_FLAG_def COPY_PATH_CLOSED_FLAG_def)
qed

text \<open>
  C28.  \<^verbatim>\<open>Process_GetConfEx\<close> returns the value of the setting that fits the image best: of all
  settings whose image part applies, one of the least level (0 by name, 1 by negation, 2 for
  \<^verbatim>\<open>*\<close>, 3 without an image), and the last of these.
\<close>

theorem getconf_picks_best:
  "Process_GetConfEx fuel env box image_name setting =
     map_option best_candidate
       (conf_candidates fuel env box image_name (env_conf env box setting))"
  by (simp add: Process_GetConfEx_def getconf_loop_best_None)

text \<open>
  C35.  When \<^verbatim>\<open>Process_MatchImageGroup\<close> matches an image, some setting \<^verbatim>\<open>ProcessGroup\<close> has the name of the
  group, or of a group listed in it and so on, and lists an item whose pattern, compiled from
  its expanded text, matches the lower-cased name of the image.
\<close>

theorem match_group_has_item:
  assumes "Process_MatchImageGroup fuel env box grp 0 test depth = Some True"
  shows "\<exists>item expnd pat. group_has env box grp item \<and> deref item \<noteq> CHR ''<'' \<and> env_expand env item None = Some expnd
    \<and> Pattern_Create (env_alloc env) (env_prv env) (Some expnd) True 0 = Ret (Some pat)
    \<and> Pattern_Match fuel pat (Some (wcslwr test)) (length test) = Some True"
proof -
  obtain item d where i: "group_finds env box grp item" "deref item \<noteq> CHR ''<''"
    "Process_MatchImage fuel env box item (length item) test d = Some True"
    using match_group_sound(2) [OF assms] by (auto simp: group_matches_def)
  then show ?thesis using group_finds_has [OF i(1)]
    by (auto simp: Process_MatchImage.simps image_text_def split: option.splits outcome.splits if_splits)
qed

theorem match_group_has_item_witness:
  "\<exists>item. group_has (demo_env [(''ProcessGroup'', [''<g>,<h>'', ''<h>,b.exe,A.exe''])]) ''Box'' ''<g>'' item \<and> deref item \<noteq> CHR ''<''"
proof -
  have m: "Process_MatchImageGroup 20 (demo_env [(''ProcessGroup'', [''<g>,<h>'', ''<h>,b.exe,A.exe''])])
     ''Box'' ''<g>'' 0 ''a.EXE'' 1 = Some True" by code_simp
  show ?thesis using match_group_has_item [OF m] by blast
qed

text \<open>
   \<^verbatim>\<open>Process_GetPaths\<close> only appends to the list, and every rule it appends has one of the levels
  0 to 3, provided no setting has an empty image name in front of its comma.
\<close>

theorem get_paths_levels:
  assumes "Process_GetPaths fuel env proc lst section_name setting_name star = Some (ok, lst')"
    and "\<forall>v \<in> set (env_conf env section_name setting_name).
           \<forall>w. closed_value proc setting_name v = Some w \<longrightarrow> names_image w"
  shows "\<exists>new. lst' = lst @ new \<and> (\<forall>pat \<in> set new. Pattern_Level pat \<le> 3)"
proof -
  have "grows (\<lambda>l. l \<le> 3) lst lst'"
  proof (rule getpaths_loop_grows [OF assms(1) [unfolded Process_GetPaths_def]])
    fix v w x lv
    assume a: "v \<in> set (env_conf env section_name setting_name)" "closed_value proc setting_name v = Some w"
      and m: "Process_MatchImageAndGetValue fuel env (box_name (proc_box proc)) w (proc_image_name proc)
        = Some (Some x, lv)"
    from assms(2) a have "names_image w" by blast
    from MatchImageAndGetValue_level [OF m this]
    show "(case lv of None \<Rightarrow> env_stack env | Some l \<Rightarrow> l) \<le> 3" by auto
  qed
  then show ?thesis by (simp add: grows_def)
qed

theorem get_paths_levels_witness:
  "\<exists>ok lst' new. Process_GetPaths 20 (demo_env [(''ClosedFilePath'', [''a.exe,C:x'', ''C:y''])])
      demo_proc [] ''Box'' ''ClosedFilePath'' True = Some (ok, lst') \<and> lst' = new \<and>
    (\<forall>pat \<in> set new. Pattern_Level pat \<le> 3)"
proof -
  let ?e = "demo_env [(''ClosedFilePath'', [''a.exe,C:x'', ''C:y''])]"
  have "Process_GetPaths 20 ?e demo_proc [] ''Box'' ''ClosedFilePath'' True \<noteq> None" by code_simp
  then obtain ok lst' where r: "Process_GetPaths 20 ?e demo_proc [] ''Box'' ''ClosedFilePath'' True = Some (ok, lst')"
    by auto
  have "\<forall>v \<in> set (env_conf ?e ''Box'' ''ClosedFilePath'').
      \<forall>w. closed_value demo_proc ''ClosedFilePath'' v = Some w \<longrightarrow> names_image w"
    by (auto simp: demo_env_def closed_value_def Let_def names_image_def)
  from get_paths_levels [OF r this] r show ?thesis by simp
qed

text \<open>
   A setting that begins with a comma leaves \<^verbatim>\<open>Level\<close> unset: the rule gets whatever the stack
  held, and with a value above 3 the Closed rule is skipped and the path stays readable.
\<close>

theorem empty_image_rule_skipped:
  "Process_GetPaths 20 (demo_env [(''ClosedFilePath'', ['',secret''])]) demo_proc [] ''Box''
     ''ClosedFilePath'' True = Some (True, [(rule_pat ''secret*'')\<lparr>pat_level := 100\<rparr>]) \<and>
   Process_MatchPathEx 20 (demo_env []) demo_proc ''secret'' 6 CHR ''f'' None None
     (Some [(rule_pat ''secret*'')\<lparr>pat_level := 100\<rparr>]) None None None = Some (Ret (0x13, None))"
proof
  show "Process_GetPaths 20 (demo_env [(''ClosedFilePath'', ['',secret''])]) demo_proc [] ''Box''
     ''ClosedFilePath'' True = Some (True, [(rule_pat ''secret*'')\<lparr>pat_level := 100\<rparr>])"
    by code_simp
  show "Process_MatchPathEx 20 (demo_env []) demo_proc ''secret'' 6 CHR ''f'' None None
     (Some [(rule_pat ''secret*'')\<lparr>pat_level := 100\<rparr>]) None None None = Some (Ret (0x13, None))"
    by code_simp
qed

text \<open>
   The buffer of \<^verbatim>\<open>Process_AddPath_2\<close> holds the text it builds, the added star and the
  terminating NUL included.
\<close>

theorem add_path_text_fits:
  "(length (path_text star rb expand) + 1) * sizeof_WCHAR \<le> path_text_bytes star expand"
  using length_remove_backslashes [of expand]
  by (auto simp: path_text_def path_text_bytes_def sizeof_WCHAR_def)

end
