(* ===== verification/NetFw.thy ===== *)
theory NetFw
  imports StrUtil RBTree ProcessRules
begin

text \<open>
  The network rules of a sandbox: \<^verbatim>\<open>Sandboxie/common/netfw.c\<close> and the loading of the rules in
  \<^verbatim>\<open>core/drv/wfp.c\<close>.  A rule has an action, a match level for the program, port ranges, address ranges
  and a protocol; the ranges are in red-black trees by their first port or address.  Rules are
  parsed from the setting \<^verbatim>\<open>NetworkAccess\<close>, merged where possible, and the best match decides.
\<close>

section \<open>Constants and data\<close>

definition IPPROTO_ICMP :: int where "IPPROTO_ICMP = 1"
definition IPPROTO_TCP :: int where "IPPROTO_TCP = 6"
definition IPPROTO_UDP :: int where "IPPROTO_UDP = 17"
definition IPPROTO_ANY :: int where "IPPROTO_ANY = 256"

definition NETFW_MATCH_NONE :: nat where "NETFW_MATCH_NONE = 0"
definition NETFW_MATCH_GLOBAL :: nat where "NETFW_MATCH_GLOBAL = 1"
definition NETFW_MATCH_NOT :: nat where "NETFW_MATCH_NOT = 2"
definition NETFW_MATCH_RANGE :: nat where "NETFW_MATCH_RANGE = 3"
definition NETFW_MATCH_EXACT :: nat where "NETFW_MATCH_EXACT = 4"

lemmas netfw_match_defs = NETFW_MATCH_NONE_def NETFW_MATCH_GLOBAL_def NETFW_MATCH_NOT_def
  NETFW_MATCH_RANGE_def NETFW_MATCH_EXACT_def

text \<open>The 16 bytes of an \<^verbatim>\<open>IP_ADDRESS\<close>, in network order.\<close>

type_synonym IP_ADDRESS = "u8 list"

record NETFW_RULE =
  action_block :: bool
  proc_match_level :: nat
  port_map :: "(u16, u16) rbtree_t"
  ip_map :: "(IP_ADDRESS, IP_ADDRESS) rbtree_t"
  protocol :: int

definition NetFw_PortCmp :: "u16 \<Rightarrow> u16 \<Rightarrow> int" where
  "NetFw_PortCmp l r = (if r < l then 1 else if l < r then - 1 else 0)"

text \<open>\<^verbatim>\<open>memcmp\<close> on lists of bytes; the lists have 16 bytes each.\<close>

fun memcmp :: "u8 list \<Rightarrow> u8 list \<Rightarrow> int" where
  "memcmp [] [] = 0"
| "memcmp [] (r # rs) = - 1"
| "memcmp (l # ls) [] = 1"
| "memcmp (l # ls) (r # rs) = (if l = r then memcmp ls rs else uint l - uint r)"

definition NetFw_IpCmp :: "IP_ADDRESS \<Rightarrow> IP_ADDRESS \<Rightarrow> int" where
  "NetFw_IpCmp l r = memcmp l r"

text \<open>\<^verbatim>\<open>NetFw_AllocRule\<close>; \<open>MatchLevel\<close> is the signed level, \<^verbatim>\<open>-1\<close> when none was set.\<close>

definition NetFw_AllocRule :: "int \<Rightarrow> NETFW_RULE" where
  "NetFw_AllocRule MatchLevel =
     \<lparr>action_block = False,
      proc_match_level =
        (if MatchLevel = 0 then NETFW_MATCH_EXACT
         else if MatchLevel = 1 then NETFW_MATCH_NOT
         else if MatchLevel = 2 then NETFW_MATCH_GLOBAL
         else NETFW_MATCH_NONE),
      port_map = rbtree_init NetFw_PortCmp,
      ip_map = rbtree_init NetFw_IpCmp,
      protocol = IPPROTO_ANY\<rparr>"

definition NetFw_RuleSetBlockAction :: "bool \<Rightarrow> NETFW_RULE \<Rightarrow> NETFW_RULE" where
  "NetFw_RuleSetBlockAction BlockAction rule = rule\<lparr>action_block := BlockAction\<rparr>"

definition NetFw_RuleSetProtocol :: "int \<Rightarrow> NETFW_RULE \<Rightarrow> NETFW_RULE" where
  "NetFw_RuleSetProtocol Protocol rule = rule\<lparr>protocol := Protocol\<rparr>"

section \<open>Range maps\<close>

text \<open>
  Adding a range; a range that begins where another one begins is not inserted, and the result of
  the insertion is not looked at.  The port and the address functions differ in the types only.
\<close>

definition add_range :: "('k, 'k) rbtree_t \<Rightarrow> 'k \<Rightarrow> 'k \<Rightarrow> ('k, 'k) rbtree_t option" where
  "add_range tree b e = map_option snd (rbtree_insert (b, e) tree)"

definition NetFw_RuleAddPortRange :: "(u16, u16) rbtree_t \<Rightarrow> u16 \<Rightarrow> u16 \<Rightarrow> (u16, u16) rbtree_t option" where
  "NetFw_RuleAddPortRange tree PortBegin PortEnd = add_range tree PortBegin PortEnd"

definition NetFw_RuleAddIpRange ::
  "(IP_ADDRESS, IP_ADDRESS) rbtree_t \<Rightarrow> IP_ADDRESS \<Rightarrow> IP_ADDRESS \<Rightarrow> (IP_ADDRESS, IP_ADDRESS) rbtree_t option" where
  "NetFw_RuleAddIpRange tree IpBegin IpEnd = add_range tree IpBegin IpEnd"

text \<open>The loop that walks both trees in step and compares the ranges.\<close>

fun match_maps :: "('k \<Rightarrow> 'k \<Rightarrow> int) \<Rightarrow> ('k \<times> 'k) list \<Rightarrow> ('k \<times> 'k) list \<Rightarrow> bool" where
  "match_maps cmp [] [] = True"
| "match_maps cmp (l # ls) (r # rs) =
     (if cmp (fst l) (fst r) \<noteq> 0 \<or> cmp (snd l) (snd r) \<noteq> 0 then False else match_maps cmp ls rs)"
| "match_maps cmp _ _ = False"

definition NetFw_MatchPortMaps :: "(u16, u16) rbtree_t \<Rightarrow> (u16, u16) rbtree_t \<Rightarrow> bool" where
  "NetFw_MatchPortMaps l_tree r_tree = match_maps NetFw_PortCmp (rbtree_elems l_tree) (rbtree_elems r_tree)"

definition NetFw_MatchIPMaps ::
  "(IP_ADDRESS, IP_ADDRESS) rbtree_t \<Rightarrow> (IP_ADDRESS, IP_ADDRESS) rbtree_t \<Rightarrow> bool" where
  "NetFw_MatchIPMaps l_tree r_tree = match_maps NetFw_IpCmp (rbtree_elems l_tree) (rbtree_elems r_tree)"

text \<open>
  Merging: "search for overlaps, and if found abort", then add all ranges of the source.  The result
  tells whether the maps were merged.
\<close>

definition overlap_found :: "('k \<Rightarrow> 'k \<Rightarrow> int) \<Rightarrow> ('k, 'k) rbtree_t \<Rightarrow> 'k \<times> 'k \<Rightarrow> bool" where
  "overlap_found cmp dst src_node =
     (case snd (rbtree_find_less_equal dst (fst src_node)) of
        None \<Rightarrow> False
      | Some dst_node \<Rightarrow> 0 \<le> cmp (snd dst_node) (snd src_node))"

fun add_ranges :: "('k \<times> 'k) list \<Rightarrow> ('k, 'k) rbtree_t \<Rightarrow> ('k, 'k) rbtree_t option" where
  "add_ranges [] dst = Some dst"
| "add_ranges ((b, e) # rs) dst = (case add_range dst b e of None \<Rightarrow> None | Some t \<Rightarrow> add_ranges rs t)"

definition merge_maps ::
  "('k \<Rightarrow> 'k \<Rightarrow> int) \<Rightarrow> ('k, 'k) rbtree_t \<Rightarrow> ('k, 'k) rbtree_t \<Rightarrow> (bool \<times> ('k, 'k) rbtree_t) option" where
  "merge_maps cmp dst src =
     (if list_ex (overlap_found cmp dst) (rbtree_elems src) then Some (False, dst)
      else map_option (Pair True) (add_ranges (rbtree_elems src) dst))"

definition NetFw_MergePortMaps ::
  "(u16, u16) rbtree_t \<Rightarrow> (u16, u16) rbtree_t \<Rightarrow> (bool \<times> (u16, u16) rbtree_t) option" where
  "NetFw_MergePortMaps dst src = merge_maps NetFw_PortCmp dst src"

definition NetFw_MergeIPMaps ::
  "(IP_ADDRESS, IP_ADDRESS) rbtree_t \<Rightarrow> (IP_ADDRESS, IP_ADDRESS) rbtree_t
     \<Rightarrow> (bool \<times> (IP_ADDRESS, IP_ADDRESS) rbtree_t) option" where
  "NetFw_MergeIPMaps dst src = merge_maps NetFw_IpCmp dst src"

definition match_range :: "('k \<Rightarrow> 'k \<Rightarrow> int) \<Rightarrow> ('k, 'k) rbtree_t \<Rightarrow> 'k \<Rightarrow> nat" where
  "match_range cmp tree x =
     (if rb_count tree = 0 then NETFW_MATCH_GLOBAL
      else case snd (rbtree_find_less_equal tree x) of
        None \<Rightarrow> NETFW_MATCH_NONE
      | Some node \<Rightarrow>
          if cmp x (fst node) < 0 \<or> cmp (snd node) x < 0 then NETFW_MATCH_NONE
          else if cmp (fst node) (snd node) = 0 then NETFW_MATCH_EXACT else NETFW_MATCH_RANGE)"

definition NetFw_MatchPort :: "(u16, u16) rbtree_t \<Rightarrow> u16 \<Rightarrow> nat" where
  "NetFw_MatchPort pmap port = match_range NetFw_PortCmp pmap port"

definition NetFw_MatchAddress :: "(IP_ADDRESS, IP_ADDRESS) rbtree_t \<Rightarrow> IP_ADDRESS \<Rightarrow> nat" where
  "NetFw_MatchAddress imap ip = match_range NetFw_IpCmp imap ip"

definition NetFw_MatchProtocol :: "int \<Rightarrow> int \<Rightarrow> nat" where
  "NetFw_MatchProtocol prot to_test =
     (if prot = IPPROTO_ANY then NETFW_MATCH_GLOBAL
      else if prot = to_test then NETFW_MATCH_EXACT else NETFW_MATCH_NONE)"

section \<open>The rule list\<close>

text \<open>
  One turn of the loop of \<^verbatim>\<open>NetFw_AddRule\<close>: the rule with the new one merged in, \<^const>\<open>None\<close> inside for
  \<^verbatim>\<open>goto next\<close>.
\<close>

definition merge_rule :: "NETFW_RULE \<Rightarrow> NETFW_RULE \<Rightarrow> NETFW_RULE option option" where
  "merge_rule new_rule rule =
     (if proc_match_level rule \<noteq> proc_match_level new_rule \<or> action_block rule \<noteq> action_block new_rule then Some None
      else if (rb_count (port_map rule) \<noteq> 0) \<noteq> (rb_count (port_map new_rule) \<noteq> 0) then Some None
      else if (rb_count (ip_map rule) \<noteq> 0) \<noteq> (rb_count (ip_map new_rule) \<noteq> 0) then Some None
      else if protocol rule \<noteq> protocol new_rule then Some None
      else
        let merge_ports = map_option (\<lambda>(ok, m). if ok then Some (rule\<lparr>port_map := m\<rparr>) else None)
              (NetFw_MergePortMaps (port_map rule) (port_map new_rule));
            merge_ips = map_option (\<lambda>(ok, m). if ok then Some (rule\<lparr>ip_map := m\<rparr>) else None)
              (NetFw_MergeIPMaps (ip_map rule) (ip_map new_rule))
        in if rb_count (port_map rule) \<noteq> 0 \<and> rb_count (ip_map rule) \<noteq> 0 then
             (let same_ports = NetFw_MatchPortMaps (port_map rule) (port_map new_rule);
                  same_ips = NetFw_MatchIPMaps (ip_map rule) (ip_map new_rule)
              in if \<not> same_ports \<and> \<not> same_ips then Some None
                 else if \<not> same_ports then merge_ports
                 else if \<not> same_ips then merge_ips
                 else Some (Some rule))
           else if rb_count (port_map rule) \<noteq> 0 then merge_ports
           else if rb_count (ip_map rule) \<noteq> 0 then merge_ips
           else Some (Some rule))"

fun NetFw_AddRule :: "NETFW_RULE list \<Rightarrow> NETFW_RULE \<Rightarrow> NETFW_RULE list option" where
  "NetFw_AddRule [] new_rule = Some [new_rule]"
| "NetFw_AddRule (rule # rules) new_rule =
     (case merge_rule new_rule rule of
        None \<Rightarrow> None
      | Some (Some merged) \<Rightarrow> Some (merged # rules)
      | Some None \<Rightarrow> map_option (\<lambda>rs. rule # rs) (NetFw_AddRule rules new_rule))"

record RULE_MATCH =
  ByProg :: nat
  ByPort :: nat
  ByAddress :: nat
  ByEndPoint :: nat
  ByProtocol :: nat
  BlockAction :: bool

text \<open>\<^verbatim>\<open>NetFw_MatchRule\<close> into a match that is zero at first; \<^const>\<open>None\<close> for FALSE.\<close>

definition NetFw_MatchRule :: "NETFW_RULE \<Rightarrow> u16 \<Rightarrow> IP_ADDRESS \<Rightarrow> int \<Rightarrow> RULE_MATCH option" where
  "NetFw_MatchRule rule TestPort TestAddress TestProt =
     (let p = NetFw_MatchPort (port_map rule) TestPort;
          a = NetFw_MatchAddress (ip_map rule) TestAddress;
          pr = NetFw_MatchProtocol (protocol rule) TestProt
      in if p = 0 then None else if a = 0 then None else if pr = 0 then None
      else Some \<lparr>ByProg = proc_match_level rule, ByPort = p, ByAddress = a,
                 ByEndPoint = (if NETFW_MATCH_GLOBAL < a \<and> NETFW_MATCH_GLOBAL < p then (if p < a then a else p) else 0),
                 ByProtocol = pr, BlockAction = action_block rule\<rparr>)"

definition NetFw_IsBetterMatch :: "RULE_MATCH \<Rightarrow> RULE_MATCH \<Rightarrow> bool" where
  "NetFw_IsBetterMatch my other =
     (if ByProg my \<noteq> ByProg other then ByProg other < ByProg my
      else if ByEndPoint my \<noteq> ByEndPoint other then ByEndPoint other < ByEndPoint my
      else if ByPort my \<noteq> ByPort other then ByPort other < ByPort my
      else if ByAddress my \<noteq> ByAddress other then ByAddress other < ByAddress my
      else if BlockAction my \<and> \<not> BlockAction other then True
      else if ByProtocol my \<noteq> ByProtocol other then ByProtocol other < ByProtocol my
      else False)"

text \<open>The loop of \<^verbatim>\<open>NetFw_BlockTraffic\<close> with the best rule and its match so far.\<close>

fun best_rule ::
  "NETFW_RULE list \<Rightarrow> IP_ADDRESS \<Rightarrow> u16 \<Rightarrow> int \<Rightarrow> (NETFW_RULE \<times> RULE_MATCH) option
     \<Rightarrow> (NETFW_RULE \<times> RULE_MATCH) option" where
  "best_rule [] Ip Port Protocol best = best"
| "best_rule (rule # rules) Ip Port Protocol best =
     best_rule rules Ip Port Protocol
       (case NetFw_MatchRule rule Port Ip Protocol of
          None \<Rightarrow> best
        | Some m \<Rightarrow>
            (case best of
               None \<Rightarrow> Some (rule, m)
             | Some (_, bm) \<Rightarrow> if NetFw_IsBetterMatch m bm then Some (rule, m) else best))"

definition NetFw_BlockTraffic :: "NETFW_RULE list \<Rightarrow> IP_ADDRESS \<Rightarrow> u16 \<Rightarrow> int \<Rightarrow> bool" where
  "NetFw_BlockTraffic rules Ip Port Protocol =
     (case best_rule rules Ip Port Protocol None of None \<Rightarrow> False | Some (rule, _) \<Rightarrow> action_block rule)"

section \<open>Numbers and addresses in text\<close>

text \<open>\<^verbatim>\<open>wcsnchr\<close>: the offset of a character among the first \<open>mx\<close> ones.\<close>

definition wcsnchr :: "wstring \<Rightarrow> nat \<Rightarrow> wchar \<Rightarrow> nat option" where
  "wcsnchr str mx ch = wcschr (take mx str) ch"

definition c_space :: "wchar \<Rightarrow> bool" where
  "c_space c \<longleftrightarrow> c = CHR '' '' \<or> (9 \<le> (of_char c :: nat) \<and> (of_char c :: nat) \<le> 13)"

text \<open>The value of a digit or letter; 36 for a character that is neither.\<close>

definition digit_val :: "wchar \<Rightarrow> nat" where
  "digit_val c = (let n = of_char (towlower c) :: nat in
     if 48 \<le> n \<and> n \<le> 57 then n - 48 else if 97 \<le> n \<and> n \<le> 122 then n - 87 else 36)"

definition digits_val :: "nat \<Rightarrow> wstring \<Rightarrow> int" where
  "digits_val b ds = foldl (\<lambda>v c. int b * v + int (digit_val c)) 0 ds"

text \<open>
  The C functions \<^verbatim>\<open>wcstoul\<close>, with the number of characters that were converted, and \<^verbatim>\<open>_wtoi\<close>, which
  wraps around on overflow in the kernel run-time.
\<close>

definition wcstoul :: "wstring \<Rightarrow> nat \<Rightarrow> int \<times> nat" where
  "wcstoul s base =
     (let w = length (takeWhile c_space s); s1 = drop w s;
          neg = (deref s1 = CHR ''-'');
          sg = (if neg \<or> deref s1 = CHR ''+'' then 1 else 0); s2 = drop sg s1;
          hex = ((base = 0 \<or> base = 16) \<and> deref s2 = CHR ''0'' \<and> towlower (deref (drop 1 s2)) = CHR ''x''
                 \<and> digit_val (deref (drop 2 s2)) < 16);
          b = (if hex then 16 else if base = 0 then (if deref s2 = CHR ''0'' then 8 else 10) else base);
          ds = takeWhile (\<lambda>c. digit_val c < b) (if hex then drop 2 s2 else s2);
          v = digits_val b ds
      in if ds = [] then (0, 0)
         else (if 2 ^ 32 \<le> v then 2 ^ 32 - 1 else if neg then (2 ^ 32 - v) mod 2 ^ 32 else v,
               w + sg + (if hex then 2 else 0) + length ds))"

definition wtoi :: "wstring \<Rightarrow> int" where
  "wtoi s =
     (let s1 = dropWhile c_space s;
          neg = (deref s1 = CHR ''-'');
          s2 = (if neg \<or> deref s1 = CHR ''+'' then drop 1 s1 else s1);
          v = digits_val 10 (takeWhile (\<lambda>c. digit_val c < 10) s2)
      in int32 (if neg then - v else v))"

text \<open>
  \<^verbatim>\<open>_wntoi\<close> on the \<open>mx\<close> characters at offset \<open>i\<close>: they are copied into 12 uninitialised characters
  without a terminating NUL.  \<open>stk i\<close> is what the stack holds behind the copy up to the next NUL, for the conversion
  at offset \<open>i\<close>: an arbitrary text for each one, so that the rest of an earlier, longer number in the
  same place is one of the cases.  More than 12 characters overflow the array: \<^const>\<open>None\<close>.
\<close>

definition wntoi :: "(nat \<Rightarrow> wstring) \<Rightarrow> wstring \<Rightarrow> nat \<Rightarrow> nat \<Rightarrow> int option" where
  "wntoi stk s i mx =
     (if 12 < mx then None
      else Some (wtoi (take mx (drop i s) @ (if i + mx \<le> length s then stk i else []))))"

text \<open>The character classes of the address parser; \<^verbatim>\<open>isascii\<close> is the test for 127.\<close>

definition isdigit_c :: "wchar \<Rightarrow> bool" where
  "isdigit_c c \<longleftrightarrow> 48 \<le> (of_char c :: nat) \<and> (of_char c :: nat) \<le> 57"

definition isxdigit_c :: "wchar \<Rightarrow> bool" where
  "isxdigit_c c \<longleftrightarrow> isdigit_c c \<or> (65 \<le> (of_char c :: nat) \<and> (of_char c :: nat) \<le> 70)
     \<or> (97 \<le> (of_char c :: nat) \<and> (of_char c :: nat) \<le> 102)"

definition isascii :: "wchar \<Rightarrow> bool" where
  "isascii c \<longleftrightarrow> (of_char c :: nat) \<le> 127"

definition isalnum_c :: "wchar \<Rightarrow> bool" where
  "isalnum_c c \<longleftrightarrow> isdigit_c c \<or> (65 \<le> (of_char c :: nat) \<and> (of_char c :: nat) \<le> 90)
     \<or> (97 \<le> (of_char c :: nat) \<and> (of_char c :: nat) \<le> 122)"

definition ipcharok :: "wchar \<Rightarrow> bool" where
  "ipcharok c \<longleftrightarrow> c = CHR '':'' \<or> isascii c \<and> isxdigit_c c"

definition delimchar :: "wchar \<Rightarrow> bool" where
  "delimchar c \<longleftrightarrow> (if c = NUL then True else if c = CHR '':'' \<or> isascii c \<and> isalnum_c c then False else True)"

text \<open>
  \<^verbatim>\<open>_inet_aton\<close>.  The loop with \<open>n\<close> turns left at byte \<open>i\<close>: the number of parts that were read, \<^const>\<open>None\<close>
  for a parse error, and the bytes so far.
\<close>

fun aton_loop :: "nat \<Rightarrow> nat \<Rightarrow> wstring \<Rightarrow> u8 list \<Rightarrow> nat option \<times> u8 list" where
  "aton_loop 0 i from to = (Some i, to)"
| "aton_loop (Suc n) i from to =
     (if from = [] then (Some i, to)
      else
        let (x, k) = wcstoul from 0; p = drop k from
        in if 256 \<le> x \<or> k = 0 then (None, to)
           else
             let to1 = to[i := of_int x]
             in if deref p = CHR ''.'' then aton_loop n (i + 1) (drop 1 p) to1
                else if p \<noteq> [] then (None, to1)
                else aton_loop n (i + 1) p to1)"

definition aton_class :: "nat \<Rightarrow> u8 list \<Rightarrow> u8 list" where
  "aton_class i to =
     (let cls = drop_bit 6 (to ! 0)
      in if cls = 0 \<or> cls = 1 then
           (if i = 3 then [to ! 0, 0, to ! 1, to ! 2]
            else if i = 2 then [to ! 0, 0, to ! 2, to ! 1]
            else to)
         else if cls = 2 then
           (if i = 3 then [to ! 0, to ! 1, 0, to ! 2] else to)
         else to)"

definition inet_aton :: "wstring \<Rightarrow> bool \<times> u8 list" where
  "inet_aton from =
     (if from = [] then (False, [0, 0, 0, 0])
      else case aton_loop 4 0 from [0, 0, 0, 0] of
             (None, to) \<Rightarrow> (False, to)
           | (Some i, to) \<Rightarrow> (True, aton_class i to))"

datatype address_family = AF_INET | AF_INET6 | AF_OTHER

text \<open>
  The loop for IPv6 in \<^verbatim>\<open>_inet_pton\<close>, with \<open>n\<close> turns left: \<^const>\<open>None\<close> for a parse error, otherwise \<open>i\<close>, the
  ellipsis and the rest of the text; and the bytes.
\<close>

fun pton_loop :: "nat \<Rightarrow> nat \<Rightarrow> nat \<Rightarrow> wstring \<Rightarrow> u8 list \<Rightarrow> (nat \<times> nat \<times> wstring) option \<times> u8 list" where
  "pton_loop 0 i ellipsis p to = (Some (i, ellipsis, p), to)"
| "pton_loop (Suc n) i ellipsis p to =
     (if \<not> ipcharok (deref p) then (Some (i, ellipsis, p), to)
      else
        let (x, k) = wcstoul p 16; p1 = drop k p
        in if 2 ^ 16 \<le> x \<or> (deref p1 \<noteq> CHR '':'' \<and> \<not> delimchar (deref p1)) then (None, to)
           else
             let to1 = to[i := of_int (x div 256), i + 1 := of_int x]
             in if deref p1 = CHR '':'' then
                  (let p2 = drop 1 p1
                   in if deref p2 = CHR '':'' then
                        (if ellipsis \<noteq> 0 then (None, to1) else pton_loop n (i + 2) (i + 2) (drop 1 p2) to1)
                      else pton_loop n (i + 2) ellipsis p2 to1)
                else if k = 0 then (Some (i, ellipsis, p1), to1)
                else pton_loop n (i + 2) ellipsis p1 to1)"

definition inet_pton :: "address_family \<Rightarrow> wstring \<Rightarrow> IP_ADDRESS \<Rightarrow> int \<times> IP_ADDRESS" where
  "inet_pton af src dst =
     (case af of
        AF_INET \<Rightarrow> (let (ret, temp) = inet_aton src
                    in (if ret then 1 else 0, [0, 0, 0, 0, 0, 0, 0, 0, 0, 0, 0xFF, 0xFF] @ temp))
      | AF_OTHER \<Rightarrow> (- 1, dst)
      | AF_INET6 \<Rightarrow>
          (case pton_loop 8 0 0 src (replicate 16 0) of
             (None, to) \<Rightarrow> (0, to)
           | (Some (i, ellipsis, p), to) \<Rightarrow>
               if p = src \<or> \<not> delimchar (deref p) then (0, to)
               else if i < 16 then
                 (1, take ellipsis to @ replicate (16 - i) 0 @ take (i - ellipsis) (drop ellipsis to))
               else (1, to)))"

text \<open>
  \<^verbatim>\<open>_inet_xton\<close> on the \<open>src_len\<close> characters at offset \<open>i\<close>, at most 46 of them.  The array \<open>tmp\<close> gets its NUL
  here.
\<close>

definition inet_xton :: "wstring \<Rightarrow> nat \<Rightarrow> nat \<Rightarrow> int \<times> IP_ADDRESS \<times> address_family" where
  "inet_xton s i src_len =
     (let tmp = take (min src_len 46) (drop i s);
          af = (if wcschr tmp CHR '':'' \<noteq> None then AF_INET6 else AF_INET);
          (ret, dst) = inet_pton af tmp (replicate 16 0)
      in (ret, dst, af))"

section \<open>The parser of rules\<close>

text \<open>
  The loop of \<^verbatim>\<open>NetFw_ParseRule\<close> over the ranges of a tag, for ports and for addresses; \<open>num i n\<close>
  converts the \<open>n\<close> characters at offset \<open>i\<close>.  The second length of a range is the distance to the
  next item as a \<^verbatim>\<open>ULONG\<close>.  \<^const>\<open>None\<close> is a fault: a missing quotation mark, whose NULL is read, or a
  fault of the conversion.
\<close>

definition ulong_diff :: "nat \<Rightarrow> nat \<Rightarrow> nat" where
  "ulong_diff a b = unat (of_nat a - of_nat b :: u32)"

definition range_item ::
  "wstring \<Rightarrow> (nat \<Rightarrow> nat \<Rightarrow> 'k option) \<Rightarrow> nat \<Rightarrow> nat \<Rightarrow> nat \<Rightarrow> ('k \<times> 'k) option" where
  "range_item s num str1 len1 next =
     (case wcsnchr (drop str1 s) len1 CHR ''-'' of
        Some d \<Rightarrow>
          (case num str1 d of
             None \<Rightarrow> None
           | Some a \<Rightarrow> (case num (str1 + d + 1) (ulong_diff next (str1 + d + 1)) of None \<Rightarrow> None | Some b \<Rightarrow> Some (a, b)))
      | None \<Rightarrow> (case num str1 len1 of None \<Rightarrow> None | Some a \<Rightarrow> Some (a, a)))"

lemma wcschr_from_at: "wcschr_from s i c = Some k \<Longrightarrow> at s k = c"
proof -
  assume "wcschr_from s i c = Some k"
  then obtain j where k: "k = i + j" and j: "wcschr (drop i s) c = Some j" by (auto simp: wcschr_from_def)
  have "drop j (drop i s) = c # drop (Suc j) (drop i s)"
    using wcschr_nth [OF j] wcschr_Some_lt [OF j] by (metis Cons_nth_drop_Suc)
  then show "at s k = c" by (simp add: at_def k add.commute)
qed

lemma GetTagValue_progress:
  assumes "SbieDll_GetTagValue s pos (Some lim) sep = Some (Some next, v, len)" and "pos < lim" and "sep \<noteq> NUL"
  shows "pos < next"
proof -
  let ?str = "Config_SkipWhiteSpace s pos"
  have str: "pos \<le> ?str" by (rule skip_ws_ge)
  have "\<exists>t. next = skip_sep s (Some lim) t \<and> (pos < t \<or> (t = pos \<and> at s t = sep))"
  proof (cases "at s ?str = DQUOTE \<or> at s ?str = SQUOTE")
    case True
    with assms obtain e where "wcschr_from s (?str + 1) (at s ?str) = Some e"
      and "next = skip_sep s (Some lim) (tag_end s (Some lim) (e + 1) sep)"
      by (auto simp: SbieDll_GetTagValue_def Let_def split: option.splits)
    with str assms(2) show ?thesis
      by (intro exI [of _ "tag_end s (Some lim) (e + 1) sep"])
        (auto simp: tag_end_def split: option.splits dest!: wcschr_from_ge)
  next
    case False
    let ?t = "tag_end s (Some lim) ?str sep"
    from False assms(1) have n: "next = skip_sep s (Some lim) ?t" and t: "?str \<le> ?t"
      by (auto simp: SbieDll_GetTagValue_def Let_def split: if_splits)
    have "?t = lim \<or> at s ?t = sep"
      by (auto simp: tag_end_def split: option.splits dest: wcschr_from_at)
    with n t str assms(2) show ?thesis by (intro exI [of _ ?t]) auto
  qed
  then obtain t where "next = skip_sep s (Some lim) t" "pos < t \<or> (t = pos \<and> at s t = sep)" by blast
  with assms(2,3) show ?thesis by (auto simp: skip_sep_def)
qed

function range_loop ::
  "wstring \<Rightarrow> (nat \<Rightarrow> nat \<Rightarrow> 'k option) \<Rightarrow> nat \<Rightarrow> nat \<Rightarrow> ('k, 'k) rbtree_t \<Rightarrow> ('k, 'k) rbtree_t option" where
  "range_loop s num lim pos tree =
     (if lim \<le> pos then Some tree
      else case SbieDll_GetTagValue s pos (Some lim) CHR '','' of
             Some (Some next, Some str1, len1) \<Rightarrow>
               (case range_item s num str1 len1 next of
                  None \<Rightarrow> None
                | Some (a, b) \<Rightarrow>
                    (case add_range tree a b of None \<Rightarrow> None | Some tree1 \<Rightarrow> range_loop s num lim next tree1))
           | _ \<Rightarrow> None)"
  by pat_completeness auto
termination
  by (relation "measure (\<lambda>(s, num, lim, pos, tree). lim - pos)") (auto dest: GetTagValue_progress)

declare range_loop.simps [simp del]

definition port_num :: "(nat \<Rightarrow> wstring) \<Rightarrow> wstring \<Rightarrow> nat \<Rightarrow> nat \<Rightarrow> u16 option" where
  "port_num stk s i n = map_option of_int (wntoi stk s i n)"

definition ip_num :: "wstring \<Rightarrow> nat \<Rightarrow> nat \<Rightarrow> IP_ADDRESS option" where
  "ip_num s i n = Some (fst (snd (inet_xton s i n)))"

text \<open>The protocol tag; anything but a prefix of the three names leaves the protocol as it is.\<close>

definition rule_protocol :: "wstring \<Rightarrow> nat \<times> nat \<Rightarrow> NETFW_RULE \<Rightarrow> NETFW_RULE" where
  "rule_protocol s tag rule =
     (let (i, n) = tag; p = drop i s
      in if wcsnicmp_eq p ''TCP'' n then NetFw_RuleSetProtocol IPPROTO_TCP rule
         else if wcsnicmp_eq p ''UDP'' n then NetFw_RuleSetProtocol IPPROTO_UDP rule
         else if wcsnicmp_eq p ''ICMP'' n then NetFw_RuleSetProtocol IPPROTO_ICMP rule
         else rule)"

text \<open>
  \<^verbatim>\<open>NetFw_ParseRule\<close>; \<open>stk\<close> is the stack below \<^const>\<open>wntoi\<close>.  An unterminated quotation mark at the
  action leaves \<open>action_value\<close> NULL and its length 0, which compares equal to Allow.
\<close>

definition NetFw_ParseRule :: "(nat \<Rightarrow> wstring) \<Rightarrow> NETFW_RULE \<Rightarrow> wstring \<Rightarrow> NETFW_RULE option" where
  "NetFw_ParseRule stk rule found_value =
     (case SbieDll_GetTagValue found_value 0 None CHR '';'' of
        None \<Rightarrow> None
      | Some (tag_list, action_value, action_len) \<Rightarrow>
          let tag = (\<lambda>name. SbieDll_FindTagValuePtr found_value tag_list name CHR ''='' CHR '';'');
              rule0 = NetFw_RuleSetBlockAction
                (case action_value of None \<Rightarrow> False
                 | Some i \<Rightarrow> \<not> wcsnicmp_eq (drop i found_value) ''Allow'' action_len) rule
          in case (case tag ''Port'' of
                     None \<Rightarrow> None
                   | Some None \<Rightarrow> Some rule0
                   | Some (Some (i, n)) \<Rightarrow>
                       map_option (\<lambda>m. rule0\<lparr>port_map := m\<rparr>)
                         (range_loop found_value (port_num stk found_value) (i + n) i (port_map rule0))) of
               None \<Rightarrow> None
             | Some rule1 \<Rightarrow>
                 (case (case tag ''Address'' of
                          None \<Rightarrow> None
                        | Some None \<Rightarrow> Some rule1
                        | Some (Some (i, n)) \<Rightarrow>
                            map_option (\<lambda>m. rule1\<lparr>ip_map := m\<rparr>)
                              (range_loop found_value (ip_num found_value) (i + n) i (ip_map rule1))) of
                    None \<Rightarrow> None
                  | Some rule2 \<Rightarrow>
                      map_option (\<lambda>tag. case tag of None \<Rightarrow> rule2 | Some t \<Rightarrow> rule_protocol found_value t rule2)
                        (tag ''Protocol'')))"

definition is_localhost :: "address_family \<Rightarrow> u8 list \<Rightarrow> bool" where
  "is_localhost family addr =
     (case family of
        AF_INET \<Rightarrow> addr ! 0 = 0x7F
      | AF_INET6 \<Rightarrow> (\<forall>i < 15. addr ! i = 0) \<and> addr ! 15 = 1
      | AF_OTHER \<Rightarrow> False)"

definition is_inet :: "address_family \<Rightarrow> bool" where
  "is_inet family \<longleftrightarrow> family = AF_INET \<or> family = AF_INET6"


end
