(* ===== verification/NetFwRules.thy ===== *)
theory NetFwRules
  imports NetFw "HOL-Library.Product_Lexorder"
begin

text \<open>
  The network rules decide as they are written.  The range maps are correct in the locale of
  \<^verbatim>\<open>RBTree\<close>, which is interpreted here for ports and for addresses; the rule list with its merging
  refines a list of rule descriptions in which nothing is merged.
\<close>

section \<open>Range maps\<close>

text \<open>
  The specification of a range map: which ranges contain a point, and that the ranges lie apart.
\<close>

definition in_range :: "('k \<Rightarrow> 'k \<Rightarrow> int) \<Rightarrow> 'k \<Rightarrow> 'k \<times> 'k \<Rightarrow> bool" where
  "in_range cmp x r \<longleftrightarrow> cmp (fst r) x \<le> 0 \<and> cmp x (snd r) \<le> 0"

definition ranges_apart :: "('k \<Rightarrow> 'k \<Rightarrow> int) \<Rightarrow> ('k \<times> 'k) set \<Rightarrow> bool" where
  "ranges_apart cmp R \<longleftrightarrow> (\<forall>r \<in> R. cmp (fst r) (snd r) \<le> 0)
     \<and> (\<forall>r \<in> R. \<forall>q \<in> R. r = q \<or> cmp (snd r) (fst q) < 0 \<or> cmp (snd q) (fst r) < 0)"

definition range_level :: "('k \<Rightarrow> 'k \<Rightarrow> int) \<Rightarrow> ('k \<times> 'k) set \<Rightarrow> 'k \<Rightarrow> nat" where
  "range_level cmp R x =
     (if R = {} then NETFW_MATCH_GLOBAL
      else if \<exists>r \<in> R. in_range cmp x r \<and> fst r = snd r then NETFW_MATCH_EXACT
      else if \<exists>r \<in> R. in_range cmp x r then NETFW_MATCH_RANGE
      else NETFW_MATCH_NONE)"

lemma ranges_apart_subset: "ranges_apart cmp R \<Longrightarrow> Q \<subseteq> R \<Longrightarrow> ranges_apart cmp Q"
  unfolding ranges_apart_def by blast

context cmp_order
begin

lemma cmp_le_trans: "cmp a b \<le> 0 \<Longrightarrow> cmp b c \<le> 0 \<Longrightarrow> cmp a c \<le> 0"
  using cmp_trans [of a b c] cmp_eq [of a b] cmp_eq [of b c] by fastforce

lemma cmp_neg_le: "cmp a b < 0 \<longleftrightarrow> \<not> cmp b a \<le> 0"
  using cmp_flip [of b a] by linarith

lemma apart_same:
  assumes "ranges_apart cmp R" "r \<in> R" "q \<in> R" "in_range cmp x r" "in_range cmp x q"
  shows "r = q"
proof -
  from assms(1,2,3) have "r = q \<or> cmp (snd r) (fst q) < 0 \<or> cmp (snd q) (fst r) < 0"
    by (auto simp: ranges_apart_def)
  with assms(4,5) show ?thesis
    unfolding in_range_def by (meson cmp_le_trans cmp_neg_le)
qed

lemma apart_begin:
  assumes "ranges_apart cmp R" "(b, e) \<in> R" "(b, e') \<in> R"
  shows "e = e'"
proof -
  from assms have "in_range cmp b (b, e)" "in_range cmp b (b, e')"
    by (auto simp: in_range_def ranges_apart_def)
  from apart_same [OF assms this] show ?thesis by simp
qed

lemma level_apart:
  assumes "ranges_apart cmp R" "r \<in> R" "in_range cmp x r"
  shows "range_level cmp R x = (if fst r = snd r then NETFW_MATCH_EXACT else NETFW_MATCH_RANGE)"
proof -
  have "(\<exists>q \<in> R. in_range cmp x q \<and> fst q = snd q) \<longleftrightarrow> fst r = snd r"
    using assms(2,3) apart_same [OF assms(1) _ assms(2) _ assms(3)] by blast
  moreover have "R \<noteq> {}" "\<exists>q \<in> R. in_range cmp x q" using assms(2,3) by auto
  ultimately show ?thesis by (simp add: range_level_def)
qed

lemma level_Un:
  assumes "ranges_apart cmp (A \<union> B)" "A \<noteq> {}" "B \<noteq> {}"
  shows "range_level cmp A x \<noteq> 0 \<Longrightarrow> range_level cmp (A \<union> B) x = range_level cmp A x"
    and "range_level cmp A x = 0 \<Longrightarrow> range_level cmp (A \<union> B) x = range_level cmp B x"
proof -
  have sub: "ranges_apart cmp A" "ranges_apart cmp B" using assms(1) by (auto elim: ranges_apart_subset)
  show "range_level cmp (A \<union> B) x = range_level cmp A x" if "range_level cmp A x \<noteq> 0"
  proof -
    from that assms(2) obtain r where "r \<in> A" "in_range cmp x r"
      by (auto simp: range_level_def netfw_match_defs split: if_splits)
    then show ?thesis using level_apart [OF assms(1)] level_apart [OF sub(1)] by simp
  qed
  show "range_level cmp (A \<union> B) x = range_level cmp B x" if "range_level cmp A x = 0"
  proof -
    from that assms(2) have "\<not> (\<exists>r \<in> A. in_range cmp x r)"
      by (auto simp: range_level_def netfw_match_defs split: if_splits)
    with assms(2,3) show ?thesis unfolding range_level_def by (auto simp: bex_Un)
  qed
qed

lemma add_range_ok:
  assumes "rb_inv t"
  shows "\<exists>t'. add_range t b e = Some t' \<and> rb_inv t' \<and>
    set (rbtree_elems t') = (if b \<in> fst ` set (rbtree_elems t) then set (rbtree_elems t) else insert (b, e) (set (rbtree_elems t)))"
proof -
  obtain ok t' where t': "rbtree_insert (b, e) t = Some (ok, t')" "rb_inv t'"
      "ok \<longleftrightarrow> fst (b, e) \<notin> fst ` set (inorder (rb_root t))"
      "ok \<longrightarrow> (\<exists>l r. inorder (rb_root t) = l @ r \<and> inorder (rb_root t') = l @ (b, e) # r)" "\<not> ok \<longrightarrow> t' = t"
    using rbtree_insert_ok [OF assms] by metis
  have "set (inorder (rb_root t')) = (if ok then insert (b, e) (set (inorder (rb_root t))) else set (inorder (rb_root t)))"
    using t'(4,5) by (cases ok) auto
  then have "set (rbtree_elems t') = (if b \<in> fst ` set (rbtree_elems t) then set (rbtree_elems t)
      else insert (b, e) (set (rbtree_elems t)))"
    using t'(3) by (simp add: rbtree_elems_ok [OF assms] rbtree_elems_ok [OF t'(2)])
  with t'(1,2) show ?thesis by (simp add: add_range_def)
qed

lemma add_ranges_ok:
  "rb_inv t \<Longrightarrow> ranges_apart cmp (set (rbtree_elems t) \<union> set rs) \<Longrightarrow>
     \<exists>t'. add_ranges rs t = Some t' \<and> rb_inv t' \<and> set (rbtree_elems t') = set (rbtree_elems t) \<union> set rs"
proof (induction rs arbitrary: t)
  case (Cons r rs)
  obtain b e where r: "r = (b, e)" by (cases r)
  obtain t1 where t1: "add_range t b e = Some t1" "rb_inv t1" "set (rbtree_elems t1) =
      (if b \<in> fst ` set (rbtree_elems t) then set (rbtree_elems t) else insert (b, e) (set (rbtree_elems t)))"
    using add_range_ok [OF Cons.prems(1)] by blast
  have "(b, e) \<in> set (rbtree_elems t)" if "b \<in> fst ` set (rbtree_elems t)"
  proof -
    from that obtain e' where e': "(b, e') \<in> set (rbtree_elems t)" by force
    with apart_begin [OF Cons.prems(2), of b e e'] r show ?thesis by simp
  qed
  with t1(3) have s1: "set (rbtree_elems t1) = insert (b, e) (set (rbtree_elems t))" by auto
  with Cons.prems(2) r have "ranges_apart cmp (set (rbtree_elems t1) \<union> set rs)" by (auto elim: ranges_apart_subset)
  from Cons.IH [OF t1(2) this] t1(1) s1 r show ?case by auto
qed simp

lemma elems_empty: "rb_inv t \<Longrightarrow> rb_count t = 0 \<longleftrightarrow> set (rbtree_elems t) = {}"
  by (simp add: rbtree_elems_ok rb_inv_def)

lemma count_card: "rb_inv (t :: ('k, 'x) rbtree_t) \<Longrightarrow> rb_count t = card (set (rbtree_elems t))"
proof -
  assume t: "rb_inv t"
  have "distinct xs" if "in_order xs" for xs :: "('k \<times> 'x) list"
    using that by (induction xs) (auto simp: in_order_def)
  with t have "distinct (inorder (rb_root t))" by (simp add: rb_inv_def)
  with t show ?thesis by (simp add: rbtree_elems_ok rb_inv_def distinct_card)
qed

lemma match_range_ok:
  assumes "rb_inv t" "ranges_apart cmp (set (rbtree_elems t))"
  shows "match_range cmp t x = range_level cmp (set (rbtree_elems t)) x"
proof (cases "rb_count t = 0")
  case True
  with assms(1) show ?thesis using elems_empty [OF assms(1)] by (simp add: match_range_def range_level_def)
next
  case False
  let ?xs = "rbtree_elems t" and ?le = "\<lambda>a. cmp (fst a) x \<le> 0"
  have ne: "?xs \<noteq> []" using False elems_empty [OF assms(1)] by simp
  have f: "snd (rbtree_find_less_equal t x) = (if filter ?le ?xs = [] then None else Some (last (filter ?le ?xs)))"
    using rbtree_find_less_equal_ok [OF assms(1)] by (simp add: last_le_def Let_def rbtree_elems_ok assms(1))
  show ?thesis
  proof (cases "\<exists>r \<in> set ?xs. in_range cmp x r")
    case False
    then have "range_level cmp (set ?xs) x = NETFW_MATCH_NONE" using ne by (auto simp: range_level_def)
    moreover have "match_range cmp t x = NETFW_MATCH_NONE"
    proof (cases "filter ?le ?xs = []")
      case True
      with f \<open>rb_count t \<noteq> 0\<close> show ?thesis by (simp add: match_range_def)
    next
      case ff: False
      let ?n = "last (filter ?le ?xs)"
      have "?n \<in> set ?xs" "?le ?n" using last_in_set [OF ff] by auto
      with False have "cmp (snd ?n) x < 0" using cmp_neg_le by (auto simp: in_range_def)
      with f ff \<open>rb_count t \<noteq> 0\<close> show ?thesis by (simp add: match_range_def)
    qed
    ultimately show ?thesis by simp
  next
    case True
    then obtain r where r: "r \<in> set ?xs" "in_range cmp x r" by blast
    have last: "filter ?le ?xs \<noteq> []" "last (filter ?le ?xs) = r"
    proof -
      obtain l m where lm: "?xs = l @ r # m" using split_list [OF r(1)] by blast
      have io: "in_order ?xs" using assms(1) by (simp add: rbtree_elems_ok rb_inv_def)
      have "\<not> ?le q" if "q \<in> set m" for q
      proof
        assume le: "?le q"
        have rq: "cmp (fst r) (fst q) < 0" using io that lm by (auto simp: in_order_def sorted_wrt_append)
        have "q \<in> set ?xs" using that lm by simp
        then have "r = q \<or> cmp (snd r) (fst q) < 0 \<or> cmp (snd q) (fst r) < 0" and wf: "cmp (fst q) (snd q) \<le> 0"
          using assms(2) r(1) by (auto simp: ranges_apart_def)
        moreover have "r \<noteq> q" using rq by auto
        moreover have "\<not> cmp (snd r) (fst q) < 0" using r(2) le cmp_le_trans [OF le] cmp_neg_le by (auto simp: in_range_def)
        moreover have "cmp (fst r) (snd q) \<le> 0" using cmp_le_trans [of "fst r" "fst q"] rq wf by simp
        ultimately show False using cmp_neg_le by blast
      qed
      then have "filter ?le ?xs = filter ?le l @ [r]" using r(2) lm by (simp add: in_range_def filter_empty_conv)
      then show "filter ?le ?xs \<noteq> []" "last (filter ?le ?xs) = r" by simp_all
    qed
    have "\<not> cmp x (fst r) < 0" "\<not> cmp (snd r) x < 0" using r(2) cmp_neg_le by (auto simp: in_range_def)
    with f last \<open>rb_count t \<noteq> 0\<close> level_apart [OF assms(2) r] show ?thesis by (simp add: match_range_def cmp_eq)
  qed
qed

lemma match_maps_eq: "match_maps cmp xs ys \<longleftrightarrow> xs = ys"
  by (induction xs ys rule: list_induct2') (auto simp: cmp_eq prod_eq_iff)

lemma merge_maps_ok:
  assumes "rb_inv dst" "rb_inv src" "ranges_apart cmp (set (rbtree_elems dst) \<union> set (rbtree_elems src))"
  shows "merge_maps cmp dst src = Some (False, dst) \<or>
    (\<exists>m. merge_maps cmp dst src = Some (True, m) \<and> rb_inv m
       \<and> set (rbtree_elems m) = set (rbtree_elems dst) \<union> set (rbtree_elems src))"
  using add_ranges_ok [OF assms(1,3)] by (auto simp: merge_maps_def)

end

text \<open>The comparisons of ports and of addresses are orders.\<close>

lemma memcmp_eq: "memcmp a b = 0 \<longleftrightarrow> a = b"
  by (induction a b rule: memcmp.induct) (auto simp: word_uint_eq_iff)

lemma memcmp_flip: "0 < memcmp a b \<longleftrightarrow> memcmp b a < 0"
  by (induction a b rule: memcmp.induct) auto

lemma memcmp_trans: "memcmp a b < 0 \<Longrightarrow> memcmp b c < 0 \<Longrightarrow> memcmp a c < 0"
proof (induction a b arbitrary: c rule: memcmp.induct)
  case (2 r rs)
  then show ?case by (cases c) auto
next
  case (4 l ls r rs)
  then show ?case by (cases c) (auto split: if_splits)
qed (auto split: if_splits)

interpretation ports: cmp_order NetFw_PortCmp
  by unfold_locales (auto simp: NetFw_PortCmp_def split: if_splits)

interpretation ips: cmp_order NetFw_IpCmp
  by unfold_locales (auto simp: NetFw_IpCmp_def memcmp_eq memcmp_flip intro: memcmp_trans)

section \<open>Rules\<close>

text \<open>
  A rule as the user writes it: the level of the image match, the action, the ranges and the protocol;
  \<open>build_rule\<close> makes the rule of the code from it.
\<close>

record rule_desc =
  rd_level :: int
  rd_block :: bool
  rd_ports :: "(u16 \<times> u16) list"
  rd_ips :: "(IP_ADDRESS \<times> IP_ADDRESS) list"
  rd_protocol :: int

definition build_rule :: "rule_desc \<Rightarrow> NETFW_RULE option" where
  "build_rule d =
     (let rule = NetFw_RuleSetProtocol (rd_protocol d) (NetFw_RuleSetBlockAction (rd_block d) (NetFw_AllocRule (rd_level d)))
      in case (add_ranges (rd_ports d) (port_map rule), add_ranges (rd_ips d) (ip_map rule)) of
           (Some pm, Some im) \<Rightarrow> Some (rule\<lparr>port_map := pm, ip_map := im\<rparr>)
         | _ \<Rightarrow> None)"

fun add_rules :: "NETFW_RULE list \<Rightarrow> NETFW_RULE list \<Rightarrow> NETFW_RULE list option" where
  "add_rules rules [] = Some rules"
| "add_rules rules (new # news) = (case NetFw_AddRule rules new of None \<Rightarrow> None | Some rs \<Rightarrow> add_rules rs news)"

text \<open>What a rule with port ranges \<open>P\<close> and address ranges \<open>I\<close> says of a connection.\<close>

definition sem_match ::
  "nat \<Rightarrow> bool \<Rightarrow> (u16 \<times> u16) set \<Rightarrow> (IP_ADDRESS \<times> IP_ADDRESS) set \<Rightarrow> int \<Rightarrow> u16 \<Rightarrow> IP_ADDRESS \<Rightarrow> int
     \<Rightarrow> RULE_MATCH option" where
  "sem_match level block P I prot TestPort TestAddress TestProt =
     (let p = range_level NetFw_PortCmp P TestPort; a = range_level NetFw_IpCmp I TestAddress
      in if p = NETFW_MATCH_NONE \<or> a = NETFW_MATCH_NONE \<or> (prot \<noteq> IPPROTO_ANY \<and> prot \<noteq> TestProt) then None
         else Some \<lparr>ByProg = level, ByPort = p, ByAddress = a,
                    ByEndPoint = (if P \<noteq> {} \<and> I \<noteq> {} then max a p else 0),
                    ByProtocol = (if prot = IPPROTO_ANY then NETFW_MATCH_GLOBAL else NETFW_MATCH_EXACT),
                    BlockAction = block\<rparr>)"

definition desc_match :: "rule_desc \<Rightarrow> u16 \<Rightarrow> IP_ADDRESS \<Rightarrow> int \<Rightarrow> RULE_MATCH option" where
  "desc_match d =
     sem_match (proc_match_level (NetFw_AllocRule (rd_level d))) (rd_block d) (set (rd_ports d)) (set (rd_ips d)) (rd_protocol d)"

text \<open>The rank of a match among matches of one protocol: image, end point, port, address, and Block over Allow.\<close>

definition match_key :: "RULE_MATCH \<Rightarrow> nat \<times> nat \<times> nat \<times> nat \<times> bool" where
  "match_key m = (ByProg m, ByEndPoint m, ByPort m, ByAddress m, BlockAction m)"

definition best_blocks :: "RULE_MATCH set \<Rightarrow> bool" where
  "best_blocks M \<longleftrightarrow> (\<exists>m \<in> M. BlockAction m \<and> (\<forall>m' \<in> M. match_key m' \<le> match_key m))"

definition spec_blocks :: "rule_desc list \<Rightarrow> IP_ADDRESS \<Rightarrow> u16 \<Rightarrow> int \<Rightarrow> bool" where
  "spec_blocks ds Ip Port Protocol \<longleftrightarrow> best_blocks (\<Union>d \<in> set ds. set_option (desc_match d Port Ip Protocol))"

lemma better_key:
  "ByProtocol my = ByProtocol other \<Longrightarrow> NetFw_IsBetterMatch my other \<longleftrightarrow> match_key other < match_key my"
  by (auto simp: NetFw_IsBetterMatch_def match_key_def)

lemma MatchRule_block: "NetFw_MatchRule rule Port Ip Protocol = Some m \<Longrightarrow> BlockAction m = action_block rule"
  by (auto simp: NetFw_MatchRule_def Let_def split: if_splits)

lemma MatchRule_protocol:
  "NetFw_MatchRule rule Port Ip Protocol = Some m \<Longrightarrow>
     ByProtocol m = (if protocol rule = IPPROTO_ANY then NETFW_MATCH_GLOBAL else NETFW_MATCH_EXACT)"
  by (auto simp: NetFw_MatchRule_def NetFw_MatchProtocol_def netfw_match_defs Let_def split: if_splits)

definition is_best :: "(NETFW_RULE \<times> RULE_MATCH) option \<Rightarrow> RULE_MATCH set \<Rightarrow> bool" where
  "is_best best M \<longleftrightarrow>
     (case best of
        None \<Rightarrow> M = {}
      | Some (r, m) \<Rightarrow> m \<in> M \<and> action_block r = BlockAction m \<and> (\<forall>m' \<in> M. match_key m' \<le> match_key m))"

lemma best_rule_ok:
  "\<forall>r \<in> set rules. protocol r = pr \<Longrightarrow> is_best best M \<Longrightarrow> \<forall>m \<in> M. ByProtocol m = c \<Longrightarrow>
     c = (if pr = IPPROTO_ANY then NETFW_MATCH_GLOBAL else NETFW_MATCH_EXACT) \<Longrightarrow>
     is_best (best_rule rules Ip Port Protocol best)
       (M \<union> (\<Union>r \<in> set rules. set_option (NetFw_MatchRule r Port Ip Protocol)))"
proof (induction rules arbitrary: best M)
  case (Cons r rules)
  show ?case
  proof (cases "NetFw_MatchRule r Port Ip Protocol")
    case None
    with Cons show ?thesis by simp
  next
    case (Some m)
    have c: "ByProtocol m = c" using MatchRule_protocol [OF Some] Cons.prems by simp
    have b: "BlockAction m = action_block r" by (rule MatchRule_block [OF Some])
    let ?best = "case best of None \<Rightarrow> Some (r, m)
      | Some (_, bm) \<Rightarrow> if NetFw_IsBetterMatch m bm then Some (r, m) else best"
    have "is_best ?best (insert m M)"
    proof (cases best)
      case None
      with Cons.prems(2) b show ?thesis by (simp add: is_best_def)
    next
      case (Some rb)
      obtain br bm where rb: "rb = (br, bm)" by (cases rb)
      have m: "bm \<in> M" "\<And>m'. m' \<in> M \<Longrightarrow> match_key m' \<le> match_key bm" "action_block br = BlockAction bm"
        using Cons.prems(2) Some rb by (auto simp: is_best_def)
      have k: "NetFw_IsBetterMatch m bm \<longleftrightarrow> match_key bm < match_key m"
        by (rule better_key) (use c m(1) Cons.prems(3) in simp)
      show ?thesis
      proof (cases "match_key bm < match_key m")
        case True
        then have "\<And>m'. m' \<in> M \<Longrightarrow> match_key m' \<le> match_key m" using m(2) by (meson less_imp_le order_trans)
        with True b k show ?thesis by (simp add: Some rb is_best_def)
      next
        case False
        with m k show ?thesis by (simp add: Some rb is_best_def not_less)
      qed
    qed
    from Cons.IH [OF _ this] Cons.prems c Some show ?thesis by (simp add: Un_insert_left)
  qed
qed simp

lemma is_best_blocks:
  assumes "is_best best M"
  shows "(case best of None \<Rightarrow> False | Some (rule, _) \<Rightarrow> action_block rule) \<longleftrightarrow> best_blocks M"
proof (cases best)
  case (Some rb)
  obtain r b where rb: "rb = (r, b)" by (cases rb)
  with assms Some have b: "b \<in> M" "action_block r = BlockAction b" "\<And>m. m \<in> M \<Longrightarrow> match_key m \<le> match_key b"
    by (auto simp: is_best_def)
  have "BlockAction m = BlockAction b" if "m \<in> M" "\<forall>m' \<in> M. match_key m' \<le> match_key m" for m
  proof -
    have "match_key m = match_key b" by (rule antisym [OF b(3) [OF that(1)] bspec [OF that(2) b(1)]])
    then show ?thesis by (simp add: match_key_def)
  qed
  then have "best_blocks M \<longleftrightarrow> BlockAction b" unfolding best_blocks_def using b(1,3) by blast
  with b(2) Some rb show ?thesis by simp
qed (use assms in \<open>simp add: is_best_def best_blocks_def\<close>)

lemma BlockTraffic_best:
  assumes "\<forall>r \<in> set rules. protocol r = pr"
  shows "NetFw_BlockTraffic rules Ip Port Protocol \<longleftrightarrow>
    best_blocks (\<Union>r \<in> set rules. set_option (NetFw_MatchRule r Port Ip Protocol))"
proof -
  let ?M = "\<Union>r \<in> set rules. set_option (NetFw_MatchRule r Port Ip Protocol)"
  have "is_best (best_rule rules Ip Port Protocol None) ?M"
    using best_rule_ok [OF assms, of None "{}"] by (simp add: is_best_def)
  then show ?thesis unfolding NetFw_BlockTraffic_def by (rule is_best_blocks)
qed

section \<open>Merging\<close>

text \<open>A rule whose trees are in order and whose ranges are among given ones that lie apart.\<close>

abbreviation port_ranges :: "NETFW_RULE \<Rightarrow> (u16 \<times> u16) set" where
  "port_ranges r \<equiv> set (rbtree_elems (port_map r))"

abbreviation ip_ranges :: "NETFW_RULE \<Rightarrow> (IP_ADDRESS \<times> IP_ADDRESS) set" where
  "ip_ranges r \<equiv> set (rbtree_elems (ip_map r))"

definition rule_ok :: "(u16 \<times> u16) set \<Rightarrow> (IP_ADDRESS \<times> IP_ADDRESS) set \<Rightarrow> NETFW_RULE \<Rightarrow> bool" where
  "rule_ok P I r \<longleftrightarrow> ports.rb_inv (port_map r) \<and> ips.rb_inv (ip_map r) \<and> port_ranges r \<subseteq> P \<and> ip_ranges r \<subseteq> I
     \<and> ranges_apart NetFw_PortCmp P \<and> ranges_apart NetFw_IpCmp I"

lemma range_level_global: "range_level cmp R x = NETFW_MATCH_GLOBAL \<longleftrightarrow> R = {}"
  by (simp add: range_level_def netfw_match_defs)

lemma range_level_gt: "NETFW_MATCH_GLOBAL < range_level cmp R x \<longleftrightarrow> R \<noteq> {} \<and> range_level cmp R x \<noteq> NETFW_MATCH_NONE"
  by (simp add: range_level_def netfw_match_defs)

lemma MatchRule_sem:
  assumes "rule_ok P I r"
  shows "NetFw_MatchRule r Port Ip Protocol =
    sem_match (proc_match_level r) (action_block r) (port_ranges r) (ip_ranges r) (protocol r) Port Ip Protocol"
proof -
  have p: "NetFw_MatchPort (port_map r) Port = range_level NetFw_PortCmp (port_ranges r) Port"
    using assms by (auto simp: NetFw_MatchPort_def rule_ok_def intro!: ports.match_range_ok elim: ranges_apart_subset)
  have i: "NetFw_MatchAddress (ip_map r) Ip = range_level NetFw_IpCmp (ip_ranges r) Ip"
    using assms by (auto simp: NetFw_MatchAddress_def rule_ok_def intro!: ips.match_range_ok elim: ranges_apart_subset)
  show ?thesis
    unfolding NetFw_MatchRule_def sem_match_def p i Let_def range_level_gt NetFw_MatchProtocol_def
    by (auto simp: NETFW_MATCH_NONE_def NETFW_MATCH_EXACT_def NETFW_MATCH_GLOBAL_def max_def)
qed

lemma sem_match_Un:
  assumes "ranges_apart NetFw_PortCmp (P \<union> P')" "ranges_apart NetFw_IpCmp (I \<union> I')"
    and "P = {} \<longleftrightarrow> P' = {}" "I = {} \<longleftrightarrow> I' = {}" "P = P' \<or> I = I'"
  shows "set_option (sem_match l b (P \<union> P') (I \<union> I') pr p i q) =
    set_option (sem_match l b P I pr p i q) \<union> set_option (sem_match l b P' I' pr p i q)"
proof -
  have p: "range_level NetFw_PortCmp (P \<union> P') p =
      (if range_level NetFw_PortCmp P p \<noteq> 0 then range_level NetFw_PortCmp P p else range_level NetFw_PortCmp P' p)"
    "range_level NetFw_PortCmp (P \<union> P') p =
      (if range_level NetFw_PortCmp P' p \<noteq> 0 then range_level NetFw_PortCmp P' p else range_level NetFw_PortCmp P p)"
    using ports.level_Un [OF assms(1)] ports.level_Un [of P' P] assms(1,3) by (cases "P = {}"; simp add: Un_commute)+
  have i: "range_level NetFw_IpCmp (I \<union> I') i =
      (if range_level NetFw_IpCmp I i \<noteq> 0 then range_level NetFw_IpCmp I i else range_level NetFw_IpCmp I' i)"
    "range_level NetFw_IpCmp (I \<union> I') i =
      (if range_level NetFw_IpCmp I' i \<noteq> 0 then range_level NetFw_IpCmp I' i else range_level NetFw_IpCmp I i)"
    using ips.level_Un [OF assms(2)] ips.level_Un [of I' I] assms(2,4) by (cases "I = {}"; simp add: Un_commute)+
  have e: "P \<union> P' = {} \<longleftrightarrow> P = {}" "I \<union> I' = {} \<longleftrightarrow> I = {}" using assms(3,4) by auto
  from assms(5) show ?thesis
  proof
    assume "P = P'"
    with i e assms(4) show ?thesis
      by (cases "range_level NetFw_IpCmp I i = 0"; cases "range_level NetFw_IpCmp I' i = 0")
        (simp_all add: sem_match_def Let_def NETFW_MATCH_NONE_def)
  next
    assume "I = I'"
    with p e assms(3) show ?thesis
      by (cases "range_level NetFw_PortCmp P p = 0"; cases "range_level NetFw_PortCmp P' p = 0")
        (simp_all add: sem_match_def Let_def NETFW_MATCH_NONE_def)
  qed
qed

definition merges :: "(u16 \<times> u16) set \<Rightarrow> (IP_ADDRESS \<times> IP_ADDRESS) set \<Rightarrow> NETFW_RULE \<Rightarrow> NETFW_RULE \<Rightarrow> NETFW_RULE \<Rightarrow> bool" where
  "merges P I r n m \<longleftrightarrow> rule_ok P I m \<and> protocol m = protocol r \<and> (\<forall>Port Ip Protocol.
     set_option (NetFw_MatchRule m Port Ip Protocol) =
       set_option (NetFw_MatchRule r Port Ip Protocol) \<union> set_option (NetFw_MatchRule n Port Ip Protocol))"

lemma mergesI:
  assumes "rule_ok P I r" "rule_ok P I n" "rule_ok P I m"
    and "proc_match_level m = proc_match_level r" "action_block m = action_block r" "protocol m = protocol r"
    and "proc_match_level n = proc_match_level r" "action_block n = action_block r" "protocol n = protocol r"
    and "port_ranges m = port_ranges r \<union> port_ranges n" "ip_ranges m = ip_ranges r \<union> ip_ranges n"
    and "port_ranges r = {} \<longleftrightarrow> port_ranges n = {}" "ip_ranges r = {} \<longleftrightarrow> ip_ranges n = {}"
    and "port_ranges r = port_ranges n \<or> ip_ranges r = ip_ranges n"
  shows "merges P I r n m"
proof -
  have "ranges_apart NetFw_PortCmp (port_ranges r \<union> port_ranges n)" "ranges_apart NetFw_IpCmp (ip_ranges r \<union> ip_ranges n)"
    using assms(1,2) by (auto simp: rule_ok_def elim!: ranges_apart_subset)
  from sem_match_Un [OF this assms(12,13,14)] show ?thesis
    using assms by (simp add: merges_def MatchRule_sem [OF assms(1)] MatchRule_sem [OF assms(2)] MatchRule_sem [OF assms(3)])
qed

lemma merge_rule_ok:
  assumes "rule_ok P I r" "rule_ok P I n"
  shows "merge_rule n r = Some None \<or> (\<exists>m. merge_rule n r = Some (Some m) \<and> merges P I r n m)"
proof (cases "proc_match_level r \<noteq> proc_match_level n \<or> action_block r \<noteq> action_block n
    \<or> (rb_count (port_map r) \<noteq> 0) \<noteq> (rb_count (port_map n) \<noteq> 0)
    \<or> (rb_count (ip_map r) \<noteq> 0) \<noteq> (rb_count (ip_map n) \<noteq> 0) \<or> protocol r \<noteq> protocol n")
  case True
  then show ?thesis by (auto simp: merge_rule_def)
next
  case False
  have pc: "rb_count (port_map r) = 0 \<longleftrightarrow> port_ranges r = {}" "rb_count (port_map n) = 0 \<longleftrightarrow> port_ranges n = {}"
    and ic: "rb_count (ip_map r) = 0 \<longleftrightarrow> ip_ranges r = {}" "rb_count (ip_map n) = 0 \<longleftrightarrow> ip_ranges n = {}"
    using assms ports.elems_empty ips.elems_empty by (auto simp: rule_ok_def)
  have inv: "ports.rb_inv (port_map r)" "ports.rb_inv (port_map n)" "ips.rb_inv (ip_map r)" "ips.rb_inv (ip_map n)"
    using assms by (simp_all add: rule_ok_def)
  have ap: "ranges_apart NetFw_PortCmp (port_ranges r \<union> port_ranges n)" "ranges_apart NetFw_IpCmp (ip_ranges r \<union> ip_ranges n)"
    using assms by (auto simp: rule_ok_def elim!: ranges_apart_subset)
  have same: "NetFw_MatchPortMaps (port_map r) (port_map n) \<Longrightarrow> port_ranges r = port_ranges n"
    "NetFw_MatchIPMaps (ip_map r) (ip_map n) \<Longrightarrow> ip_ranges r = ip_ranges n"
    by (simp_all add: NetFw_MatchPortMaps_def NetFw_MatchIPMaps_def ports.match_maps_eq ips.match_maps_eq)
  have pm: "NetFw_MergePortMaps (port_map r) (port_map n) = Some (False, port_map r) \<or>
      (\<exists>m. NetFw_MergePortMaps (port_map r) (port_map n) = Some (True, m) \<and>
        (ip_ranges r = ip_ranges n \<longrightarrow> merges P I r n (r\<lparr>port_map := m\<rparr>)))"
  proof (rule disjE [OF ports.merge_maps_ok [OF inv(1,2) ap(1), folded NetFw_MergePortMaps_def]])
    assume "\<exists>m. NetFw_MergePortMaps (port_map r) (port_map n) = Some (True, m) \<and> ports.rb_inv m
       \<and> set (rbtree_elems m) = port_ranges r \<union> port_ranges n"
    then obtain m where m: "NetFw_MergePortMaps (port_map r) (port_map n) = Some (True, m)" "ports.rb_inv m"
      "set (rbtree_elems m) = port_ranges r \<union> port_ranges n" by blast
    have "merges P I r n (r\<lparr>port_map := m\<rparr>)" if "ip_ranges r = ip_ranges n"
      by (rule mergesI [OF assms]) (use False m assms that pc ic in \<open>simp_all add: rule_ok_def\<close>)
    with m(1) show ?thesis by blast
  qed blast
  have im: "NetFw_MergeIPMaps (ip_map r) (ip_map n) = Some (False, ip_map r) \<or>
      (\<exists>m. NetFw_MergeIPMaps (ip_map r) (ip_map n) = Some (True, m) \<and>
        (port_ranges r = port_ranges n \<longrightarrow> merges P I r n (r\<lparr>ip_map := m\<rparr>)))"
  proof (rule disjE [OF ips.merge_maps_ok [OF inv(3,4) ap(2), folded NetFw_MergeIPMaps_def]])
    assume "\<exists>m. NetFw_MergeIPMaps (ip_map r) (ip_map n) = Some (True, m) \<and> ips.rb_inv m
       \<and> set (rbtree_elems m) = ip_ranges r \<union> ip_ranges n"
    then obtain m where m: "NetFw_MergeIPMaps (ip_map r) (ip_map n) = Some (True, m)" "ips.rb_inv m"
      "set (rbtree_elems m) = ip_ranges r \<union> ip_ranges n" by blast
    have "merges P I r n (r\<lparr>ip_map := m\<rparr>)" if "port_ranges r = port_ranges n"
      by (rule mergesI [OF assms]) (use False m assms that pc ic in \<open>simp_all add: rule_ok_def\<close>)
    with m(1) show ?thesis by blast
  qed blast
  have id: "port_ranges r = port_ranges n \<Longrightarrow> ip_ranges r = ip_ranges n \<Longrightarrow> merges P I r n r"
    using False assms by (intro mergesI [OF assms assms(1)]) auto
  show ?thesis
  proof (cases "rb_count (port_map r) \<noteq> 0 \<and> rb_count (ip_map r) \<noteq> 0")
    case both: True
    consider "\<not> NetFw_MatchPortMaps (port_map r) (port_map n)" "\<not> NetFw_MatchIPMaps (ip_map r) (ip_map n)"
      | "\<not> NetFw_MatchPortMaps (port_map r) (port_map n)" "NetFw_MatchIPMaps (ip_map r) (ip_map n)" "ip_ranges r = ip_ranges n"
      | "NetFw_MatchPortMaps (port_map r) (port_map n)" "\<not> NetFw_MatchIPMaps (ip_map r) (ip_map n)" "port_ranges r = port_ranges n"
      | "NetFw_MatchPortMaps (port_map r) (port_map n)" "NetFw_MatchIPMaps (ip_map r) (ip_map n)" "merges P I r n r"
      using same id by blast
    then show ?thesis
    proof cases
      case 1
      with False both show ?thesis by (auto simp: merge_rule_def Let_def)
    next
      case 2
      show ?thesis by (rule disjE [OF pm]) (use 2 False both in \<open>auto simp: merge_rule_def Let_def\<close>)
    next
      case 3
      show ?thesis by (rule disjE [OF im]) (use 3 False both in \<open>auto simp: merge_rule_def Let_def\<close>)
    next
      case 4
      with False both show ?thesis by (auto simp: merge_rule_def Let_def)
    qed
  next
    case one: False
    have eq: "rb_count (port_map r) = 0 \<Longrightarrow> port_ranges r = port_ranges n" "rb_count (ip_map r) = 0 \<Longrightarrow> ip_ranges r = ip_ranges n"
      using False pc ic by auto
    from one consider "rb_count (port_map r) \<noteq> 0" "ip_ranges r = ip_ranges n" "rb_count (ip_map r) = 0"
      | "rb_count (port_map r) = 0" "port_ranges r = port_ranges n" "rb_count (ip_map r) \<noteq> 0"
      | "rb_count (port_map r) = 0" "rb_count (ip_map r) = 0" "port_ranges r = port_ranges n" "ip_ranges r = ip_ranges n"
      using eq by blast
    then show ?thesis
    proof cases
      case 1
      show ?thesis by (rule disjE [OF pm]) (use 1 False in \<open>auto simp: merge_rule_def Let_def\<close>)
    next
      case 2
      show ?thesis by (rule disjE [OF im]) (use 2 False in \<open>auto simp: merge_rule_def Let_def\<close>)
    next
      case 3
      with False id show ?thesis by (auto simp: merge_rule_def Let_def)
    qed
  qed
qed

lemma AddRule_ok:
  "\<forall>r \<in> set rules. rule_ok P I r \<and> protocol r = pr \<Longrightarrow> rule_ok P I n \<Longrightarrow> protocol n = pr \<Longrightarrow>
     \<exists>rs. NetFw_AddRule rules n = Some rs \<and> (\<forall>r \<in> set rs. rule_ok P I r \<and> protocol r = pr) \<and>
       (\<forall>Port Ip Protocol. (\<Union>r \<in> set rs. set_option (NetFw_MatchRule r Port Ip Protocol)) =
          (\<Union>r \<in> set rules. set_option (NetFw_MatchRule r Port Ip Protocol)) \<union> set_option (NetFw_MatchRule n Port Ip Protocol))"
proof (induction rules)
  case (Cons r rules)
  have r: "rule_ok P I r" using Cons.prems by simp
  from merge_rule_ok [OF r Cons.prems(2)] show ?case
  proof
    assume m: "merge_rule n r = Some None"
    obtain rs where rs: "NetFw_AddRule rules n = Some rs" "\<forall>r \<in> set rs. rule_ok P I r \<and> protocol r = pr"
      "\<forall>Port Ip Protocol. (\<Union>r \<in> set rs. set_option (NetFw_MatchRule r Port Ip Protocol)) =
          (\<Union>r \<in> set rules. set_option (NetFw_MatchRule r Port Ip Protocol)) \<union> set_option (NetFw_MatchRule n Port Ip Protocol)"
      using Cons by auto
    then show ?thesis using m Cons.prems(1) by (intro exI [of _ "r # rs"]) (simp add: Un_assoc)
  next
    assume "\<exists>m. merge_rule n r = Some (Some m) \<and> merges P I r n m"
    then obtain m where m: "merge_rule n r = Some (Some m)" "merges P I r n m" by blast
    then show ?thesis using Cons.prems(1)
      by (intro exI [of _ "m # rules"]) (simp add: merges_def Un_ac)
  qed
qed auto

lemma add_rules_ok:
  "\<forall>r \<in> set rules \<union> set news. rule_ok P I r \<and> protocol r = pr \<Longrightarrow>
     \<exists>rs. add_rules rules news = Some rs \<and> (\<forall>r \<in> set rs. rule_ok P I r \<and> protocol r = pr) \<and>
       (\<forall>Port Ip Protocol. (\<Union>r \<in> set rs. set_option (NetFw_MatchRule r Port Ip Protocol)) =
          (\<Union>r \<in> set rules \<union> set news. set_option (NetFw_MatchRule r Port Ip Protocol)))"
proof (induction news arbitrary: rules)
  case (Cons n news)
  obtain rs where rs: "NetFw_AddRule rules n = Some rs" "\<forall>r \<in> set rs. rule_ok P I r \<and> protocol r = pr"
    "\<forall>Port Ip Protocol. (\<Union>r \<in> set rs. set_option (NetFw_MatchRule r Port Ip Protocol)) =
      (\<Union>r \<in> set rules. set_option (NetFw_MatchRule r Port Ip Protocol)) \<union> set_option (NetFw_MatchRule n Port Ip Protocol)"
    using AddRule_ok [of rules P I pr n] Cons.prems by auto
  have "\<forall>r \<in> set rs \<union> set news. rule_ok P I r \<and> protocol r = pr" using rs(2) Cons.prems by auto
  from Cons.IH [OF this] rs(1,3) show ?case by (auto simp: Un_ac)
qed simp

lemma init_elems:
  "rbtree_elems (rbtree_init NetFw_PortCmp) = ([] :: (u16 \<times> u16) list)"
  "rbtree_elems (rbtree_init NetFw_IpCmp) = ([] :: (IP_ADDRESS \<times> IP_ADDRESS) list)"
  unfolding ports.rbtree_elems_ok [OF ports.rb_inv_init] ips.rbtree_elems_ok [OF ips.rb_inv_init]
  by (simp_all add: rbtree_init_def)

lemma build_rule_ok:
  assumes "set (rd_ports d) \<subseteq> P" "set (rd_ips d) \<subseteq> I" "ranges_apart NetFw_PortCmp P" "ranges_apart NetFw_IpCmp I"
  shows "\<exists>r. build_rule d = Some r \<and> rule_ok P I r \<and> protocol r = rd_protocol d
    \<and> (\<forall>Port Ip Protocol. NetFw_MatchRule r Port Ip Protocol = desc_match d Port Ip Protocol)"
proof -
  have ap: "ranges_apart NetFw_PortCmp (set (rd_ports d))" "ranges_apart NetFw_IpCmp (set (rd_ips d))"
    using assms by (auto elim: ranges_apart_subset)
  obtain pm where pm: "add_ranges (rd_ports d) (rbtree_init NetFw_PortCmp) = Some pm" "ports.rb_inv pm" "set (rbtree_elems pm) = set (rd_ports d)"
    using ports.add_ranges_ok [OF ports.rb_inv_init, of "rd_ports d"] ap(1) init_elems(1) by auto
  obtain im where im: "add_ranges (rd_ips d) (rbtree_init NetFw_IpCmp) = Some im" "ips.rb_inv im" "set (rbtree_elems im) = set (rd_ips d)"
    using ips.add_ranges_ok [OF ips.rb_inv_init, of "rd_ips d"] ap(2) init_elems(2) by auto
  define r where "r = (NetFw_RuleSetProtocol (rd_protocol d) (NetFw_RuleSetBlockAction (rd_block d)
      (NetFw_AllocRule (rd_level d))))\<lparr>port_map := pm, ip_map := im\<rparr>"
  then have r: "build_rule d = Some r" "port_map r = pm" "ip_map r = im" "protocol r = rd_protocol d" "action_block r = rd_block d"
    "proc_match_level r = proc_match_level (NetFw_AllocRule (rd_level d))"
    using pm(1) im(1) by (simp_all add: build_rule_def Let_def NetFw_RuleSetProtocol_def NetFw_RuleSetBlockAction_def NetFw_AllocRule_def)
  have ok: "rule_ok P I r" using r pm im assms by (simp add: rule_ok_def)
  with r pm im show ?thesis by (simp add: MatchRule_sem [OF ok] desc_match_def)
qed

lemma build_rules_ok:
  assumes "\<forall>d \<in> set ds. set (rd_ports d) \<subseteq> P \<and> set (rd_ips d) \<subseteq> I \<and> rd_protocol d = pr"
    and "ranges_apart NetFw_PortCmp P" "ranges_apart NetFw_IpCmp I"
  shows "\<exists>rules. those (map build_rule ds) = Some rules \<and> (\<forall>r \<in> set rules. rule_ok P I r \<and> protocol r = pr)
    \<and> (\<forall>Port Ip Protocol. (\<Union>r \<in> set rules. set_option (NetFw_MatchRule r Port Ip Protocol)) =
         (\<Union>d \<in> set ds. set_option (desc_match d Port Ip Protocol)))"
  using assms(1)
proof (induction ds)
  case (Cons d ds)
  obtain r where "build_rule d = Some r" "rule_ok P I r" "protocol r = rd_protocol d"
    "\<forall>Port Ip Protocol. NetFw_MatchRule r Port Ip Protocol = desc_match d Port Ip Protocol"
    using build_rule_ok [OF _ _ assms(2,3)] Cons.prems by (metis list.set_intros(1))
  with Cons show ?case by auto
qed simp

text \<open>Rules that are built, added and merged decide as the descriptions do.\<close>

lemma rules_refine:
  assumes "\<forall>d \<in> set ds. rd_protocol d = pr"
    and "ranges_apart NetFw_PortCmp (\<Union>d \<in> set ds. set (rd_ports d))"
    and "ranges_apart NetFw_IpCmp (\<Union>d \<in> set ds. set (rd_ips d))"
  shows "\<exists>rules merged. those (map build_rule ds) = Some rules \<and> add_rules [] rules = Some merged \<and>
    (\<forall>Ip Port Protocol. NetFw_BlockTraffic merged Ip Port Protocol = spec_blocks ds Ip Port Protocol
       \<and> NetFw_BlockTraffic rules Ip Port Protocol = spec_blocks ds Ip Port Protocol)"
proof -
  have "\<forall>d \<in> set ds. set (rd_ports d) \<subseteq> (\<Union>d \<in> set ds. set (rd_ports d)) \<and> set (rd_ips d) \<subseteq> (\<Union>d \<in> set ds. set (rd_ips d))
      \<and> rd_protocol d = pr"
    using assms(1) by blast
  from build_rules_ok [OF this assms(2,3)] obtain rules where rules: "those (map build_rule ds) = Some rules"
    "\<forall>r \<in> set rules. rule_ok (\<Union>d \<in> set ds. set (rd_ports d)) (\<Union>d \<in> set ds. set (rd_ips d)) r \<and> protocol r = pr"
    "\<forall>Port Ip Protocol. (\<Union>r \<in> set rules. set_option (NetFw_MatchRule r Port Ip Protocol)) =
       (\<Union>d \<in> set ds. set_option (desc_match d Port Ip Protocol))"
    by blast
  obtain merged where m: "add_rules [] rules = Some merged" "\<forall>r \<in> set merged. protocol r = pr"
    "\<forall>Port Ip Protocol. (\<Union>r \<in> set merged. set_option (NetFw_MatchRule r Port Ip Protocol)) =
       (\<Union>r \<in> set rules. set_option (NetFw_MatchRule r Port Ip Protocol))"
    using add_rules_ok [of "[]" rules, simplified, OF rules(2)] by blast
  show ?thesis
    using rules m BlockTraffic_best [of merged pr] BlockTraffic_best [of rules pr] by (auto simp: spec_blocks_def)
qed

end
