(* ===== verification/NetFwText.thy ===== *)
theory NetFwText
  imports NetFwRules
begin

text \<open>
  The text of network rules: decimal numbers, IPv4 addresses and ranges that were printed are read back by
  the parser, and the properties of the network rules from their text to the decision.
\<close>

section \<open>Decimal numbers\<close>

fun dec :: "nat \<Rightarrow> wstring" where
  "dec n = (if n < 10 then [char_of (48 + n)] else dec (n div 10) @ [char_of (48 + n mod 10)])"

declare dec.simps [simp del]

lemma digit_val_dec: "d < 10 \<Longrightarrow> digit_val (char_of (48 + d)) = d"
  by (simp add: digit_val_def towlower_def Let_def)

lemma digits_val_snoc: "digits_val b (ds @ [c]) = int b * digits_val b ds + int (digit_val c)"
  by (simp add: digits_val_def)

lemma dec_digits: "c \<in> set (dec n) \<Longrightarrow> \<exists>d < 10. c = char_of (48 + d :: nat)"
proof (induction n rule: dec.induct)
  case (1 n)
  show ?case
  proof (cases "n < 10")
    case True
    with 1 show ?thesis by (auto simp: dec.simps [of n])
  next
    case False
    with 1 have "c \<in> set (dec (n div 10)) \<or> c = char_of (48 + n mod 10)" by (auto simp: dec.simps [of n])
    with 1 False show ?thesis by (metis mod_less_divisor zero_less_numeral)
  qed
qed

lemma dec_digit_val: "c \<in> set (dec n) \<Longrightarrow> digit_val c < 10"
  using dec_digits digit_val_dec by fastforce

lemma digits_val_dec: "digits_val 10 (dec n) = int n"
proof (induction n rule: dec.induct)
  case (1 n)
  show ?case
  proof (cases "n < 10")
    case True
    then show ?thesis by (simp add: dec.simps [of n] digits_val_def digit_val_dec)
  next
    case False
    then have "digits_val 10 (dec n) = 10 * int (n div 10) + int (n mod 10)"
      using 1 by (simp add: dec.simps [of n] digits_val_snoc digit_val_dec)
    also have "\<dots> = int (10 * (n div 10) + n mod 10)" by (simp only: of_nat_add of_nat_mult of_nat_numeral)
    finally show ?thesis by (simp only: mult_div_mod_eq)
  qed
qed

lemma dec_ne [simp]: "dec n \<noteq> []"
  by (simp add: dec.simps [of n])

lemma dec_0: "dec 0 = ''0''"
  by code_simp

lemma dec_hd_digit: "digit_val (deref (dec n @ s)) < 10"
  using dec_digit_val [of "hd (dec n)" n] dec_ne [of n] by (cases "dec n") auto

lemma dec_hd_zero: "deref (dec n) = CHR ''0'' \<Longrightarrow> n = 0"
proof (induction n rule: dec.induct)
  case (1 n)
  show ?case
  proof (cases "n < 10")
    case True
    with 1(2) have "char_of (48 + n) = CHR ''0''" by (simp add: dec.simps [of n])
    then have "digit_val (char_of (48 + n)) = digit_val CHR ''0''" by simp
    then show ?thesis using True by (simp add: digit_val_dec) (simp add: digit_val_def towlower_def Let_def)
  next
    case False
    with 1(2) have "deref (dec (n div 10)) = CHR ''0''"
      using dec_ne [of "n div 10"] by (cases "dec (n div 10)") (simp_all add: dec.simps [of n])
    with 1(1) False show ?thesis by simp
  qed
qed

lemma length_dec: "length (dec n) = (if n < 10 then 1 else Suc (length (dec (n div 10))))"
  by (simp add: dec.simps [of n])

lemma length_dec_le: "n < 10 ^ k \<Longrightarrow> 0 < k \<Longrightarrow> length (dec n) \<le> k"
proof (induction k arbitrary: n)
  case (Suc k)
  show ?case
  proof (cases "n < 10 \<or> k = 0")
    case True
    with Suc.prems(1) show ?thesis by (auto simp: length_dec [of n])
  next
    case False
    then have "n div 10 < 10 ^ k" using Suc.prems(1) by (simp add: less_mult_imp_div_less mult.commute)
    with Suc.IH [of "n div 10"] False show ?thesis by (simp add: length_dec [of n])
  qed
qed simp

lemma word_bounds: "unat (a :: u8) < 256" "uint a < 256" "unat (p :: u16) < 65536"
  using unsigned_less [where 'b = 8 and 'a = nat, of a] unsigned_less [where 'b = 8 and 'a = int, of a]
    unsigned_less [where 'b = 16 and 'a = nat, of p] by simp_all

lemma length_dec_u16: "length (dec (unat (p :: u16))) \<le> 5"
  using word_bounds(3) [of p] by (intro length_dec_le) simp_all

lemma length_dec_u8: "length (dec (unat (a :: u8))) \<le> 3"
  using word_bounds(1) [of a] by (intro length_dec_le) simp_all

text \<open>A digit is no space and no sign.\<close>

lemma digit_cases: "digit_val c < 10 \<Longrightarrow> 48 \<le> (of_char c :: nat) \<and> (of_char c :: nat) \<le> 57"
proof -
  assume a: "digit_val c < 10"
  have "48 \<le> (of_char (towlower c) :: nat) \<and> (of_char (towlower c) :: nat) \<le> 57"
    using a by (auto simp: digit_val_def Let_def split: if_splits)
  then show ?thesis by (auto simp: towlower_def Let_def split: if_splits)
qed

lemma digit_not_special:
  assumes "digit_val c < 10"
  shows "\<not> c_space c" "c \<noteq> CHR ''-''" "c \<noteq> CHR ''+''" "c \<noteq> CHR '':''" "c \<noteq> CHR '',''" "c \<noteq> CHR ''.''" "\<not> tag_ws c"
    "c \<noteq> DQUOTE" "c \<noteq> SQUOTE" "c \<noteq> CHR '';''" "c \<noteq> NUL"
  using digit_cases [OF assms] by (auto simp: c_space_def tag_ws_def)

lemma takeWhile_dec: "10 \<le> b \<Longrightarrow> b \<le> digit_val (deref rest) \<Longrightarrow> takeWhile (\<lambda>c. digit_val c < b) (dec n @ rest) = dec n"
  using dec_digit_val [of _ n] by (cases rest) (fastforce simp: takeWhile_append)+

lemma wcstoul_dec:
  assumes "n < 2 ^ 32" "digit_val (deref rest) = 36"
  shows "wcstoul (dec n @ rest) 0 = (int n, length (dec n))"
proof -
  obtain c t where d: "dec n = c # t" using dec_ne [of n] by (cases "dec n") auto
  have c: "digit_val c < 10" using dec_digit_val [of c n] d by simp
  note s = digit_not_special [OF c]
  have w: "takeWhile c_space (dec n @ rest) = []" using d s(1) by simp
  show ?thesis
  proof (cases "c = CHR ''0''")
    case True
    then have n: "n = 0" using dec_hd_zero [of n] d by simp
    have x: "towlower (deref rest) \<noteq> CHR ''x''"
      using assms(2) by (auto simp: digit_val_def Let_def)
    have t: "takeWhile (\<lambda>c. digit_val c < 8) rest = []" using assms(2) by (cases rest) auto
    have z: "digit_val CHR ''0'' = 0" "\<not> c_space CHR ''0''" by code_simp+
    show ?thesis using x t z by (simp add: n dec_0 wcstoul_def Let_def digits_val_def)
  next
    case False
    have t: "takeWhile (\<lambda>c. digit_val c < 10) (dec n @ rest) = dec n" by (rule takeWhile_dec) (use assms in auto)
    have "deref (dec n @ rest) = c" using d by simp
    with w s False t show ?thesis
      using assms(1) digits_val_dec [of n] by (simp add: wcstoul_def Let_def)
  qed
qed

lemma wtoi_dec:
  assumes "n < 2 ^ 31" "10 \<le> digit_val (deref rest)"
  shows "wtoi (dec n @ rest) = int n"
proof -
  obtain c t where d: "dec n = c # t" using dec_ne [of n] by (cases "dec n") auto
  have c: "digit_val c < 10" using dec_digit_val [of c n] d by simp
  note s = digit_not_special [OF c]
  have w: "dropWhile c_space (dec n @ rest) = dec n @ rest" "deref (dec n @ rest) = c" using d s(1) by auto
  have t: "takeWhile (\<lambda>c. digit_val c < 10) (dec n @ rest) = dec n" by (rule takeWhile_dec) (use assms in auto)
  show ?thesis using w s t assms(1) digits_val_dec [of n] by (simp add: wtoi_def Let_def int32_id)
qed

section \<open>IPv4 addresses\<close>

definition ip4_text :: "u8 \<Rightarrow> u8 \<Rightarrow> u8 \<Rightarrow> u8 \<Rightarrow> wstring" where
  "ip4_text a b c d = dec (unat a) @ ''.'' @ dec (unat b) @ ''.'' @ dec (unat c) @ ''.'' @ dec (unat d)"

definition ip4_mapped :: "u8 \<Rightarrow> u8 \<Rightarrow> u8 \<Rightarrow> u8 \<Rightarrow> IP_ADDRESS" where
  "ip4_mapped a b c d = [0, 0, 0, 0, 0, 0, 0, 0, 0, 0, 0xFF, 0xFF, a, b, c, d]"

lemma aton_step:
  "aton_loop (Suc n) i (dec (unat (a :: u8)) @ CHR ''.'' # s) to = aton_loop n (i + 1) s (to[i := a])"
proof -
  have a: "unat a < 256" "uint a < 256" by (rule word_bounds)+
  then have w: "wcstoul (dec (unat a) @ CHR ''.'' # s) 0 = (int (unat a), length (dec (unat a)))"
    by (intro wcstoul_dec) (auto simp: digit_val_def towlower_def Let_def)
  have "dec (unat a) @ CHR ''.'' # s \<noteq> []" by simp
  with w a show ?thesis by (simp add: Let_def)
qed

lemma aton_last:
  assumes "digit_val (deref rest) = 36" "deref rest \<noteq> CHR ''.''"
  shows "aton_loop (Suc 0) i (dec (unat (a :: u8)) @ rest) to = (if rest = [] then Some (i + 1) else None, to[i := a])"
proof -
  have a: "unat a < 256" "uint a < 256" by (rule word_bounds)+
  then have w: "wcstoul (dec (unat a) @ rest) 0 = (int (unat a), length (dec (unat a)))"
    by (intro wcstoul_dec) (use assms in auto)
  with a assms(2) show ?thesis by (simp add: Let_def)
qed

lemma inet_aton_text:
  assumes "digit_val (deref rest) = 36" "deref rest \<noteq> CHR ''.''"
  shows "inet_aton (ip4_text a b c d @ rest) = (rest = [], [a, b, c, d])"
proof -
  have l: "aton_loop 4 0 (ip4_text a b c d @ rest) [0, 0, 0, 0] = (if rest = [] then Some 4 else None, [a, b, c, d])"
    by (simp add: ip4_text_def eval_nat_numeral aton_step aton_last [OF assms] del: aton_loop.simps)
  have "ip4_text a b c d @ rest \<noteq> []" by (simp add: ip4_text_def)
  with l show ?thesis by (simp add: inet_aton_def aton_class_def Let_def)
qed

lemma ip4_text_chars: "x \<in> set (ip4_text a b c d) \<Longrightarrow> digit_val x < 10 \<or> x = CHR ''.''"
  by (auto simp: ip4_text_def dest: dec_digit_val)

lemma length_ip4_text: "length (ip4_text a b c d) \<le> 15"
  using length_dec_u8 [of a] length_dec_u8 [of b] length_dec_u8 [of c] length_dec_u8 [of d] by (simp add: ip4_text_def)

lemma inet_xton_text:
  assumes "take (min n 46) (drop i s) = ip4_text a b c d @ rest"
    and "digit_val (deref rest) = 36" "deref rest \<noteq> CHR ''.''" "CHR '':'' \<notin> set rest"
  shows "inet_xton s i n = (if rest = [] then 1 else 0, ip4_mapped a b c d, AF_INET)"
proof -
  have "CHR '':'' \<notin> set (ip4_text a b c d @ rest)"
    using assms(4) ip4_text_chars digit_not_special(4) by fastforce
  then show ?thesis
    using inet_aton_text [OF assms(2,3)] by (simp add: inet_xton_def assms(1) inet_pton_def Let_def ip4_mapped_def)
qed

section \<open>Rules that were printed are parsed back\<close>

definition range_text :: "('a \<Rightarrow> wstring) \<Rightarrow> 'a \<times> 'a \<Rightarrow> wstring" where
  "range_text f r = (if fst r = snd r then f (fst r) else f (fst r) @ ''-'' @ f (snd r))"

fun ranges_text :: "('a \<Rightarrow> wstring) \<Rightarrow> ('a \<times> 'a) list \<Rightarrow> wstring" where
  "ranges_text f [] = []"
| "ranges_text f [r] = range_text f r"
| "ranges_text f (r # rs) = range_text f r @ '','' @ ranges_text f rs"

text \<open>
  A number format: texts of plain characters, and a conversion that gives the number back where its text
  stands in the string, alone or with the comma behind it.
\<close>

definition item_char :: "wchar \<Rightarrow> bool" where
  "item_char c \<longleftrightarrow> digit_val c < 10 \<or> c = CHR ''.''"

definition num_format :: "wstring \<Rightarrow> ('a \<Rightarrow> wstring) \<Rightarrow> (nat \<Rightarrow> nat \<Rightarrow> 'k option) \<Rightarrow> ('a \<Rightarrow> 'k) \<Rightarrow> bool" where
  "num_format s f num val \<longleftrightarrow> (\<forall>x. f x \<noteq> [] \<and> list_all item_char (f x) \<and> length (f x) \<le> 15) \<and>
     (\<forall>pre x rest. s = pre @ f x @ rest \<longrightarrow>
        num (length pre) (length (f x)) = Some (val x) \<and>
        (deref rest = CHR '','' \<longrightarrow> num (length pre) (length (f x) + 1) = Some (val x)))"

lemma item_char_plain:
  assumes "item_char c"
  shows "\<not> tag_ws c" "c \<noteq> DQUOTE" "c \<noteq> SQUOTE" "c \<noteq> CHR '',''" "c \<noteq> CHR ''-''" "c \<noteq> CHR '';''" "c \<noteq> NUL"
proof -
  consider "digit_val c < 10" | "c = CHR ''.''" using assms by (auto simp: item_char_def)
  then have "\<not> tag_ws c \<and> c \<noteq> DQUOTE \<and> c \<noteq> SQUOTE \<and> c \<noteq> CHR '','' \<and> c \<noteq> CHR ''-'' \<and> c \<noteq> CHR '';'' \<and> c \<noteq> NUL"
  proof cases
    case 1
    then show ?thesis by (intro conjI) (erule digit_not_special)+
  next
    case 2
    then show ?thesis by (simp add: tag_ws_def)
  qed
  then show "\<not> tag_ws c" "c \<noteq> DQUOTE" "c \<noteq> SQUOTE" "c \<noteq> CHR '',''" "c \<noteq> CHR ''-''" "c \<noteq> CHR '';''" "c \<noteq> NUL"
    by simp_all
qed

lemma ulong_diff_eq: "b \<le> a \<Longrightarrow> a - b < 2 ^ 32 \<Longrightarrow> ulong_diff a b = a - b"
  by (simp add: ulong_diff_def unat_u32_of_nat flip: of_nat_diff)

lemma range_text_plain:
  assumes "num_format s f num val"
  shows "plain_value CHR '','' (range_text f r)" "plain_value CHR '';'' (range_text f r)"
    "CHR '';'' \<notin> set (range_text f r)" "NUL \<notin> set (range_text f r)"
proof -
  have f: "f x \<noteq> []" "\<And>c. c \<in> set (f x) \<Longrightarrow> item_char c" for x
    using assms by (auto simp: num_format_def list_all_iff)
  have ne: "range_text f r \<noteq> []" using f(1) by (simp add: range_text_def)
  have hd: "item_char (hd (range_text f r))" "item_char (last (range_text f r))"
    using f(2) [OF hd_in_set [OF f(1)]] f(2) [OF last_in_set [OF f(1)]] f(1) by (auto simp: range_text_def hd_append)
  have c: "item_char c \<or> c = CHR ''-''" if "c \<in> set (range_text f r)" for c
    using that f(2) by (auto simp: range_text_def split: if_splits)
  from c show "CHR '';'' \<notin> set (range_text f r)" "NUL \<notin> set (range_text f r)"
    using item_char_plain(6,7) by fastforce+
  with c ne hd show "plain_value CHR '','' (range_text f r)" "plain_value CHR '';'' (range_text f r)"
    using item_char_plain by (fastforce simp: plain_value_def)+
qed

lemma range_item_text:
  assumes "num_format s f num val" "s = pre @ range_text f r @ post"
    and "next = length pre + length (range_text f r) \<or> (next = length pre + length (range_text f r) + 1 \<and> deref post = CHR '','')"
  shows "range_item s num (length pre) (length (range_text f r)) next = Some (map_prod val val r)"
proof -
  obtain x y where r: "r = (x, y)" by (cases r)
  have conv: "num (length p) (length (f z)) = Some (val z)" "deref rest = CHR '','' \<Longrightarrow> num (length p) (length (f z) + 1) = Some (val z)"
    if "s = p @ f z @ rest" for p z rest
    using assms(1) that unfolding num_format_def by blast+
  have len: "length (f z) \<le> 15" for z using assms(1) unfolding num_format_def by blast
  have dash: "CHR ''-'' \<notin> set (f z)" for z
    using assms(1) item_char_plain(5) unfolding num_format_def list_all_iff by blast
  have pre: "drop (length pre) s = range_text f r @ post" using assms(2) by simp
  show ?thesis
  proof (cases "x = y")
    case True
    then have "wcsnchr (drop (length pre) s) (length (range_text f r)) CHR ''-'' = None"
      using pre dash by (simp add: wcsnchr_def r range_text_def)
    moreover have "num (length pre) (length (f x)) = Some (val x)"
      by (rule conv(1)) (use assms(2) True in \<open>simp add: r range_text_def\<close>)
    ultimately show ?thesis using True by (simp add: range_item_def r range_text_def)
  next
    case False
    then have t: "range_text f r = f x @ CHR ''-'' # f y" by (simp add: r range_text_def)
    have w: "wcsnchr (drop (length pre) s) (length (range_text f r)) CHR ''-'' = Some (length (f x))"
      using pre dash by (simp add: wcsnchr_def t wcschr_append_Cons)
    have s1: "s = pre @ f x @ (CHR ''-'' # f y @ post)" and s2: "s = (pre @ f x @ ''-'') @ f y @ post"
      using assms(2) t by simp_all
    have n1: "num (length pre) (length (f x)) = Some (val x)" by (rule conv(1) [OF s1])
    have "ulong_diff next (length pre + length (f x) + 1) = next - (length pre + length (f x) + 1)"
      using assms(3) len [of y] by (intro ulong_diff_eq) (auto simp: t)
    then have n2: "num (length pre + length (f x) + 1) (ulong_diff next (length pre + length (f x) + 1)) = Some (val y)"
      using conv [OF s2] assms(3) by (auto simp: t)
    show ?thesis using w n1 n2 by (simp add: range_item_def r)
  qed
qed

lemma range_loop_text:
  "num_format s f num val \<Longrightarrow> s = pre @ ranges_text f rs @ post \<Longrightarrow>
     range_loop s num (length pre + length (ranges_text f rs)) (length pre) tree = add_ranges (map (map_prod val val) rs) tree"
proof (induction f rs arbitrary: pre tree rule: ranges_text.induct)
  case (1 f)
  then show ?case by (simp add: range_loop.simps)
next
  case (2 f r)
  let ?v = "range_text f r"
  have s: "s = pre @ ?v @ post" using 2 by simp
  have ne: "0 < length ?v" using plain_valueD(1) [OF range_text_plain(1) [OF 2(1)]] by simp
  have g: "SbieDll_GetTagValue s (length pre) (Some (length pre + length ?v)) CHR '','' =
      Some (Some (length pre + length ?v), Some (length pre), length ?v)"
    unfolding s by (rule GetTagValue_lim [OF range_text_plain(1) [OF 2(1)]])
  have i: "range_item s num (length pre) (length ?v) (length pre + length ?v) = Some (map_prod val val r)"
    by (rule range_item_text [OF 2(1) s]) simp
  obtain a b where ab: "map_prod val val r = (a, b)" by (cases "map_prod val val r")
  show ?case
    using ne g i ab by (subst range_loop.simps) (simp add: range_loop.simps [of s num "length pre + length ?v" "length pre + length ?v"] split: option.splits)
next
  case (3 f r q rs)
  let ?v = "range_text f r" and ?rs = "ranges_text f (q # rs)"
  have s: "s = pre @ ?v @ CHR '','' # ?rs @ post" and s2: "s = (pre @ ?v @ '','') @ ?rs @ post" using 3(3) by simp_all
  have pv: "plain_value CHR '','' ?v" by (rule range_text_plain(1) [OF 3(2)])
  let ?lim = "length pre + length (ranges_text f (r # q # rs))"
  have lim: "?lim = length (pre @ ?v @ '','') + length ?rs" by simp
  have g: "SbieDll_GetTagValue s (length pre) (Some ?lim) CHR '','' =
      Some (Some (length pre + length ?v + 1), Some (length pre), length ?v)"
    unfolding s by (rule GetTagValue_sep [OF pv]) auto
  have i: "range_item s num (length pre) (length ?v) (length pre + length ?v + 1) = Some (map_prod val val r)"
    by (rule range_item_text [OF 3(2) s]) simp
  obtain a b where ab: "map_prod val val r = (a, b)" by (cases "map_prod val val r")
  have IH: "range_loop s num ?lim (length pre + length ?v + 1) t = add_ranges (map (map_prod val val) (q # rs)) t" for t
    using 3(1) [OF 3(2) s2, of t] lim by (simp add: add.assoc)
  show ?case
    using g i ab IH by (subst range_loop.simps) (simp split: option.splits)
qed

text \<open>Ports in decimal and IPv4 addresses are such formats.\<close>

definition port_text :: "u16 \<Rightarrow> wstring" where
  "port_text p = dec (unat p)"

type_synonym ip4 = "u8 \<times> u8 \<times> u8 \<times> u8"

definition ip_text :: "ip4 \<Rightarrow> wstring" where
  "ip_text q = (case q of (a, b, c, d) \<Rightarrow> ip4_text a b c d)"

definition ip_val :: "ip4 \<Rightarrow> IP_ADDRESS" where
  "ip_val q = (case q of (a, b, c, d) \<Rightarrow> ip4_mapped a b c d)"

lemma comma_digit [simp]: "digit_val CHR '','' = 36"
  by code_simp

lemma port_format:
  assumes "\<forall>i. 10 \<le> digit_val (deref (stk i))"
  shows "num_format s port_text (port_num stk s) id"
  unfolding num_format_def
proof (intro conjI allI impI)
  fix p :: u16
  show "port_text p \<noteq> []" by (simp add: port_text_def)
  show "list_all item_char (port_text p)" using dec_digit_val by (auto simp: port_text_def list_all_iff item_char_def)
  show "length (port_text p) \<le> 15" using length_dec_u16 [of p] by (simp add: port_text_def)
  fix pre rest
  assume s: "s = pre @ port_text p @ rest"
  have p: "unat p < 2 ^ 31" using word_bounds(3) [of p] by simp
  show "port_num stk s (length pre) (length (port_text p)) = Some (id p)"
    using length_dec_u16 [of p] wtoi_dec [OF p, of "stk (length pre)"] assms
    by (simp add: s port_num_def wntoi_def port_text_def)
  assume "deref rest = CHR '',''"
  then obtain r where r: "rest = CHR '','' # r" by (cases rest) auto
  show "port_num stk s (length pre) (length (port_text p) + 1) = Some (id p)"
    using length_dec_u16 [of p] wtoi_dec [OF p, of "CHR '','' # stk (length pre)"]
    by (simp add: s r port_num_def wntoi_def port_text_def)
qed

lemma ip_format: "num_format s ip_text (ip_num s) ip_val"
  unfolding num_format_def
proof (intro conjI allI impI)
  fix q :: ip4
  obtain a b c d where q: "q = (a, b, c, d)" by (cases q)
  note l = length_ip4_text [of a b c d]
  show "ip_text q \<noteq> []" by (simp add: q ip_text_def ip4_text_def)
  show "list_all item_char (ip_text q)" using ip4_text_chars by (auto simp: q ip_text_def list_all_iff item_char_def)
  show "length (ip_text q) \<le> 15" using l by (simp add: q ip_text_def)
  fix pre rest
  assume s: "s = pre @ ip_text q @ rest"
  show "ip_num s (length pre) (length (ip_text q)) = Some (ip_val q)"
    using inet_xton_text [of "length (ip_text q)" "length pre" s a b c d "[]"] l
    by (simp add: ip_num_def s q ip_text_def ip_val_def digit_val_def towlower_def Let_def)
  assume "deref rest = CHR '',''"
  then obtain r where r: "rest = CHR '','' # r" by (cases rest) auto
  show "ip_num s (length pre) (length (ip_text q) + 1) = Some (ip_val q)"
    using inet_xton_text [of "length (ip_text q) + 1" "length pre" s a b c d "'',''"] l
    by (simp add: ip_num_def s r q ip_text_def ip_val_def)
qed

text \<open>The text of a rule, with the tags that are needed only.\<close>

record rule_src =
  rs_block :: bool
  rs_ports :: "(u16 \<times> u16) list"
  rs_ips :: "(ip4 \<times> ip4) list"
  rs_protocol :: int

definition protocol_name :: "int \<Rightarrow> wstring option" where
  "protocol_name p = (if p = IPPROTO_TCP then Some ''TCP'' else if p = IPPROTO_UDP then Some ''UDP''
     else if p = IPPROTO_ICMP then Some ''ICMP'' else None)"

definition rule_tags :: "rule_src \<Rightarrow> (wstring \<times> wstring) list" where
  "rule_tags r =
     (if rs_ports r = [] then [] else [(''Port'', ranges_text port_text (rs_ports r))])
     @ (if rs_ips r = [] then [] else [(''Address'', ranges_text ip_text (rs_ips r))])
     @ (case protocol_name (rs_protocol r) of None \<Rightarrow> [] | Some n \<Rightarrow> [(''Protocol'', n)])"

definition rule_text :: "rule_src \<Rightarrow> wstring" where
  "rule_text r = (if rs_block r then ''Block'' else ''Allow'') @ '';'' @ tags_text (rule_tags r)"

definition src_desc :: "int \<Rightarrow> rule_src \<Rightarrow> rule_desc" where
  "src_desc level r = \<lparr>rd_level = level, rd_block = rs_block r, rd_ports = rs_ports r,
     rd_ips = map (map_prod ip_val ip_val) (rs_ips r), rd_protocol = rs_protocol r\<rparr>"

lemma ranges_text_plain:
  "num_format s f num val \<Longrightarrow> rs \<noteq> [] \<Longrightarrow> plain_value CHR '';'' (ranges_text f rs)"
proof (induction f rs rule: ranges_text.induct)
  case (2 f r)
  then show ?case using range_text_plain(2) by simp
next
  case (3 f r q rs)
  note v = range_text_plain(2) [OF 3(2), of r] and vs = 3(1) [OF 3(2)]
  then show ?case by (auto simp: plain_value_def hd_append)
qed simp

lemma find_tag_None: "List.find (\<lambda>(n, v). wcsicmp_eq name n) tags = None \<Longrightarrow> find_tag base tags name = None"
  by (induction base tags name rule: find_tag.induct) (auto split: if_splits)

lemma find_tag_Some:
  "List.find (\<lambda>(n, v). wcsicmp_eq name n) tags = Some (m, v) \<Longrightarrow>
     \<exists>p post. find_tag (length pre) tags name = Some (length p, length v) \<and> pre @ tags_text tags = p @ v @ post"
proof (induction tags arbitrary: pre)
  case (Cons t tags)
  obtain n w where t: "t = (n, w)" by (cases t)
  show ?case
  proof (cases "wcsicmp_eq name n")
    case True
    with Cons.prems have "v = w" by (simp add: t)
    with True show ?thesis by (intro exI [of _ "pre @ n @ ''=''"] exI [of _ "CHR '';'' # tags_text tags"]) (simp add: t)
  next
    case False
    have l: "length pre + length n + length w + 2 = length (pre @ n @ CHR ''='' # w @ '';'')" by simp
    have "find_tag (length pre) (t # tags) name = find_tag (length (pre @ n @ CHR ''='' # w @ '';'')) tags name"
      using False by (simp add: t del: length_append flip: l)
    moreover have "pre @ tags_text (t # tags) = (pre @ n @ CHR ''='' # w @ '';'') @ tags_text tags" by (simp add: t)
    moreover have "List.find (\<lambda>(n, v). wcsicmp_eq name n) tags = Some (m, v)" using Cons.prems False by (simp add: t)
    ultimately show ?thesis using Cons.IH by metis
  qed
qed simp

lemma tag_names:
  "wcsicmp_eq ''Port'' ''Port''" "wcsicmp_eq ''Address'' ''Address''" "wcsicmp_eq ''Protocol'' ''Protocol''"
  "\<not> wcsicmp_eq ''Port'' ''Address''" "\<not> wcsicmp_eq ''Port'' ''Protocol''" "\<not> wcsicmp_eq ''Address'' ''Port''"
  "\<not> wcsicmp_eq ''Address'' ''Protocol''" "\<not> wcsicmp_eq ''Protocol'' ''Port''" "\<not> wcsicmp_eq ''Protocol'' ''Address''"
  by (auto dest: wcsicmp_eq_length)

lemma find_rule_tags:
  "List.find (\<lambda>(n, v). wcsicmp_eq ''Port'' n) (rule_tags r) =
     (if rs_ports r = [] then None else Some (''Port'', ranges_text port_text (rs_ports r)))"
  "List.find (\<lambda>(n, v). wcsicmp_eq ''Address'' n) (rule_tags r) =
     (if rs_ips r = [] then None else Some (''Address'', ranges_text ip_text (rs_ips r)))"
  "List.find (\<lambda>(n, v). wcsicmp_eq ''Protocol'' n) (rule_tags r) = map_option (Pair ''Protocol'') (protocol_name (rs_protocol r))"
  by (simp_all add: rule_tags_def tag_names split: option.splits)

lemma rule_tags_plain: "\<forall>(n, v) \<in> set (rule_tags r). plain_name n \<and> plain_value CHR '';'' v"
proof -
  have "plain_name ''Port''" "plain_name ''Address''" "plain_name ''Protocol''" by code_simp+
  moreover have "plain_value CHR '';'' n" if "protocol_name p = Some n" for n p
  proof -
    have "n = ''TCP'' \<or> n = ''UDP'' \<or> n = ''ICMP''" using that by (auto simp: protocol_name_def split: if_splits)
    moreover have "plain_value CHR '';'' ''TCP''" "plain_value CHR '';'' ''UDP''" "plain_value CHR '';'' ''ICMP''" by code_simp+
    ultimately show ?thesis by auto
  qed
  moreover have "rs_ports r \<noteq> [] \<Longrightarrow> plain_value CHR '';'' (ranges_text port_text (rs_ports r))"
    by (rule ranges_text_plain [OF port_format [of "\<lambda>_. []"]]) (auto simp: digit_val_def towlower_def Let_def)
  moreover have "rs_ips r \<noteq> [] \<Longrightarrow> plain_value CHR '';'' (ranges_text ip_text (rs_ips r))"
    by (rule ranges_text_plain [OF ip_format])
  ultimately show ?thesis by (auto simp: rule_tags_def split: option.splits)
qed

text \<open>One tag of ranges: the tree of the rule with the ranges added.\<close>

lemma range_tag:
  assumes "num_format s f num val" and "s = pre @ tags_text tags"
    and "List.find (\<lambda>(n, v). wcsicmp_eq name n) tags = (if rs = [] then None else Some (name, ranges_text f rs))"
  shows "(case find_tag (length pre) tags name of
            None \<Rightarrow> Some rule
          | Some (i, n) \<Rightarrow> map_option (\<lambda>m. upd m rule) (range_loop s num (i + n) i tree)) =
    (if rs = [] then Some rule else map_option (\<lambda>m. upd m rule) (add_ranges (map (map_prod val val) rs) tree))"
proof (cases "rs = []")
  case True
  then show ?thesis using assms(3) find_tag_None [of name tags] by simp
next
  case False
  with assms(3) find_tag_Some [of name tags name "ranges_text f rs" pre]
  obtain p post where p: "find_tag (length pre) tags name = Some (length p, length (ranges_text f rs))"
      "pre @ tags_text tags = p @ ranges_text f rs @ post" by auto
  have "s = p @ ranges_text f rs @ post" using p(2) assms(2) by simp
  from range_loop_text [OF assms(1) this] False p(1) show ?thesis by simp
qed

lemma protocol_tag:
  assumes "s = pre @ tags_text tags"
    and "List.find (\<lambda>(n, v). wcsicmp_eq ''Protocol'' n) tags = map_option (Pair ''Protocol'') (protocol_name p)"
  shows "(case find_tag (length pre) tags ''Protocol'' of None \<Rightarrow> rule | Some t \<Rightarrow> rule_protocol s t rule) =
    (if protocol_name p = None then rule else NetFw_RuleSetProtocol p rule)"
proof (cases "protocol_name p")
  case None
  then show ?thesis using assms(2) find_tag_None [of "''Protocol''" tags] by simp
next
  case (Some n)
  with assms(2) find_tag_Some [of "''Protocol''" tags "''Protocol''" n pre]
  obtain q post where q: "find_tag (length pre) tags ''Protocol'' = Some (length q, length n)"
      "pre @ tags_text tags = q @ n @ post" by auto
  have d: "drop (length q) s = n @ post" using q(2) assms(1) by simp
  have k: "\<not> wcsnicmp_eq (''UDP'' @ post) ''TCP'' 3" "\<not> wcsnicmp_eq (''ICMP'' @ post) ''TCP'' 4" "\<not> wcsnicmp_eq (''ICMP'' @ post) ''UDP'' 4"
    by (simp_all add: wcsnicmp_eq_def) code_simp+
  from Some consider "p = IPPROTO_TCP" "n = ''TCP''" | "p = IPPROTO_UDP" "n = ''UDP''" | "p = IPPROTO_ICMP" "n = ''ICMP''"
    by (auto simp: protocol_name_def split: if_splits)
  then show ?thesis
    using q(1) Some k by cases (simp_all add: rule_protocol_def d Let_def, auto simp: wcsnicmp_eq_def)
qed

lemma action_text:
  assumes "s = (if b then ''Block'' else ''Allow'') @ '';'' @ t"
  shows "SbieDll_GetTagValue s 0 None CHR '';'' = Some (Some 6, Some 0, 5)" "wcsnicmp_eq s ''Allow'' 5 \<longleftrightarrow> \<not> b"
proof -
  let ?a = "if b then ''Block'' else ''Allow''"
  have "plain_value CHR '';'' ''Block''" "plain_value CHR '';'' ''Allow''" by code_simp+
  then have "plain_value CHR '';'' ?a" by simp
  from GetTagValue_sep [OF this, of None "[]" t] assms show "SbieDll_GetTagValue s 0 None CHR '';'' = Some (Some 6, Some 0, 5)"
    by simp
  have "\<not> wcslwr ''Block'' = wcslwr ''Allow''" by code_simp
  with assms show "wcsnicmp_eq s ''Allow'' 5 \<longleftrightarrow> \<not> b" by (auto simp: wcsnicmp_eq_def)
qed

text \<open>
  The text of a rule with its action, its port ranges, its IPv4 ranges and its protocol gives the rule
  with these ranges added in order.
\<close>

lemma ParseRule_text:
  assumes "\<forall>i. 10 \<le> digit_val (deref (stk i))"
    and "rs_protocol r \<in> {IPPROTO_ANY, IPPROTO_TCP, IPPROTO_UDP, IPPROTO_ICMP}"
  shows "NetFw_ParseRule stk (NetFw_AllocRule level) (rule_text r) = build_rule (src_desc level r)"
proof -
  let ?s = "rule_text r" and ?pre = "(if rs_block r then ''Block'' else ''Allow'') @ '';''"
  let ?rule = "NetFw_RuleSetBlockAction (rs_block r) (NetFw_AllocRule level)"
  have s: "?s = ?pre @ tags_text (rule_tags r)" by (simp add: rule_text_def)
  have l: "length ?pre = 6" by simp
  have tag: "SbieDll_FindTagValuePtr ?s (Some 6) name CHR ''='' CHR '';'' = Some (find_tag 6 (rule_tags r) name)" for name
    using FindTagValuePtr_tags [OF rule_tags_plain [of r], of ?pre name] unfolding s l by simp
  have pm: "port_map ?rule = rbtree_init NetFw_PortCmp" by (simp add: NetFw_RuleSetBlockAction_def NetFw_AllocRule_def)
  have pm': "?rule\<lparr>port_map := rbtree_init NetFw_PortCmp\<rparr> = ?rule" by (simp flip: pm)
  have idm: "map (map_prod id id) xs = xs" for xs :: "(u16 \<times> u16) list" by (induction xs) auto
  have pt: "(case find_tag 6 (rule_tags r) ''Port'' of None \<Rightarrow> Some ?rule
      | Some (i, n) \<Rightarrow> map_option (\<lambda>m. ?rule\<lparr>port_map := m\<rparr>) (range_loop ?s (port_num stk ?s) (i + n) i (port_map ?rule))) =
      map_option (\<lambda>m. ?rule\<lparr>port_map := m\<rparr>) (add_ranges (rs_ports r) (rbtree_init NetFw_PortCmp))"
    using range_tag [OF port_format [OF assms(1)] s find_rule_tags(1), of ?rule "\<lambda>m rule. rule\<lparr>port_map := m\<rparr>" "port_map ?rule"]
    unfolding l pm idm by (cases "rs_ports r = []") (simp_all add: pm' del: NETFW_RULE.update_convs)
  have it: "(case find_tag 6 (rule_tags r) ''Address'' of None \<Rightarrow> Some rule
      | Some (i, n) \<Rightarrow> map_option (\<lambda>m. rule\<lparr>ip_map := m\<rparr>) (range_loop ?s (ip_num ?s) (i + n) i (ip_map rule))) =
      map_option (\<lambda>m. rule\<lparr>ip_map := m\<rparr>) (add_ranges (map (map_prod ip_val ip_val) (rs_ips r)) (ip_map rule))" for rule :: NETFW_RULE
    using range_tag [OF ip_format s find_rule_tags(2), of rule "\<lambda>m rule. rule\<lparr>ip_map := m\<rparr>" "ip_map rule"]
    unfolding l by (cases "rs_ips r = []") simp_all
  have prt: "(case find_tag 6 (rule_tags r) ''Protocol'' of None \<Rightarrow> rule | Some t \<Rightarrow> rule_protocol ?s t rule) =
      (if protocol_name (rs_protocol r) = None then rule else NetFw_RuleSetProtocol (rs_protocol r) rule)" for rule
    using protocol_tag [OF s find_rule_tags(3), of rule] unfolding l .
  have any: "protocol_name (rs_protocol r) = None \<Longrightarrow> rs_protocol r = IPPROTO_ANY"
    using assms(2) by (auto simp: protocol_name_def split: if_splits)
  have av: "SbieDll_GetTagValue ?s 0 None CHR '';'' = Some (Some 6, Some 0, 5)" "wcsnicmp_eq ?s ''Allow'' 5 \<longleftrightarrow> \<not> rs_block r"
    using action_text [of ?s "rs_block r" "tags_text (rule_tags r)"] by (simp_all add: rule_text_def)
  have "NetFw_ParseRule stk (NetFw_AllocRule level) ?s =
      (case map_option (\<lambda>m. ?rule\<lparr>port_map := m\<rparr>) (add_ranges (rs_ports r) (rbtree_init NetFw_PortCmp)) of
         None \<Rightarrow> None
       | Some rule1 \<Rightarrow>
           (case map_option (\<lambda>m. rule1\<lparr>ip_map := m\<rparr>) (add_ranges (map (map_prod ip_val ip_val) (rs_ips r)) (ip_map rule1)) of
              None \<Rightarrow> None
            | Some rule2 \<Rightarrow> Some (if protocol_name (rs_protocol r) = None then rule2 else NetFw_RuleSetProtocol (rs_protocol r) rule2)))"
    by (simp only: NetFw_ParseRule_def av tag option.case prod.case Let_def drop_0 not_not pt it prt option.map)
  also have "\<dots> = build_rule (src_desc level r)"
    using any [symmetric]
    by (cases "add_ranges (rs_ports r) (rbtree_init NetFw_PortCmp)";
        cases "add_ranges (map (map_prod ip_val ip_val) (rs_ips r)) (rbtree_init NetFw_IpCmp)")
      (simp_all add: build_rule_def src_desc_def Let_def NetFw_RuleSetBlockAction_def NetFw_RuleSetProtocol_def NetFw_AllocRule_def)
  finally show ?thesis .
qed

section \<open>Properties\<close>

lemma stk_nil: "\<forall>i::nat. 10 \<le> digit_val (deref [])"
proof -
  have "digit_val (deref []) = 36" by code_simp
  then show ?thesis by simp
qed

text \<open>
  C13. The range map of a rule: ranges that lie apart are added to the red-black tree, in any order; the level of
  a port is then the level of the one range that contains it, none when there is no such range, and
  the tree is balanced: with \<open>n\<close> ranges its height is at most twice the logarithm of \<open>n + 1\<close>.
\<close>

theorem MatchPort_ranges:
  assumes "ranges_apart NetFw_PortCmp (set rs)"
  shows "\<exists>m. add_ranges rs (rbtree_init NetFw_PortCmp) = Some m
    \<and> (\<forall>p. NetFw_MatchPort m p = range_level NetFw_PortCmp (set rs) p)
    \<and> rb_count m = card (set rs) \<and> 2 ^ rb_height (rb_root m) \<le> (card (set rs) + 1) ^ 2"
proof -
  obtain m where m: "add_ranges rs (rbtree_init NetFw_PortCmp) = Some m" "ports.rb_inv m" "set (rbtree_elems m) = set rs"
    using ports.add_ranges_ok [OF ports.rb_inv_init, of rs] assms init_elems(1) by auto
  have "rb_count m = card (set rs)" using ports.count_card [OF m(2)] m(3) by simp
  with m ports.rb_height_bound [OF m(2)] ports.match_range_ok [OF m(2)] assms show ?thesis
    by (auto simp: NetFw_MatchPort_def)
qed

theorem MatchPort_ranges_witness:
  "\<exists>m. add_ranges [(80, 80), (137, 139), (1, 9)] (rbtree_init NetFw_PortCmp) = Some m
    \<and> NetFw_MatchPort m 138 = NETFW_MATCH_RANGE \<and> NetFw_MatchPort m 10 = NETFW_MATCH_NONE"
proof -
  let ?rs = "[(80, 80), (137, 139), (1, 9)]"
  have "ranges_apart NetFw_PortCmp (set ?rs)" by code_simp
  from MatchPort_ranges [OF this] obtain m where m: "add_ranges ?rs (rbtree_init NetFw_PortCmp) = Some m"
    "\<And>p. NetFw_MatchPort m p = range_level NetFw_PortCmp (set ?rs) p" by blast
  have "range_level NetFw_PortCmp (set ?rs) 138 = NETFW_MATCH_RANGE" "range_level NetFw_PortCmp (set ?rs) 10 = NETFW_MATCH_NONE"
    by code_simp+
  with m show ?thesis by auto
qed

text \<open>
  C2. Network rules from their text to the decision.  The texts of rules in the form of \<^const>\<open>rule_text\<close> (action, ports,
  IPv4 addresses, protocol, without spaces), all for one protocol, whose port ranges and address ranges lie
  apart over all rules, are parsed, put into trees, added one after the other and merged where the code
  merges them.  Whether a connection is then blocked is what the rules say one by one: among the rules
  that match, ranked by image, by address and port together, by port and by address, a best one blocks.
  Merging and the order of the rules make no difference.  A condition on the machine remains: what lies on the
  stack behind the array of \<^verbatim>\<open>_wntoi\<close> must not begin with a digit.  The code does not ensure it; a longer port
  converted just before may leave one there, and then another port is read (see below).
\<close>

theorem network_rules_correct:
  assumes "\<forall>i. 10 \<le> digit_val (deref (stk i))"
    and "\<forall>(level, r) \<in> set srcs. rs_protocol r = pr" and "pr \<in> {IPPROTO_ANY, IPPROTO_TCP, IPPROTO_UDP, IPPROTO_ICMP}"
    and "ranges_apart NetFw_PortCmp (\<Union>(level, r) \<in> set srcs. set (rs_ports r))"
    and "ranges_apart NetFw_IpCmp (\<Union>(level, r) \<in> set srcs. map_prod ip_val ip_val ` set (rs_ips r))"
  shows "\<exists>rules merged.
    those (map (\<lambda>(level, r). NetFw_ParseRule stk (NetFw_AllocRule level) (rule_text r)) srcs) = Some rules
    \<and> add_rules [] rules = Some merged \<and>
    (\<forall>Ip Port Protocol. NetFw_BlockTraffic merged Ip Port Protocol = spec_blocks (map (\<lambda>(level, r). src_desc level r) srcs) Ip Port Protocol)"
proof -
  let ?ds = "map (\<lambda>(level, r). src_desc level r) srcs"
  have p: "map (\<lambda>(level, r). NetFw_ParseRule stk (NetFw_AllocRule level) (rule_text r)) srcs = map build_rule ?ds"
    using assms(2,3) by (auto intro!: ParseRule_text [OF assms(1)])
  have d: "\<forall>d \<in> set ?ds. rd_protocol d = pr" using assms(2) by (auto simp: src_desc_def)
  have "(\<Union>d \<in> set ?ds. set (rd_ports d)) = (\<Union>(level, r) \<in> set srcs. set (rs_ports r))"
    "(\<Union>d \<in> set ?ds. set (rd_ips d)) = (\<Union>(level, r) \<in> set srcs. map_prod ip_val ip_val ` set (rs_ips r))"
    by (simp_all add: src_desc_def case_prod_unfold)
  with rules_refine [OF d] assms(4,5) obtain rules merged where "those (map build_rule ?ds) = Some rules" "add_rules [] rules = Some merged"
    "\<forall>Ip Port Protocol. NetFw_BlockTraffic merged Ip Port Protocol = spec_blocks ?ds Ip Port Protocol"
    by auto
  with p show ?thesis by metis
qed

text \<open>Two rules: everything is allowed to a program but ports 25 and 465, and one address is blocked to all.\<close>

definition demo_srcs :: "(int \<times> rule_src) list" where
  "demo_srcs =
     [(0, \<lparr>rs_block = True, rs_ports = [(25, 25), (465, 465)], rs_ips = [], rs_protocol = IPPROTO_TCP\<rparr>),
      (2, \<lparr>rs_block = True, rs_ports = [], rs_ips = [((10, 0, 0, 1), (10, 0, 0, 1))], rs_protocol = IPPROTO_TCP\<rparr>),
      (0, \<lparr>rs_block = False, rs_ports = [], rs_ips = [], rs_protocol = IPPROTO_TCP\<rparr>)]"

theorem network_rules_correct_witness:
  "\<exists>rules merged.
    those (map (\<lambda>(level, r). NetFw_ParseRule (\<lambda>_. []) (NetFw_AllocRule level) (rule_text r)) demo_srcs) = Some rules
    \<and> add_rules [] rules = Some merged
    \<and> NetFw_BlockTraffic merged (ip4_mapped 10 0 0 1) 25 IPPROTO_TCP \<and> \<not> NetFw_BlockTraffic merged (ip4_mapped 10 0 0 1) 80 IPPROTO_TCP"
proof -
  have 2: "\<forall>(level, r) \<in> set demo_srcs. rs_protocol r = IPPROTO_TCP" by code_simp
  have 3: "ranges_apart NetFw_PortCmp (\<Union>(level, r) \<in> set demo_srcs. set (rs_ports r))" by code_simp
  have 4: "ranges_apart NetFw_IpCmp (\<Union>(level, r) \<in> set demo_srcs. map_prod ip_val ip_val ` set (rs_ips r))" by code_simp
  have 5: "spec_blocks (map (\<lambda>(level, r). src_desc level r) demo_srcs) (ip4_mapped 10 0 0 1) 25 IPPROTO_TCP" by code_simp
  have 6: "\<not> spec_blocks (map (\<lambda>(level, r). src_desc level r) demo_srcs) (ip4_mapped 10 0 0 1) 80 IPPROTO_TCP" by code_simp
  from network_rules_correct [OF stk_nil 2 _ 3 4] 5 6 show ?thesis by auto
qed

text \<open>
  Overlapping ranges lose ports: after \<^verbatim>\<open>Block;Port=10-40,15-30;\<close> port 20 is blocked and port 35, which is in the
  first range, is not, because the search stops at the range that begins closest below the port.
\<close>

theorem overlapping_ranges_lose_ports:
  "\<exists>r. NetFw_ParseRule (\<lambda>_. []) (NetFw_AllocRule 0) ''Block;Port=10-40,15-30;'' = Some r
    \<and> NetFw_BlockTraffic [r] (ip4_mapped 1 2 3 4) 20 IPPROTO_TCP \<and> \<not> NetFw_BlockTraffic [r] (ip4_mapped 1 2 3 4) 35 IPPROTO_TCP"
proof -
  let ?src = "\<lparr>rs_block = True, rs_ports = [(10, 40), (15, 30)], rs_ips = [], rs_protocol = IPPROTO_ANY\<rparr> :: rule_src"
  have "rule_text ?src = ''Block;Port=10-40,15-30;''" by code_simp
  with ParseRule_text [OF stk_nil, of ?src 0]
  have p: "NetFw_ParseRule (\<lambda>_. []) (NetFw_AllocRule 0) ''Block;Port=10-40,15-30;'' = build_rule (src_desc 0 ?src)" by simp
  have "map_option (\<lambda>r. (NetFw_BlockTraffic [r] (ip4_mapped 1 2 3 4) 20 IPPROTO_TCP, NetFw_BlockTraffic [r] (ip4_mapped 1 2 3 4) 35 IPPROTO_TCP))
      (build_rule (src_desc 0 ?src)) = Some (True, False)" by code_simp
  with p show ?thesis by auto
qed

text \<open>
  The order of two rules decides between Block and Allow when one of them names a protocol: each of the
  two is better than the other one, and the last one in the list wins.
\<close>

theorem rule_order_decides:
  "\<exists>a b. NetFw_ParseRule (\<lambda>_. []) (NetFw_AllocRule 0) ''Allow;Protocol=TCP;'' = Some a
    \<and> NetFw_ParseRule (\<lambda>_. []) (NetFw_AllocRule 0) ''Block;'' = Some b
    \<and> add_rules [] [a, b] = Some [a, b] \<and> add_rules [] [b, a] = Some [b, a]
    \<and> (\<forall>Ip Port. NetFw_BlockTraffic [a, b] Ip Port IPPROTO_TCP \<and> \<not> NetFw_BlockTraffic [b, a] Ip Port IPPROTO_TCP)"
proof -
  let ?a = "\<lparr>rs_block = False, rs_ports = [], rs_ips = [], rs_protocol = IPPROTO_TCP\<rparr> :: rule_src"
  let ?b = "\<lparr>rs_block = True, rs_ports = [], rs_ips = [], rs_protocol = IPPROTO_ANY\<rparr> :: rule_src"
  have t: "rule_text ?a = ''Allow;Protocol=TCP;''" "rule_text ?b = ''Block;''" by code_simp+
  define a b where "a = (NetFw_AllocRule 0)\<lparr>protocol := IPPROTO_TCP\<rparr>" and "b = (NetFw_AllocRule 0)\<lparr>action_block := True\<rparr>"
  have "build_rule (src_desc 0 ?a) = Some a" "build_rule (src_desc 0 ?b) = Some b"
    by (simp_all add: build_rule_def src_desc_def a_def b_def NetFw_RuleSetProtocol_def NetFw_RuleSetBlockAction_def NetFw_AllocRule_def)
  with ParseRule_text [OF stk_nil, of ?a 0] ParseRule_text [OF stk_nil, of ?b 0] t
  have p: "NetFw_ParseRule (\<lambda>_. []) (NetFw_AllocRule 0) ''Allow;Protocol=TCP;'' = Some a"
    "NetFw_ParseRule (\<lambda>_. []) (NetFw_AllocRule 0) ''Block;'' = Some b" by simp_all
  have c: "rb_count (port_map a) = 0" "rb_count (port_map b) = 0" "rb_count (ip_map a) = 0" "rb_count (ip_map b) = 0"
    by (simp_all add: a_def b_def NetFw_AllocRule_def rbtree_init_def)
  have m: "add_rules [] [a, b] = Some [a, b]" "add_rules [] [b, a] = Some [b, a]"
    by (simp_all add: merge_rule_def a_def b_def NetFw_AllocRule_def)
  have "NetFw_BlockTraffic [a, b] Ip Port IPPROTO_TCP \<and> \<not> NetFw_BlockTraffic [b, a] Ip Port IPPROTO_TCP" for Ip Port
    using c by (simp add: NetFw_BlockTraffic_def NetFw_MatchRule_def NetFw_MatchPort_def NetFw_MatchAddress_def match_range_def
        NetFw_MatchProtocol_def NetFw_IsBetterMatch_def netfw_match_defs IPPROTO_TCP_def IPPROTO_ANY_def Let_def a_def b_def NetFw_AllocRule_def)
  with p m show ?thesis by blast
qed

text \<open>
  Ports are converted in an array without a terminating NUL: a digit that the stack holds behind the last
  number of a rule becomes the last digit of the port.
\<close>

theorem port_reads_stack:
  assumes "p \<noteq> 0" and "d < 10" and "stk 0 = [char_of (48 + d :: nat)]"
  shows "port_num stk (port_text p) 0 (length (port_text p)) = Some (of_nat (10 * unat p + d))"
proof -
  let ?n = "10 * unat p + d"
  have p: "0 < unat p" "unat p < 65536" using assms(1) word_bounds(3) [of p] by (simp_all add: unat_gt_0)
  then have "dec ?n = dec (unat p) @ stk 0" using assms(2,3) by (subst dec.simps) simp
  moreover have "wtoi (dec ?n @ []) = int ?n" by (rule wtoi_dec) (use p assms(2) in \<open>simp_all add: digit_val_def towlower_def Let_def\<close>)
  ultimately show ?thesis
    using length_dec_u16 [of p] by (simp add: port_num_def wntoi_def port_text_def)
qed

theorem port_reads_stack_witness:
  "port_num (\<lambda>_. ''7'') (port_text 80) 0 (length (port_text 80)) = Some 807"
proof -
  have "''7'' = [char_of (48 + 7 :: nat)]" by code_simp
  from port_reads_stack [of 80 7 "\<lambda>_. ''7''", OF _ _ this] show ?thesis by simp
qed

end
