(* ===== verification/HashMap.thy ===== *)
theory HashMap
  imports SbiePrelude "HOL-Library.Multiset"
begin

text \<open>
  The hash map of \<^verbatim>\<open>Sandboxie/common/map.c\<close>: chained buckets, several values per key, and an
  iterator over one key or over all of the map.  The configuration of the driver keeps its
  sections and settings in such maps.  The theory models the operations, states the multimap
  they implement as a locale and interprets it on them.
\<close>

section \<open>Data\<close>

text \<open>
  \<^verbatim>\<open>struct map_node_t\<close>.  The \<^verbatim>\<open>next\<close> pointer is the order of the nodes in their bucket; \<open>nd_addr\<close> is
  the address of the node, which an iterator holds.
\<close>

record ('k, 'v) map_node =
  nd_addr :: nat
  nd_hash :: u32
  nd_key :: 'k
  nd_value :: 'v

text \<open>
  \<^verbatim>\<open>struct map_base_t\<close>.  \<open>buckets\<close> is the array (NULL when it is empty, \<^verbatim>\<open>nbuckets\<close> is its length),
  \<open>func_malloc\<close> tells whether the function of that field returns memory for some bytes or NULL, \<open>next_addr\<close>
  is the address of the next node allocated.  What the field is set to by \<^verbatim>\<open>map_init\<close> is \<open>map_alloc\<close> below.
\<close>

record ('k, 'v) hash_map =
  func_hash_key :: "'k \<Rightarrow> u32"
  func_match_key :: "'k \<Rightarrow> 'k \<Rightarrow> bool"
  func_malloc :: "nat \<Rightarrow> bool"
  buckets :: "('k, 'v) map_node list list"
  nnodes :: nat
  next_addr :: nat

abbreviation nbuckets :: "('k, 'v) hash_map \<Rightarrow> nat" where
  "nbuckets m \<equiv> length (buckets m)"

text \<open>\<^verbatim>\<open>map_iter_t\<close>; \<open>it_ksize\<close> tells whether \<^verbatim>\<open>ksize\<close> is not 0.\<close>

record ('k, 'v) map_iter_t =
  it_bucketIdx :: int
  it_node :: "('k, 'v) map_node option"
  it_ksize :: bool
  it_key :: "'k option"
  it_value :: "'v option"

section \<open>Hashing and matching keys\<close>

definition hash_init :: u32 where "hash_init = 5381"

definition hash_step :: "u32 \<Rightarrow> u32 \<Rightarrow> u32" where
  "hash_step c hash = (push_bit 5 hash + hash) XOR c"

text \<open>\<^verbatim>\<open>map_hash\<close> on the bytes of the key, \<^verbatim>\<open>str_map_hash\<close> on the units of the string.\<close>

definition map_hash :: "u8 list \<Rightarrow> u32" where
  "map_hash key = fold (\<lambda>b hash. hash_step (ucast b) hash) key hash_init"

definition str_map_hash :: "wstring \<Rightarrow> u32" where
  "str_map_hash key = fold (\<lambda>c hash. hash_step (of_nat (of_char c)) hash) key hash_init"

definition str_map_match :: "wstring \<Rightarrow> wstring \<Rightarrow> bool" where
  "str_map_match key1 key2 = wcsicmp_eq key1 key2"

definition map_wcsimatch :: "wstring \<Rightarrow> wstring \<Rightarrow> bool" where
  "map_wcsimatch key1 key2 = wcsicmp_eq key1 key2"

definition map_wcssize :: "wstring \<Rightarrow> nat" where
  "map_wcssize key = (length key + 1) * 2"

section \<open>Memory\<close>

text \<open>
  \<^verbatim>\<open>map_alloc\<close> of a map with or without a pool; \<open>mem\<close> tells whether \<^verbatim>\<open>Mem_Alloc\<close> has some bytes.  The result
  is whether there is memory (not NULL): the size is written in front of it without a test, so a pool
  without memory is a fault and not NULL.
\<close>

definition map_alloc :: "bool \<Rightarrow> (nat \<Rightarrow> bool) \<Rightarrow> nat \<Rightarrow> bool outcome" where
  "map_alloc pool mem bytes =
     (if \<not> pool then Ret False
      else if mem (8 + bytes) then Ret True
      else Fault)"

text \<open>
  So a map of the driver, which has a pool, never sees NULL: where the code goes on, \<open>func_malloc\<close> was true.
  NULL is the answer for a map without a pool, and that of \<^verbatim>\<open>malloc\<close> in programs built without pools.
\<close>

lemma map_alloc_pool: "map_alloc True mem bytes = (if mem (8 + bytes) then Ret True else Fault)"
  by (simp add: map_alloc_def)

section \<open>Operations\<close>

definition map_init ::
  "('k \<Rightarrow> u32) \<Rightarrow> ('k \<Rightarrow> 'k \<Rightarrow> bool) \<Rightarrow> (nat \<Rightarrow> bool) \<Rightarrow> ('k, 'v) hash_map" where
  "map_init hash_key match_key malloc =
     \<lparr>func_hash_key = hash_key, func_match_key = match_key, func_malloc = malloc,
      buckets = [], nnodes = 0, next_addr = 0\<rparr>"

definition map_bucket_idx :: "nat \<Rightarrow> u32 \<Rightarrow> nat" where
  "map_bucket_idx nb hash = unat (hash AND (of_nat nb - 1))"

definition map_add_node ::
  "('k, 'v) map_node \<Rightarrow> bool \<Rightarrow> ('k, 'v) hash_map \<Rightarrow> ('k, 'v) hash_map" where
  "map_add_node node app m =
     (let n = map_bucket_idx (nbuckets m) (nd_hash node); b = buckets m ! n
      in m\<lparr>buckets := (buckets m)[n := (if app then b @ [node] else node # b)]\<rparr>)"

text \<open>The temporary list of \<^verbatim>\<open>map_resize\<close>: every node is pushed, the buckets from the last one down.\<close>

definition map_all_nodes :: "('k, 'v) map_node list list \<Rightarrow> ('k, 'v) map_node list" where
  "map_all_nodes bs = fold (\<lambda>b nodes. fold (#) b nodes) (rev bs) []"

definition map_resize :: "nat \<Rightarrow> ('k, 'v) hash_map \<Rightarrow> bool \<times> ('k, 'v) hash_map" where
  "map_resize n m =
     (if \<not> func_malloc m (8 * n) then (False, m)
      else (True, fold (\<lambda>node m. map_add_node node False m) (map_all_nodes (buckets m))
                    (m\<lparr>buckets := replicate n []\<rparr>)))"

text \<open>The bytes of a node, for a key of \<open>ksize\<close> and a value of \<open>vsize\<close> bytes.\<close>

definition map_node_bytes :: "nat \<Rightarrow> nat \<Rightarrow> nat" where
  "map_node_bytes ksize vsize = 24 + (ksize + (8 - ksize mod 8) mod 8) + vsize"

definition map_new_node ::
  "nat \<Rightarrow> nat \<Rightarrow> 'k \<Rightarrow> 'v \<Rightarrow> ('k, 'v) hash_map \<Rightarrow> ('k, 'v) map_node option" where
  "map_new_node ksize vsize key value m =
     (if func_malloc m (map_node_bytes ksize vsize)
      then Some \<lparr>nd_addr = next_addr m, nd_hash = func_hash_key m key, nd_key = key, nd_value = value\<rparr>
      else None)"

text \<open>
  \<^verbatim>\<open>map_add\<close>: whether it succeeded (a result other than NULL) and the new map.  \<^verbatim>\<open>map_insert\<close> and
  \<^verbatim>\<open>map_append\<close> are the two values of \<open>app\<close>.
\<close>

definition map_add ::
  "nat \<Rightarrow> nat \<Rightarrow> 'k \<Rightarrow> 'v \<Rightarrow> bool \<Rightarrow> ('k, 'v) hash_map \<Rightarrow> bool \<times> ('k, 'v) hash_map" where
  "map_add ksize vsize key value app m =
     (case map_new_node ksize vsize key value m of
        None \<Rightarrow> (False, m)
      | Some node \<Rightarrow>
          (case (if nbuckets m \<le> nnodes m div 2
                 then map_resize (if 0 < nbuckets m then nbuckets m * 2 else 1) m else (True, m)) of
             (ok, m1) \<Rightarrow>
               if ok then (True, (map_add_node node app m1)
                                   \<lparr>nnodes := nnodes m1 + 1, next_addr := next_addr m1 + 1\<rparr>)
               else (False, m1)))"

definition map_insert ::
  "nat \<Rightarrow> nat \<Rightarrow> 'k \<Rightarrow> 'v \<Rightarrow> ('k, 'v) hash_map \<Rightarrow> bool \<times> ('k, 'v) hash_map" where
  "map_insert ksize vsize key value m = map_add ksize vsize key value False m"

definition map_append ::
  "nat \<Rightarrow> nat \<Rightarrow> 'k \<Rightarrow> 'v \<Rightarrow> ('k, 'v) hash_map \<Rightarrow> bool \<times> ('k, 'v) hash_map" where
  "map_append ksize vsize key value m = map_add ksize vsize key value True m"

text \<open>
  \<^verbatim>\<open>map_getmatch\<close> and \<^verbatim>\<open>map_getref\<close>: the pointer to the link to the first matching node is the chain
  from that node on; NULL is the empty chain.
\<close>

definition nd_matches :: "('k, 'v) hash_map \<Rightarrow> u32 \<Rightarrow> 'k \<Rightarrow> ('k, 'v) map_node \<Rightarrow> bool" where
  "nd_matches m hash key nd \<longleftrightarrow> nd_hash nd = hash \<and> func_match_key m (nd_key nd) key"

definition map_getmatch ::
  "('k, 'v) hash_map \<Rightarrow> ('k, 'v) map_node list \<Rightarrow> u32 \<Rightarrow> 'k \<Rightarrow> ('k, 'v) map_node list" where
  "map_getmatch m chain hash key = dropWhile (\<lambda>nd. \<not> nd_matches m hash key nd) chain"

definition map_getref :: "('k, 'v) hash_map \<Rightarrow> 'k \<Rightarrow> ('k, 'v) map_node list" where
  "map_getref m key =
     (if buckets m = [] then []
      else let hash = func_hash_key m key
           in map_getmatch m (buckets m ! map_bucket_idx (nbuckets m) hash) hash key)"

definition map_get :: "('k, 'v) hash_map \<Rightarrow> 'k \<Rightarrow> 'v option" where
  "map_get m key = (case map_getref m key of [] \<Rightarrow> None | nd # _ \<Rightarrow> Some (nd_value nd))"

text \<open>\<^verbatim>\<open>map_remove_node\<close> unlinks the node from its bucket.\<close>

fun unlink :: "nat \<Rightarrow> ('k, 'v) map_node list \<Rightarrow> ('k, 'v) map_node list" where
  "unlink a [] = []"
| "unlink a (nd # nds) = (if nd_addr nd = a then nds else nd # unlink a nds)"

definition map_remove_node :: "('k, 'v) map_node \<Rightarrow> ('k, 'v) hash_map \<Rightarrow> ('k, 'v) hash_map" where
  "map_remove_node nd m =
     (let n = map_bucket_idx (nbuckets m) (nd_hash nd)
      in m\<lparr>buckets := (buckets m)[n := unlink (nd_addr nd) (buckets m ! n)], nnodes := nnodes m - 1\<rparr>)"

text \<open>\<^verbatim>\<open>map_take\<close>: the value taken and the new map; \<^verbatim>\<open>map_remove\<close> ignores the value.\<close>

definition map_take :: "'k \<Rightarrow> ('k, 'v) hash_map \<Rightarrow> 'v option \<times> ('k, 'v) hash_map" where
  "map_take key m =
     (case map_getref m key of
        [] \<Rightarrow> (None, m)
      | nd # _ \<Rightarrow> (Some (nd_value nd), map_remove_node nd m))"

definition map_remove :: "'k \<Rightarrow> ('k, 'v) hash_map \<Rightarrow> ('k, 'v) hash_map" where
  "map_remove key m = snd (map_take key m)"

definition map_clear :: "('k, 'v) hash_map \<Rightarrow> ('k, 'v) hash_map" where
  "map_clear m = m\<lparr>buckets := [], nnodes := 0\<rparr>"

section \<open>Iterators\<close>

definition map_iter :: "('k, 'v) map_iter_t" where
  "map_iter = \<lparr>it_bucketIdx = - 1, it_node = None, it_ksize = False, it_key = None, it_value = None\<rparr>"

definition map_key_iter :: "'k \<Rightarrow> ('k, 'v) map_iter_t" where
  "map_key_iter key = map_iter\<lparr>it_ksize := True, it_key := Some key\<rparr>"

text \<open>The nodes behind a node in its bucket: \<^verbatim>\<open>iter->node->next\<close>.\<close>

definition chain_after ::
  "('k, 'v) hash_map \<Rightarrow> ('k, 'v) map_node \<Rightarrow> ('k, 'v) map_node list" where
  "chain_after m nd =
     tl (dropWhile (\<lambda>n. nd_addr n \<noteq> nd_addr nd)
       (buckets m ! map_bucket_idx (nbuckets m) (nd_hash nd)))"

definition iter_at ::
  "('k, 'v) map_iter_t \<Rightarrow> ('k, 'v) map_node \<Rightarrow> bool \<times> ('k, 'v) map_iter_t" where
  "iter_at iter nd =
     (True, iter\<lparr>it_node := Some nd, it_key := Some (nd_key nd), it_value := Some (nd_value nd)\<rparr>)"

text \<open>The loop at \<^verbatim>\<open>nextBucket\<close>, over the buckets behind \<open>bucketIdx\<close>.\<close>

fun next_bucket ::
  "('k, 'v) map_node list list \<Rightarrow> ('k, 'v) map_iter_t \<Rightarrow> bool \<times> ('k, 'v) map_iter_t" where
  "next_bucket [] iter = (False, iter\<lparr>it_bucketIdx := it_bucketIdx iter + 1, it_node := None\<rparr>)"
| "next_bucket ([] # bs) iter = next_bucket bs (iter\<lparr>it_bucketIdx := it_bucketIdx iter + 1\<rparr>)"
| "next_bucket ((nd # _) # bs) iter = iter_at (iter\<lparr>it_bucketIdx := it_bucketIdx iter + 1\<rparr>) nd"

definition buckets_behind ::
  "('k, 'v) hash_map \<Rightarrow> ('k, 'v) map_iter_t \<Rightarrow> ('k, 'v) map_node list list" where
  "buckets_behind m iter = drop (nat (it_bucketIdx iter + 1)) (buckets m)"

definition map_next ::
  "('k, 'v) hash_map \<Rightarrow> ('k, 'v) map_iter_t \<Rightarrow> bool \<times> ('k, 'v) map_iter_t" where
  "map_next m iter =
     (case it_node iter of
        Some node \<Rightarrow>
          if it_ksize iter then
            (case map_getmatch m (chain_after m node) (nd_hash node) (the (it_key iter)) of
               [] \<Rightarrow> (False, iter\<lparr>it_node := None\<rparr>)
             | nd # _ \<Rightarrow> iter_at iter nd)
          else
            (case chain_after m node of
               [] \<Rightarrow> next_bucket (buckets_behind m iter) iter
             | nd # _ \<Rightarrow> iter_at iter nd)
      | None \<Rightarrow>
          if it_ksize iter then
            (let iter1 = (if buckets m = [] then iter
                          else iter\<lparr>it_bucketIdx := int (map_bucket_idx (nbuckets m)
                                      (func_hash_key m (the (it_key iter))))\<rparr>)
             in case map_getref m (the (it_key iter)) of
                  [] \<Rightarrow> (False, iter1\<lparr>it_node := None\<rparr>)
                | nd # _ \<Rightarrow> iter_at iter1 nd)
          else next_bucket (buckets_behind m iter) iter)"

text \<open>
  \<^verbatim>\<open>map_erase\<close>: the iterator moves on, then its old node is unlinked.  The search for the node starts
  in the bucket the iterator remembers and has no working test for the end of the bucket:
  \<^const>\<open>None\<close> is the NULL dereference when the node is not there.
\<close>

definition map_erase ::
  "('k, 'v) map_iter_t \<Rightarrow> ('k, 'v) hash_map
     \<Rightarrow> (bool \<times> ('k, 'v) map_iter_t \<times> ('k, 'v) hash_map) option" where
  "map_erase iter m =
     (case it_node iter of
        None \<Rightarrow> Some (False, iter, m)
      | Some node \<Rightarrow>
          if \<not> list_ex (\<lambda>nd. nd_addr nd = nd_addr node) (buckets m ! nat (it_bucketIdx iter)) then None
          else (case map_next m iter of (ret, iter2) \<Rightarrow> Some (ret, iter2, map_remove_node node m)))"

text \<open>The values a loop \<^verbatim>\<open>while (map_next(m, &iter))\<close> sees, at most \<open>fuel\<close> of them.\<close>

fun map_values :: "nat \<Rightarrow> ('k, 'v) hash_map \<Rightarrow> ('k, 'v) map_iter_t \<Rightarrow> 'v list" where
  "map_values 0 m iter = []"
| "map_values (Suc fuel) m iter =
     (case map_next m iter of
        (True, iter2) \<Rightarrow> the (it_value iter2) # map_values fuel m iter2
      | (False, _) \<Rightarrow> [])"

section \<open>Lemmas on buckets\<close>

lemma map_bucket_idx_mod: "map_bucket_idx (2 ^ e) h = unat h mod 2 ^ e"
proof -
  have "(of_nat (2 ^ e) - 1 :: u32) = mask e" by (simp add: mask_eq_exp_minus_1)
  then have "map_bucket_idx (2 ^ e) h = unat (take_bit e h)"
    by (simp add: map_bucket_idx_def take_bit_eq_mask)
  then show ?thesis by (simp only: unsigned_take_bit_eq take_bit_eq_mod [of e "unat h"])
qed

lemma map_bucket_idx_lt: "nb = 2 ^ e \<Longrightarrow> map_bucket_idx nb h < nb"
  by (simp add: map_bucket_idx_mod)

text \<open>A bucket array in which every node is in the bucket of its hash.\<close>

definition placed :: "('k, 'v) map_node list list \<Rightarrow> bool" where
  "placed bs \<longleftrightarrow> (\<exists>e. length bs = 2 ^ e) \<and>
     (\<forall>i < length bs. \<forall>nd \<in> set (bs ! i). map_bucket_idx (length bs) (nd_hash nd) = i)"

text \<open>The nodes of one hash, in the order of their bucket.\<close>

definition hash_nodes :: "u32 \<Rightarrow> ('k, 'v) map_node list list \<Rightarrow> ('k, 'v) map_node list" where
  "hash_nodes h bs = filter (\<lambda>nd. nd_hash nd = h) (concat bs)"

lemma placed_idx: "placed bs \<Longrightarrow> map_bucket_idx (length bs) h < length bs"
  by (auto simp: placed_def map_bucket_idx_lt)

lemma filter_concat_one:
  assumes "i < length bs" and "\<And>j. j < length bs \<Longrightarrow> j \<noteq> i \<Longrightarrow> filter P (bs ! j) = []"
  shows "filter P (concat bs) = filter P (bs ! i)"
proof -
  have e: "filter P (concat cs) = []" if "\<And>c. c \<in> set cs \<Longrightarrow> filter P c = []" for cs
    using that by (induction cs) auto
  have "concat bs = concat (take i bs) @ bs ! i @ concat (drop (Suc i) bs)"
    using id_take_nth_drop [OF assms(1)] by (metis concat.simps(2) concat_append)
  moreover have "filter P (concat (take i bs)) = []"
    by (rule e) (use assms in \<open>auto simp: in_set_conv_nth\<close>)
  moreover have "filter P (concat (drop (Suc i) bs)) = []"
    by (rule e) (use assms in \<open>auto simp: in_set_conv_nth\<close>)
  ultimately show ?thesis by simp
qed

lemma hash_nodes_bucket:
  assumes "placed bs"
  shows "hash_nodes h bs = filter (\<lambda>nd. nd_hash nd = h) (bs ! map_bucket_idx (length bs) h)"
  unfolding hash_nodes_def
  by (rule filter_concat_one [OF placed_idx [OF assms]])
    (use assms in \<open>auto simp: placed_def filter_empty_conv\<close>)

definition put_node :: "('k, 'v) map_node \<Rightarrow> bool \<Rightarrow> ('k, 'v) map_node list list \<Rightarrow> ('k, 'v) map_node list list" where
  "put_node nd app bs = (let n = map_bucket_idx (length bs) (nd_hash nd)
     in bs[n := (if app then bs ! n @ [nd] else nd # bs ! n)])"

lemma map_add_node_put: "map_add_node nd app m = m\<lparr>buckets := put_node nd app (buckets m)\<rparr>"
  by (simp add: map_add_node_def put_node_def Let_def)

lemma placed_update:
  assumes "placed bs" and "\<And>nd. nd \<in> set b \<Longrightarrow> map_bucket_idx (length bs) (nd_hash nd) = i"
  shows "placed (bs[i := b])"
  using assms by (cases "i < length bs") (auto simp: placed_def nth_list_update split: if_splits)

lemma placed_put:
  assumes "placed bs"
  shows "placed (put_node nd app bs)"
  unfolding put_node_def Let_def
  by (rule placed_update [OF assms]) (use assms placed_idx [OF assms] in \<open>auto simp: placed_def split: if_splits\<close>)

lemma length_put [simp]: "length (put_node nd app bs) = length bs"
  by (simp add: put_node_def Let_def)

lemma hash_nodes_put:
  assumes "placed bs"
  shows "hash_nodes h (put_node nd app bs) =
    (if nd_hash nd = h then if app then hash_nodes h bs @ [nd] else nd # hash_nodes h bs
     else hash_nodes h bs)"
proof -
  let ?i = "map_bucket_idx (length bs) h"
  have "hash_nodes h (put_node nd app bs) = filter (\<lambda>nd. nd_hash nd = h) (put_node nd app bs ! ?i)"
    using hash_nodes_bucket [OF placed_put [OF assms]] by simp
  then show ?thesis using placed_idx [OF assms] hash_nodes_bucket [OF assms]
    by (cases "map_bucket_idx (length bs) (nd_hash nd) = ?i") (auto simp: put_node_def Let_def)
qed

lemma put_node_split:
  assumes "placed bs"
  shows "\<exists>l b r. bs = l @ b # r \<and> put_node nd app bs = l @ (if app then b @ [nd] else nd # b) # r"
proof -
  let ?i = "map_bucket_idx (length bs) (nd_hash nd)"
  have i: "?i < length bs" by (rule placed_idx [OF assms])
  have "bs = take ?i bs @ bs ! ?i # drop (Suc ?i) bs" by (rule id_take_nth_drop [OF i])
  moreover have "put_node nd app bs =
      take ?i bs @ (if app then bs ! ?i @ [nd] else nd # bs ! ?i) # drop (Suc ?i) bs"
    unfolding put_node_def Let_def by (rule upd_conv_take_nth_drop [OF i])
  ultimately show ?thesis by blast
qed

lemma mset_put:
  assumes "placed bs"
  shows "mset (concat (put_node nd app bs)) = add_mset nd (mset (concat bs))"
proof -
  from put_node_split [OF assms] obtain l b r where
    "bs = l @ b # r" "put_node nd app bs = l @ (if app then b @ [nd] else nd # b) # r" by blast
  then show ?thesis by (cases app) auto
qed

lemma fold_push: "fold (\<lambda>b ns. fold (#) b ns) (rev cs) ns = concat (map rev cs) @ ns"
proof -
  have f: "fold (#) b ns = rev b @ ns" for b ns :: "'a list"
    by (induction b arbitrary: ns) auto
  show ?thesis by (induction cs arbitrary: ns) (auto simp: f)
qed

lemma map_all_nodes_eq: "map_all_nodes bs = concat (map rev bs)"
  using fold_push [of bs "[]"] by (simp add: map_all_nodes_def)

lemma fold_put:
  assumes "placed bs"
  shows "placed (fold (\<lambda>nd. put_node nd False) ns bs)"
    and "length (fold (\<lambda>nd. put_node nd False) ns bs) = length bs"
    and "hash_nodes h (fold (\<lambda>nd. put_node nd False) ns bs) =
           rev (filter (\<lambda>nd. nd_hash nd = h) ns) @ hash_nodes h bs"
    and "mset (concat (fold (\<lambda>nd. put_node nd False) ns bs)) = mset ns + mset (concat bs)"
  using assms
  by (induction ns arbitrary: bs) (auto simp: placed_put hash_nodes_put mset_put)

lemma map_resize_fold:
  "fold (\<lambda>node m. map_add_node node False m) ns m =
     m\<lparr>buckets := fold (\<lambda>nd. put_node nd False) ns (buckets m)\<rparr>"
  by (induction ns arbitrary: m) (auto simp: map_add_node_put)

lemma hash_nodes_replicate [simp]: "hash_nodes h (replicate n []) = []"
  by (simp add: hash_nodes_def)

lemma placed_replicate: "placed (replicate (2 ^ e) [])"
  by (auto simp: placed_def)

lemma hash_nodes_all:
  assumes "placed bs \<or> bs = []"
  shows "filter (\<lambda>nd. nd_hash nd = h) (map_all_nodes bs) = rev (hash_nodes h bs)"
proof (cases "bs = []")
  case True
  then show ?thesis by (simp add: map_all_nodes_eq hash_nodes_def)
next
  case False
  with assms have p: "placed bs" by simp
  let ?i = "map_bucket_idx (length bs) h"
  have "filter (\<lambda>nd. nd_hash nd = h) (concat (map rev bs)) = filter (\<lambda>nd. nd_hash nd = h) (map rev bs ! ?i)"
    by (rule filter_concat_one)
      (use p placed_idx [OF p] in \<open>auto simp: placed_def filter_empty_conv\<close>)
  with hash_nodes_bucket [OF p] placed_idx [OF p] show ?thesis
    by (simp add: map_all_nodes_eq rev_filter)
qed

lemma mset_concat_rev: "mset (concat (map rev bs)) = mset (concat bs)"
  by (induction bs) auto

lemma map_resize_ok:
  assumes "placed (buckets m) \<or> buckets m = []" and "map_resize (2 ^ e) m = (True, m')"
  shows "placed (buckets m')" and "hash_nodes h (buckets m') = hash_nodes h (buckets m)"
    and "mset (concat (buckets m')) = mset (concat (buckets m))"
    and "m' = m\<lparr>buckets := buckets m'\<rparr>"
proof -
  from assms(2) have m': "m' = m\<lparr>buckets := fold (\<lambda>nd. put_node nd False) (map_all_nodes (buckets m))
      (replicate (2 ^ e) [])\<rparr>"
    by (auto simp: map_resize_def map_resize_fold split: if_splits)
  note f = fold_put [OF placed_replicate [of e], where ns = "map_all_nodes (buckets m)"]
  show "placed (buckets m')" using f(1) m' by simp
  show "hash_nodes h (buckets m') = hash_nodes h (buckets m)"
    using f(3) hash_nodes_all [OF assms(1), of h] m' by simp
  show "mset (concat (buckets m')) = mset (concat (buckets m))"
    using f(4) m' by (simp add: map_all_nodes_eq mset_concat_rev)
  show "m' = m\<lparr>buckets := buckets m'\<rparr>" using m' by simp
qed

section \<open>The invariant\<close>

abbreviation map_nodes :: "('k, 'v) hash_map \<Rightarrow> ('k, 'v) map_node list" where
  "map_nodes m \<equiv> concat (buckets m)"

definition hm_ok :: "('k, 'v) hash_map \<Rightarrow> bool" where
  "hm_ok m \<longleftrightarrow> (buckets m = [] \<or> placed (buckets m))
     \<and> (\<forall>nd \<in> set (map_nodes m). nd_hash nd = func_hash_key m (nd_key nd) \<and> nd_addr nd < next_addr m)
     \<and> distinct (map nd_addr (map_nodes m)) \<and> nnodes m = length (map_nodes m)"

text \<open>The match function is an equivalence.\<close>

definition key_equiv :: "('k, 'v) hash_map \<Rightarrow> bool" where
  "key_equiv m \<longleftrightarrow> equivp (func_match_key m)"

text \<open>The values of a key, in the order in which a lookup sees them.\<close>

definition key_vals :: "('k, 'v) hash_map \<Rightarrow> 'k \<Rightarrow> 'v list" where
  "key_vals m key = map nd_value (filter (nd_matches m (func_hash_key m key) key) (map_nodes m))"

lemma key_vals_hash:
  "key_vals m key = map nd_value (filter (\<lambda>nd. func_match_key m (nd_key nd) key)
     (hash_nodes (func_hash_key m key) (buckets m)))"
  by (auto simp: key_vals_def hash_nodes_def nd_matches_def
      intro!: arg_cong [where f = "map nd_value"] filter_cong)

lemma distinct_add:
  assumes "mset ys = add_mset x (mset xs)"
  shows "distinct (map f ys) \<longleftrightarrow> f x \<notin> f ` set xs \<and> distinct (map f xs)"
proof -
  from assms have "mset (map f ys) = mset (map f (x # xs))" by simp
  from mset_eq_imp_distinct_iff [OF this] show ?thesis by simp
qed

lemma hm_ok_init [simp]: "hm_ok (map_init h f a)"
  by (simp add: hm_ok_def map_init_def)

lemma key_vals_init [simp]: "key_vals (map_init h f a) key = []"
  by (simp add: key_vals_def map_init_def)

lemma map_resize_hm_ok:
  assumes "hm_ok m" and "map_resize (2 ^ e) m = (True, m')"
  shows "hm_ok m'" and "key_vals m' key = key_vals m key" and "placed (buckets m')"
    and "m' = m\<lparr>buckets := buckets m'\<rparr>" and "mset (map_nodes m') = mset (map_nodes m)"
proof -
  from assms(1) have p: "placed (buckets m) \<or> buckets m = []" by (auto simp: hm_ok_def)
  note r = map_resize_ok [OF p assms(2)]
  show p': "placed (buckets m')" by (rule r(1))
  show e: "m' = m\<lparr>buckets := buckets m'\<rparr>" by (rule r(4))
  show s: "mset (map_nodes m') = mset (map_nodes m)" by (rule r(3))
  have f: "func_hash_key m' = func_hash_key m" "func_match_key m' = func_match_key m"
    "next_addr m' = next_addr m" "nnodes m' = nnodes m"
    by (subst e, simp)+
  have "distinct (map nd_addr (map_nodes m')) = distinct (map nd_addr (map_nodes m))"
    by (rule mset_eq_imp_distinct_iff) (simp add: s)
  with assms(1) p' s f mset_eq_setD [OF s] mset_eq_length [OF s] show "hm_ok m'"
    by (simp add: hm_ok_def)
  show "key_vals m' key = key_vals m key" by (simp add: key_vals_hash f r(2))
qed

lemma map_add_node_ok:
  assumes "hm_ok m" and "placed (buckets m)" and "nd_hash nd = func_hash_key m (nd_key nd)"
    and "nd_addr nd = next_addr m"
    and "m' = (map_add_node nd app m)\<lparr>nnodes := nnodes m + 1, next_addr := next_addr m + 1\<rparr>"
  shows "hm_ok m'" and "key_vals m' key =
    (if nd_matches m (func_hash_key m key) key nd
     then if app then key_vals m key @ [nd_value nd] else nd_value nd # key_vals m key
     else key_vals m key)"
proof -
  have b: "buckets m' = put_node nd app (buckets m)" "func_hash_key m' = func_hash_key m"
    "func_match_key m' = func_match_key m" "next_addr m' = next_addr m + 1" "nnodes m' = nnodes m + 1"
    using assms(5) by (simp_all add: map_add_node_put)
  note s = mset_put [OF assms(2), of nd app]
  have st: "set (concat (put_node nd app (buckets m))) = insert nd (set (map_nodes m))"
    using arg_cong [OF s, of set_mset] by simp
  have d: "distinct (map nd_addr (concat (put_node nd app (buckets m))))"
  proof -
    have "nd_addr nd \<notin> nd_addr ` set (map_nodes m)"
      using assms(1,4) unfolding hm_ok_def by (metis imageE less_irrefl)
    with assms(1) show ?thesis by (simp add: distinct_add [OF s] hm_ok_def)
  qed
  have l: "length (concat (put_node nd app (buckets m))) = Suc (length (map_nodes m))"
    using arg_cong [OF s, of size] by simp
  show "hm_ok m'" using assms(1,3,4) placed_put [OF assms(2)] d l
    unfolding hm_ok_def b st by (auto simp: less_Suc_eq)
  show "key_vals m' key = (if nd_matches m (func_hash_key m key) key nd
     then if app then key_vals m key @ [nd_value nd] else nd_value nd # key_vals m key
     else key_vals m key)"
    by (auto simp: key_vals_hash b hash_nodes_put [OF assms(2)] nd_matches_def)
qed

text \<open>The keys the map treats as one: equal hashes, and equal for the match function.\<close>

definition same_key :: "('k, 'v) hash_map \<Rightarrow> 'k \<Rightarrow> 'k \<Rightarrow> bool" where
  "same_key m k k' \<longleftrightarrow> func_hash_key m k = func_hash_key m k' \<and> func_match_key m k k'"

text \<open>A successful \<^const>\<open>map_add\<close> puts one new node into a map with the nodes of the old one.\<close>

lemma map_add_decomp:
  assumes "hm_ok m" and "map_add ks vs k v app m = (True, m')"
  obtains m1 where "hm_ok m1" and "placed (buckets m1)" and "m1 = m\<lparr>buckets := buckets m1\<rparr>"
    and "\<And>h. hash_nodes h (buckets m1) = hash_nodes h (buckets m)"
    and "m' = (map_add_node \<lparr>nd_addr = next_addr m, nd_hash = func_hash_key m k, nd_key = k, nd_value = v\<rparr> app m1)
      \<lparr>nnodes := nnodes m1 + 1, next_addr := next_addr m1 + 1\<rparr>"
proof (cases "nbuckets m \<le> nnodes m div 2")
  case True
  let ?n = "if 0 < nbuckets m then nbuckets m * 2 else 1"
  from True obtain m1 where m1: "map_resize ?n m = (True, m1)"
    "m' = (map_add_node \<lparr>nd_addr = next_addr m, nd_hash = func_hash_key m k, nd_key = k, nd_value = v\<rparr> app m1)
      \<lparr>nnodes := nnodes m1 + 1, next_addr := next_addr m1 + 1\<rparr>"
    using assms(2) by (auto simp: map_add_def map_new_node_def split: if_splits prod.splits)
  have "\<exists>e. ?n = 2 ^ e"
  proof (cases "buckets m = []")
    case True
    then show ?thesis by (intro exI [of _ 0]) simp
  next
    case False
    with assms(1) obtain e where "nbuckets m = 2 ^ e" by (auto simp: hm_ok_def placed_def)
    then show ?thesis by (intro exI [of _ "Suc e"]) simp
  qed
  then obtain e where e: "?n = 2 ^ e" by blast
  have p: "placed (buckets m) \<or> buckets m = []" using assms(1) by (auto simp: hm_ok_def)
  note r = map_resize_hm_ok [OF assms(1) m1(1) [unfolded e]]
  show ?thesis by (rule that [OF r(1,3,4) map_resize_ok(2) [OF p m1(1) [unfolded e]] m1(2)])
next
  case False
  then have "placed (buckets m)" using assms(1) by (auto simp: hm_ok_def)
  with False assms show ?thesis
    by (intro that [of m]) (auto simp: map_add_def map_new_node_def split: if_splits)
qed

lemma map_add_ok:
  assumes "hm_ok m" and "map_add ks vs k v app m = (True, m')"
  shows "hm_ok m'" and "func_hash_key m' = func_hash_key m" and "func_match_key m' = func_match_key m"
    and "func_malloc m' = func_malloc m"
    and "key_vals m' key = (if same_key m k key
           then if app then key_vals m key @ [v] else v # key_vals m key else key_vals m key)"
    and "hash_nodes h (buckets m') = (if func_hash_key m k = h
           then let nd = \<lparr>nd_addr = next_addr m, nd_hash = func_hash_key m k, nd_key = k, nd_value = v\<rparr>
                in if app then hash_nodes h (buckets m) @ [nd] else nd # hash_nodes h (buckets m)
           else hash_nodes h (buckets m))"
proof -
  obtain m1 where m1: "hm_ok m1" "placed (buckets m1)" "m1 = m\<lparr>buckets := buckets m1\<rparr>"
    "\<And>h. hash_nodes h (buckets m1) = hash_nodes h (buckets m)"
    "m' = (map_add_node \<lparr>nd_addr = next_addr m, nd_hash = func_hash_key m k, nd_key = k, nd_value = v\<rparr> app m1)
      \<lparr>nnodes := nnodes m1 + 1, next_addr := next_addr m1 + 1\<rparr>"
    by (rule map_add_decomp [OF assms]) blast
  have f: "func_hash_key m1 = func_hash_key m" "func_match_key m1 = func_match_key m"
    "func_malloc m1 = func_malloc m" "next_addr m1 = next_addr m"
    by (subst m1(3), simp)+
  have kv: "key_vals m1 key = key_vals m key" by (simp add: key_vals_hash f m1(4))
  note r = map_add_node_ok [OF m1(1,2) _ _ m1(5)]
  show "hm_ok m'" by (rule r(1)) (simp_all add: f)
  show "func_hash_key m' = func_hash_key m" "func_match_key m' = func_match_key m"
    "func_malloc m' = func_malloc m"
    by (simp_all add: m1(5) map_add_node_put f)
  show "key_vals m' key = (if same_key m k key
      then if app then key_vals m key @ [v] else v # key_vals m key else key_vals m key)"
    using r(2) [of key] by (auto simp: f nd_matches_def same_key_def kv)
  show "hash_nodes h (buckets m') = (if func_hash_key m k = h
      then let nd = \<lparr>nd_addr = next_addr m, nd_hash = func_hash_key m k, nd_key = k, nd_value = v\<rparr>
           in if app then hash_nodes h (buckets m) @ [nd] else nd # hash_nodes h (buckets m)
      else hash_nodes h (buckets m))"
    by (simp add: m1(5) map_add_node_put hash_nodes_put [OF m1(2)] m1(4) Let_def)
qed

lemma map_add_succeeds:
  "(\<And>n. func_malloc m n) \<Longrightarrow> fst (map_add ks vs k v app m)"
  by (auto simp: map_add_def map_new_node_def map_resize_def split: prod.splits)

section \<open>Lookup, removal, iteration\<close>

definition key_nodes :: "('k, 'v) hash_map \<Rightarrow> 'k \<Rightarrow> ('k, 'v) map_node list" where
  "key_nodes m key = filter (nd_matches m (func_hash_key m key) key) (map_nodes m)"

lemma key_nodes_bucket:
  assumes "hm_ok m" and "buckets m \<noteq> []"
  shows "key_nodes m key = filter (nd_matches m (func_hash_key m key) key)
    (buckets m ! map_bucket_idx (nbuckets m) (func_hash_key m key))"
proof -
  from assms have p: "placed (buckets m)" by (simp add: hm_ok_def)
  have f: "filter (nd_matches m h key) xs = filter (\<lambda>nd. func_match_key m (nd_key nd) key)
      (filter (\<lambda>nd. nd_hash nd = h) xs)" for h xs
    by (auto simp: nd_matches_def intro!: filter_cong)
  show ?thesis
    unfolding key_nodes_def f
    using hash_nodes_bucket [OF p, of "func_hash_key m key"] by (simp add: hash_nodes_def)
qed

lemma key_vals_nodes: "key_vals m key = map nd_value (key_nodes m key)"
  by (simp add: key_vals_def key_nodes_def)

lemma getref_key_nodes:
  assumes "hm_ok m"
  shows "map_getref m key = [] \<longleftrightarrow> key_nodes m key = []"
    and "map_getref m key = nd # nds \<Longrightarrow> key_nodes m key = nd # filter (nd_matches m (func_hash_key m key) key) nds"
proof -
  have f: "dropWhile (\<lambda>x. \<not> P x) xs = [] \<longleftrightarrow> filter P xs = []"
    "dropWhile (\<lambda>x. \<not> P x) xs = y # ys \<Longrightarrow> filter P xs = y # filter P ys"
    for P :: "('a, 'b) map_node \<Rightarrow> bool" and xs y ys
    by (induction xs) (auto split: if_splits)
  have "(map_getref m key = [] \<longleftrightarrow> key_nodes m key = []) \<and> (map_getref m key = nd # nds \<longrightarrow>
      key_nodes m key = nd # filter (nd_matches m (func_hash_key m key) key) nds)"
  proof (cases "buckets m = []")
    case True
    then show ?thesis by (simp add: map_getref_def key_nodes_def)
  next
    case False
    show ?thesis
      unfolding map_getref_def map_getmatch_def Let_def key_nodes_bucket [OF assms False]
      using False f by (simp add: filter_empty_conv)
  qed
  then show "map_getref m key = [] \<longleftrightarrow> key_nodes m key = []"
    "map_getref m key = nd # nds \<Longrightarrow> key_nodes m key = nd # filter (nd_matches m (func_hash_key m key) key) nds"
    by blast+
qed

lemma map_get_key_vals:
  assumes "hm_ok m"
  shows "map_get m key = (case key_vals m key of [] \<Rightarrow> None | v # _ \<Rightarrow> Some v)"
proof (cases "map_getref m key")
  case Nil
  then have "key_nodes m key = []" using getref_key_nodes(1) [OF assms] by blast
  with Nil show ?thesis by (simp add: map_get_def key_vals_nodes)
next
  case (Cons nd nds)
  then show ?thesis using getref_key_nodes(2) [OF assms] by (simp add: map_get_def key_vals_nodes)
qed

lemma unlink_filter: "distinct (map nd_addr nds) \<Longrightarrow> unlink a nds = filter (\<lambda>nd. nd_addr nd \<noteq> a) nds"
proof (induction nds)
  case (Cons nd nds)
  then show ?case
    by (cases "nd_addr nd = a") (auto intro!: filter_True [symmetric] simp: image_iff)
qed simp

lemma map_remove_node_nodes:
  assumes "hm_ok m" and "nd \<in> set (map_nodes m)"
  shows "map_nodes (map_remove_node nd m) = filter (\<lambda>n. nd_addr n \<noteq> nd_addr nd) (map_nodes m)"
    and "placed (buckets (map_remove_node nd m))"
proof -
  let ?bs = "buckets m" and ?i = "map_bucket_idx (nbuckets m) (nd_hash nd)"
  from assms have p: "placed ?bs" by (auto simp: hm_ok_def)
  have i: "?i < length ?bs" by (rule placed_idx [OF p])
  from assms(2) obtain b where b: "b \<in> set ?bs" "nd \<in> set b" by auto
  then obtain j where "j < length ?bs" "nd \<in> set (?bs ! j)" by (metis in_set_conv_nth)
  with p have ndi: "nd \<in> set (?bs ! ?i)" by (auto simp: placed_def)
  have sp: "?bs = take ?i ?bs @ ?bs ! ?i # drop (Suc ?i) ?bs" by (rule id_take_nth_drop [OF i])
  let ?l = "concat (take ?i ?bs)" and ?r = "concat (drop (Suc ?i) ?bs)"
  have c: "map_nodes m = ?l @ ?bs ! ?i @ ?r" by (subst sp) simp
  from assms(1) have "distinct (map nd_addr (map_nodes m))" by (simp add: hm_ok_def)
  then have d: "distinct (map nd_addr (?l @ ?bs ! ?i @ ?r))" by (simp only: c)
  then have d1: "distinct (map nd_addr (?bs ! ?i))" by simp
  from d have "set (map nd_addr ?l) \<inter> set (map nd_addr (?bs ! ?i)) = {}"
    "set (map nd_addr (?bs ! ?i)) \<inter> set (map nd_addr ?r) = {}"
    by (auto simp only: map_append distinct_append set_append Int_Un_distrib Un_empty)
  with ndi have "nd_addr n \<noteq> nd_addr nd" if "n \<in> set ?l \<or> n \<in> set ?r" for n
    using that by (metis IntI empty_iff image_eqI list.set_map)
  then have "\<forall>n \<in> set ?l. nd_addr n \<noteq> nd_addr nd" "\<forall>n \<in> set ?r. nd_addr n \<noteq> nd_addr nd" by blast+
  note fl = this [THEN filter_True]
  have b: "buckets (map_remove_node nd m) = ?bs[?i := unlink (nd_addr nd) (?bs ! ?i)]"
    by (simp add: map_remove_node_def Let_def)
  then have "map_nodes (map_remove_node nd m) = ?l @ unlink (nd_addr nd) (?bs ! ?i) @ ?r"
    by (simp add: upd_conv_take_nth_drop [OF i])
  then show "map_nodes (map_remove_node nd m) = filter (\<lambda>n. nd_addr n \<noteq> nd_addr nd) (map_nodes m)"
    by (simp only: c filter_append fl unlink_filter [OF d1, of "nd_addr nd"])
  show "placed (buckets (map_remove_node nd m))"
    unfolding b by (rule placed_update [OF p])
      (use p i unlink_filter [OF d1, of "nd_addr nd"] in \<open>auto simp: placed_def\<close>)
qed

lemma map_remove_node_ok:
  assumes "hm_ok m" and "nd \<in> set (map_nodes m)"
  shows "hm_ok (map_remove_node nd m)"
proof -
  note r = map_remove_node_nodes [OF assms]
  have "length (filter (\<lambda>n. nd_addr n \<noteq> nd_addr nd) (map_nodes m)) = length (map_nodes m) - 1"
  proof -
    from assms(2) obtain l t where s: "map_nodes m = l @ nd # t" by (meson split_list)
    with assms(1) have "nd_addr nd \<notin> nd_addr ` set l" "nd_addr nd \<notin> nd_addr ` set t"
      by (auto simp: hm_ok_def image_iff)
    then have "filter (\<lambda>n. nd_addr n \<noteq> nd_addr nd) l = l" "filter (\<lambda>n. nd_addr n \<noteq> nd_addr nd) t = t"
      by (auto simp: image_iff intro!: filter_True)
    with s show ?thesis by simp
  qed
  moreover have "func_hash_key (map_remove_node nd m) = func_hash_key m"
    "next_addr (map_remove_node nd m) = next_addr m" "nnodes (map_remove_node nd m) = nnodes m - 1"
    by (simp_all add: map_remove_node_def Let_def)
  ultimately show ?thesis using assms(1) r unfolding hm_ok_def
    by (simp add: distinct_map_filter) blast
qed

lemma nd_matches_same_key:
  assumes "key_equiv m" and "nd_matches m (func_hash_key m k) k nd"
  shows "nd_matches m (func_hash_key m k') k' nd \<longleftrightarrow> same_key m k k'"
proof -
  from assms(1) have e: "equivp (func_match_key m)" by (simp add: key_equiv_def)
  from assms(2) show ?thesis
    unfolding nd_matches_def same_key_def by (metis equivp_symp [OF e] equivp_transp [OF e])
qed

lemma nd_matches_congr:
  assumes "key_equiv m" and "same_key m k k'"
  shows "nd_matches m (func_hash_key m k) k nd \<longleftrightarrow> nd_matches m (func_hash_key m k') k' nd"
proof -
  from assms(1) have e: "equivp (func_match_key m)" by (simp add: key_equiv_def)
  from assms(2) show ?thesis
    unfolding nd_matches_def same_key_def by (metis equivp_symp [OF e] equivp_transp [OF e])
qed

lemma key_nodes_congr: "key_equiv m \<Longrightarrow> same_key m k k' \<Longrightarrow> key_nodes m k' = key_nodes m k"
  unfolding key_nodes_def by (rule filter_cong) (auto simp: nd_matches_congr)

text \<open>Unlinking a node of a key takes it out of the nodes of the key, and of no other key.\<close>

lemma map_remove_node_funs [simp]:
  "func_hash_key (map_remove_node nd m) = func_hash_key m" "func_match_key (map_remove_node nd m) = func_match_key m"
  "func_malloc (map_remove_node nd m) = func_malloc m" "nbuckets (map_remove_node nd m) = nbuckets m"
  by (simp_all add: map_remove_node_def Let_def)

lemma key_nodes_remove:
  assumes "hm_ok m" and "key_equiv m" and "key_nodes m k = l @ nd # r"
  shows "hm_ok (map_remove_node nd m)"
    and "key_nodes (map_remove_node nd m) k' = (if same_key m k k' then l @ r else key_nodes m k')"
proof -
  have nd: "nd \<in> set (map_nodes m)" "nd_matches m (func_hash_key m k) k nd"
    using arg_cong [OF assms(3), of set] by (auto simp: key_nodes_def)
  show "hm_ok (map_remove_node nd m)" by (rule map_remove_node_ok [OF assms(1) nd(1)])
  note rn = map_remove_node_nodes [OF assms(1) nd(1)]
  have kn': "key_nodes (map_remove_node nd m) k' = filter (\<lambda>n. nd_addr n \<noteq> nd_addr nd) (key_nodes m k')"
    unfolding key_nodes_def rn(1) filter_filter by (intro filter_cong) (auto simp: nd_matches_def)
  have ds: "distinct (map nd_addr (key_nodes m k))"
    using assms(1) by (simp add: key_nodes_def hm_ok_def distinct_map_filter)
  show "key_nodes (map_remove_node nd m) k' = (if same_key m k k' then l @ r else key_nodes m k')"
  proof (cases "same_key m k k'")
    case True
    have "nd_addr nd \<notin> nd_addr ` set l" "nd_addr nd \<notin> nd_addr ` set r" using ds by (auto simp: assms(3) image_iff)
    then have "filter (\<lambda>n. nd_addr n \<noteq> nd_addr nd) l = l" "filter (\<lambda>n. nd_addr n \<noteq> nd_addr nd) r = r"
      by (auto simp: image_iff intro!: filter_True)
    with kn' key_nodes_congr [OF assms(2) True] assms(3) True show ?thesis by simp
  next
    case False
    have "nd_addr n \<noteq> nd_addr nd" if "n \<in> set (key_nodes m k')" for n
    proof
      assume eq: "nd_addr n = nd_addr nd"
      from that have "n \<in> set (map_nodes m)" by (simp add: key_nodes_def)
      with eq nd(1) assms(1) have "n = nd"
        by (auto simp: hm_ok_def distinct_map dest: inj_onD)
      with that False nd_matches_same_key [OF assms(2) nd(2)] show False by (simp add: key_nodes_def)
    qed
    with kn' False show ?thesis by simp
  qed
qed

lemma map_take_ok:
  assumes "hm_ok m" and "key_equiv m" and "map_take k m = (r, m')"
  shows "hm_ok m'" and "r = (case key_vals m k of [] \<Rightarrow> None | v # _ \<Rightarrow> Some v)"
    and "key_vals m' k' = (if same_key m k k' then tl (key_vals m k') else key_vals m k')"
proof -
  have "hm_ok m' \<and> r = (case key_vals m k of [] \<Rightarrow> None | v # _ \<Rightarrow> Some v) \<and>
      key_vals m' k' = (if same_key m k k' then tl (key_vals m k') else key_vals m k')"
  proof (cases "map_getref m k")
    case Nil
    with getref_key_nodes(1) [OF assms(1)] have n: "key_nodes m k = []" by simp
    then have "key_nodes m k' = []" if "same_key m k k'"
      using key_nodes_congr [OF assms(2) that] by simp
    with Nil n assms show ?thesis by (auto simp: map_take_def key_vals_nodes)
  next
    case (Cons nd nds)
    note kn = getref_key_nodes(2) [OF assms(1) Cons]
    from assms(3) Cons have r: "r = Some (nd_value nd)" "m' = map_remove_node nd m"
      by (simp_all add: map_take_def)
    from key_nodes_remove [OF assms(1,2), of k "[]" nd, simplified, OF kn] kn r key_nodes_congr [OF assms(2)]
    show ?thesis by (auto simp: key_vals_nodes map_tl)
  qed
  then show "hm_ok m'" "r = (case key_vals m k of [] \<Rightarrow> None | v # _ \<Rightarrow> Some v)"
    "key_vals m' k' = (if same_key m k k' then tl (key_vals m k') else key_vals m k')" by auto
qed

lemma bucket_distinct:
  assumes "hm_ok m" and "i < nbuckets m"
  shows "distinct (map nd_addr (buckets m ! i))"
proof -
  have "concat (buckets m) = concat (take i (buckets m)) @ buckets m ! i @ concat (drop (Suc i) (buckets m))"
    using id_take_nth_drop [OF assms(2)] by (metis concat.simps(2) concat_append)
  moreover from assms(1) have "distinct (map nd_addr (map_nodes m))" by (simp add: hm_ok_def)
  ultimately show ?thesis by (simp only: map_append distinct_append)
qed

lemma chain_after_split:
  assumes "hm_ok m" and "i < nbuckets m" and "buckets m ! i = l @ nd # r"
  shows "chain_after m nd = r" and "map_bucket_idx (nbuckets m) (nd_hash nd) = i"
    and "nd \<in> set (map_nodes m)"
proof -
  from assms show nd: "nd \<in> set (map_nodes m)" by (metis UN_I in_set_conv_decomp nth_mem set_concat)
  from assms have "placed (buckets m)" by (auto simp: hm_ok_def)
  with assms(2,3) show i: "map_bucket_idx (nbuckets m) (nd_hash nd) = i" by (simp add: placed_def)
  have "distinct (map nd_addr (l @ nd # r))"
    using bucket_distinct [OF assms(1,2)] by (simp only: assms(3))
  then have "\<forall>n \<in> set l. nd_addr n \<noteq> nd_addr nd" by (auto simp: image_iff)
  then have "dropWhile (\<lambda>n. nd_addr n \<noteq> nd_addr nd) (l @ nd # r) = nd # r"
    by (simp add: dropWhile_append2)
  then show "chain_after m nd = r" by (simp add: chain_after_def i assms(3))
qed

lemma getmatch_cases:
  assumes "dropWhile (\<lambda>x. \<not> P x) r = nd # r2"
  shows "\<exists>l. r = l @ nd # r2 \<and> filter P l = [] \<and> P nd"
  using assms
proof (induction r)
  case (Cons x r)
  show ?case
  proof (cases "P x")
    case True
    with Cons.prems show ?thesis by (intro exI [of _ "[]"]) auto
  next
    case False
    with Cons.prems obtain l where "r = l @ nd # r2" "filter P l = []" "P nd" using Cons.IH by auto
    with False show ?thesis by (intro exI [of _ "x # l"]) simp
  qed
qed simp

lemma key_iter_rest:
  assumes "hm_ok m" and "key_equiv m" and "i < nbuckets m"
  shows "buckets m ! i = l @ nd # r \<Longrightarrow> nd_matches m (func_hash_key m k) k nd \<Longrightarrow>
    it_node iter = Some nd \<Longrightarrow> it_ksize iter \<Longrightarrow> it_key iter = Some (nd_key nd) \<Longrightarrow>
    length (filter (nd_matches m (func_hash_key m k) k) r) < fuel \<Longrightarrow>
    map_values fuel m iter = map nd_value (filter (nd_matches m (func_hash_key m k) k) r)"
proof (induction fuel arbitrary: l nd r iter)
  case (Suc fuel)
  let ?P = "nd_matches m (func_hash_key m k) k"
  note ch = chain_after_split [OF assms(1,3) Suc.prems(1)]
  from assms(1) ch(3) have h: "nd_hash nd = func_hash_key m (nd_key nd)" by (auto simp: hm_ok_def)
  with Suc.prems(2) have "same_key m (nd_key nd) k" by (simp add: nd_matches_def same_key_def)
  then have p: "nd_matches m (nd_hash nd) (nd_key nd) = ?P"
    unfolding h by (intro ext) (rule nd_matches_congr [OF assms(2)])
  have g: "map_getmatch m (chain_after m nd) (nd_hash nd) (nd_key nd) = dropWhile (\<lambda>x. \<not> ?P x) r"
    by (simp add: map_getmatch_def p ch(1))
  show ?case
  proof (cases "dropWhile (\<lambda>x. \<not> ?P x) r")
    case Nil
    then have "filter ?P r = []" by (simp add: filter_empty_conv)
    moreover have "map_getmatch m (chain_after m nd) (nd_hash nd) (nd_key nd) = []"
      using g Nil by (rule trans)
    ultimately show ?thesis using Suc.prems(3-5) by (simp add: map_next_def)
  next
    case (Cons nd2 r2)
    from getmatch_cases [OF Cons] obtain l2 where l2: "r = l2 @ nd2 # r2" "filter ?P l2 = []" "?P nd2" by blast
    define iter2 where "iter2 = snd (iter_at iter nd2)"
    have n: "map_next m iter = (True, iter2)"
      using Cons g Suc.prems(3-5) by (simp add: map_next_def iter2_def iter_at_def)
    have "map_values fuel m iter2 = map nd_value (filter ?P r2)"
      by (rule Suc.IH [of "l @ nd # l2" nd2 r2])
        (use Suc.prems l2 in \<open>auto simp: iter2_def iter_at_def\<close>)
    with n l2 show ?thesis by (simp add: iter2_def iter_at_def)
  qed
qed simp

text \<open>A loop over the iterator of a key sees the values of the key, in order.\<close>

lemma key_iter_values:
  assumes "hm_ok m" and "key_equiv m" and "length (key_vals m k) < fuel"
  shows "map_values fuel m (map_key_iter k) = key_vals m k"
proof -
  obtain f where f: "fuel = Suc f" using assms(3) by (cases fuel) auto
  show ?thesis
  proof (cases "map_getref m k")
    case Nil
    then have "key_nodes m k = []" using getref_key_nodes(1) [OF assms(1)] by blast
    with Nil f show ?thesis by (simp add: map_next_def map_key_iter_def map_iter_def Let_def key_vals_nodes)
  next
    case (Cons nd r)
    let ?i = "map_bucket_idx (nbuckets m) (func_hash_key m k)" and ?P = "nd_matches m (func_hash_key m k) k"
    from Cons have ne: "buckets m \<noteq> []" by (auto simp: map_getref_def)
    with assms(1) have i: "?i < nbuckets m" by (auto simp: hm_ok_def intro: placed_idx)
    from Cons ne have "dropWhile (\<lambda>x. \<not> ?P x) (buckets m ! ?i) = nd # r"
      by (simp add: map_getref_def map_getmatch_def Let_def)
    from getmatch_cases [OF this] obtain l where l: "buckets m ! ?i = l @ nd # r" "?P nd" by blast
    note kn = getref_key_nodes(2) [OF assms(1) Cons]
    define iter2 where "iter2 = snd (iter_at ((map_key_iter k)\<lparr>it_bucketIdx := int ?i\<rparr>) nd)"
    have n: "map_next m (map_key_iter k) = (True, iter2)"
      using Cons ne by (simp add: map_next_def map_key_iter_def map_iter_def iter2_def iter_at_def Let_def)
    have "map_values f m iter2 = map nd_value (filter ?P r)"
      by (rule key_iter_rest [OF assms(1,2) i l])
        (use assms(3) kn f in \<open>auto simp: iter2_def iter_at_def map_key_iter_def key_vals_nodes\<close>)
    with n kn f show ?thesis by (simp add: iter2_def iter_at_def key_vals_nodes)
  qed
qed

lemma filter_eq_split:
  "filter P xs = l @ y # r \<Longrightarrow> \<exists>u v. xs = u @ y # v \<and> filter P u = l \<and> filter P v = r"
proof (induction xs arbitrary: l)
  case (Cons x xs)
  show ?case
  proof (cases "P x \<and> l = []")
    case True
    with Cons.prems show ?thesis by (intro exI [of _ "[]"] exI [of _ xs]) auto
  next
    case False
    with Cons.prems have "filter P xs = (if P x then tl l else l) @ y # r" by (cases l) (auto split: if_splits)
    from Cons.IH [OF this] obtain u v where "xs = u @ y # v" "filter P u = (if P x then tl l else l)" "filter P v = r"
      by blast
    with False Cons.prems show ?thesis by (intro exI [of _ "x # u"] exI [of _ v]) (cases l; auto split: if_splits)
  qed
qed simp

text \<open>One step of the iterator of a key goes to the next node of the key.\<close>

lemma map_next_key:
  assumes "hm_ok m" and "key_equiv m" and "key_nodes m k = l @ nd # r"
    and "it_node iter = Some nd" and "it_ksize iter" and "it_key iter = Some (nd_key nd)"
  shows "map_next m iter = (case r of [] \<Rightarrow> (False, iter\<lparr>it_node := None\<rparr>) | nd2 # _ \<Rightarrow> iter_at iter nd2)"
proof -
  let ?P = "nd_matches m (func_hash_key m k) k"
  from assms(3) have ne: "buckets m \<noteq> []" by (auto simp: key_nodes_def)
  let ?i = "map_bucket_idx (nbuckets m) (func_hash_key m k)"
  from ne assms(1) have i: "?i < nbuckets m" by (auto simp: hm_ok_def intro: placed_idx)
  from assms(3) key_nodes_bucket [OF assms(1) ne, of k]
  obtain u w where b: "buckets m ! ?i = u @ nd # w" "filter ?P w = r" using filter_eq_split by metis
  note ch = chain_after_split [OF assms(1) i b(1)]
  have "nd \<in> set (key_nodes m k)" by (simp add: assms(3))
  then have p: "?P nd" by (simp add: key_nodes_def)
  from assms(1) ch(3) have h: "nd_hash nd = func_hash_key m (nd_key nd)" by (auto simp: hm_ok_def)
  with p have "same_key m (nd_key nd) k" by (simp add: nd_matches_def same_key_def)
  then have "nd_matches m (nd_hash nd) (nd_key nd) = ?P"
    unfolding h by (intro ext) (rule nd_matches_congr [OF assms(2)])
  then have g: "map_getmatch m (chain_after m nd) (nd_hash nd) (nd_key nd) = dropWhile (\<lambda>x. \<not> ?P x) w"
    by (simp add: map_getmatch_def ch(1))
  show ?thesis
  proof (cases "dropWhile (\<lambda>x. \<not> ?P x) w")
    case Nil
    then have "r = []" using b(2) by (simp add: filter_empty_conv)
    moreover have "map_getmatch m (chain_after m nd) (nd_hash nd) (nd_key nd) = []" using g Nil by (rule trans)
    ultimately show ?thesis using assms(4-6) by (simp add: map_next_def)
  next
    case (Cons nd2 w2)
    from getmatch_cases [OF Cons] b(2) have "\<exists>r2. r = nd2 # r2" by auto
    with Cons g assms(4-6) show ?thesis by (auto simp: map_next_def)
  qed
qed

lemma key_nodes_hash:
  "key_nodes m key = filter (\<lambda>nd. func_match_key m (nd_key nd) key) (hash_nodes (func_hash_key m key) (buckets m))"
  by (auto simp: key_nodes_def hash_nodes_def nd_matches_def intro!: filter_cong)

text \<open>Appending adds the node of the new value behind the nodes of its key.\<close>

lemma map_append_nodes:
  assumes "hm_ok m" and "map_append ks vs k v m = (True, m')"
  shows "key_nodes m' key = key_nodes m key @ (if same_key m k key
    then [\<lparr>nd_addr = next_addr m, nd_hash = func_hash_key m k, nd_key = k, nd_value = v\<rparr>] else [])"
  using map_add_ok(2,3,6) [OF assms(1) assms(2) [unfolded map_append_def]]
  by (simp add: key_nodes_hash same_key_def Let_def)

text \<open>The first step of the iterator of a key goes to the first node of the key.\<close>

lemma map_next_first:
  assumes "hm_ok m" and "key_nodes m k = nd # r"
  shows "\<exists>iter. map_next m (map_key_iter k) = (True, iter) \<and> it_node iter = Some nd \<and> it_ksize iter
    \<and> it_key iter = Some (nd_key nd) \<and> it_value iter = Some (nd_value nd)"
proof -
  from assms(2) have "map_getref m k \<noteq> []" using getref_key_nodes(1) [OF assms(1)] by simp
  then obtain nd' r' where g: "map_getref m k = nd' # r'" by (cases "map_getref m k") auto
  with getref_key_nodes(2) [OF assms(1) g] assms(2) have "nd' = nd" by simp
  with g show ?thesis by (auto simp: map_next_def map_key_iter_def map_iter_def iter_at_def Let_def)
qed

lemma map_next_none:
  "hm_ok m \<Longrightarrow> key_nodes m k = [] \<Longrightarrow> \<exists>iter. map_next m (map_key_iter k) = (False, iter)"
  using getref_key_nodes(1) [of m k] by (auto simp: map_next_def map_key_iter_def map_iter_def Let_def)

text \<open>
  An iterator of a key that stands on a node of the key and remembers the bucket of the key, as it
  does as long as the bucket array has not grown.
\<close>

definition iter_on :: "('k, 'v) hash_map \<Rightarrow> 'k \<Rightarrow> ('k, 'v) map_iter_t \<Rightarrow> ('k, 'v) map_node \<Rightarrow> bool" where
  "iter_on m k iter nd \<longleftrightarrow> it_node iter = Some nd \<and> it_ksize iter \<and> it_key iter = Some (nd_key nd)
     \<and> it_value iter = Some (nd_value nd)
     \<and> it_bucketIdx iter = int (map_bucket_idx (nbuckets m) (func_hash_key m k))"

lemma iter_on_first:
  assumes "hm_ok m" and "key_nodes m k = nd # r"
  shows "\<exists>iter. map_next m (map_key_iter k) = (True, iter) \<and> iter_on m k iter nd"
proof -
  from assms(2) have "map_getref m k \<noteq> []" using getref_key_nodes(1) [OF assms(1)] by simp
  then obtain nd' r' where g: "map_getref m k = nd' # r'" by (cases "map_getref m k") auto
  with getref_key_nodes(2) [OF assms(1) g] assms(2) have "nd' = nd" by simp
  moreover have "buckets m \<noteq> []" using assms(2) by (auto simp: key_nodes_def)
  ultimately show ?thesis using g
    by (auto simp: map_next_def map_key_iter_def map_iter_def iter_at_def Let_def iter_on_def)
qed

lemma iter_on_next:
  assumes "hm_ok m" and "key_equiv m" and "key_nodes m k = l @ nd # r" and "iter_on m k iter nd"
  shows "r = [] \<Longrightarrow> map_next m iter = (False, iter\<lparr>it_node := None\<rparr>)"
    and "r = nd2 # r2 \<Longrightarrow> map_next m iter = (True, snd (iter_at iter nd2)) \<and> iter_on m k (snd (iter_at iter nd2)) nd2"
  using map_next_key [OF assms(1-3), of iter] assms(4) by (auto simp: iter_on_def iter_at_def)

text \<open>\<^const>\<open>map_erase\<close> on such an iterator unlinks the node and leaves the iterator on the next one.\<close>

lemma map_erase_key:
  assumes "hm_ok m" and "key_equiv m" and "key_nodes m k = l @ nd # r" and "iter_on m k iter nd"
  shows "\<exists>ret iter2. map_erase iter m = Some (ret, iter2, map_remove_node nd m) \<and>
    (r = [] \<longrightarrow> it_node iter2 = None) \<and>
    (\<forall>nd2 r2. r = nd2 # r2 \<longrightarrow> iter_on (map_remove_node nd m) k iter2 nd2)"
proof -
  let ?i = "map_bucket_idx (nbuckets m) (func_hash_key m k)"
  from assms(3) have ne: "buckets m \<noteq> []" by (auto simp: key_nodes_def)
  have "nd \<in> set (key_nodes m k)" by (simp add: assms(3))
  then have "nd \<in> set (buckets m ! ?i)" unfolding key_nodes_bucket [OF assms(1) ne] by simp
  then have ex: "list_ex (\<lambda>x. nd_addr x = nd_addr nd) (buckets m ! nat (it_bucketIdx iter))"
    using assms(4) by (auto simp: iter_on_def list_ex_iff)
  show ?thesis
  proof (cases r)
    case Nil
    with iter_on_next(1) [OF assms] ex assms(4) show ?thesis by (auto simp: map_erase_def iter_on_def)
  next
    case (Cons nd2 r2)
    with iter_on_next(2) [OF assms Cons] ex assms(4) show ?thesis by (auto simp: map_erase_def iter_on_def)
  qed
qed

lemma key_vals_le_nnodes: "hm_ok m \<Longrightarrow> length (key_vals m k) \<le> nnodes m"
  by (simp add: hm_ok_def key_vals_def)

section \<open>Iterating over the whole map\<close>

text \<open>An iterator over the map that stands on a node, with the nodes it has not seen yet.\<close>

definition iter_all :: "('k, 'v) hash_map \<Rightarrow> ('k, 'v) map_iter_t \<Rightarrow> ('k, 'v) map_node \<Rightarrow> ('k, 'v) map_node list \<Rightarrow> bool" where
  "iter_all m iter nd rest \<longleftrightarrow> (\<exists>i l r. it_bucketIdx iter = int i \<and> i < nbuckets m \<and> buckets m ! i = l @ nd # r
     \<and> it_node iter = Some nd \<and> \<not> it_ksize iter \<and> it_value iter = Some (nd_value nd)
     \<and> rest = r @ concat (drop (Suc i) (buckets m)))"

lemma next_bucket_all:
  "it_bucketIdx iter = int i - 1 \<Longrightarrow> \<not> it_ksize iter \<Longrightarrow>
     (case concat (drop i (buckets m)) of
        [] \<Rightarrow> \<not> fst (next_bucket (drop i (buckets m)) iter)
      | nd # rest \<Rightarrow> \<exists>iter2. next_bucket (drop i (buckets m)) iter = (True, iter2) \<and> iter_all m iter2 nd rest)"
proof (induction "nbuckets m - i" arbitrary: i iter)
  case 0
  then show ?case by simp
next
  case (Suc n)
  then have i: "i < nbuckets m" by simp
  then have d: "drop i (buckets m) = buckets m ! i # drop (Suc i) (buckets m)" by (simp add: Cons_nth_drop_Suc)
  show ?case
  proof (cases "buckets m ! i")
    case Nil
    let ?iter = "iter\<lparr>it_bucketIdx := it_bucketIdx iter + 1\<rparr>"
    have e: "concat (drop i (buckets m)) = concat (drop (Suc i) (buckets m))"
      "next_bucket (drop i (buckets m)) iter = next_bucket (drop (Suc i) (buckets m)) ?iter" using Nil d by simp_all
    show ?thesis unfolding e by (rule Suc(1)) (use Suc.hyps(2) Suc.prems in auto)
  next
    case (Cons nd r)
    have "iter_all m (snd (iter_at (iter\<lparr>it_bucketIdx := it_bucketIdx iter + 1\<rparr>) nd)) nd (r @ concat (drop (Suc i) (buckets m)))"
      unfolding iter_all_def using i Cons Suc.prems by (intro exI [of _ i] exI [of _ "[]"] exI [of _ r]) (simp add: iter_at_def)
    with Cons d show ?thesis by (simp add: iter_at_def)
  qed
qed

lemma map_next_all:
  assumes "hm_ok m" "iter_all m iter nd rest"
  shows "case rest of
      [] \<Rightarrow> \<not> fst (map_next m iter)
    | nd2 # rest2 \<Rightarrow> \<exists>iter2. map_next m iter = (True, iter2) \<and> iter_all m iter2 nd2 rest2"
proof -
  obtain i l r where it: "it_bucketIdx iter = int i" "i < nbuckets m" "buckets m ! i = l @ nd # r"
    "it_node iter = Some nd" "\<not> it_ksize iter" "rest = r @ concat (drop (Suc i) (buckets m))"
    using assms(2) by (auto simp: iter_all_def)
  have c: "chain_after m nd = r" by (rule chain_after_split(1) [OF assms(1) it(2,3)])
  show ?thesis
  proof (cases r)
    case Nil
    have b: "buckets_behind m iter = drop (Suc i) (buckets m)" using it(1) by (simp add: buckets_behind_def nat_add_distrib)
    have e: "rest = concat (drop (Suc i) (buckets m))" "map_next m iter = next_bucket (drop (Suc i) (buckets m)) iter"
      using it c Nil b by (simp_all add: map_next_def)
    show ?thesis unfolding e by (rule next_bucket_all) (use it in auto)
  next
    case (Cons nd2 r2)
    have "iter_all m (snd (iter_at iter nd2)) nd2 (r2 @ concat (drop (Suc i) (buckets m)))"
      unfolding iter_all_def using it Cons
      by (intro exI [of _ i] exI [of _ "l @ [nd]"] exI [of _ r2]) (simp add: iter_at_def)
    with it c Cons show ?thesis by (simp add: map_next_def iter_at_def)
  qed
qed

lemma map_values_all:
  "hm_ok m \<Longrightarrow> iter_all m iter nd rest \<Longrightarrow> length rest < fuel \<Longrightarrow> map_values fuel m iter = map nd_value rest"
proof (induction rest arbitrary: fuel iter nd)
  case Nil
  then obtain f where "fuel = Suc f" by (cases fuel) auto
  with map_next_all [OF Nil.prems(1,2)] show ?case by (auto split: prod.splits bool.splits)
next
  case (Cons nd2 rest)
  then obtain f where f: "fuel = Suc f" "length rest < f" by (cases fuel) auto
  obtain iter2 where "map_next m iter = (True, iter2)" "iter_all m iter2 nd2 rest"
    using map_next_all [OF Cons.prems(1,2)] by auto
  with Cons.IH [OF Cons.prems(1) this(2) f(2)] f(1) show ?case by (auto simp: iter_all_def)
qed

text \<open>The loop over the map sees every value once.\<close>

lemma map_iter_values:
  assumes "hm_ok m" "nnodes m < fuel"
  shows "map_values fuel m map_iter = map nd_value (map_nodes m)"
proof -
  obtain f where f: "fuel = Suc f" using assms(2) by (cases fuel) auto
  have n: "map_next m map_iter = next_bucket (drop 0 (buckets m)) map_iter"
    by (simp add: map_next_def map_iter_def buckets_behind_def)
  have i: "it_bucketIdx map_iter = int 0 - 1" "\<not> it_ksize map_iter" by (simp_all add: map_iter_def)
  show ?thesis
  proof (cases "map_nodes m")
    case Nil
    with next_bucket_all [OF i, of m] n f show ?thesis by (auto split: prod.splits bool.splits)
  next
    case (Cons nd rest)
    then obtain iter2 where it: "map_next m map_iter = (True, iter2)" "iter_all m iter2 nd rest"
      using next_bucket_all [OF i, of m] n by auto
    have "length rest < f" using assms f Cons by (simp add: hm_ok_def)
    from map_values_all [OF assms(1) it(2) this] it Cons f show ?thesis by (auto simp: iter_all_def)
  qed
qed

section \<open>The multimap interface\<close>

text \<open>
  What a client of the map relies on: \<open>add\<close> appends a value to those of its key, and to no
  others.
\<close>

locale multimap =
  fixes inv :: "'m \<Rightarrow> bool"
    and vals :: "'m \<Rightarrow> 'k \<Rightarrow> 'v list"
    and same :: "'m \<Rightarrow> 'k \<Rightarrow> 'k \<Rightarrow> bool"
    and add :: "'k \<Rightarrow> 'v \<Rightarrow> 'm \<Rightarrow> 'm"
    and room :: "'m \<Rightarrow> bool"
  assumes add_inv: "inv m \<Longrightarrow> room m \<Longrightarrow> inv (add k v m)"
    and add_room: "inv m \<Longrightarrow> room m \<Longrightarrow> room (add k v m)"
    and add_same: "inv m \<Longrightarrow> room m \<Longrightarrow> same (add k v m) = same m"
    and add_vals: "inv m \<Longrightarrow> room m \<Longrightarrow>
      vals (add k v m) k' = vals m k' @ (if same m k k' then [v] else [])"
begin

lemma adds_inv: "inv m \<Longrightarrow> room m \<Longrightarrow> inv (fold (\<lambda>(k, v). add k v) kvs m)"
  by (induction kvs arbitrary: m) (auto simp: add_inv add_room)

lemma adds_vals:
  "inv m \<Longrightarrow> room m \<Longrightarrow> vals (fold (\<lambda>(k, v). add k v) kvs m) k' =
     vals m k' @ map snd (filter (\<lambda>(k, v). same m k k') kvs)"
  by (induction kvs arbitrary: m) (auto simp: add_inv add_room add_same add_vals)

end

definition map_append_snd :: "'k \<Rightarrow> 'v \<Rightarrow> ('k, 'v) hash_map \<Rightarrow> ('k, 'v) hash_map" where
  "map_append_snd k v m = snd (map_append 8 0 k v m)"

lemma map_append_room:
  assumes "\<And>n. func_malloc m n"
  shows "map_append 8 0 k v m = (True, map_append_snd k v m)"
  using map_add_succeeds [of m 8 0 k v True] assms
  by (cases "map_append 8 0 k v m") (auto simp: map_append_snd_def map_append_def)

interpretation hm: multimap hm_ok key_vals same_key map_append_snd "\<lambda>m. \<forall>n. func_malloc m n"
proof
  fix m :: "('a, 'b) hash_map" and k k' v
  assume ok: "hm_ok m" and room: "\<forall>n. func_malloc m n"
  from room have "map_add 8 0 k v True m = (True, map_append_snd k v m)"
    using map_append_room [of m k v] by (simp add: map_append_def)
  note a = map_add_ok [OF ok this]
  show "hm_ok (map_append_snd k v m)" by (rule a(1))
  show "\<forall>n. func_malloc (map_append_snd k v m) n" using room a(4) by simp
  show "same_key (map_append_snd k v m) = same_key m" by (intro ext) (simp add: same_key_def a)
  show "key_vals (map_append_snd k v m) k' = key_vals m k' @ (if same_key m k k' then [v] else [])"
    by (simp add: a(5))
qed

lemma map_append_match: "func_match_key (map_append_snd k v m) = func_match_key m"
  by (simp add: map_append_snd_def map_append_def map_add_def map_new_node_def map_add_node_def
      map_resize_def map_resize_fold Let_def split: prod.splits option.splits)

lemma map_appends_match:
  "func_match_key (fold (\<lambda>(k, v). map_append_snd k v) kvs m) = func_match_key m"
  by (induction kvs arbitrary: m) (auto simp: map_append_match)

section \<open>The properties\<close>

lemma same_key_init [simp]: "same_key (map_init h f a) k k' \<longleftrightarrow> h k = h k' \<and> f k k'"
  by (simp add: same_key_def map_init_def)

text \<open>A map with the functions the configuration uses, and an allocator that never fails.\<close>

abbreviation str_map :: "(wstring, 'v) hash_map" where
  "str_map \<equiv> map_init str_map_hash str_map_match (\<lambda>_. True)"

text \<open>
  C12.  The map keeps what the configuration stores: after any sequence of \<^verbatim>\<open>map_append\<close> calls, with
  all the growing of the bucket array they cause, a loop over \<^verbatim>\<open>map_key_iter\<close> sees exactly the
  values appended under the key, in the order in which they were appended.
\<close>

theorem map_append_enumerates:
  assumes "equivp match_key" and "\<forall>n. malloc n"
  shows "map_values (length kvs + 1)
      (fold (\<lambda>(k, v) m. snd (map_append 8 0 k v m)) kvs (map_init hash_key match_key malloc))
      (map_key_iter key) =
    map snd (filter (\<lambda>(k, v). hash_key k = hash_key key \<and> match_key k key) kvs)"
proof -
  let ?init = "map_init hash_key match_key malloc"
  let ?m = "fold (\<lambda>(k, v). map_append_snd k v) kvs ?init"
  have room: "\<forall>n. func_malloc ?init n" using assms(2) by (simp add: map_init_def)
  have ok: "hm_ok ?m" by (rule hm.adds_inv [OF hm_ok_init room])
  have v: "key_vals ?m key = map snd (filter (\<lambda>(k, v). hash_key k = hash_key key \<and> match_key k key) kvs)"
    using hm.adds_vals [OF hm_ok_init room] by simp
  have "func_match_key ?m = match_key" by (simp add: map_appends_match map_init_def)
  then have "key_equiv ?m" using assms(1) by (simp add: key_equiv_def)
  moreover have "length (key_vals ?m key) < length kvs + 1" by (simp add: v less_Suc_eq_le)
  ultimately have "map_values (length kvs + 1) ?m (map_key_iter key) = key_vals ?m key"
    by (rule key_iter_values [OF ok])
  then show ?thesis unfolding v by (simp only: map_append_snd_def [abs_def])
qed

theorem map_append_enumerates_witness:
  "map_values (length [(''a'', 1 :: nat), (''b'', 2), (''a'', 3)] + 1)
     (fold (\<lambda>(k, v) m. snd (map_append 8 0 k v m)) [(''a'', 1 :: nat), (''b'', 2), (''a'', 3)] str_map)
     (map_key_iter ''a'') = [1, 3]"
proof -
  have e: "equivp str_map_match"
    by (rule equivpI) (auto simp: reflp_def symp_def transp_def str_map_match_def wcsicmp_eq_def)
  have f: "map snd (filter (\<lambda>(k, v). str_map_hash k = str_map_hash ''a'' \<and> str_map_match k ''a'')
      [(''a'', 1 :: nat), (''b'', 2), (''a'', 3)]) = [1, 3]" by code_simp
  show ?thesis by (rule trans [OF map_append_enumerates [OF e] f]) simp
qed

text \<open>
  C30.  \<^verbatim>\<open>map_get\<close> sees the last \<^verbatim>\<open>map_insert\<close> of its key, and \<^verbatim>\<open>map_take\<close> returns and removes just that
  value: a lookup of another key is not changed by it.
\<close>

theorem map_take_undoes_insert:
  assumes "hm_ok m" and "key_equiv m" and "map_insert ks vs k v m = (True, m1)"
    and "map_take k m1 = (r, m2)"
  shows "map_get m1 k = Some v \<and> r = Some v \<and> hm_ok m2 \<and> (\<forall>key. map_get m2 key = map_get m key)"
proof -
  note a = map_add_ok [OF assms(1) assms(3) [unfolded map_insert_def]]
  have e: "key_equiv m1" using assms(2) a(3) by (simp add: key_equiv_def)
  have sk: "same_key m1 = same_key m" by (intro ext) (simp add: same_key_def a)
  have r: "same_key m k k" using assms(2) by (simp add: key_equiv_def same_key_def equivp_reflp)
  note t = map_take_ok [OF a(1) e assms(4)]
  have "key_vals m2 key = key_vals m key" for key
    using t(3) [of key] a(5) [of key] by (simp add: sk)
  with t(1,2) a(5) [of k] r show ?thesis
    by (simp add: map_get_key_vals [OF t(1)] map_get_key_vals [OF a(1)] map_get_key_vals [OF assms(1)])
qed

theorem map_take_undoes_insert_witness:
  "\<exists>m1 r m2. map_insert 8 0 ''a'' (1 :: nat) str_map = (True, m1) \<and> map_take ''a'' m1 = (r, m2)
     \<and> map_get m1 ''a'' = Some 1 \<and> (\<forall>key. map_get m2 key = map_get str_map key)"
proof -
  have e: "key_equiv (str_map :: (wstring, nat) hash_map)"
    unfolding key_equiv_def map_init_def
    by (simp, rule equivpI) (auto simp: reflp_def symp_def transp_def str_map_match_def wcsicmp_eq_def)
  have "fst (map_insert 8 0 ''a'' (1 :: nat) str_map)"
    unfolding map_insert_def by (rule map_add_succeeds) (simp add: map_init_def)
  then obtain m1 where m1: "map_insert 8 0 ''a'' (1 :: nat) str_map = (True, m1)"
    by (cases "map_insert 8 0 ''a'' (1 :: nat) str_map") auto
  obtain r m2 where m2: "map_take ''a'' m1 = (r, m2)" by (cases "map_take ''a'' m1")
  from map_take_undoes_insert [OF hm_ok_init e m1 m2] m1 m2 show ?thesis by blast
qed

text \<open>
   The hash of the string maps distinguishes upper and lower case, their match function does
  not: two spellings of a name are the same key for \<^verbatim>\<open>str_map_match\<close>, but what is stored under one
  is not found under the other.
\<close>

theorem str_map_misses_other_case:
  "str_map_match ''openfilepath'' ''OpenFilePath'' \<and>
   map_get (snd (map_insert 8 0 ''openfilepath'' v str_map)) ''openfilepath'' = Some v \<and>
   map_get (snd (map_insert 8 0 ''openfilepath'' v str_map)) ''OpenFilePath'' = None"
proof -
  have h: "str_map_hash ''openfilepath'' \<noteq> str_map_hash ''OpenFilePath''" by code_simp
  have m: "str_map_match ''openfilepath'' ''OpenFilePath''" by code_simp
  let ?r = "map_insert 8 0 ''openfilepath'' v str_map"
  have "fst ?r" unfolding map_insert_def by (rule map_add_succeeds) (simp add: map_init_def)
  then have "map_add 8 0 ''openfilepath'' v False str_map = (True, snd ?r)"
    by (cases ?r) (simp add: map_insert_def)
  note a = map_add_ok [OF hm_ok_init this]
  from h m show ?thesis
    by (simp add: map_get_key_vals [OF a(1)] a(5)) (simp add: same_key_def map_init_def str_map_match_def)
qed

end
