(* ===== verification/Wfp.thy ===== *)
theory Wfp
  imports NetFwText HashMap
begin

text \<open>
  The network filter of the driver, \<^verbatim>\<open>core/drv/wfp.c\<close>: the processes that are filtered, in a hash map by process
  id, with their rules from the configuration, and the callout that permits or blocks a connection.

  The map holds the addresses of the process records, which are on the heap.  A rule list is a value:
  freeing the old list is not modelled.  The spin lock makes every access to the map atomic, and each
  operation is one step here.  The tests of \<^verbatim>\<open>WFP_Enabled\<close> at the begin of \<^verbatim>\<open>WFP_InitProcess\<close> and the reset of it in
  \<^verbatim>\<open>WFP_Unload\<close> are outside of the lock: a start that passed the test before an unload and inserts its
  record after it is not a run of the model.
\<close>

section \<open>State\<close>

record WFP_PROCESS =
  ProcessId :: nat
  LogTraffic :: bool
  BlockInternet :: bool
  NetFwRules :: "NETFW_RULE list"

text \<open>Handles and locks are kept as whether they are there.\<close>

record wfp_state =
  WFP_Enabled :: bool
  WFP_state_handle :: bool
  WFP_InitLock :: bool
  WFP_engine_handle :: bool
  WPF_MapInitialized :: bool
  WFP_Processes :: "(nat, nat) hash_map"
  wfp_heap :: "nat \<Rightarrow> WFP_PROCESS option"
  wfp_next :: nat

text \<open>The bytes of a process id, which are the key of the map.\<close>

definition pid_bytes :: "nat \<Rightarrow> u8 list" where
  "pid_bytes pid = map (\<lambda>i. of_nat (pid div 256 ^ i)) [0..<8]"

section \<open>Starting and stopping\<close>

text \<open>
  \<^verbatim>\<open>WFP_Install_Callbacks\<close> and \<^verbatim>\<open>WFP_Uninstall_Callbacks\<close>; \<open>ok\<close> tells whether the calls of the filter engine
  all succeed.
\<close>

definition WFP_Install_Callbacks :: "bool \<Rightarrow> wfp_state \<Rightarrow> bool \<times> wfp_state" where
  "WFP_Install_Callbacks ok st =
     (if WFP_engine_handle st then (True, st)
      else if ok then (True, st\<lparr>WFP_engine_handle := True\<rparr>)
      else (False, st\<lparr>WFP_engine_handle := False\<rparr>))"

definition WFP_Uninstall_Callbacks :: "wfp_state \<Rightarrow> wfp_state" where
  "WFP_Uninstall_Callbacks st = (if \<not> WFP_engine_handle st then st else st\<lparr>WFP_engine_handle := False\<rparr>)"

datatype FWPM_SERVICE_STATE = FWPM_SERVICE_STOPPED | FWPM_SERVICE_START_PENDING | FWPM_SERVICE_STOP_PENDING | FWPM_SERVICE_RUNNING

definition WFP_state_changed :: "bool \<Rightarrow> FWPM_SERVICE_STATE \<Rightarrow> wfp_state \<Rightarrow> wfp_state" where
  "WFP_state_changed ok newState st =
     (if newState = FWPM_SERVICE_STOP_PENDING then WFP_Uninstall_Callbacks st
      else if newState = FWPM_SERVICE_RUNNING then snd (WFP_Install_Callbacks ok st)
      else st)"

text \<open>What the system answers while the filter is loaded: lock, subscription, engine state, engine calls.\<close>

record load_env =
  le_lock :: bool
  le_subscribe :: bool
  le_running :: bool
  le_install :: bool

definition WFP_Load :: "load_env \<Rightarrow> wfp_state \<Rightarrow> bool \<times> wfp_state" where
  "WFP_Load le st =
     (if WFP_Enabled st then (True, st)
      else
        let st1 = st\<lparr>WFP_Enabled := True, WFP_Processes := snd (map_resize 128 (WFP_Processes st))\<rparr>
        in if \<not> le_lock le then (False, st1)
           else if \<not> le_subscribe le then (False, st1\<lparr>WFP_InitLock := False\<rparr>)
           else
             let st2 = st1\<lparr>WFP_InitLock := True, WFP_state_handle := True\<rparr>
             in (True, if le_running le then snd (WFP_Install_Callbacks (le_install le) st2) else st2))"

definition WFP_Init :: "(nat \<Rightarrow> bool) \<Rightarrow> bool \<Rightarrow> load_env \<Rightarrow> bool \<times> wfp_state" where
  "WFP_Init malloc NetworkEnableWFP le =
     (let st = \<lparr>WFP_Enabled = False, WFP_state_handle = False, WFP_InitLock = False, WFP_engine_handle = False,
                WPF_MapInitialized = True, WFP_Processes = map_init (map_hash \<circ> pid_bytes) (=) malloc,
                wfp_heap = Map.empty, wfp_next = 0\<rparr>
      in if \<not> NetworkEnableWFP then (True, st) else WFP_Load le st)"

text \<open>\<^verbatim>\<open>WFP_Unload\<close>: every record in the map is freed while the loop walks over the map, then the map is cleared.\<close>

definition WFP_Unload :: "wfp_state \<Rightarrow> wfp_state" where
  "WFP_Unload st =
     (let st1 = st\<lparr>WFP_Enabled := False, WFP_state_handle := False\<rparr>;
          st2 = (if WFP_InitLock st1 then (WFP_Uninstall_Callbacks st1)\<lparr>WFP_InitLock := False\<rparr> else st1);
          m = WFP_Processes st2
      in if WPF_MapInitialized st2
         then st2\<lparr>wfp_heap := fold (\<lambda>a heap. heap(a := None)) (map_values (nnodes m + 1) m map_iter) (wfp_heap st2),
                  WFP_Processes := map_clear m\<rparr>
         else st2)"

section \<open>The processes\<close>

text \<open>
  \<^verbatim>\<open>WFP_LoadRules\<close>, the loop over the values of \<^verbatim>\<open>NetworkAccess\<close>.  \<open>alloc i\<close> tells whether the rule for the value at
  index \<open>i\<close> can be allocated, \<open>stk i\<close> is the stack below the parser there.  \<^const>\<open>None\<close> is a fault of the
  parser or missing fuel in the match of the image.
\<close>

definition signed_level :: "u32 option \<Rightarrow> int" where
  "signed_level level = (case level of None \<Rightarrow> - 1 | Some l \<Rightarrow> sint l)"

fun load_loop ::
  "nat \<Rightarrow> conf_env \<Rightarrow> (nat \<Rightarrow> bool) \<Rightarrow> (nat \<Rightarrow> nat \<Rightarrow> wstring) \<Rightarrow> process \<Rightarrow> nat \<Rightarrow> wstring list \<Rightarrow> NETFW_RULE list
     \<Rightarrow> (bool \<times> NETFW_RULE list) option" where
  "load_loop fuel env alloc stk proc index [] rules = Some (True, rules)"
| "load_loop fuel env alloc stk proc index (v # values) rules =
     (case Process_MatchImageAndGetValue fuel env (box_name (proc_box proc)) v (proc_image_name proc) of
        None \<Rightarrow> None
      | Some (None, _) \<Rightarrow> load_loop fuel env alloc stk proc (index + 1) values rules
      | Some (Some found_value, level) \<Rightarrow>
          if \<not> alloc index then Some (False, rules)
          else
            (case NetFw_ParseRule (stk index) (NetFw_AllocRule (signed_level level)) found_value of
               None \<Rightarrow> None
             | Some rule \<Rightarrow>
                 (case NetFw_AddRule rules rule of
                    None \<Rightarrow> None
                  | Some rules1 \<Rightarrow> load_loop fuel env alloc stk proc (index + 1) values rules1)))"

definition WFP_LoadRules ::
  "nat \<Rightarrow> conf_env \<Rightarrow> (nat \<Rightarrow> bool) \<Rightarrow> (nat \<Rightarrow> nat \<Rightarrow> wstring) \<Rightarrow> process \<Rightarrow> (bool \<times> NETFW_RULE list) option" where
  "WFP_LoadRules fuel env alloc stk proc =
     load_loop fuel env alloc stk proc 0 (env_conf env (box_name (proc_box proc)) ''NetworkAccess'') []"

definition WFP_InitProcess :: "bool \<Rightarrow> process \<Rightarrow> wfp_state \<Rightarrow> bool \<times> wfp_state" where
  "WFP_InitProcess alloc proc st =
     (if \<not> WFP_Enabled st then (True, st)
      else if \<not> WFP_engine_handle st then (False, st)
      else if \<not> alloc then (False, st)
      else
        let wfp_proc = wfp_next st; pid = proc_pid proc;
            st1 = st\<lparr>wfp_heap := (wfp_heap st)(wfp_proc \<mapsto> \<lparr>ProcessId = pid, LogTraffic = False, BlockInternet = False, NetFwRules = []\<rparr>),
                     wfp_next := wfp_proc + 1\<rparr>;
            free = (\<lambda>s. s\<lparr>wfp_heap := (wfp_heap s)(wfp_proc := None)\<rparr>)
        in if map_get (WFP_Processes st1) pid \<noteq> None then (False, free st1)
           else case map_insert 8 0 pid wfp_proc (WFP_Processes st1) of
                  (True, m) \<Rightarrow> (True, st1\<lparr>WFP_Processes := m\<rparr>)
                | (False, m) \<Rightarrow> (False, free (st1\<lparr>WFP_Processes := m\<rparr>)))"

text \<open>\<^verbatim>\<open>Process_GetTraceFlag\<close>; \<^verbatim>\<open>Conf_Get\<close> with index 0 is the first value.\<close>

definition TRACE_ALLOW :: u32 where "TRACE_ALLOW = 1"
definition TRACE_DENY :: u32 where "TRACE_DENY = 2"
definition TRACE_IGNORE :: u32 where "TRACE_IGNORE = 4"

definition trace_char :: "wchar \<Rightarrow> u32 \<Rightarrow> u32" where
  "trace_char c flag =
     (let flag1 = (if c = CHR ''a'' \<or> c = CHR ''A'' \<or> c = STAR then flag OR TRACE_ALLOW else flag);
          flag2 = (if c = CHR ''d'' \<or> c = CHR ''D'' \<or> c = STAR then flag1 OR TRACE_DENY else flag1)
      in if c = CHR ''i'' \<or> c = CHR ''I'' \<or> c = STAR then flag2 OR TRACE_IGNORE else flag2)"

primrec trace_loop :: "wstring \<Rightarrow> u32 \<Rightarrow> u32" where
  "trace_loop [] flag = flag"
| "trace_loop (c # s) flag = trace_loop s (trace_char c flag)"

definition Process_GetTraceFlag :: "conf_env \<Rightarrow> process \<Rightarrow> wstring \<Rightarrow> u32" where
  "Process_GetTraceFlag env proc setting =
     (case env_conf env (box_name (proc_box proc)) setting of [] \<Rightarrow> 0 | v # _ \<Rightarrow> trace_loop v 0)"

text \<open>
  \<^verbatim>\<open>WFP_UpdateProcess\<close>, first what is read from the configuration: whether everything is blocked, and the new
  rules when they were loaded.
\<close>

definition wfp_config ::
  "nat \<Rightarrow> conf_env \<Rightarrow> (nat \<Rightarrow> bool) \<Rightarrow> (nat \<Rightarrow> nat \<Rightarrow> wstring) \<Rightarrow> bool \<Rightarrow> process \<Rightarrow> (bool \<times> NETFW_RULE list option) option" where
  "wfp_config fuel env alloc stk AllowInternetAccess proc =
     (case (if \<not> AllowInternetAccess then map_option Not (Process_GetConf_bool fuel env proc ''AllowNetworkAccess'' True)
            else Some False) of
        None \<Rightarrow> None
      | Some True \<Rightarrow> Some (True, None)
      | Some False \<Rightarrow>
          (case WFP_LoadRules fuel env alloc stk proc of
             None \<Rightarrow> None
           | Some (True, rules) \<Rightarrow> Some (False, Some rules)
           | Some (False, _) \<Rightarrow> Some (True, None)))"

definition WFP_UpdateProcess ::
  "nat \<Rightarrow> conf_env \<Rightarrow> (nat \<Rightarrow> bool) \<Rightarrow> (nat \<Rightarrow> nat \<Rightarrow> wstring) \<Rightarrow> bool \<Rightarrow> process \<Rightarrow> wfp_state \<Rightarrow> (bool \<times> wfp_state) option" where
  "WFP_UpdateProcess fuel env alloc stk AllowInternetAccess proc st =
     (if \<not> WFP_Enabled st then Some (True, st)
      else
        let log = (Process_GetTraceFlag env proc ''NetFwTrace'' \<noteq> 0)
        in case wfp_config fuel env alloc stk AllowInternetAccess proc of
             None \<Rightarrow> None
           | Some (block, new_rules) \<Rightarrow>
               (case map_get (WFP_Processes st) (proc_pid proc) of
                  None \<Rightarrow> Some (False, st)
                | Some a \<Rightarrow>
                    (case wfp_heap st a of
                       None \<Rightarrow> None
                     | Some p \<Rightarrow>
                         Some (True, st\<lparr>wfp_heap := (wfp_heap st)(a \<mapsto> p\<lparr>LogTraffic := log, BlockInternet := block,
                             NetFwRules := (case new_rules of None \<Rightarrow> NetFwRules p | Some rs \<Rightarrow> rs)\<rparr>)\<rparr>))))"

text \<open>\<^verbatim>\<open>WFP_DeleteProcess\<close>; \<^const>\<open>None\<close> is the use of a record that is not there.\<close>

definition WFP_DeleteProcess :: "process \<Rightarrow> wfp_state \<Rightarrow> wfp_state option" where
  "WFP_DeleteProcess proc st =
     (if \<not> WFP_Enabled st then Some st
      else case map_take (proc_pid proc) (WFP_Processes st) of
             (None, m) \<Rightarrow> Some (st\<lparr>WFP_Processes := m\<rparr>)
           | (Some a, m) \<Rightarrow>
               if wfp_heap st a = None then None
               else Some (st\<lparr>WFP_Processes := m, wfp_heap := (wfp_heap st)(a := None)\<rparr>))"

section \<open>The callout\<close>

text \<open>
  What \<^verbatim>\<open>WFP_classify\<close> reads of a connection: the process id of the metadata when it is present, whether the
  filter is one of the two for IPv6, the remote address in either form, the remote port and the
  protocol.
\<close>

record classify_in =
  ci_pid :: "nat option"
  ci_v6 :: bool
  ci_addr16 :: "u8 list"
  ci_addr4 :: u32
  ci_port :: u16
  ci_protocol :: u8

datatype FWP_ACTION = FWP_ACTION_NONE | FWP_ACTION_PERMIT | FWP_ACTION_BLOCK

record classify_out =
  actionType :: FWP_ACTION
  action_write :: bool

definition remote_ip :: "classify_in \<Rightarrow> IP_ADDRESS" where
  "remote_ip c =
     (if ci_v6 c then take 16 (ci_addr16 c)
      else [0, 0, 0, 0, 0, 0, 0, 0, 0, 0, 0xFF, 0xFF, ucast (drop_bit 24 (ci_addr4 c)), ucast (drop_bit 16 (ci_addr4 c)),
            ucast (drop_bit 8 (ci_addr4 c)), ucast (ci_addr4 c)])"

definition WFP_classify :: "classify_in \<Rightarrow> classify_out \<Rightarrow> wfp_state \<Rightarrow> classify_out option" where
  "WFP_classify c out st =
     (if \<not> action_write out then Some out
      else
        let permit = out\<lparr>actionType := FWP_ACTION_PERMIT\<rparr>
        in case ci_pid c of
             None \<Rightarrow> Some permit
           | Some pid \<Rightarrow>
               (case map_get (WFP_Processes st) pid of
                  None \<Rightarrow> Some permit
                | Some a \<Rightarrow>
                    (case wfp_heap st a of
                       None \<Rightarrow> None
                     | Some p \<Rightarrow>
                         Some (if BlockInternet p \<or> NetFw_BlockTraffic (NetFwRules p) (remote_ip c) (ci_port c) (uint (ci_protocol c))
                               then out\<lparr>actionType := FWP_ACTION_BLOCK, action_write := False\<rparr> else permit))))"

end
