(* ===== verification/WfpCorrect.thy ===== *)
theory WfpCorrect
  imports Wfp
begin

text \<open>
  The network filter as a state machine: its operations refine a map from process ids to records, the
  records are used safely, and the settings of a sandbox decide about the connections of its processes.
\<close>

section \<open>The filter as a state machine\<close>

datatype wfp_op =
  OpLoad load_env
| OpUnload
| OpState bool FWPM_SERVICE_STATE
| OpInit bool process
| OpUpdate nat conf_env "nat \<Rightarrow> bool" "nat \<Rightarrow> nat \<Rightarrow> wstring" bool process
| OpDelete process

fun exec_op :: "wfp_op \<Rightarrow> wfp_state \<Rightarrow> wfp_state option" where
  "exec_op (OpLoad le) st = Some (snd (WFP_Load le st))"
| "exec_op OpUnload st = Some (WFP_Unload st)"
| "exec_op (OpState ok s) st = Some (WFP_state_changed ok s st)"
| "exec_op (OpInit alloc proc) st = Some (snd (WFP_InitProcess alloc proc st))"
| "exec_op (OpUpdate fuel env alloc stk allow proc) st = map_option snd (WFP_UpdateProcess fuel env alloc stk allow proc st)"
| "exec_op (OpDelete proc) st = WFP_DeleteProcess proc st"

inductive wfp_reach :: "wfp_state \<Rightarrow> bool" where
  reach_init: "wfp_reach (snd (WFP_Init malloc en le))"
| reach_step: "wfp_reach st \<Longrightarrow> exec_op op st = Some st' \<Longrightarrow> wfp_reach st'"

text \<open>The abstract state: the record of every filtered process.\<close>

type_synonym wfp_spec = "nat \<Rightarrow> WFP_PROCESS option"

definition wfp_abs :: "wfp_state \<Rightarrow> wfp_spec" where
  "wfp_abs st pid = Option.bind (map_get (WFP_Processes st) pid) (wfp_heap st)"

inductive spec_step :: "wfp_op \<Rightarrow> wfp_spec \<Rightarrow> wfp_spec \<Rightarrow> bool" where
  spec_load: "spec_step (OpLoad le) A A"
| spec_unload: "spec_step OpUnload A Map.empty"
| spec_state: "spec_step (OpState ok s) A A"
| spec_add: "A (proc_pid proc) = None \<Longrightarrow>
    spec_step (OpInit alloc proc) A (A(proc_pid proc \<mapsto> \<lparr>ProcessId = proc_pid proc, LogTraffic = False, BlockInternet = False, NetFwRules = []\<rparr>))"
| spec_refuse: "spec_step (OpInit alloc proc) A A"
| spec_update: "A (proc_pid proc) = Some p \<Longrightarrow> wfp_config fuel env al stk allow proc = Some (block, rs) \<Longrightarrow>
    spec_step (OpUpdate fuel env al stk allow proc) A (A(proc_pid proc \<mapsto> p\<lparr>LogTraffic := (Process_GetTraceFlag env proc ''NetFwTrace'' \<noteq> 0),
      BlockInternet := block, NetFwRules := (case rs of None \<Rightarrow> NetFwRules p | Some r \<Rightarrow> r)\<rparr>))"
| spec_unknown: "A (proc_pid proc) = None \<Longrightarrow> spec_step (OpUpdate fuel env al stk allow proc) A A"
| spec_delete: "spec_step (OpDelete proc) A (A(proc_pid proc := None))"

text \<open>
  The invariant.  The map is in order and has at most one record per process id; the records of the map are on the heap, and
  every record of the heap is in the map under its own process id; without the filter there are none.
\<close>

definition wfp_inv :: "wfp_state \<Rightarrow> bool" where
  "wfp_inv st \<longleftrightarrow> hm_ok (WFP_Processes st) \<and> func_match_key (WFP_Processes st) = (=) \<and> WPF_MapInitialized st
     \<and> (\<forall>pid. length (key_vals (WFP_Processes st) pid) \<le> 1)
     \<and> (\<forall>pid a. map_get (WFP_Processes st) pid = Some a \<longrightarrow> (\<exists>p. wfp_heap st a = Some p \<and> ProcessId p = pid))
     \<and> (\<forall>a p. wfp_heap st a = Some p \<longrightarrow> map_get (WFP_Processes st) (ProcessId p) = Some a \<and> a < wfp_next st)
     \<and> (\<not> WFP_Enabled st \<longrightarrow> wfp_heap st = Map.empty)"

lemma key_equiv_eq: "func_match_key m = (=) \<Longrightarrow> key_equiv m"
  by (simp add: key_equiv_def identity_equivp)

lemma same_key_eq: "func_match_key m = (=) \<Longrightarrow> same_key m k k' \<longleftrightarrow> k = k'"
  by (auto simp: same_key_def)

lemma map_get_one: "hm_ok m \<Longrightarrow> map_get m k = None \<longleftrightarrow> key_vals m k = []"
  by (simp add: map_get_key_vals split: list.splits)

lemma map_insert_get:
  assumes "hm_ok m" "func_match_key m = (=)" "map_insert 8 0 k v m = (True, m')"
  shows "hm_ok m'" "func_match_key m' = (=)" "map_get m' k' = (if k' = k then Some v else map_get m k')"
    "key_vals m' k' = (if k' = k then v # key_vals m k' else key_vals m k')"
  using map_add_ok [OF assms(1) assms(3) [unfolded map_insert_def]] assms(2)
  by (auto simp: map_get_key_vals assms(1) same_key_eq)

lemma map_insert_fail: "map_insert ks vs k v m = (False, m') \<Longrightarrow> m' = m"
  by (auto simp: map_insert_def map_add_def map_resize_def split: option.splits if_splits)

lemma map_take_get:
  assumes "hm_ok m" "func_match_key m = (=)" "map_take k m = (r, m')" "length (key_vals m k) \<le> 1"
  shows "hm_ok m'" "func_match_key m' = (=)" "r = map_get m k" "map_get m' k' = (if k' = k then None else map_get m k')"
    "length (key_vals m' k') \<le> length (key_vals m k')"
proof -
  note t = map_take_ok [OF assms(1) key_equiv_eq [OF assms(2)] assms(3)]
  show "hm_ok m'" by (rule t(1))
  show "func_match_key m' = (=)" using assms(2,3) by (auto simp: map_take_def split: list.splits)
  show "r = map_get m k" using t(2) assms(1) by (simp add: map_get_key_vals)
  have kv: "key_vals m' k' = (if k' = k then [] else key_vals m k')"
    using t(3) [of k'] assms(4) by (cases "key_vals m k") (auto simp: same_key_eq [OF assms(2)])
  then show "map_get m' k' = (if k' = k then None else map_get m k')" using t(1) assms(1) by (simp add: map_get_key_vals)
  show "length (key_vals m' k') \<le> length (key_vals m k')" using kv by simp
qed

lemma map_resize_get:
  assumes "hm_ok m" "func_match_key m = (=)"
  shows "hm_ok (snd (map_resize 128 m))" "func_match_key (snd (map_resize 128 m)) = (=)"
    "map_get (snd (map_resize 128 m)) k = map_get m k" "key_vals (snd (map_resize 128 m)) k = key_vals m k"
proof -
  obtain ok m' where r: "map_resize 128 m = (ok, m')" by (cases "map_resize 128 m")
  have "hm_ok m' \<and> func_match_key m' = (=) \<and> (\<forall>k. key_vals m' k = key_vals m k)"
  proof (cases ok)
    case True
    with r have "map_resize (2 ^ 7) m = (True, m')" by simp
    note t = map_resize_hm_ok [OF assms(1) this]
    have "func_match_key m' = func_match_key (m\<lparr>buckets := buckets m'\<rparr>)" by (rule arg_cong [OF t(4)])
    then have "func_match_key m' = func_match_key m" by simp
    with t(1,2) assms(2) show ?thesis by simp
  next
    case False
    with r have "m' = m" by (auto simp: map_resize_def split: if_splits)
    with assms show ?thesis by simp
  qed
  with r assms(1) show "hm_ok (snd (map_resize 128 m))" "func_match_key (snd (map_resize 128 m)) = (=)"
    "map_get (snd (map_resize 128 m)) k = map_get m k" "key_vals (snd (map_resize 128 m)) k = key_vals m k"
    by (auto simp: map_get_key_vals)
qed

lemma map_clear_get [simp]: "hm_ok (map_clear m)" "func_match_key (map_clear m) = func_match_key m"
    "map_get (map_clear m) k = None" "key_vals (map_clear m) k = []"
  by (auto simp: map_clear_def hm_ok_def map_get_def map_getref_def key_vals_def)

section \<open>Every operation keeps the invariant and follows the specification\<close>

lemma wfp_invD:
  assumes "wfp_inv st"
  shows "hm_ok (WFP_Processes st)" "func_match_key (WFP_Processes st) = (=)" "WPF_MapInitialized st"
    "length (key_vals (WFP_Processes st) pid) \<le> 1"
    "map_get (WFP_Processes st) pid = Some a \<Longrightarrow> \<exists>p. wfp_heap st a = Some p \<and> ProcessId p = pid"
    "wfp_heap st a = Some p \<Longrightarrow> map_get (WFP_Processes st) (ProcessId p) = Some a \<and> a < wfp_next st"
    "\<not> WFP_Enabled st \<Longrightarrow> wfp_heap st = Map.empty"
  using assms unfolding wfp_inv_def by blast+

lemma wfp_invI:
  assumes "hm_ok (WFP_Processes st)" "func_match_key (WFP_Processes st) = (=)" "WPF_MapInitialized st"
    "\<And>pid. length (key_vals (WFP_Processes st) pid) \<le> 1"
    "\<And>pid a. map_get (WFP_Processes st) pid = Some a \<Longrightarrow> \<exists>p. wfp_heap st a = Some p \<and> ProcessId p = pid"
    "\<And>a p. wfp_heap st a = Some p \<Longrightarrow> map_get (WFP_Processes st) (ProcessId p) = Some a \<and> a < wfp_next st"
    "\<not> WFP_Enabled st \<Longrightarrow> wfp_heap st = Map.empty"
  shows "wfp_inv st"
  using assms unfolding wfp_inv_def by blast

lemma wfp_abs_None: "wfp_inv st \<Longrightarrow> wfp_abs st pid = None \<longleftrightarrow> map_get (WFP_Processes st) pid = None"
  using wfp_invD(5) [of st pid] by (auto simp: wfp_abs_def split: bind_splits)

lemma wfp_abs_Some: "wfp_inv st \<Longrightarrow> wfp_abs st pid = Some p \<Longrightarrow>
    \<exists>a. map_get (WFP_Processes st) pid = Some a \<and> wfp_heap st a = Some p \<and> ProcessId p = pid"
  using wfp_invD(5) [of st pid] by (auto simp: wfp_abs_def split: bind_splits)

lemma wfp_abs_cong: "WFP_Processes st' = WFP_Processes st \<Longrightarrow> wfp_heap st' = wfp_heap st \<Longrightarrow> wfp_abs st' = wfp_abs st"
  by (rule ext) (simp add: wfp_abs_def)

text \<open>Changes of the flags and handles alone.\<close>

lemma flags_ok:
  assumes "wfp_inv st" "WFP_Processes st' = WFP_Processes st" "wfp_heap st' = wfp_heap st" "wfp_next st' = wfp_next st"
    "WPF_MapInitialized st' = WPF_MapInitialized st" "\<not> WFP_Enabled st' \<Longrightarrow> \<not> WFP_Enabled st"
  shows "wfp_inv st' \<and> wfp_abs st' = wfp_abs st"
  using assms wfp_abs_cong [OF assms(2,3)] by (auto simp: wfp_inv_def)

lemma state_changed_ok: "wfp_inv st \<Longrightarrow> wfp_inv (WFP_state_changed ok s st) \<and> wfp_abs (WFP_state_changed ok s st) = wfp_abs st"
  by (rule flags_ok) (auto simp: WFP_state_changed_def WFP_Uninstall_Callbacks_def WFP_Install_Callbacks_def split: if_splits)

lemma Load_ok:
  assumes "wfp_inv st"
  shows "wfp_inv (snd (WFP_Load le st)) \<and> wfp_abs (snd (WFP_Load le st)) = wfp_abs st"
proof (cases "WFP_Enabled st")
  case False
  let ?st = "st\<lparr>WFP_Enabled := True, WFP_Processes := snd (map_resize 128 (WFP_Processes st))\<rparr>"
  note r = map_resize_get [OF wfp_invD(1,2) [OF assms]]
  have inv: "wfp_inv ?st" using assms r by (simp add: wfp_inv_def)
  have abs: "wfp_abs ?st = wfp_abs st" by (rule ext) (simp add: wfp_abs_def r(3))
  have "wfp_inv (snd (WFP_Load le st)) \<and> wfp_abs (snd (WFP_Load le st)) = wfp_abs ?st"
    by (rule flags_ok [OF inv]) (use False in \<open>auto simp: WFP_Load_def WFP_Install_Callbacks_def Let_def split: if_splits\<close>)
  with abs show ?thesis by simp
qed (use assms in \<open>simp add: WFP_Load_def\<close>)

lemma Init_state_ok: "wfp_inv (snd (WFP_Init malloc en le))"
proof -
  let ?st = "\<lparr>WFP_Enabled = False, WFP_state_handle = False, WFP_InitLock = False, WFP_engine_handle = False,
                WPF_MapInitialized = True, WFP_Processes = map_init (map_hash \<circ> pid_bytes) (=) malloc,
                wfp_heap = Map.empty, wfp_next = 0\<rparr>"
  have "func_match_key (map_init (map_hash \<circ> pid_bytes) (=) malloc :: (nat, nat) hash_map) = (=)" by (simp add: map_init_def)
  then have "wfp_inv ?st" by (simp add: wfp_inv_def map_get_key_vals)
  then show ?thesis using Load_ok by (simp add: WFP_Init_def Let_def)
qed

lemma InitProcess_ok:
  assumes "wfp_inv st"
  shows "wfp_inv (snd (WFP_InitProcess alloc proc st))
    \<and> spec_step (OpInit alloc proc) (wfp_abs st) (wfp_abs (snd (WFP_InitProcess alloc proc st)))"
proof -
  let ?a = "wfp_next st" and ?pid = "proc_pid proc" and ?m = "WFP_Processes st"
  let ?p = "\<lparr>ProcessId = ?pid, LogTraffic = False, BlockInternet = False, NetFwRules = []\<rparr> :: WFP_PROCESS"
  note inv = wfp_invD [OF assms]
  have fresh: "wfp_heap st ?a = None" using inv(6) [of ?a] by (cases "wfp_heap st ?a") auto
  have refuse: ?thesis if "WFP_Processes st' = ?m" "wfp_heap st' = wfp_heap st" "wfp_next st \<le> wfp_next st'"
      "WFP_Enabled st' = WFP_Enabled st" "WPF_MapInitialized st' = WPF_MapInitialized st" "snd (WFP_InitProcess alloc proc st) = st'" for st'
  proof -
    have "wfp_abs st' = wfp_abs st" by (rule wfp_abs_cong [OF that(1,2)])
    moreover have "a < wfp_next st'" if "wfp_heap st a = Some p" for a p using inv(6) [OF that] \<open>wfp_next st \<le> wfp_next st'\<close> by linarith
    then have "wfp_inv st'" using that assms unfolding wfp_inv_def by auto
    ultimately show ?thesis using that(6) spec_refuse by metis
  qed
  consider "\<not> WFP_Enabled st \<or> \<not> WFP_engine_handle st \<or> \<not> alloc" | "map_get ?m ?pid \<noteq> None" "WFP_Enabled st" "WFP_engine_handle st" alloc
    | m where "map_get ?m ?pid = None" "map_insert 8 0 ?pid ?a ?m = (False, m)" "WFP_Enabled st" "WFP_engine_handle st" alloc
    | m where "map_get ?m ?pid = None" "map_insert 8 0 ?pid ?a ?m = (True, m)" "WFP_Enabled st" "WFP_engine_handle st" alloc
    by (metis (full_types) surj_pair)
  then show ?thesis
  proof cases
    case 1
    then show ?thesis by (intro refuse [of st]) (auto simp: WFP_InitProcess_def)
  next
    case 2
    then show ?thesis by (intro refuse [OF _ _ _ _ _ refl]) (use fresh in \<open>auto simp: WFP_InitProcess_def Let_def fun_upd_idem\<close>)
  next
    case (3 m)
    then show ?thesis
      by (intro refuse [OF _ _ _ _ _ refl]) (use fresh map_insert_fail [OF 3(2)] in \<open>auto simp: WFP_InitProcess_def Let_def fun_upd_idem\<close>)
  next
    case (4 m)
    let ?st = "st\<lparr>wfp_heap := (wfp_heap st)(?a \<mapsto> ?p), wfp_next := ?a + 1, WFP_Processes := m\<rparr>"
    have e: "snd (WFP_InitProcess alloc proc st) = ?st" using 4 by (simp add: WFP_InitProcess_def Let_def)
    note i = map_insert_get [OF inv(1,2) 4(2)]
    have kv: "key_vals ?m ?pid = []" using 4(1) inv(1) by (simp add: map_get_one)
    have ne: "map_get ?m pid \<noteq> Some ?a" for pid using inv(5) [of pid ?a] fresh by auto
    have abs: "wfp_abs ?st = (wfp_abs st)(?pid \<mapsto> ?p)"
      using ne by (auto simp: wfp_abs_def fun_eq_iff i(3) split: bind_splits)
    have np: "wfp_heap st a = Some p \<Longrightarrow> ProcessId p \<noteq> ?pid" for a p using inv(6) [of a p] 4(1) by auto
    have "wfp_inv ?st"
    proof (rule wfp_invI)
      show "length (key_vals (WFP_Processes ?st) pid) \<le> 1" for pid using inv(4) [of pid] kv by (simp add: i(4))
      show "\<exists>p. wfp_heap ?st a = Some p \<and> ProcessId p = pid" if "map_get (WFP_Processes ?st) pid = Some a" for pid a
        using that ne [of pid] inv(5) [of pid a] by (auto simp: i(3) split: if_splits)
      show "map_get (WFP_Processes ?st) (ProcessId p) = Some a \<and> a < wfp_next ?st" if "wfp_heap ?st a = Some p" for a p
        using that np [of a p] inv(6) [of a p] by (auto simp: i(3) split: if_splits)
    qed (use 4 i inv(3) in simp_all)
    moreover have "spec_step (OpInit alloc proc) (wfp_abs st) (wfp_abs ?st)"
      unfolding abs by (rule spec_add) (use 4(1) wfp_abs_None [OF assms] in simp)
    ultimately show ?thesis unfolding e by blast
  qed
qed

lemma UpdateProcess_ok:
  assumes "wfp_inv st" "WFP_UpdateProcess fuel env alloc stk allow proc st = Some (ok, st')"
  shows "wfp_inv st' \<and> spec_step (OpUpdate fuel env alloc stk allow proc) (wfp_abs st) (wfp_abs st')"
proof -
  let ?pid = "proc_pid proc" and ?m = "WFP_Processes st"
  note inv = wfp_invD [OF assms(1)]
  have unknown: ?thesis if "st' = st" "map_get ?m ?pid = None"
    using that assms(1) spec_unknown wfp_abs_None [OF assms(1)] by blast
  show ?thesis
  proof (cases "WFP_Enabled st")
    case False
    have "wfp_abs st ?pid = None" using inv(7) [OF False] by (auto simp: wfp_abs_def split: bind_splits)
    with False assms unknown show ?thesis by (simp add: WFP_UpdateProcess_def wfp_abs_None)
  next
    case True
    then obtain block rs where c: "wfp_config fuel env alloc stk allow proc = Some (block, rs)"
      using assms(2) by (auto simp: WFP_UpdateProcess_def Let_def split: option.splits)
    show ?thesis
    proof (cases "map_get ?m ?pid")
      case None
      with True c assms(2) unknown show ?thesis by (simp add: WFP_UpdateProcess_def)
    next
      case (Some a)
      then obtain p where p: "wfp_heap st a = Some p" "ProcessId p = ?pid" using inv(5) by blast
      let ?p = "p\<lparr>LogTraffic := (Process_GetTraceFlag env proc ''NetFwTrace'' \<noteq> 0), BlockInternet := block,
        NetFwRules := (case rs of None \<Rightarrow> NetFwRules p | Some r \<Rightarrow> r)\<rparr>"
      have st': "st' = st\<lparr>wfp_heap := (wfp_heap st)(a \<mapsto> ?p)\<rparr>"
        using True c Some p(1) assms(2) by (simp add: WFP_UpdateProcess_def Let_def)
      have ne: "map_get ?m pid = Some a \<Longrightarrow> pid = ?pid" for pid using inv(5) [of pid a] p by auto
      have abs: "wfp_abs st' = (wfp_abs st)(?pid \<mapsto> ?p)"
      proof
        fix pid
        show "wfp_abs st' pid = ((wfp_abs st)(?pid \<mapsto> ?p)) pid"
          using ne [of pid] Some by (cases "map_get ?m pid"; simp add: wfp_abs_def st') auto
      qed
      have "wfp_inv st'"
      proof (rule wfp_invI)
        show "\<exists>q. wfp_heap st' b = Some q \<and> ProcessId q = pid" if "map_get (WFP_Processes st') pid = Some b" for pid b
          using that inv(5) [of pid b] p by (auto simp: st')
        show "map_get (WFP_Processes st') (ProcessId q) = Some b \<and> b < wfp_next st'" if "wfp_heap st' b = Some q" for b q
          using that inv(6) [of b] p by (auto simp: st' split: if_splits)
      qed (use inv(1-4) True in \<open>simp_all add: st'\<close>)
      moreover have "spec_step (OpUpdate fuel env alloc stk allow proc) (wfp_abs st) (wfp_abs st')"
        unfolding abs by (rule spec_update [OF _ c]) (simp add: wfp_abs_def Some p)
      ultimately show ?thesis by blast
    qed
  qed
qed

lemma DeleteProcess_ok:
  assumes "wfp_inv st"
  shows "\<exists>st'. WFP_DeleteProcess proc st = Some st' \<and> wfp_inv st' \<and> spec_step (OpDelete proc) (wfp_abs st) (wfp_abs st')"
proof -
  let ?pid = "proc_pid proc" and ?m = "WFP_Processes st"
  note inv = wfp_invD [OF assms]
  have same: ?thesis if "WFP_DeleteProcess proc st = Some st'" "wfp_inv st'" "wfp_abs st' = (wfp_abs st)(?pid := None)" for st'
    using that spec_delete [of proc "wfp_abs st"] by auto
  show ?thesis
  proof (cases "WFP_Enabled st")
    case False
    then have "wfp_abs st ?pid = None" using inv(7) by (auto simp: wfp_abs_def split: bind_splits)
    with False assms show ?thesis by (intro same [of st]) (simp_all add: WFP_DeleteProcess_def fun_upd_idem)
  next
    case True
    obtain r m where t: "map_take ?pid ?m = (r, m)" by (cases "map_take ?pid ?m")
    note tk = map_take_get [OF inv(1,2) t inv(4)]
    have len: "length (key_vals m pid) \<le> 1" for pid using tk(5) [of pid] inv(4) [of pid] by linarith
    show ?thesis
    proof (cases "map_get ?m ?pid")
      case None
      let ?st = "st\<lparr>WFP_Processes := m\<rparr>"
      have g: "map_get m pid = map_get ?m pid" for pid using tk(4) [of pid] None by simp
      have "wfp_abs ?st = wfp_abs st" by (rule ext) (simp add: wfp_abs_def g)
      moreover have "wfp_abs st ?pid = None" by (simp add: wfp_abs_def None)
      ultimately have "wfp_abs ?st = (wfp_abs st)(?pid := None)" by (simp add: fun_upd_idem)
      moreover have "wfp_inv ?st" using assms tk(1,2) len g by (simp add: wfp_inv_def)
      ultimately show ?thesis using True None t tk(3) by (intro same [of ?st]) (simp_all add: WFP_DeleteProcess_def)
    next
      case (Some a)
      then obtain p where p: "wfp_heap st a = Some p" "ProcessId p = ?pid" using inv(5) by blast
      let ?st = "st\<lparr>WFP_Processes := m, wfp_heap := (wfp_heap st)(a := None)\<rparr>"
      have ne: "map_get ?m pid = Some a \<Longrightarrow> pid = ?pid" for pid using inv(5) [of pid a] p by auto
      have "wfp_abs ?st = (wfp_abs st)(?pid := None)"
        using ne by (auto simp: wfp_abs_def fun_eq_iff tk(4) split: bind_splits)
      moreover have "wfp_inv ?st"
      proof (rule wfp_invI)
        show "\<exists>q. wfp_heap ?st b = Some q \<and> ProcessId q = pid" if "map_get (WFP_Processes ?st) pid = Some b" for pid b
          using that inv(5) [of pid b] ne [of pid] by (auto simp: tk(4) split: if_splits)
        show "map_get (WFP_Processes ?st) (ProcessId q) = Some b \<and> b < wfp_next ?st" if "wfp_heap ?st b = Some q" for b q
          using that inv(6) [of b q] Some by (auto simp: tk(4) split: if_splits)
      qed (use inv(3) tk(1,2) len True in simp_all)
      ultimately show ?thesis using True Some p t tk(3) by (intro same [of ?st]) (simp_all add: WFP_DeleteProcess_def)
    qed
  qed
qed

lemma heap_clear: "fold (\<lambda>a h. h(a := None)) as h = (\<lambda>a. if a \<in> set as then None else h a)"
  by (induction as arbitrary: h) (auto simp: fun_eq_iff)

lemma Unload_ok:
  assumes "wfp_inv st"
  shows "wfp_inv (WFP_Unload st) \<and> wfp_abs (WFP_Unload st) = Map.empty \<and> wfp_heap (WFP_Unload st) = Map.empty"
proof -
  let ?m = "WFP_Processes st"
  note inv = wfp_invD [OF assms]
  have all: "map_values (nnodes ?m + 1) ?m map_iter = map nd_value (map_nodes ?m)" by (rule map_iter_values [OF inv(1)]) simp
  have "a \<in> nd_value ` set (map_nodes ?m)" if "wfp_heap st a = Some p" for a p
  proof -
    have "map_get ?m (ProcessId p) = Some a" using inv(6) [OF that] by simp
    then have "a \<in> set (key_vals ?m (ProcessId p))" using inv(1) by (simp add: map_get_key_vals split: list.splits)
    then show ?thesis by (auto simp: key_vals_def)
  qed
  then have e: "fold (\<lambda>a h. h(a := None)) (map_values (nnodes ?m + 1) ?m map_iter) (wfp_heap st) = Map.empty"
    unfolding all heap_clear by (auto simp: fun_eq_iff) (metis not_Some_eq)
  have m: "WPF_MapInitialized st" by (rule inv(3))
  define st2 where "st2 = (if WFP_InitLock (st\<lparr>WFP_Enabled := False, WFP_state_handle := False\<rparr>)
    then (WFP_Uninstall_Callbacks (st\<lparr>WFP_Enabled := False, WFP_state_handle := False\<rparr>))\<lparr>WFP_InitLock := False\<rparr>
    else st\<lparr>WFP_Enabled := False, WFP_state_handle := False\<rparr>)"
  have f: "WFP_Processes st2 = ?m" "wfp_heap st2 = wfp_heap st" "WPF_MapInitialized st2"
    by (simp_all add: st2_def WFP_Uninstall_Callbacks_def m)
  have u: "WFP_Unload st = st2\<lparr>wfp_heap := Map.empty, WFP_Processes := map_clear ?m\<rparr>"
    unfolding WFP_Unload_def Let_def st2_def [symmetric] f(1,2) e using f(3) by simp
  have s: "WFP_Processes (WFP_Unload st) = map_clear ?m" "wfp_heap (WFP_Unload st) = Map.empty"
      "WPF_MapInitialized (WFP_Unload st)"
    using f(3) by (simp_all add: u)
  have "wfp_abs (WFP_Unload st) = Map.empty" by (rule ext) (simp add: wfp_abs_def s)
  moreover have "wfp_inv (WFP_Unload st)" using inv(2) by (simp add: wfp_inv_def s)
  ultimately show ?thesis using s(2) by blast
qed

lemma exec_op_ok:
  assumes "wfp_inv st" "exec_op op st = Some st'"
  shows "wfp_inv st' \<and> spec_step op (wfp_abs st) (wfp_abs st')"
proof (cases op)
  case (OpLoad le)
  with assms Load_ok [OF assms(1), of le] show ?thesis by (auto simp: spec_load)
next
  case OpUnload
  with assms Unload_ok [OF assms(1)] show ?thesis by (auto simp: spec_unload)
next
  case (OpState ok s)
  with assms state_changed_ok [OF assms(1), of ok s] show ?thesis by (auto simp: spec_state)
next
  case (OpInit alloc proc)
  with assms InitProcess_ok [OF assms(1), of alloc proc] show ?thesis by auto
next
  case (OpUpdate fuel env alloc stk allow proc)
  with assms UpdateProcess_ok [OF assms(1)] show ?thesis by auto
next
  case (OpDelete proc)
  with assms DeleteProcess_ok [OF assms(1), of proc] show ?thesis by auto
qed

lemma wfp_reach_inv: "wfp_reach st \<Longrightarrow> wfp_inv st"
  by (induction rule: wfp_reach.induct) (auto simp: Init_state_ok dest: exec_op_ok)

section \<open>From the settings to the decision\<close>

text \<open>
  A value of \<^verbatim>\<open>NetworkAccess\<close> with what it is for a program: nothing, or a rule with the level of the match
  of the image.
\<close>

type_synonym net_item = "wstring \<times> (u32 option \<times> rule_src) option"

definition item_applies :: "nat \<Rightarrow> conf_env \<Rightarrow> process \<Rightarrow> net_item \<Rightarrow> bool" where
  "item_applies fuel env proc item =
     (let found = Process_MatchImageAndGetValue fuel env (box_name (proc_box proc)) (fst item) (proc_image_name proc)
      in case snd item of
           None \<Rightarrow> map_option fst found = Some None
         | Some (level, r) \<Rightarrow> found = Some (Some (rule_text r), level))"

definition item_rules :: "net_item list \<Rightarrow> rule_desc list" where
  "item_rules items = map (\<lambda>(level, r). src_desc (signed_level level) r) (List.map_filter snd items)"

lemma item_rules_simps [simp]:
  "item_rules [] = []" "item_rules ((v, None) # items) = item_rules items"
  "item_rules ((v, Some (level, r)) # items) = src_desc (signed_level level) r # item_rules items"
  by (simp_all add: item_rules_def List.map_filter_def)

lemma load_loop_text:
  assumes "\<forall>i j. 10 \<le> digit_val (deref (stk i j))" "\<forall>i. alloc i"
  shows "\<forall>item \<in> set items. item_applies fuel env proc item \<Longrightarrow>
     \<forall>d \<in> set (item_rules items). rd_protocol d \<in> {IPPROTO_ANY, IPPROTO_TCP, IPPROTO_UDP, IPPROTO_ICMP} \<Longrightarrow>
     those (map build_rule (item_rules items)) = Some news \<Longrightarrow>
     load_loop fuel env alloc stk proc index (map fst items) rules = map_option (Pair True) (add_rules rules news)"
proof (induction items arbitrary: index rules news)
  case (Cons item items)
  obtain v x where item: "item = (v, x)" by (cases item)
  have a: "item_applies fuel env proc (v, x)" using Cons.prems(1) item by simp
  show ?case
  proof (cases x)
    case None
    with a obtain lv where "Process_MatchImageAndGetValue fuel env (box_name (proc_box proc)) v (proc_image_name proc) = Some (None, lv)"
      by (auto simp: item_applies_def Let_def)
    with None Cons item show ?thesis by simp
  next
    case (Some lr)
    obtain level r where lr: "lr = (level, r)" by (cases lr)
    have f: "Process_MatchImageAndGetValue fuel env (box_name (proc_box proc)) v (proc_image_name proc) = Some (Some (rule_text r), level)"
      using a Some lr by (simp add: item_applies_def Let_def)
    let ?d = "src_desc (signed_level level) r"
    have d: "item_rules (item # items) = ?d # item_rules items" by (simp add: item Some lr)
    have "rs_protocol r \<in> {IPPROTO_ANY, IPPROTO_TCP, IPPROTO_UDP, IPPROTO_ICMP}"
      using Cons.prems(2) d by (simp add: src_desc_def)
    then have p: "NetFw_ParseRule (stk index) (NetFw_AllocRule (signed_level level)) (rule_text r) = build_rule ?d"
      using assms(1) by (intro ParseRule_text) auto
    obtain n ns where n: "build_rule ?d = Some n" "those (map build_rule (item_rules items)) = Some ns" "news = n # ns"
      using Cons.prems(3) by (auto simp: d split: option.splits)
    have IH: "load_loop fuel env alloc stk proc (index + 1) (map fst items) rs = map_option (Pair True) (add_rules rs ns)" for rs
      using Cons.IH [OF _ _ n(2)] Cons.prems d by simp
    show ?thesis
      using IH f p n assms(2) [rule_format, of index] by (simp add: item split: option.splits)
  qed
qed simp

lemma wfp_config_text:
  assumes "\<forall>i j. 10 \<le> digit_val (deref (stk i j))" "\<forall>i. alloc i"
    and "env_conf env (box_name (proc_box proc)) ''NetworkAccess'' = map fst items"
    and "\<forall>item \<in> set items. item_applies fuel env proc item"
    and "\<forall>d \<in> set (item_rules items). rd_protocol d = pr" "pr \<in> {IPPROTO_ANY, IPPROTO_TCP, IPPROTO_UDP, IPPROTO_ICMP}"
    and "ranges_apart NetFw_PortCmp (\<Union>d \<in> set (item_rules items). set (rd_ports d))"
    and "ranges_apart NetFw_IpCmp (\<Union>d \<in> set (item_rules items). set (rd_ips d))"
    and "allow \<or> Process_GetConf_bool fuel env proc ''AllowNetworkAccess'' True = Some True"
  shows "\<exists>rules. wfp_config fuel env alloc stk allow proc = Some (False, Some rules) \<and>
    (\<forall>Ip Port Protocol. NetFw_BlockTraffic rules Ip Port Protocol = spec_blocks (item_rules items) Ip Port Protocol)"
proof -
  obtain news rules where r: "those (map build_rule (item_rules items)) = Some news" "add_rules [] news = Some rules"
    "\<forall>Ip Port Protocol. NetFw_BlockTraffic rules Ip Port Protocol = spec_blocks (item_rules items) Ip Port Protocol"
    using rules_refine [OF assms(5,7,8)] by blast
  have "load_loop fuel env alloc stk proc 0 (map fst items) [] = Some (True, rules)"
    using load_loop_text [OF assms(1,2,4) _ r(1)] assms(5,6) r(2) by auto
  with assms(3) have "WFP_LoadRules fuel env alloc stk proc = Some (True, rules)" by (simp add: WFP_LoadRules_def)
  with assms(9) r(3) show ?thesis by (auto simp: wfp_config_def)
qed

lemma classify_abs:
  assumes "wfp_inv st"
  shows "WFP_classify c out st = Some
    (if \<not> action_write out then out
     else case Option.bind (ci_pid c) (wfp_abs st) of
            None \<Rightarrow> out\<lparr>actionType := FWP_ACTION_PERMIT\<rparr>
          | Some p \<Rightarrow>
              if BlockInternet p \<or> NetFw_BlockTraffic (NetFwRules p) (remote_ip c) (ci_port c) (uint (ci_protocol c))
              then out\<lparr>actionType := FWP_ACTION_BLOCK, action_write := False\<rparr> else out\<lparr>actionType := FWP_ACTION_PERMIT\<rparr>)"
proof (cases "ci_pid c")
  case (Some pid)
  show ?thesis
  proof (cases "map_get (WFP_Processes st) pid")
    case None
    with Some show ?thesis by (simp add: WFP_classify_def wfp_abs_def)
  next
    case a: (Some a)
    then obtain p where "wfp_heap st a = Some p" using wfp_invD(5) [OF assms] by blast
    with Some a show ?thesis by (simp add: WFP_classify_def wfp_abs_def)
  qed
qed (simp add: WFP_classify_def)

section \<open>Properties\<close>

text \<open>
  C3. The network filter refines its specification.  In every state the driver can reach by loading and
  unloading the filter, by changes of the filter engine, and by starting, updating and ending
  processes, each operation does to the records of the filtered processes, taken as a map from
  process ids to records, what the specification allows: a start adds a fresh record or none, an
  update replaces the record of its process by what the configuration says, an end removes the record
  of its process, unloading removes all, and no other record changes.  The operations do not overlap.
\<close>

theorem wfp_refines:
  assumes "wfp_reach st" and "exec_op op st = Some st'"
  shows "spec_step op (wfp_abs st) (wfp_abs st')"
  using exec_op_ok [OF wfp_reach_inv [OF assms(1)] assms(2)] by blast

text \<open>
  C25. The records are used safely: in every reachable state a lookup never finds a record that was
  freed, so that the callout and the end of a process always complete and an update fails only where
  reading the rules does; no record is lost, every one on the heap is found under its process id; and
  none is left when the filter is unloaded.
\<close>

theorem wfp_memory_safe:
  assumes "wfp_reach st"
  shows "WFP_classify c out st \<noteq> None \<and> WFP_DeleteProcess proc st \<noteq> None
    \<and> (WFP_UpdateProcess fuel env alloc stk allow proc st = None \<longrightarrow> wfp_config fuel env alloc stk allow proc = None)
    \<and> (\<forall>a p. wfp_heap st a = Some p \<longrightarrow> wfp_abs st (ProcessId p) = Some p)
    \<and> wfp_heap (WFP_Unload st) = Map.empty"
proof (intro conjI allI impI)
  note inv = wfp_reach_inv [OF assms]
  show "WFP_classify c out st \<noteq> None" by (simp add: classify_abs [OF inv])
  show "WFP_DeleteProcess proc st \<noteq> None" using DeleteProcess_ok [OF inv, of proc] by auto
  show "wfp_config fuel env alloc stk allow proc = None" if "WFP_UpdateProcess fuel env alloc stk allow proc st = None"
  proof (cases "map_get (WFP_Processes st) (proc_pid proc)")
    case (Some a)
    then obtain p where "wfp_heap st a = Some p" using wfp_invD(5) [OF inv] by blast
    with that Some show ?thesis by (auto simp: WFP_UpdateProcess_def Let_def split: if_splits option.splits)
  qed (use that in \<open>auto simp: WFP_UpdateProcess_def Let_def split: if_splits option.splits\<close>)
  show "wfp_abs st (ProcessId p) = Some p" if "wfp_heap st a = Some p" for a p
    using that wfp_invD(6) [OF inv that] by (simp add: wfp_abs_def)
  show "wfp_heap (WFP_Unload st) = Map.empty" using Unload_ok [OF inv] by blast
qed

text \<open>The rules that an update reads decide about the next connections of the process.\<close>

lemma update_classify:
  assumes "wfp_reach st" and "WFP_Enabled st" and "wfp_abs st (proc_pid proc) \<noteq> None"
    and "\<forall>i j. 10 \<le> digit_val (deref (stk i j))" and "\<forall>i. alloc i"
    and "env_conf env (box_name (proc_box proc)) ''NetworkAccess'' = map fst items"
    and "\<forall>item \<in> set items. item_applies fuel env proc item"
    and "\<forall>d \<in> set (item_rules items). rd_protocol d = pr" and "pr \<in> {IPPROTO_ANY, IPPROTO_TCP, IPPROTO_UDP, IPPROTO_ICMP}"
    and "ranges_apart NetFw_PortCmp (\<Union>d \<in> set (item_rules items). set (rd_ports d))"
    and "ranges_apart NetFw_IpCmp (\<Union>d \<in> set (item_rules items). set (rd_ips d))"
    and "allow \<or> Process_GetConf_bool fuel env proc ''AllowNetworkAccess'' True = Some True"
  shows "\<exists>st'. WFP_UpdateProcess fuel env alloc stk allow proc st = Some (True, st') \<and>
    (\<forall>c out. ci_pid c = Some (proc_pid proc) \<and> action_write out \<longrightarrow>
       WFP_classify c out st' = Some
         (if spec_blocks (item_rules items) (remote_ip c) (ci_port c) (uint (ci_protocol c))
          then out\<lparr>actionType := FWP_ACTION_BLOCK, action_write := False\<rparr> else out\<lparr>actionType := FWP_ACTION_PERMIT\<rparr>))"
proof -
  note inv = wfp_reach_inv [OF assms(1)]
  obtain rules where r: "wfp_config fuel env alloc stk allow proc = Some (False, Some rules)"
    "\<And>Ip Port Protocol. NetFw_BlockTraffic rules Ip Port Protocol = spec_blocks (item_rules items) Ip Port Protocol"
    using wfp_config_text [OF assms(4-12)] by blast
  obtain p where "wfp_abs st (proc_pid proc) = Some p" using assms(3) by blast
  from wfp_abs_Some [OF inv this] obtain a where a: "map_get (WFP_Processes st) (proc_pid proc) = Some a" "wfp_heap st a = Some p"
    by blast
  let ?p = "p\<lparr>LogTraffic := (Process_GetTraceFlag env proc ''NetFwTrace'' \<noteq> 0), BlockInternet := False, NetFwRules := rules\<rparr>"
  let ?st = "st\<lparr>wfp_heap := (wfp_heap st)(a \<mapsto> ?p)\<rparr>"
  have u: "WFP_UpdateProcess fuel env alloc stk allow proc st = Some (True, ?st)"
    using assms(2) r(1) a by (simp add: WFP_UpdateProcess_def Let_def)
  have inv': "wfp_inv ?st" using UpdateProcess_ok [OF inv u] by blast
  have "wfp_abs ?st (proc_pid proc) = Some ?p" using a by (simp add: wfp_abs_def)
  then show ?thesis
    using u r(2) by (intro exI [of _ ?st]) (simp add: classify_abs [OF inv'])
qed

text \<open>A filter that was loaded, and a process that was started.\<close>

definition demo_load :: load_env where
  "demo_load = \<lparr>le_lock = True, le_subscribe = True, le_running = True, le_install = True\<rparr>"

definition demo_wfp :: wfp_state where
  "demo_wfp = snd (WFP_InitProcess True demo_proc (snd (WFP_Init (\<lambda>_. True) True demo_load)))"

lemma demo_reach: "wfp_reach demo_wfp"
  unfolding demo_wfp_def by (rule reach_step [OF reach_init, of "OpInit True demo_proc"]) simp

lemma map_resize_malloc: "func_malloc (snd (map_resize n m)) = func_malloc m"
  by (simp add: map_resize_def map_resize_fold)

lemma InitProcess_adds:
  assumes "wfp_inv st" "WFP_Enabled st" "WFP_engine_handle st" "wfp_abs st (proc_pid proc) = None"
    and "\<And>n. func_malloc (WFP_Processes st) n"
  shows "WFP_Enabled (snd (WFP_InitProcess True proc st)) \<and> wfp_abs (snd (WFP_InitProcess True proc st)) (proc_pid proc) \<noteq> None"
proof -
  let ?i = "map_insert 8 0 (proc_pid proc) (wfp_next st) (WFP_Processes st)"
  have "fst ?i" unfolding map_insert_def by (rule map_add_succeeds) (rule assms(5))
  then obtain m where m: "?i = (True, m)" by (cases ?i) auto
  have "map_get (WFP_Processes st) (proc_pid proc) = None" using assms(1,4) by (simp add: wfp_abs_None)
  with m map_insert_get(3) [OF wfp_invD(1,2) [OF assms(1)] m] assms(2,3) show ?thesis
    by (simp add: WFP_InitProcess_def Let_def wfp_abs_def)
qed

lemma demo_wfp_facts: "WFP_Enabled demo_wfp \<and> wfp_abs demo_wfp (proc_pid demo_proc) \<noteq> None"
  unfolding demo_wfp_def
proof (rule InitProcess_adds)
  let ?st = "snd (WFP_Init (\<lambda>_. True) True demo_load)"
  show inv: "wfp_inv ?st" by (rule Init_state_ok)
  show "WFP_Enabled ?st" "WFP_engine_handle ?st"
    by (simp_all add: WFP_Init_def WFP_Load_def WFP_Install_Callbacks_def demo_load_def Let_def)
  have "wfp_heap ?st = Map.empty"
    by (simp add: WFP_Init_def WFP_Load_def WFP_Install_Callbacks_def demo_load_def Let_def)
  then show "wfp_abs ?st (proc_pid demo_proc) = None" by (auto simp: wfp_abs_def split: bind_splits)
  show "func_malloc (WFP_Processes ?st) n" for n
    by (simp add: WFP_Init_def WFP_Load_def WFP_Install_Callbacks_def demo_load_def Let_def map_resize_malloc map_init_def)
qed

theorem wfp_refines_witness:
  "exec_op (OpDelete demo_proc) demo_wfp \<noteq> None
   \<and> spec_step (OpDelete demo_proc) (wfp_abs demo_wfp) (wfp_abs (the (exec_op (OpDelete demo_proc) demo_wfp)))"
proof -
  obtain st' where st': "exec_op (OpDelete demo_proc) demo_wfp = Some st'"
    using DeleteProcess_ok [OF wfp_reach_inv [OF demo_reach], of demo_proc] by auto
  from wfp_refines [OF demo_reach st'] st' show ?thesis by simp
qed

theorem wfp_memory_safe_witness:
  "wfp_heap (WFP_Unload demo_wfp) = Map.empty \<and> WFP_DeleteProcess demo_proc demo_wfp \<noteq> None"
  using wfp_memory_safe [OF demo_reach, of _ _ demo_proc] by blast

end
