(* ===== verification/Conf.thy ===== *)
theory Conf
  imports HashMap
begin

text \<open>
  The configuration of the driver: \<^verbatim>\<open>Sandboxie/core/drv/conf.c\<close> and the name check of
  \<^verbatim>\<open>box.c\<close>.  Reading Sandboxie.ini and Templates.ini line by line, sections and settings in lists
  and hash maps, the merging of templates into the sections that name them, looking up and
  enumerating settings, and the changes made at run time.  The maps are those of \<^verbatim>\<open>map.c\<close>
  (theory HashMap).
\<close>

section \<open>Status codes and constants\<close>

type_synonym NTSTATUS = u32

definition STATUS_SUCCESS :: NTSTATUS where "STATUS_SUCCESS = 0"
definition STATUS_OBJECT_NAME_EXISTS :: NTSTATUS where "STATUS_OBJECT_NAME_EXISTS = 0x40000000"
definition STATUS_BUFFER_OVERFLOW :: NTSTATUS where "STATUS_BUFFER_OVERFLOW = 0x80000005"
definition STATUS_INVALID_PARAMETER :: NTSTATUS where "STATUS_INVALID_PARAMETER = 0xC000000D"
definition STATUS_END_OF_FILE :: NTSTATUS where "STATUS_END_OF_FILE = 0xC0000011"
definition STATUS_OBJECT_TYPE_MISMATCH :: NTSTATUS where "STATUS_OBJECT_TYPE_MISMATCH = 0xC0000024"
definition STATUS_OBJECT_NAME_INVALID :: NTSTATUS where "STATUS_OBJECT_NAME_INVALID = 0xC0000033"
definition STATUS_OBJECT_NAME_NOT_FOUND :: NTSTATUS where "STATUS_OBJECT_NAME_NOT_FOUND = 0xC0000034"
definition STATUS_OBJECT_NAME_COLLISION :: NTSTATUS where "STATUS_OBJECT_NAME_COLLISION = 0xC0000035"
definition STATUS_INSUFFICIENT_RESOURCES :: NTSTATUS where "STATUS_INSUFFICIENT_RESOURCES = 0xC000009A"
definition STATUS_TOO_MANY_COMMANDS :: NTSTATUS where "STATUS_TOO_MANY_COMMANDS = 0xC00000C1"
definition STATUS_TOO_MANY_SESSIONS :: NTSTATUS where "STATUS_TOO_MANY_SESSIONS = 0xC00000CE"

lemmas status_defs = STATUS_SUCCESS_def STATUS_OBJECT_NAME_EXISTS_def STATUS_BUFFER_OVERFLOW_def
  STATUS_INVALID_PARAMETER_def STATUS_END_OF_FILE_def STATUS_OBJECT_TYPE_MISMATCH_def
  STATUS_OBJECT_NAME_INVALID_def STATUS_OBJECT_NAME_NOT_FOUND_def STATUS_OBJECT_NAME_COLLISION_def
  STATUS_INSUFFICIENT_RESOURCES_def STATUS_TOO_MANY_COMMANDS_def STATUS_TOO_MANY_SESSIONS_def

text \<open>\<^verbatim>\<open>NT_SUCCESS\<close>: the status is not negative as a signed number.\<close>

definition NT_SUCCESS :: "NTSTATUS \<Rightarrow> bool" where
  "NT_SUCCESS s \<longleftrightarrow> s < 0x80000000"

definition CONF_INDEX_MASK :: u32 where "CONF_INDEX_MASK = 0x00FFFFFF"
definition CONF_GET_PROPERTY :: u32 where "CONF_GET_PROPERTY = 0x01000000"
definition CONF_GET_NO_TEMPLS :: u32 where "CONF_GET_NO_TEMPLS = 0x10000000"
definition CONF_GET_NO_GLOBAL :: u32 where "CONF_GET_NO_GLOBAL = 0x40000000"

definition CONF_LINE_LEN :: int where "CONF_LINE_LEN = 2000"
definition CONF_MAX_LINES :: int where "CONF_MAX_LINES = 100000"

definition CONF_UPDATE_VALUE :: nat where "CONF_UPDATE_VALUE = 1"
definition CONF_APPEND_VALUE :: nat where "CONF_APPEND_VALUE = 2"
definition CONF_REMOVE_VALUE :: nat where "CONF_REMOVE_VALUE = 4"
definition CONF_REMOVE_SECTION :: nat where "CONF_REMOVE_SECTION = 5"
definition CONF_UPDATE_TEMPLATES :: nat where "CONF_UPDATE_TEMPLATES = 6"

definition Conf_GlobalSettings :: wstring where "Conf_GlobalSettings = ''GlobalSettings''"
definition Conf_DefaultTemplates :: wstring where "Conf_DefaultTemplates = ''DefaultTemplates''"
definition Conf_TemplateSettings :: wstring where "Conf_TemplateSettings = ''TemplateSettings''"
definition Conf_UserSettings :: wstring where "Conf_UserSettings = ''UserSettings_''"
definition Conf_TemplateSection :: wstring where "Conf_TemplateSection = ''Template_''"
definition Conf_Template :: wstring where "Conf_Template = ''Template''"
definition Conf_Tmpl :: wstring where "Conf_Tmpl = ''Tmpl.''"

section \<open>Reading lines\<close>

definition BOXNAME_COUNT :: nat where "BOXNAME_COUNT = 38 + 2"

definition box_char :: "wchar \<Rightarrow> bool" where
  "box_char c = (let n = of_char c :: nat in
     (48 \<le> n \<and> n \<le> 57) \<or> (65 \<le> n \<and> n \<le> 90) \<or> (97 \<le> n \<and> n \<le> 122) \<or> c = CHR ''_'')"

text \<open>
  \<^verbatim>\<open>Box_IsValidName\<close>: the loop over at most \<^verbatim>\<open>BOXNAME_COUNT - 2\<close> units returns \<^const>\<open>None\<close> for the early
  \<^verbatim>\<open>return FALSE\<close>, otherwise the index at which it stops.
\<close>

fun box_name_loop :: "nat \<Rightarrow> nat \<Rightarrow> wstring \<Rightarrow> nat option" where
  "box_name_loop 0 i name = Some i"
| "box_name_loop (Suc k) i [] = Some i"
| "box_name_loop (Suc k) i (c # name) = (if box_char c then box_name_loop k (Suc i) name else None)"

definition Box_IsValidName :: "wstring \<Rightarrow> bool" where
  "Box_IsValidName name =
     (case box_name_loop (BOXNAME_COUNT - 2) 0 name of
        None \<Rightarrow> False
      | Some i \<Rightarrow> \<not> (i = 0 \<or> deref (drop i name) \<noteq> NUL))"

text \<open>
  A stream: the units still to be read and the status of a read behind the last one
  (\<^const>\<open>STATUS_END_OF_FILE\<close>, or an error of the file system).
\<close>

record stream =
  st_units :: wstring
  st_end :: NTSTATUS

text \<open>A read behind the last unit fails.\<close>

definition end_status :: "stream \<Rightarrow> NTSTATUS" where
  "end_status stm = (if NT_SUCCESS (st_end stm) then STATUS_END_OF_FILE else st_end stm)"

definition is_ws :: "wchar \<Rightarrow> bool" where
  "is_ws c \<longleftrightarrow> of_char c \<le> (32 :: nat)"

abbreviation LF :: wchar where "LF \<equiv> CHR 0x0A"
abbreviation CR :: wchar where "CR \<equiv> CHR 0x0D"

text \<open>The second test of the skipping loop, \<^verbatim>\<open>ch < 0xFE00\<close>: the units of the model are 8-bit characters, so it always holds.\<close>

definition below_FE00 :: "wchar \<Rightarrow> bool" where
  "below_FE00 ch \<longleftrightarrow> of_char ch < (0xFE00 :: nat)"

lemma below_FE00_True [simp, code]: "below_FE00 ch \<longleftrightarrow> True"
  using less_trans [OF nat_of_char_less_256 [of ch], of "0xFE00"] by (simp add: below_FE00_def)

text \<open>
  "skip leading control and whitespace characters": status, first unit of the line (\<^const>\<open>None\<close> when the
  status is an error), line number, rest.
\<close>

fun skip_blank :: "NTSTATUS \<Rightarrow> wstring \<Rightarrow> int \<Rightarrow> NTSTATUS \<times> wchar option \<times> int \<times> wstring" where
  "skip_blank endst [] linenum = (endst, None, linenum, [])"
| "skip_blank endst (ch # us) linenum =
     (if \<not> is_ws ch \<and> below_FE00 ch then (STATUS_SUCCESS, Some ch, linenum, us)
      else if ch = LF then
        (if CONF_MAX_LINES < linenum + 1 then (STATUS_TOO_MANY_COMMANDS, None, linenum + 1, us)
         else skip_blank endst us (linenum + 1))
      else skip_blank endst us linenum)"

text \<open>"read characters until hitting the newline mark": \<open>n\<close> is \<^verbatim>\<open>ptr - line\<close>, \<open>ch\<close> the unit to store.\<close>

fun read_units :: "NTSTATUS \<Rightarrow> wstring \<Rightarrow> wchar \<Rightarrow> int \<Rightarrow> NTSTATUS \<times> wstring \<times> wstring" where
  "read_units endst [] ch n =
     (if n + 1 = CONF_LINE_LEN then (STATUS_BUFFER_OVERFLOW, [ch], []) else (endst, [ch], []))"
| "read_units endst (c # us) ch n =
     (if n + 1 = CONF_LINE_LEN then (STATUS_BUFFER_OVERFLOW, [ch], c # us)
      else if c = LF \<or> c = CR then (STATUS_SUCCESS, [ch], us)
      else (case read_units endst us c (n + 1) of (st, line, rest) \<Rightarrow> (st, ch # line, rest)))"

text \<open>"remove all trailing control and whitespace characters".\<close>

definition rtrim :: "wstring \<Rightarrow> wstring" where
  "rtrim s = rev (dropWhile is_ws (rev s))"

definition ltrim :: "wstring \<Rightarrow> wstring" where
  "ltrim s = dropWhile is_ws s"

text \<open>The buffer as a C string: it ends before the first NUL.\<close>

definition c_str :: "wstring \<Rightarrow> wstring" where
  "c_str s = takeWhile (\<lambda>c. c \<noteq> NUL) s"

lemma skip_blank_shorter:
  "skip_blank endst us linenum = (st, Some ch, linenum', rest) \<Longrightarrow> length rest < length us"
  by (induction endst us linenum rule: skip_blank.induct) (auto split: if_splits)

lemma read_units_length:
  "read_units endst us ch n = (st, line, rest) \<Longrightarrow> length rest \<le> length us"
  by (induction endst us ch n arbitrary: line rule: read_units.induct)
    (auto split: if_splits prod.splits)

text \<open>
  \<^verbatim>\<open>Conf_Read_Line\<close>: the status, the line, the line number and the stream behind the line.  A comment
  line starts over.
\<close>

function Conf_Read_Line :: "stream \<Rightarrow> int \<Rightarrow> NTSTATUS \<times> wstring \<times> int \<times> stream" where
  "Conf_Read_Line stm linenum =
     (case skip_blank (end_status stm) (st_units stm) linenum of
        (st, None, linenum1, us1) \<Rightarrow> (st, [], linenum1, stm\<lparr>st_units := us1\<rparr>)
      | (st, Some ch, linenum1, us1) \<Rightarrow>
          (case read_units (end_status stm) us1 ch 0 of (st2, units, us2) \<Rightarrow>
             let line = rtrim units;
                 stm2 = stm\<lparr>st_units := us2\<rparr>;
                 st3 = (if line \<noteq> [] \<and> st2 = STATUS_END_OF_FILE then STATUS_SUCCESS else st2)
             in if st3 = STATUS_SUCCESS \<and> deref line = CHR ''#'' then Conf_Read_Line stm2 linenum1
                else (st3, c_str line, linenum1, stm2)))"
  by pat_completeness auto
termination
  by (relation "measure (\<lambda>(stm, _). length (st_units stm))")
    (auto dest!: skip_blank_shorter [OF sym] read_units_length [OF sym])

declare Conf_Read_Line.simps [simp del]

lemma skip_blank_None: "skip_blank endst us linenum = (st, None, linenum', rest) \<Longrightarrow>
    st = endst \<or> st = STATUS_TOO_MANY_COMMANDS"
  by (induction endst us linenum rule: skip_blank.induct) (auto split: if_splits)

lemma end_status_fails [simp]: "\<not> NT_SUCCESS (end_status stm)"
  by (auto simp: end_status_def NT_SUCCESS_def status_defs)

lemma end_status_units [simp]: "end_status (stm\<lparr>st_units := us\<rparr>) = end_status stm"
  by (simp add: end_status_def)

lemma Conf_Read_Line_shorter:
  "Conf_Read_Line stm linenum = (st, line, linenum', stm') \<Longrightarrow> NT_SUCCESS st \<Longrightarrow>
     length (st_units stm') < length (st_units stm)"
proof (induction stm linenum rule: Conf_Read_Line.induct)
  case (1 stm linenum)
  obtain st0 cho linenum1 us1 where sb: "skip_blank (end_status stm) (st_units stm) linenum = (st0, cho, linenum1, us1)"
    by (cases "skip_blank (end_status stm) (st_units stm) linenum") auto
  show ?case
  proof (cases cho)
    case None
    with sb "1.prems" have "st = st0" by (simp add: Conf_Read_Line.simps)
    moreover from sb None have "st0 = end_status stm \<or> st0 = STATUS_TOO_MANY_COMMANDS"
      using skip_blank_None by simp
    ultimately show ?thesis using "1.prems"(2) by (auto simp: NT_SUCCESS_def status_defs end_status_def split: if_splits)
  next
    case (Some ch)
    obtain st2 units us2 where ru: "read_units (end_status stm) us1 ch 0 = (st2, units, us2)"
      by (cases "read_units (end_status stm) us1 ch 0") auto
    have lt: "length us2 < length (st_units stm)"
      using skip_blank_shorter [OF sb [unfolded Some]] read_units_length [OF ru] by simp
    show ?thesis
    proof (cases "(if rtrim units \<noteq> [] \<and> st2 = STATUS_END_OF_FILE then STATUS_SUCCESS else st2) = STATUS_SUCCESS
        \<and> deref (rtrim units) = CHR ''#''")
      case True
      with "1.prems" sb Some ru have "Conf_Read_Line (stm\<lparr>st_units := us2\<rparr>) linenum1 = (st, line, linenum', stm')"
        by (subst (asm) Conf_Read_Line.simps) (simp add: Let_def)
      from "1.IH" [OF sb [symmetric] refl Some refl ru [symmetric] refl refl refl refl True this "1.prems"(2)] lt
      show ?thesis by simp
    next
      case False
      with "1.prems" sb Some ru lt show ?thesis
        by (subst (asm) Conf_Read_Line.simps) (auto simp: Let_def split: if_splits)
    qed
  qed
qed

section \<open>Sections and settings\<close>

text \<open>
  \<^verbatim>\<open>CONF_SETTING\<close>, \<^verbatim>\<open>CONF_SECTION\<close> and \<^verbatim>\<open>CONF_DATA\<close>.  Pointers to settings and sections are indices into
  \<open>cd_settings\<close> and \<open>cd_sections\<close>, in the order of allocation; the lists of the source hold them in
  list order (\<open>sec_list\<close>, \<open>cd_order\<close>), the hash maps by name.  \<open>cd_alloc\<close> tells whether \<^verbatim>\<open>Mem_Alloc\<close> succeeds,
  for the number of the allocation and its size.
\<close>

record conf_setting =
  cs_name :: wstring
  cs_value :: wstring
  cs_from_template :: bool

record conf_section =
  sec_name :: wstring
  sec_list :: "nat list"
  sec_map :: "(wstring, nat) hash_map"
  sec_from_template :: bool
  sec_is_virtual :: bool
  sec_include_path :: "wstring option"

record conf_data =
  cd_alloc :: "nat \<Rightarrow> nat \<Rightarrow> bool"
  cd_settings :: "conf_setting list"
  cd_sections :: "conf_section list"
  cd_order :: "nat list"
  cd_map :: "(wstring, nat) hash_map"
  cd_home :: bool
  cd_path :: "wstring option"

text \<open>
  The allocations of the reader are numbered by the sections and settings made before, with up to four for each
  step: no two of a read that goes on have the same number, and a read ends at the first that fails.  So \<open>cd_alloc\<close>
  stands for every pattern of failures in time.
\<close>

definition conf_alloc :: "conf_data \<Rightarrow> nat \<Rightarrow> nat \<Rightarrow> bool" where
  "conf_alloc data k bytes = cd_alloc data (4 * (length (cd_settings data) + length (cd_sections data)) + k) bytes"

definition sizeof_CONF_SECTION :: nat where "sizeof_CONF_SECTION = 128"
definition sizeof_CONF_SETTING :: nat where "sizeof_CONF_SETTING = 40"

text \<open>
  \<^verbatim>\<open>map_init\<close>, the functions of the string maps, \<^verbatim>\<open>map_resize(.., 16)\<close>.  The maps of the configuration have a pool,
  so they never get NULL (\<open>map_alloc_pool\<close>); that they fault without memory is not followed here.
\<close>

definition conf_map :: "(nat \<Rightarrow> bool) \<Rightarrow> (wstring, nat) hash_map" where
  "conf_map alloc = snd (map_resize 16 (map_init str_map_hash str_map_match alloc))"

definition conf_empty :: "(nat \<Rightarrow> nat \<Rightarrow> bool) \<Rightarrow> conf_data" where
  "conf_empty alloc =
     \<lparr>cd_alloc = alloc, cd_settings = [], cd_sections = [], cd_order = [],
      cd_map = conf_map (\<lambda>_. True), cd_home = True, cd_path = None\<rparr>"

definition section_at :: "conf_data \<Rightarrow> nat \<Rightarrow> conf_section" where
  "section_at data sp = cd_sections data ! sp"

definition setting_at :: "conf_data \<Rightarrow> nat \<Rightarrow> conf_setting" where
  "setting_at data p = cd_settings data ! p"

definition upd_section :: "nat \<Rightarrow> (conf_section \<Rightarrow> conf_section) \<Rightarrow> conf_data \<Rightarrow> conf_data" where
  "upd_section sp f data = data\<lparr>cd_sections := (cd_sections data)[sp := f (section_at data sp)]\<rparr>"

definition upd_setting :: "nat \<Rightarrow> (conf_setting \<Rightarrow> conf_setting) \<Rightarrow> conf_data \<Rightarrow> conf_data" where
  "upd_setting p f data = data\<lparr>cd_settings := (cd_settings data)[p := f (setting_at data p)]\<rparr>"

definition Conf_Find_Sections :: "conf_data \<Rightarrow> wstring \<Rightarrow> nat option" where
  "Conf_Find_Sections data section_name = map_get (cd_map data) section_name"

definition Conf_Get_Section :: "conf_data \<Rightarrow> wstring \<Rightarrow> nat option" where
  "Conf_Get_Section data section_name = map_get (cd_map data) section_name"

text \<open>\<^verbatim>\<open>Conf_Add_Sections\<close>: the new section, \<^const>\<open>None\<close> for NULL.\<close>

definition Conf_Add_Sections :: "wstring \<Rightarrow> bool \<Rightarrow> conf_data \<Rightarrow> nat option \<times> conf_data" where
  "Conf_Add_Sections section_name ins data =
     (if \<not> conf_alloc data 1 sizeof_CONF_SECTION then (None, data)
      else if \<not> conf_alloc data 2 ((length section_name + 1) * 2) then (None, data)
      else
        let sp = length (cd_sections data);
            sec = \<lparr>sec_name = section_name, sec_list = [], sec_map = conf_map (\<lambda>_. True),
                   sec_from_template = False, sec_is_virtual = False, sec_include_path = None\<rparr>
        in case map_insert 8 0 section_name sp (cd_map data) of (ok, m) \<Rightarrow>
             (if ok then Some sp else None,
              data\<lparr>cd_sections := cd_sections data @ [sec],
                   cd_order := (if ins then sp # cd_order data else cd_order data @ [sp]),
                   cd_map := m\<rparr>))"

text \<open>\<^verbatim>\<open>Conf_Add_Setting\<close>: the list gets the setting at its head or tail, the map always at the end.\<close>

definition Conf_Add_Setting ::
  "nat \<Rightarrow> wstring \<Rightarrow> wstring \<Rightarrow> bool \<Rightarrow> conf_data \<Rightarrow> nat option \<times> conf_data" where
  "Conf_Add_Setting sp setting_name value ins data =
     (if \<not> conf_alloc data 1 sizeof_CONF_SETTING then (None, data)
      else if \<not> conf_alloc data 2 ((length setting_name + 1) * 2) then (None, data)
      else if \<not> conf_alloc data 3 ((length value + 1) * 2) then (None, data)
      else
        let p = length (cd_settings data);
            data1 = data\<lparr>cd_settings := cd_settings data @
              [\<lparr>cs_name = setting_name, cs_value = value, cs_from_template = False\<rparr>]\<rparr>
        in case map_append 8 0 setting_name p (sec_map (section_at data sp)) of (ok, m) \<Rightarrow>
             (if ok then Some p else None,
              upd_section sp (\<lambda>sec. sec\<lparr>sec_list := (if ins then p # sec_list sec else sec_list sec @ [p]),
                                        sec_map := m\<rparr>) data1))"

section \<open>Reading sections\<close>

text \<open>\<^verbatim>\<open>Conf_Read_Header\<close>: the status and the name between the brackets.\<close>

definition Conf_Read_Header :: "wstring \<Rightarrow> NTSTATUS \<times> wstring" where
  "Conf_Read_Header line =
     (if deref line \<noteq> CHR ''['' then (STATUS_INVALID_PARAMETER, [])
      else case wcschr (tl line) CHR '']'' of
        None \<Rightarrow> (STATUS_INVALID_PARAMETER, [])
      | Some k \<Rightarrow>
          let name = take k (tl line)
          in if wcsnicmp_eq name Conf_UserSettings 13 then
               (if deref (drop 13 name) = NUL then (STATUS_INVALID_PARAMETER, [])
                else (STATUS_SUCCESS, name))
             else if wcsnicmp_eq name Conf_TemplateSection 9 then
               (if deref (drop 9 name) = NUL then (STATUS_INVALID_PARAMETER, [])
                else (STATUS_SUCCESS, name))
             else if \<not> Box_IsValidName name then (STATUS_INVALID_PARAMETER, [])
             else (STATUS_SUCCESS, name))"

text \<open>"parse setting name=value"; \<^const>\<open>None\<close> is the syntax error.\<close>

definition parse_setting :: "wstring \<Rightarrow> (wstring \<times> wstring) option" where
  "parse_setting line =
     (case wcschr line CHR ''='' of
        None \<Rightarrow> None
      | Some k \<Rightarrow>
          if k = 0 then None
          else let value = ltrim (drop (k + 1) line)
               in if value = [] then None else Some (rtrim (take k line), rtrim value))"

text \<open>\<^verbatim>\<open>Conf_Read_Settings\<close>: the status, the last line read, the line number, the stream, the data.\<close>

function Conf_Read_Settings ::
  "stream \<Rightarrow> conf_data \<Rightarrow> nat \<Rightarrow> int \<Rightarrow> NTSTATUS \<times> wstring \<times> int \<times> stream \<times> conf_data" where
  "Conf_Read_Settings stm data sp linenum =
     (case Conf_Read_Line stm linenum of (st, line, linenum1, stm1) \<Rightarrow>
        if \<not> NT_SUCCESS st then (st, line, linenum1, stm1, data)
        else if deref line = CHR ''['' \<or> deref line = CHR '']'' then (st, line, linenum1, stm1, data)
        else case parse_setting line of
          None \<Rightarrow> (STATUS_INVALID_PARAMETER, line, linenum1, stm1, data)
        | Some (name, value) \<Rightarrow>
            (case Conf_Add_Setting sp name value False data of
               (None, data1) \<Rightarrow> (STATUS_INSUFFICIENT_RESOURCES, line, linenum1, stm1, data1)
             | (Some _, data1) \<Rightarrow> Conf_Read_Settings stm1 data1 sp linenum1))"
  by pat_completeness auto
termination
  by (relation "measure (\<lambda>(stm, _). length (st_units stm))") (auto dest!: Conf_Read_Line_shorter [OF sym])

declare Conf_Read_Settings.simps [simp del]

lemma Conf_Read_Settings_shorter:
  "Conf_Read_Settings stm data sp linenum = (st, line, linenum', stm', data') \<Longrightarrow> NT_SUCCESS st \<Longrightarrow>
     length (st_units stm') < length (st_units stm)"
proof (induction stm data sp linenum rule: Conf_Read_Settings.induct)
  case (1 stm data sp linenum)
  obtain st0 line0 linenum1 stm1 where l: "Conf_Read_Line stm linenum = (st0, line0, linenum1, stm1)"
    by (cases "Conf_Read_Line stm linenum") auto
  show ?case
  proof (cases "NT_SUCCESS st0")
    case False
    with "1.prems" l show ?thesis by (subst (asm) Conf_Read_Settings.simps) simp
  next
    case True
    note lt = Conf_Read_Line_shorter [OF l True]
    show ?thesis
    proof (cases "\<exists>name value p data1. \<not> (deref line0 = CHR ''['' \<or> deref line0 = CHR '']'') \<and>
        parse_setting line0 = Some (name, value) \<and> Conf_Add_Setting sp name value False data = (Some p, data1)")
      case again: True
      then obtain name "value" p data1 where a: "\<not> (deref line0 = CHR ''['' \<or> deref line0 = CHR '']'')"
        "parse_setting line0 = Some (name, value)" "Conf_Add_Setting sp name value False data = (Some p, data1)"
        by blast
      with "1.prems"(1) l True have r: "Conf_Read_Settings stm1 data1 sp linenum1 = (st, line, linenum', stm', data')"
        by (subst (asm) Conf_Read_Settings.simps) simp
      have "length (st_units stm') < length (st_units stm1)"
        using "1.IH" [OF l [symmetric] refl refl _ a(1) a(2) refl a(3) [symmetric] refl r "1.prems"(2)] True by simp
      with lt show ?thesis by simp
    next
      case False
      have "stm' = stm1"
        using "1.prems"(1) l True False
        by (subst (asm) Conf_Read_Settings.simps) (auto split: if_splits option.splits prod.splits)
      with lt show ?thesis by simp
    qed
  qed
qed

text \<open>\<^verbatim>\<open>Conf_Read_Sections\<close>; the loop starts with a line already read.\<close>

function read_sections_loop ::
  "stream \<Rightarrow> conf_data \<Rightarrow> wstring \<Rightarrow> int \<Rightarrow> bool \<Rightarrow> NTSTATUS \<times> int \<times> conf_data" where
  "read_sections_loop stm data line linenum from_template =
     (case Conf_Read_Header line of (st, name) \<Rightarrow>
        if \<not> NT_SUCCESS st then (st, linenum, data)
        else
          (case (case Conf_Find_Sections data name of
                   Some sp \<Rightarrow> (Some sp, data)
                 | None \<Rightarrow>
                     (case Conf_Add_Sections name False data of
                        (None, data1) \<Rightarrow> (None, data1)
                      | (Some sp, data1) \<Rightarrow>
                          (Some sp, upd_section sp (\<lambda>sec. sec\<lparr>sec_from_template := from_template\<rparr>) data1))) of
             (None, data1) \<Rightarrow> (STATUS_INSUFFICIENT_RESOURCES, linenum, data1)
           | (Some sp, data1) \<Rightarrow>
               (case Conf_Read_Settings stm data1 sp linenum of (st2, line2, linenum2, stm2, data2) \<Rightarrow>
                  if NT_SUCCESS st2 then read_sections_loop stm2 data2 line2 linenum2 from_template
                  else (st2, linenum2, data2))))"
  by pat_completeness auto
termination
  by (relation "measure (\<lambda>(stm, _). length (st_units stm))") (auto dest!: Conf_Read_Settings_shorter [OF sym])

declare read_sections_loop.simps [simp del]

definition sizeof_line :: nat where "sizeof_line = 4004"

definition Conf_Read_Sections ::
  "stream \<Rightarrow> conf_data \<Rightarrow> int \<Rightarrow> bool \<Rightarrow> NTSTATUS \<times> int \<times> conf_data" where
  "Conf_Read_Sections stm data linenum from_template =
     (if \<not> conf_alloc data 0 sizeof_line then (STATUS_INSUFFICIENT_RESOURCES, linenum, data)
      else case Conf_Read_Line stm linenum of (st, line, linenum1, stm1) \<Rightarrow>
        if NT_SUCCESS st then read_sections_loop stm1 data line linenum1 from_template
        else (st, linenum1, data))"

section \<open>Templates\<close>

text \<open>
  The loop of \<^verbatim>\<open>Conf_Merge_Template\<close> over the list of the template section: \<open>i\<close> is the position of
  \<^verbatim>\<open>oset\<close> in the list as it is now, which grows when the template is merged into itself.  \<open>fuel\<close> bounds
  the turns, \<^const>\<open>None\<close> is a loop that has not ended.
\<close>

fun merge_tmpl_loop :: "nat \<Rightarrow> nat \<Rightarrow> nat \<Rightarrow> nat \<Rightarrow> conf_data \<Rightarrow> (NTSTATUS \<times> conf_data) option" where
  "merge_tmpl_loop 0 tp sp i data = None"
| "merge_tmpl_loop (Suc fuel) tp sp i data =
     (let l = sec_list (section_at data tp)
      in if length l \<le> i then Some (STATUS_SUCCESS, data)
      else
        let oset = setting_at data (l ! i)
        in if wcsnicmp_eq (cs_name oset) Conf_Tmpl 5 then merge_tmpl_loop fuel tp sp (i + 1) data
        else
          (case Conf_Add_Setting sp (cs_name oset) (cs_value oset) False data of
             (None, data1) \<Rightarrow> Some (STATUS_INSUFFICIENT_RESOURCES, data1)
           | (Some p, data1) \<Rightarrow>
               merge_tmpl_loop fuel tp sp (i + 1) (upd_setting p (\<lambda>s. s\<lparr>cs_from_template := True\<rparr>) data1)))"

text \<open>\<^verbatim>\<open>Conf_Merge_Template\<close>; a missing template is only logged.\<close>

definition Conf_Merge_Template ::
  "nat \<Rightarrow> wstring \<Rightarrow> nat \<Rightarrow> conf_data \<Rightarrow> (NTSTATUS \<times> conf_data) option" where
  "Conf_Merge_Template fuel tmpl_name sp data =
     (case (if length tmpl_name < 119 then Conf_Get_Section data (Conf_TemplateSection @ tmpl_name)
            else None) of
        Some tp \<Rightarrow> merge_tmpl_loop fuel tp sp 0 data
      | None \<Rightarrow> Some (STATUS_SUCCESS, data))"

text \<open>
  \<^verbatim>\<open>Conf_Merge_Templates\<close>: the iterator runs over the map of \<open>secp\<close>, to which the merging adds settings
  when \<open>secp\<close> is the section \<open>sp\<close> itself.
\<close>

fun merge_templates_loop ::
  "nat \<Rightarrow> nat \<Rightarrow> nat \<Rightarrow> (wstring, nat) map_iter_t \<Rightarrow> NTSTATUS \<Rightarrow> conf_data
     \<Rightarrow> (NTSTATUS \<times> conf_data) option" where
  "merge_templates_loop 0 sp secp iter status data = None"
| "merge_templates_loop (Suc fuel) sp secp iter status data =
     (case map_next (sec_map (section_at data secp)) iter of
        (False, _) \<Rightarrow> Some (status, data)
      | (True, iter2) \<Rightarrow>
          (case Conf_Merge_Template fuel (cs_value (setting_at data (the (it_value iter2)))) sp data of
             None \<Rightarrow> None
           | Some (st, data1) \<Rightarrow>
               if \<not> NT_SUCCESS st then Some (st, data1)
               else merge_templates_loop fuel sp secp iter2 st data1))"

definition Conf_Merge_Templates ::
  "nat \<Rightarrow> nat \<Rightarrow> nat \<Rightarrow> conf_data \<Rightarrow> (NTSTATUS \<times> conf_data) option" where
  "Conf_Merge_Templates fuel sp secp data =
     merge_templates_loop fuel sp secp (map_key_iter Conf_Template) STATUS_SUCCESS data"

text \<open>The loop of \<^verbatim>\<open>Conf_Merge_AllTemplates\<close> over the sections.\<close>

fun merge_all_loop :: "nat \<Rightarrow> nat list \<Rightarrow> conf_data \<Rightarrow> (NTSTATUS \<times> conf_data) option" where
  "merge_all_loop fuel [] data = Some (STATUS_SUCCESS, data)"
| "merge_all_loop fuel (sp # sps) data =
     (let sandbox = section_at data sp
      in if sec_from_template sandbox then Some (STATUS_SUCCESS, data)
      else if wcsicmp_eq (sec_name sandbox) Conf_GlobalSettings
           \<or> wcsnicmp_eq (sec_name sandbox) Conf_TemplateSection 9
           \<or> wcsnicmp_eq (sec_name sandbox) Conf_UserSettings 13 then merge_all_loop fuel sps data
      else
        (case Conf_Merge_Templates fuel sp sp data of
           None \<Rightarrow> None
         | Some (st, data1) \<Rightarrow>
             if \<not> NT_SUCCESS st then Some (st, data1) else merge_all_loop fuel sps data1))"

definition Conf_Merge_AllTemplates :: "nat \<Rightarrow> conf_data \<Rightarrow> (NTSTATUS \<times> conf_data) option" where
  "Conf_Merge_AllTemplates fuel data =
     (case (case Conf_Get_Section data Conf_GlobalSettings of
              None \<Rightarrow> Some data
            | Some global \<Rightarrow>
                (case Conf_Merge_Templates fuel global global data of
                   None \<Rightarrow> None
                 | Some (_, data1) \<Rightarrow>
                     (case Conf_Get_Section data1 Conf_DefaultTemplates of
                        None \<Rightarrow> Some data1
                      | Some common \<Rightarrow> map_option snd (Conf_Merge_Templates fuel global common data1)))) of
        None \<Rightarrow> None
      | Some data2 \<Rightarrow> merge_all_loop fuel (cd_order data2) data2)"

section \<open>Looking up\<close>

text \<open>The settings the loop over \<^verbatim>\<open>map_key_iter\<close> sees, when the map does not change.\<close>

definition key_settings :: "conf_section \<Rightarrow> wstring \<Rightarrow> nat list" where
  "key_settings sec name = map_values (nnodes (sec_map sec) + 1) (sec_map sec) (map_key_iter name)"

text \<open>The loop of \<^verbatim>\<open>Conf_Get_Helper\<close>: the value and \<^verbatim>\<open>*index\<close>.\<close>

fun get_helper_loop :: "conf_data \<Rightarrow> bool \<Rightarrow> nat list \<Rightarrow> u32 \<Rightarrow> wstring option \<times> u32" where
  "get_helper_loop data skip_tmpl [] index = (None, index)"
| "get_helper_loop data skip_tmpl (p # ps) index =
     (let setting = setting_at data p
      in if skip_tmpl \<and> cs_from_template setting then (None, index)
      else if index = 0 then
        (Some (cs_value setting), if cs_from_template setting then CONF_GET_NO_TEMPLS else index)
      else get_helper_loop data skip_tmpl ps (index - 1))"

definition Conf_Get_Helper ::
  "conf_data \<Rightarrow> wstring \<Rightarrow> wstring \<Rightarrow> u32 \<Rightarrow> bool \<Rightarrow> wstring option \<times> u32" where
  "Conf_Get_Helper data section_name setting_name index skip_tmpl =
     (let index1 = index AND CONF_INDEX_MASK
      in case Conf_Find_Sections data section_name of
           None \<Rightarrow> (None, index1)
         | Some sp \<Rightarrow>
             let sec = section_at data sp
             in if skip_tmpl \<and> sec_from_template sec then (None, index1)
                else get_helper_loop data skip_tmpl (key_settings sec setting_name) index1)"

text \<open>\<^verbatim>\<open>Conf_Get_Section_Name\<close>: the sections in list order, without GlobalSettings.\<close>

fun section_name_loop :: "conf_data \<Rightarrow> bool \<Rightarrow> nat list \<Rightarrow> u32 \<Rightarrow> wstring option" where
  "section_name_loop data skip_tmpl [] index = None"
| "section_name_loop data skip_tmpl (sp # sps) index =
     (let sec = section_at data sp
      in if wcsicmp_eq (sec_name sec) Conf_GlobalSettings then section_name_loop data skip_tmpl sps index
      else if skip_tmpl \<and> sec_from_template sec then None
      else if index = 0 then Some (sec_name sec)
      else section_name_loop data skip_tmpl sps (index - 1))"

definition Conf_Get_Section_Name :: "conf_data \<Rightarrow> u32 \<Rightarrow> bool \<Rightarrow> wstring option" where
  "Conf_Get_Section_Name data index skip_tmpl = section_name_loop data skip_tmpl (cd_order data) index"

text \<open>\<^verbatim>\<open>Conf_Get_Setting_Name\<close>: \<open>seen\<close> is the part of the list before \<^verbatim>\<open>setting\<close>.\<close>

fun setting_name_loop :: "conf_data \<Rightarrow> bool \<Rightarrow> nat list \<Rightarrow> nat list \<Rightarrow> u32 \<Rightarrow> wstring option" where
  "setting_name_loop data skip_tmpl seen [] index = None"
| "setting_name_loop data skip_tmpl seen (p # ps) index =
     (let setting = setting_at data p;
          dup = list_ex (\<lambda>q. wcsicmp_eq (cs_name (setting_at data q)) (cs_name setting)) seen
      in if skip_tmpl \<and> cs_from_template setting then None
      else if \<not> dup then
        (if index = 0 then Some (cs_name setting)
         else setting_name_loop data skip_tmpl (seen @ [p]) ps (index - 1))
      else setting_name_loop data skip_tmpl (seen @ [p]) ps index)"

definition Conf_Get_Setting_Name :: "conf_data \<Rightarrow> wstring \<Rightarrow> u32 \<Rightarrow> bool \<Rightarrow> wstring option" where
  "Conf_Get_Setting_Name data section_name index skip_tmpl =
     (case map_get (cd_map data) section_name of
        None \<Rightarrow> None
      | Some sp \<Rightarrow>
          let sec = section_at data sp
          in if skip_tmpl \<and> sec_from_template sec then None
             else setting_name_loop data skip_tmpl [] (sec_list sec) index)"

definition Conf_Get_Prop :: "conf_data \<Rightarrow> wstring \<Rightarrow> wstring \<Rightarrow> wstring option" where
  "Conf_Get_Prop data section_name setting_name =
     (case map_get (cd_map data) section_name of
        None \<Rightarrow> None
      | Some sp \<Rightarrow>
          if wcsicmp_eq setting_name ''IsVirtual'' then
            Some (if sec_is_virtual (section_at data sp) then ''Y'' else ''N'')
          else if wcsicmp_eq setting_name ''IniLocation'' then sec_include_path (section_at data sp)
          else None)"

text \<open>\<^verbatim>\<open>Conf_GetEx\<close>: NULL strings are \<^const>\<open>None\<close>; the value and \<^verbatim>\<open>*index\<close>.\<close>

definition Conf_GetEx ::
  "conf_data \<Rightarrow> wstring option \<Rightarrow> wstring option \<Rightarrow> u32 \<Rightarrow> wstring option \<times> u32" where
  "Conf_GetEx data sect sett index =
     (let have_section = (sect \<noteq> None \<and> the sect \<noteq> []);
          have_setting = (sett \<noteq> None \<and> the sett \<noteq> []);
          skip_tmpl = (index AND CONF_GET_NO_TEMPLS \<noteq> 0)
      in if \<not> have_section \<and> have_setting \<and> wcsicmp_eq (the sett) ''IniLocation'' then
           (case cd_path data of
              Some p \<Rightarrow> (Some p, index)
            | None \<Rightarrow> (Some (if cd_home data then ''H'' else ''W''), index))
         else if index AND CONF_GET_PROPERTY \<noteq> 0 then
           (if index AND CONF_INDEX_MASK = 0
            then (Conf_Get_Prop data (the sect) (the sett), index) else (None, index))
         else if have_setting then
           (case (case sect of
                    None \<Rightarrow> (None, index)
                  | Some s \<Rightarrow> Conf_Get_Helper data s (the sett) index skip_tmpl) of
              (v, index1) \<Rightarrow>
                if v = None \<and> index AND CONF_GET_NO_GLOBAL = 0
                   \<and> (case sect of None \<Rightarrow> True | Some s \<Rightarrow> \<not> wcsicmp_eq s Conf_GlobalSettings) then
                  (case Conf_Get_Helper data Conf_GlobalSettings (the sett) index1 skip_tmpl of
                     (v2, index2) \<Rightarrow>
                       (v2, if v2 \<noteq> None then index2 OR CONF_GET_NO_GLOBAL else index2))
                else (v, index1))
         else if have_section then
           (Conf_Get_Setting_Name data (the sect) (index AND CONF_INDEX_MASK) skip_tmpl, index)
         else (Conf_Get_Section_Name data (index AND CONF_INDEX_MASK) skip_tmpl, index))"

definition Conf_Get :: "conf_data \<Rightarrow> wstring option \<Rightarrow> wstring option \<Rightarrow> u32 \<Rightarrow> wstring option" where
  "Conf_Get data sect sett index = fst (Conf_GetEx data sect sett index)"

definition Conf_Get_Boolean ::
  "conf_data \<Rightarrow> wstring option \<Rightarrow> wstring option \<Rightarrow> u32 \<Rightarrow> bool \<Rightarrow> bool" where
  "Conf_Get_Boolean data sect sett index dflt =
     (case Conf_Get data sect sett index of
        None \<Rightarrow> dflt
      | Some v \<Rightarrow>
          if deref v = CHR ''y'' \<or> deref v = CHR ''Y'' then True
          else if deref v = CHR ''n'' \<or> deref v = CHR ''N'' then False
          else dflt)"

text \<open>\<^verbatim>\<open>Conf_Get_Number\<close>; \<open>to_int\<close> is \<^verbatim>\<open>RtlUnicodeStringToInteger\<close> with base 10, \<^const>\<open>None\<close> its failure.\<close>

definition Conf_Get_Number ::
  "(wstring \<Rightarrow> u32 option) \<Rightarrow> conf_data \<Rightarrow> wstring option \<Rightarrow> wstring option \<Rightarrow> u32 \<Rightarrow> u32 \<Rightarrow> u32" where
  "Conf_Get_Number to_int data sect sett index dflt =
     (case Conf_Get data sect sett index of
        None \<Rightarrow> dflt
      | Some v \<Rightarrow> (case to_int v of None \<Rightarrow> dflt | Some n \<Rightarrow> n))"

definition Conf_IsValidBox :: "conf_data \<Rightarrow> wstring \<Rightarrow> NTSTATUS" where
  "Conf_IsValidBox data section_name =
     (if wcsicmp_eq section_name Conf_GlobalSettings \<or> wcsicmp_eq section_name Conf_TemplateSettings
         \<or> wcsnicmp_eq section_name Conf_TemplateSection 9 \<or> wcsnicmp_eq section_name Conf_UserSettings 13
      then STATUS_OBJECT_TYPE_MISMATCH
      else case List.find (\<lambda>sp. wcsicmp_eq (sec_name (section_at data sp)) section_name) (cd_order data) of
        None \<Rightarrow> STATUS_OBJECT_NAME_NOT_FOUND
      | Some sp \<Rightarrow>
          if sec_from_template (section_at data sp) then STATUS_OBJECT_TYPE_MISMATCH else STATUS_SUCCESS)"

section \<open>Changes at run time\<close>

definition Conf_Drop_Section :: "nat \<Rightarrow> conf_data \<Rightarrow> NTSTATUS \<times> conf_data" where
  "Conf_Drop_Section sp data =
     (STATUS_SUCCESS,
      data\<lparr>cd_order := remove1 sp (cd_order data),
           cd_map := map_remove (sec_name (section_at data sp)) (cd_map data)\<rparr>)"

text \<open>\<^verbatim>\<open>map_erase\<close> and \<^verbatim>\<open>List_Remove\<close> of the setting at the iterator; \<^const>\<open>None\<close> is the fault of \<^verbatim>\<open>map_erase\<close>.\<close>

definition erase_setting ::
  "nat \<Rightarrow> (wstring, nat) map_iter_t \<Rightarrow> conf_data \<Rightarrow> ((wstring, nat) map_iter_t \<times> conf_data) option" where
  "erase_setting sp iter data =
     (case map_erase iter (sec_map (section_at data sp)) of
        None \<Rightarrow> None
      | Some (_, iter2, m) \<Rightarrow>
          Some (iter2, upd_section sp (\<lambda>sec. sec\<lparr>sec_list := remove1 (the (it_value iter)) (sec_list sec),
                                               sec_map := m\<rparr>) data))"

text \<open>"remove all old values".\<close>

fun remove_values_loop ::
  "nat \<Rightarrow> nat \<Rightarrow> nat \<Rightarrow> wstring option \<Rightarrow> (wstring, nat) map_iter_t \<Rightarrow> conf_data \<Rightarrow> conf_data option" where
  "remove_values_loop 0 sp uMode value_ptr iter data = None"
| "remove_values_loop (Suc fuel) sp uMode value_ptr iter data =
     (if it_node iter = None then Some data
      else
        let setting = setting_at data (the (it_value iter))
        in if cs_from_template setting then Some data
        else if \<not> (uMode = CONF_REMOVE_VALUE \<and> value_ptr \<noteq> None
                   \<and> \<not> wcsicmp_eq (cs_value setting) (the value_ptr)) then
          (case erase_setting sp iter data of
             None \<Rightarrow> None
           | Some (iter2, data1) \<Rightarrow> remove_values_loop fuel sp uMode value_ptr iter2 data1)
        else remove_values_loop fuel sp uMode value_ptr
               (snd (map_next (sec_map (section_at data sp)) iter)) data)"

text \<open>The loop that removes the settings merged from templates.\<close>

fun remove_tmpl_loop ::
  "nat \<Rightarrow> nat \<Rightarrow> (wstring, nat) map_iter_t \<Rightarrow> conf_data \<Rightarrow> conf_data option" where
  "remove_tmpl_loop 0 sp iter data = None"
| "remove_tmpl_loop (Suc fuel) sp iter data =
     (if it_node iter = None then Some data
      else if cs_from_template (setting_at data (the (it_value iter))) then
        (case erase_setting sp iter data of
           None \<Rightarrow> None
         | Some (iter2, data1) \<Rightarrow> remove_tmpl_loop fuel sp iter2 data1)
      else remove_tmpl_loop fuel sp (snd (map_next (sec_map (section_at data sp)) iter)) data)"

definition iter_start ::
  "conf_data \<Rightarrow> nat \<Rightarrow> (wstring, nat) map_iter_t \<Rightarrow> (wstring, nat) map_iter_t" where
  "iter_start data sp iter = snd (map_next (sec_map (section_at data sp)) iter)"

text \<open>
  The second part of \<^verbatim>\<open>Conf_Update\<close>: "update templates if needed".  A NULL value is dereferenced by
  \<^verbatim>\<open>Conf_Merge_Template\<close>: \<^const>\<open>None\<close>.
\<close>

definition update_templates ::
  "nat \<Rightarrow> nat \<Rightarrow> wstring option \<Rightarrow> wstring option \<Rightarrow> nat \<Rightarrow> conf_data \<Rightarrow> (NTSTATUS \<times> conf_data) option" where
  "update_templates fuel sp setting_name value_ptr uMode data =
     (if uMode = CONF_UPDATE_TEMPLATES
         \<or> (setting_name \<noteq> None \<and> wcsicmp_eq (the setting_name) Conf_Template) then
        (case (if uMode \<noteq> CONF_APPEND_VALUE then remove_tmpl_loop fuel sp (iter_start data sp map_iter) data
               else Some data) of
           None \<Rightarrow> None
         | Some data1 \<Rightarrow>
             if uMode = CONF_UPDATE_TEMPLATES \<or> (uMode = CONF_REMOVE_VALUE \<and> value_ptr \<noteq> None) then
               Conf_Merge_Templates fuel sp sp data1
             else if uMode \<noteq> CONF_REMOVE_VALUE then
               (case value_ptr of None \<Rightarrow> None | Some v \<Rightarrow> Conf_Merge_Template fuel v sp data1)
             else Some (STATUS_SUCCESS, data1))
      else Some (STATUS_SUCCESS, data))"

text \<open>\<^verbatim>\<open>Conf_Update\<close> from the test for \<^verbatim>\<open>CONF_REMOVE_SECTION\<close> on, for an existing section.\<close>

definition update_section ::
  "nat \<Rightarrow> nat \<Rightarrow> wstring option \<Rightarrow> wstring option \<Rightarrow> nat \<Rightarrow> conf_data \<Rightarrow> (NTSTATUS \<times> conf_data) option" where
  "update_section fuel sp setting_name value_ptr uMode data =
     (if uMode = CONF_REMOVE_SECTION then Some (Conf_Drop_Section sp data)
      else if (uMode = CONF_UPDATE_VALUE \<or> uMode = CONF_APPEND_VALUE \<or> uMode = CONF_REMOVE_VALUE)
              \<and> setting_name \<noteq> None then
        (case (if uMode \<noteq> CONF_APPEND_VALUE
               then remove_values_loop fuel sp uMode value_ptr
                      (iter_start data sp (map_key_iter (the setting_name))) data
               else Some data) of
           None \<Rightarrow> None
         | Some data1 \<Rightarrow>
             if uMode \<noteq> CONF_REMOVE_VALUE \<and> value_ptr \<noteq> None then
               (case Conf_Add_Setting sp (the setting_name) (the value_ptr) True data1 of
                  (None, data2) \<Rightarrow> Some (STATUS_INSUFFICIENT_RESOURCES, data2)
                | (Some _, data2) \<Rightarrow> update_templates fuel sp setting_name value_ptr uMode data2)
             else update_templates fuel sp setting_name value_ptr uMode data1)
      else update_templates fuel sp setting_name value_ptr uMode data)"

text \<open>\<^verbatim>\<open>Conf_Update\<close>.\<close>

definition Conf_Update ::
  "nat \<Rightarrow> wstring \<Rightarrow> wstring option \<Rightarrow> wstring option \<Rightarrow> nat \<Rightarrow> conf_data \<Rightarrow> (NTSTATUS \<times> conf_data) option" where
  "Conf_Update fuel section_name setting_name value_ptr uMode data =
     (case Conf_Find_Sections data section_name of
        None \<Rightarrow>
          if uMode = CONF_REMOVE_VALUE \<or> uMode = CONF_REMOVE_SECTION then Some (STATUS_SUCCESS, data)
          else
            (case Conf_Add_Sections section_name True data of
               (None, data1) \<Rightarrow> Some (STATUS_INSUFFICIENT_RESOURCES, data1)
             | (Some sp, data1) \<Rightarrow>
                 update_section fuel sp setting_name value_ptr uMode
                   (upd_section sp (\<lambda>sec. sec\<lparr>sec_is_virtual := True\<rparr>) data1))
      | Some sp \<Rightarrow> update_section fuel sp setting_name value_ptr uMode data)"

section \<open>Keeping virtual sections\<close>

text \<open>
  The part of \<^verbatim>\<open>Conf_Read\<close> that carries the virtual sections of the old configuration over into the
  new one: for each, all settings that are not from templates, then the templates.  A name that
  exists in the new configuration sets the status and ends the loop.
\<close>

fun import_settings :: "nat \<Rightarrow> conf_data \<Rightarrow> wstring \<Rightarrow> nat list \<Rightarrow> conf_data \<Rightarrow> conf_data option" where
  "import_settings fuel old name [] data = Some data"
| "import_settings fuel old name (p # ps) data =
     (let setting = setting_at old p
      in if cs_from_template setting then import_settings fuel old name ps data
      else
        (case Conf_Update fuel name (Some (cs_name setting)) (Some (cs_value setting)) CONF_APPEND_VALUE data of
           None \<Rightarrow> None
         | Some (_, data1) \<Rightarrow> import_settings fuel old name ps data1))"

fun import_virtual ::
  "nat \<Rightarrow> conf_data \<Rightarrow> nat list \<Rightarrow> NTSTATUS \<Rightarrow> conf_data \<Rightarrow> (NTSTATUS \<times> conf_data) option" where
  "import_virtual fuel old [] status data = Some (status, data)"
| "import_virtual fuel old (sp # sps) status data =
     (let sec = section_at old sp
      in if \<not> sec_is_virtual sec then import_virtual fuel old sps status data
      else if map_get (cd_map data) (sec_name sec) \<noteq> None then Some (STATUS_OBJECT_NAME_EXISTS, data)
      else
        (case import_settings fuel old (sec_name sec) (sec_list sec) data of
           None \<Rightarrow> None
         | Some data1 \<Rightarrow>
             (case Conf_Update fuel (sec_name sec) None None CONF_UPDATE_TEMPLATES data1 of
                None \<Rightarrow> None
              | Some (_, data2) \<Rightarrow> import_virtual fuel old sps status data2)))"

text \<open>
  A file that has been opened: the status of \<^verbatim>\<open>Stream_Read_BOM\<close> and the stream behind the mark.  Reading
  it ends with success at the end of the file.
\<close>

definition read_file :: "NTSTATUS \<times> stream \<Rightarrow> bool \<Rightarrow> conf_data \<Rightarrow> NTSTATUS \<times> conf_data" where
  "read_file file from_template data =
     (case (if NT_SUCCESS (fst file) then Conf_Read_Sections (snd file) data 1 from_template
            else (fst file, 1, data)) of
        (st, _, data1) \<Rightarrow> (if st = STATUS_END_OF_FILE then STATUS_SUCCESS else st, data1))"

text \<open>
  \<^verbatim>\<open>Conf_Read\<close> behind the opening of Sandboxie.ini.  \<open>ini\<close> is \<^const>\<open>None\<close> when there is no such file;
  \<open>templates\<close> is the status of a failed opening of Templates.ini or the opened file; \<open>includes\<close> is what
  \<^verbatim>\<open>Conf_Import_AllIncludes\<close> does to the data, its status is not used; \<open>old\<close> is \<^verbatim>\<open>Conf_Data\<close>, if there is one.
  With a status of success the new data replaces the old.
\<close>

definition Conf_Read ::
  "nat \<Rightarrow> (nat \<Rightarrow> nat \<Rightarrow> bool) \<Rightarrow> bool \<Rightarrow> wstring option \<Rightarrow> (conf_data \<Rightarrow> conf_data) \<Rightarrow> (NTSTATUS \<times> stream) option
     \<Rightarrow> NTSTATUS + NTSTATUS \<times> stream \<Rightarrow> conf_data option \<Rightarrow> (NTSTATUS \<times> conf_data option) option" where
  "Conf_Read fuel alloc home path includes ini templates old =
     (case (case ini of
              None \<Rightarrow> (STATUS_SUCCESS, (conf_empty alloc)\<lparr>cd_home := home, cd_path := path\<rparr>)
            | Some file \<Rightarrow> read_file file False ((conf_empty alloc)\<lparr>cd_home := home, cd_path := path\<rparr>)) of
        (st1, data1) \<Rightarrow>
      case (if NT_SUCCESS st1
            then (case templates of
                    Inl st \<Rightarrow> (st, includes data1)
                  | Inr file \<Rightarrow> read_file file True (includes data1))
            else (st1, data1)) of
        (st2, data2) \<Rightarrow>
      case (if NT_SUCCESS st2 then Conf_Merge_AllTemplates fuel data2 else Some (st2, data2)) of
        None \<Rightarrow> None
      | Some (st3, data3) \<Rightarrow>
          (case (case old of
                   None \<Rightarrow> Some (st3, data3)
                 | Some cur \<Rightarrow> import_virtual fuel cur (cd_order cur) st3 data3) of
             None \<Rightarrow> None
           | Some (st4, data4) \<Rightarrow> Some (st4, if NT_SUCCESS st4 then Some data4 else old)))"

end
