(* ===== verification/ConfRead.thy ===== *)
theory ConfRead
  imports Conf
begin

text \<open>
  Reading and looking up the configuration.  The invariant of the data (\<open>conf_ok\<close>: maps consistent,
  pointers valid) and that reading keeps it; what a lookup by index returns; the lines that are
  read back as they were written; the interface between the reader and the store it fills, as a
  locale with two interpretations, one for the view through the hash map and one for the view
  through the list; and the round trip from the text of a file to the values found.
\<close>

section \<open>Well-formed configurations\<close>

definition str_map_ok :: "(wstring, nat) hash_map \<Rightarrow> bool" where
  "str_map_ok m \<longleftrightarrow> hm_ok m \<and> func_hash_key m = str_map_hash \<and> func_match_key m = str_map_match"

text \<open>The maps are well formed; they hold pointers to what exists.\<close>

definition sec_ok :: "nat \<Rightarrow> conf_section \<Rightarrow> bool" where
  "sec_ok n sec \<longleftrightarrow> str_map_ok (sec_map sec) \<and> (\<forall>name. set (key_vals (sec_map sec) name) \<subseteq> {..<n})
     \<and> set (sec_list sec) \<subseteq> {..<n}"

definition conf_ok :: "conf_data \<Rightarrow> bool" where
  "conf_ok data \<longleftrightarrow> str_map_ok (cd_map data)
     \<and> (\<forall>sec \<in> set (cd_sections data). sec_ok (length (cd_settings data)) sec)
     \<and> (\<forall>name. set (key_vals (cd_map data) name) \<subseteq> {..<length (cd_sections data)})
     \<and> set (cd_order data) \<subseteq> {..<length (cd_sections data)}"

lemma sec_ok_mono: "sec_ok n sec \<Longrightarrow> n \<le> n' \<Longrightarrow> sec_ok n' sec"
  by (fastforce simp: sec_ok_def)

lemma str_map_match_equivp: "equivp str_map_match"
  by (rule equivpI) (auto simp: reflp_def symp_def transp_def str_map_match_def wcsicmp_eq_def)

lemma str_map_ok_equiv: "str_map_ok m \<Longrightarrow> key_equiv m"
  by (simp add: str_map_ok_def key_equiv_def str_map_match_equivp)

lemma conf_map_ok: "str_map_ok (conf_map alloc)" "key_vals (conf_map alloc) name = []"
proof -
  have r: "conf_map alloc = map_init str_map_hash str_map_match alloc \<or>
      (map_resize (2 ^ 4) (map_init str_map_hash str_map_match alloc) = (True, conf_map alloc))"
    by (auto simp: conf_map_def map_resize_def)
  show "str_map_ok (conf_map alloc)"
    using r
  proof
    assume "conf_map alloc = map_init str_map_hash str_map_match alloc"
    then show ?thesis by (simp add: str_map_ok_def) (simp add: map_init_def)
  next
    assume m: "map_resize (2 ^ 4) (map_init str_map_hash str_map_match alloc) = (True, conf_map alloc)"
    note o = map_resize_hm_ok [OF hm_ok_init m]
    show ?thesis unfolding str_map_ok_def
      by (intro conjI, rule o(1)) (subst o(4), simp add: map_init_def)+
  qed
  show "key_vals (conf_map alloc) name = []"
    using r map_resize_hm_ok(2) [OF hm_ok_init] by (metis key_vals_init)
qed

lemma conf_ok_empty: "conf_ok (conf_empty alloc)"
  by (simp add: conf_ok_def conf_empty_def conf_map_ok)

lemma key_vals_append:
  assumes "str_map_ok m" and "map_append 8 0 k v m = (True, m')"
  shows "str_map_ok m'" and "key_vals m' name = key_vals m name @ (if str_map_hash k = str_map_hash name
    \<and> str_map_match k name then [v] else [])"
  using map_add_ok [OF _ assms(2) [unfolded map_append_def]] assms(1)
  by (auto simp: str_map_ok_def same_key_def)

lemma key_vals_insert:
  assumes "str_map_ok m" and "map_insert 8 0 k v m = (True, m')"
  shows "str_map_ok m'" and "key_vals m' name = (if str_map_hash k = str_map_hash name
    \<and> str_map_match k name then [v] else []) @ key_vals m name"
  using map_add_ok [OF _ assms(2) [unfolded map_insert_def]] assms(1)
  by (auto simp: str_map_ok_def same_key_def)

lemma map_add_fail: "map_add ks vs k v app m = (False, m') \<Longrightarrow> m' = m"
  by (auto simp: map_add_def map_resize_def split: option.splits if_splits prod.splits)

lemma conf_ok_section:
  "conf_ok data \<Longrightarrow> sp < length (cd_sections data) \<Longrightarrow> str_map_ok (sec_map (section_at data sp))"
  by (simp add: conf_ok_def sec_ok_def section_at_def)

lemma Conf_Find_Sections_lt:
  assumes "conf_ok data" and "Conf_Find_Sections data name = Some sp"
  shows "sp < length (cd_sections data)"
proof -
  from assms(1) have "hm_ok (cd_map data)" by (simp add: conf_ok_def str_map_ok_def)
  from map_get_key_vals [OF this] assms(2) have "sp \<in> set (key_vals (cd_map data) name)"
    by (auto simp: Conf_Find_Sections_def split: list.splits)
  with assms(1) show ?thesis by (auto simp: conf_ok_def)
qed

lemma conf_ok_sec_ok:
  "conf_ok data \<Longrightarrow> sp < length (cd_sections data) \<Longrightarrow> sec_ok (length (cd_settings data)) (section_at data sp)"
  by (simp add: conf_ok_def section_at_def)

lemma upd_section_ok:
  assumes "conf_ok data" and "sec_ok (length (cd_settings data)) (f (section_at data sp))"
  shows "conf_ok (upd_section sp f data)"
  using assms by (auto simp: conf_ok_def upd_section_def dest!: set_update_subset_insert [THEN subsetD])

lemma more_settings_ok:
  "conf_ok data \<Longrightarrow> conf_ok (data\<lparr>cd_settings := cd_settings data @ ss\<rparr>)"
  by (auto simp: conf_ok_def elim!: sec_ok_mono)

lemma sec_ok_append:
  assumes "sec_ok n sec" and "map_append 8 0 name n (sec_map sec) = (ok, m)"
    and "set l \<subseteq> insert n (set (sec_list sec))"
  shows "sec_ok (Suc n) (sec\<lparr>sec_list := l, sec_map := m\<rparr>)"
proof (cases ok)
  case True
  with assms(2) have a: "map_append 8 0 name n (sec_map sec) = (True, m)" by simp
  from assms(1) have so: "str_map_ok (sec_map sec)" by (simp add: sec_ok_def)
  show ?thesis using key_vals_append [OF so a] assms(1,3) by (fastforce simp: sec_ok_def)
next
  case False
  with assms(2) map_add_fail have "m = sec_map sec" by (simp add: map_append_def)
  with sec_ok_mono [OF assms(1), of "Suc n"] assms(1,3) show ?thesis by (fastforce simp: sec_ok_def)
qed

lemma section_at_settings [simp]: "section_at (data\<lparr>cd_settings := x\<rparr>) sp = section_at data sp"
  by (simp add: section_at_def)

text \<open>What \<^const>\<open>Conf_Add_Setting\<close> leaves behind when it gets its memory.\<close>

definition added_setting ::
  "nat \<Rightarrow> wstring \<Rightarrow> wstring \<Rightarrow> bool \<Rightarrow> (wstring, nat) hash_map \<Rightarrow> conf_data \<Rightarrow> conf_data" where
  "added_setting sp name val ins m data = upd_section sp
     (\<lambda>sec. sec\<lparr>sec_list := (if ins then length (cd_settings data) # sec_list sec
                            else sec_list sec @ [length (cd_settings data)]), sec_map := m\<rparr>)
     (data\<lparr>cd_settings := cd_settings data @ [\<lparr>cs_name = name, cs_value = val, cs_from_template = False\<rparr>]\<rparr>)"

lemma Conf_Add_Setting_cases:
  assumes "Conf_Add_Setting sp name val ins data = (r, data')"
  obtains (fail) "r = None" "data' = data"
    | (add) ok m where "map_append 8 0 name (length (cd_settings data)) (sec_map (section_at data sp)) = (ok, m)"
        "r = (if ok then Some (length (cd_settings data)) else None)"
        "data' = added_setting sp name val ins m data"
proof (cases "conf_alloc data 1 sizeof_CONF_SETTING \<and> conf_alloc data 2 ((length name + 1) * 2)
    \<and> conf_alloc data 3 ((length val + 1) * 2)")
  case True
  obtain ok m where a: "map_append 8 0 name (length (cd_settings data)) (sec_map (section_at data sp)) = (ok, m)"
    by (cases "map_append 8 0 name (length (cd_settings data)) (sec_map (section_at data sp))")
  from assms True a show ?thesis
    by (intro add [OF a]) (simp_all add: Conf_Add_Setting_def added_setting_def Let_def)
next
  case False
  with assms show ?thesis by (intro fail) (auto simp: Conf_Add_Setting_def split: if_splits)
qed

lemma Conf_Add_Setting_ok:
  assumes "conf_ok data" and "sp < length (cd_sections data)"
    and "Conf_Add_Setting sp name val ins data = (r, data')"
  shows "conf_ok data'" and "length (cd_sections data') = length (cd_sections data)"
proof -
  show "conf_ok data'"
    using assms(3)
  proof (cases rule: Conf_Add_Setting_cases)
    case fail
    with assms(1) show ?thesis by simp
  next
    case (add ok m)
    show ?thesis unfolding add(3) added_setting_def
      by (rule upd_section_ok, rule more_settings_ok [OF assms(1)])
        (auto intro!: sec_ok_append [OF conf_ok_sec_ok [OF assms(1,2)] add(1)])
  qed
  show "length (cd_sections data') = length (cd_sections data)"
    using assms(3) by (cases rule: Conf_Add_Setting_cases) (auto simp: added_setting_def upd_section_def)
qed

text \<open>The settings of a section under a name, in the order in which the map enumerates them.\<close>

definition sect_vals :: "conf_data \<Rightarrow> nat \<Rightarrow> wstring \<Rightarrow> conf_setting list" where
  "sect_vals data sp name = map (setting_at data) (key_vals (sec_map (section_at data sp)) name)"

definition same_name :: "wstring \<Rightarrow> wstring \<Rightarrow> bool" where
  "same_name a b \<longleftrightarrow> str_map_hash a = str_map_hash b \<and> str_map_match a b"

lemma same_name_refl [simp]: "same_name a a"
  by (simp add: same_name_def str_map_match_def wcsicmp_eq_def)

lemma setting_at_append [simp]:
  "p < length (cd_settings data) \<Longrightarrow> setting_at (data\<lparr>cd_settings := cd_settings data @ ss\<rparr>) p = setting_at data p"
  by (simp add: setting_at_def nth_append)

lemma setting_at_upd_section [simp]: "setting_at (upd_section sp f data) p = setting_at data p"
  by (simp add: setting_at_def upd_section_def)

lemma section_at_upd:
  "sp < length (cd_sections data) \<Longrightarrow>
    section_at (upd_section sp f data) sp' = (if sp' = sp then f (section_at data sp) else section_at data sp')"
  by (simp add: section_at_def upd_section_def)

lemma Conf_Add_Setting_vals:
  assumes "conf_ok data" and "sp < length (cd_sections data)" and "sp' < length (cd_sections data)"
    and "Conf_Add_Setting sp name val ins data = (Some p, data')"
  shows "p = length (cd_settings data)" and "length (cd_settings data') = Suc p"
    and "sect_vals data' sp' name' = sect_vals data sp' name' @
      (if sp' = sp \<and> same_name name name'
       then [\<lparr>cs_name = name, cs_value = val, cs_from_template = False\<rparr>] else [])"
proof -
  from assms(4) obtain m
    where a: "map_append 8 0 name (length (cd_settings data)) (sec_map (section_at data sp)) = (True, m)"
      and p: "p = length (cd_settings data)" and d: "data' = added_setting sp name val ins m data"
    by (cases rule: Conf_Add_Setting_cases) (auto split: if_splits)
  show "p = length (cd_settings data)" by (fact p)
  show "length (cd_settings data') = Suc p" by (simp add: d p added_setting_def upd_section_def)
  have old: "map (setting_at data') xs = map (setting_at data) xs" if "set xs \<subseteq> {..<length (cd_settings data)}" for xs
    using that by (auto simp: d added_setting_def)
  have new: "setting_at data' p = \<lparr>cs_name = name, cs_value = val, cs_from_template = False\<rparr>"
    by (simp add: d added_setting_def p) (simp add: setting_at_def)
  from conf_ok_sec_ok [OF assms(1,3)] have sub:
    "set (key_vals (sec_map (section_at data sp')) name') \<subseteq> {..<length (cd_settings data)}"
    by (simp add: sec_ok_def)
  show "sect_vals data' sp' name' = sect_vals data sp' name' @
      (if sp' = sp \<and> same_name name name'
       then [\<lparr>cs_name = name, cs_value = val, cs_from_template = False\<rparr>] else [])"
    using key_vals_append(2) [OF conf_ok_section [OF assms(1,2)] a, of name'] old [OF sub] new assms(2,3)
    by (auto simp: sect_vals_def d added_setting_def section_at_upd same_name_def p)
qed

lemma Conf_Add_Sections_ok:
  assumes "conf_ok data" and "Conf_Add_Sections name ins data = (r, data')"
  shows "conf_ok data'" and "\<And>sp. r = Some sp \<Longrightarrow> sp = length (cd_sections data)
    \<and> length (cd_sections data') = Suc sp \<and> cd_settings data' = cd_settings data"
proof -
  obtain ok m where a: "map_insert 8 0 name (length (cd_sections data)) (cd_map data) = (ok, m)"
    by (cases "map_insert 8 0 name (length (cd_sections data)) (cd_map data)")
  from assms(1) have so: "str_map_ok (cd_map data)" by (simp add: conf_ok_def)
  have m: "str_map_ok m \<and> (\<forall>n. set (key_vals m n) \<subseteq> {..<Suc (length (cd_sections data))})"
  proof (cases ok)
    case True
    with a have "map_insert 8 0 name (length (cd_sections data)) (cd_map data) = (True, m)" by simp
    from key_vals_insert [OF so this] assms(1) show ?thesis by (fastforce simp: conf_ok_def)
  next
    case False
    with a map_add_fail have "m = cd_map data" by (simp add: map_insert_def)
    with assms(1) show ?thesis by (fastforce simp: conf_ok_def)
  qed
  show "conf_ok data'"
    using assms m a
    by (auto simp: Conf_Add_Sections_def Let_def conf_ok_def sec_ok_def conf_map_ok subset_iff split: if_splits)
  show "sp = length (cd_sections data) \<and> length (cd_sections data') = Suc sp
      \<and> cd_settings data' = cd_settings data" if "r = Some sp" for sp
    using assms(2) a that by (auto simp: Conf_Add_Sections_def Let_def split: if_splits)
qed

lemma Conf_Read_Settings_ok:
  assumes "conf_ok data" and "sp < length (cd_sections data)"
    and "Conf_Read_Settings stm data sp linenum = (st, line, linenum', stm', data')"
  shows "conf_ok data' \<and> length (cd_sections data') = length (cd_sections data)"
  using assms
proof (induction stm data sp linenum rule: Conf_Read_Settings.induct)
  case (1 stm data sp linenum)
  obtain st0 line0 linenum1 stm1 where l: "Conf_Read_Line stm linenum = (st0, line0, linenum1, stm1)"
    by (cases "Conf_Read_Line stm linenum") auto
  show ?case
  proof (cases "NT_SUCCESS st0 \<and> \<not> (deref line0 = CHR ''['' \<or> deref line0 = CHR '']'')
      \<and> parse_setting line0 \<noteq> None")
    case False
    with "1.prems" l show ?thesis
      by (subst (asm) Conf_Read_Settings.simps) (auto split: if_splits option.splits)
  next
    case True
    then obtain name val where p: "parse_setting line0 = Some (name, val)" by auto
    obtain r data1 where a: "Conf_Add_Setting sp name val False data = (r, data1)"
      by (cases "Conf_Add_Setting sp name val False data")
    note ok = Conf_Add_Setting_ok [OF "1.prems"(1,2) a]
    show ?thesis
    proof (cases r)
      case None
      with "1.prems"(3) l True p a ok show ?thesis by (subst (asm) Conf_Read_Settings.simps) simp
    next
      case (Some x)
      with "1.prems"(3) l True p a have r: "Conf_Read_Settings stm1 data1 sp linenum1 = (st, line, linenum', stm', data')"
        by (subst (asm) Conf_Read_Settings.simps) simp
      have "conf_ok data' \<and> length (cd_sections data') = length (cd_sections data1)"
        using "1.IH" [OF l [symmetric] refl refl _ _ p refl a [symmetric] Some ok(1) _ r] True ok(2) "1.prems"(2) by simp
      with ok(2) show ?thesis by simp
    qed
  qed
qed

lemma upd_flags_ok:
  assumes "conf_ok data" and "sp < length (cd_sections data)"
    and "sec_map (f (section_at data sp)) = sec_map (section_at data sp)"
    and "sec_list (f (section_at data sp)) = sec_list (section_at data sp)"
  shows "conf_ok (upd_section sp f data)"
  using assms conf_ok_sec_ok [OF assms(1,2)] by (intro upd_section_ok) (auto simp: sec_ok_def)

lemma length_upd_section [simp]: "length (cd_sections (upd_section sp f data)) = length (cd_sections data)"
  by (simp add: upd_section_def)

text \<open>Finding or adding the section of a header.\<close>

definition open_section :: "wstring \<Rightarrow> bool \<Rightarrow> conf_data \<Rightarrow> nat option \<times> conf_data" where
  "open_section name from_template data = (case Conf_Find_Sections data name of
       Some sp \<Rightarrow> (Some sp, data)
     | None \<Rightarrow>
         (case Conf_Add_Sections name False data of
            (None, data1) \<Rightarrow> (None, data1)
          | (Some sp, data1) \<Rightarrow>
              (Some sp, upd_section sp (\<lambda>sec. sec\<lparr>sec_from_template := from_template\<rparr>) data1)))"

lemma open_section_ok:
  assumes "conf_ok data" and "open_section name from_template data = (r, data')"
  shows "conf_ok data' \<and> (\<forall>sp. r = Some sp \<longrightarrow> sp < length (cd_sections data'))"
proof (cases "Conf_Find_Sections data name")
  case (Some sp)
  with assms Conf_Find_Sections_lt [OF assms(1) Some] show ?thesis by (auto simp: open_section_def)
next
  case None
  obtain r1 data1 where a: "Conf_Add_Sections name False data = (r1, data1)"
    by (cases "Conf_Add_Sections name False data")
  note ok = Conf_Add_Sections_ok [OF assms(1) a]
  show ?thesis
  proof (cases r1)
    case r: None
    with None a assms(2) ok(1) show ?thesis by (simp add: open_section_def)
  next
    case (Some sp)
    with ok(2) have lt: "sp < length (cd_sections data1)" by auto
    have "r = Some sp" "data' = upd_section sp (\<lambda>sec. sec\<lparr>sec_from_template := from_template\<rparr>) data1"
      using None a assms(2) Some by (simp_all add: open_section_def)
    then show ?thesis using upd_flags_ok [OF ok(1) lt] lt by simp
  qed
qed

lemma read_sections_loop_ok:
  assumes "conf_ok data" and "read_sections_loop stm data line linenum ft = (st, linenum', data')"
  shows "conf_ok data'"
  using assms
proof (induction stm data line linenum ft rule: read_sections_loop.induct)
  case (1 stm data line linenum ft)
  obtain st0 name where h: "Conf_Read_Header line = (st0, name)" by (cases "Conf_Read_Header line")
  obtain r data1 where o: "open_section name ft data = (r, data1)" by (cases "open_section name ft data")
  note ok = open_section_ok [OF "1.prems"(1) o]
  show ?case
  proof (cases "NT_SUCCESS st0 \<and> r \<noteq> None")
    case False
    with "1.prems" h o ok show ?thesis
      by (subst (asm) read_sections_loop.simps) (auto simp: open_section_def [symmetric] split: if_splits)
  next
    case True
    then obtain sp where r: "r = Some sp" by auto
    obtain st2 line2 linenum2 stm2 data2
      where s: "Conf_Read_Settings stm data1 sp linenum = (st2, line2, linenum2, stm2, data2)"
      by (cases "Conf_Read_Settings stm data1 sp linenum") auto
    have ok2: "conf_ok data2" using Conf_Read_Settings_ok [OF _ _ s] ok r by simp
    show ?thesis
    proof (cases "NT_SUCCESS st2")
      case False
      with "1.prems"(2) h o r s ok2 True show ?thesis
        by (subst (asm) read_sections_loop.simps) (simp add: open_section_def [symmetric])
    next
      case again: True
      with "1.prems"(2) h o r s True have "read_sections_loop stm2 data2 line2 linenum2 ft = (st, linenum', data')"
        by (subst (asm) read_sections_loop.simps) (simp add: open_section_def [symmetric])
      from "1.IH" [OF h [symmetric] _ o [symmetric, unfolded open_section_def] r s [symmetric] refl refl refl again ok2 this] True
      show ?thesis by simp
    qed
  qed
qed

lemma Conf_Read_Sections_ok:
  "conf_ok data \<Longrightarrow> Conf_Read_Sections stm data linenum ft = (st, linenum', data') \<Longrightarrow> conf_ok data'"
  by (auto simp: Conf_Read_Sections_def intro: read_sections_loop_ok split: if_splits prod.splits)

section \<open>Looking up\<close>

lemma key_settings_vals:
  assumes "str_map_ok (sec_map sec)"
  shows "key_settings sec name = key_vals (sec_map sec) name"
proof -
  from assms have ok: "hm_ok (sec_map sec)" by (simp add: str_map_ok_def)
  show ?thesis unfolding key_settings_def
    by (rule key_iter_values [OF ok str_map_ok_equiv [OF assms]])
      (simp add: less_Suc_eq_le key_vals_le_nnodes [OF ok])
qed

definition conf_values :: "conf_data \<Rightarrow> wstring \<Rightarrow> wstring \<Rightarrow> wstring list" where
  "conf_values data sect name = (case Conf_Find_Sections data sect of
     None \<Rightarrow> [] | Some sp \<Rightarrow> map cs_value (sect_vals data sp name))"

lemma get_helper_loop_nth:
  assumes "i < 2 ^ 32"
  shows "i < length ps \<Longrightarrow> fst (get_helper_loop data False ps (of_nat i)) = Some (cs_value (setting_at data (ps ! i)))"
    and "length ps \<le> i \<Longrightarrow> get_helper_loop data False ps (of_nat i) = (None, of_nat (i - length ps))"
  using assms
proof (induction ps arbitrary: i)
  case (Cons p ps)
  have z: "(of_nat i :: u32) = 0 \<longleftrightarrow> i = 0" if "i < 2 ^ 32" for i :: nat
    using that by (auto simp: word_of_nat_eq_0_iff dest: nat_dvd_not_less [rotated])
  have s: "of_nat i - 1 = (of_nat (i - 1) :: u32)" if "i \<noteq> 0" using that by simp
  {
    case 1
    then show ?case using Cons.IH(1) [of "i - 1"] z [of i] s by (cases i) (auto simp: Let_def)
  next
    case 2
    then show ?case using Cons.IH(2) [of "i - 1"] z [of i] s by (cases i) (auto simp: Let_def)
  }
qed auto

lemma index_mask:
  "i < 2 ^ 24 \<Longrightarrow> of_nat i AND CONF_INDEX_MASK = (of_nat i :: u32)"
proof -
  assume "i < 2 ^ 24"
  have "CONF_INDEX_MASK = mask 24" by (simp add: CONF_INDEX_MASK_def mask_eq_exp_minus_1)
  then have "of_nat i AND CONF_INDEX_MASK = take_bit 24 (of_nat i :: u32)" by (simp add: take_bit_eq_mask)
  also have "\<dots> = of_nat i"
    using \<open>i < 2 ^ 24\<close> by (simp only: take_bit_of_nat take_bit_nat_eq_self)
  finally show ?thesis .
qed

lemma Conf_Get_Helper_nth:
  assumes "conf_ok data" and "i < 2 ^ 24"
  shows "i < length (conf_values data sect name) \<Longrightarrow>
      fst (Conf_Get_Helper data sect name (of_nat i) False) = Some (conf_values data sect name ! i)"
    and "length (conf_values data sect name) \<le> i \<Longrightarrow>
      Conf_Get_Helper data sect name (of_nat i) False = (None, of_nat (i - length (conf_values data sect name)))"
proof -
  have i: "i < 2 ^ 32" using assms(2) by simp
  have k: "key_settings (section_at data sp) name = key_vals (sec_map (section_at data sp)) name"
    if "Conf_Find_Sections data sect = Some sp" for sp
    by (rule key_settings_vals, rule conf_ok_section [OF assms(1) Conf_Find_Sections_lt [OF assms(1) that]])
  show "fst (Conf_Get_Helper data sect name (of_nat i) False) = Some (conf_values data sect name ! i)"
    if "i < length (conf_values data sect name)"
    using that k get_helper_loop_nth(1) [OF i]
    by (auto simp: Conf_Get_Helper_def Let_def index_mask [OF assms(2)] conf_values_def sect_vals_def split: option.splits)
  show "Conf_Get_Helper data sect name (of_nat i) False = (None, of_nat (i - length (conf_values data sect name)))"
    if "length (conf_values data sect name) \<le> i"
    using that k get_helper_loop_nth(2) [OF i]
    by (auto simp: Conf_Get_Helper_def Let_def index_mask [OF assms(2)] conf_values_def sect_vals_def split: option.splits)
qed

lemma index_flags:
  assumes "i < 2 ^ 24"
  shows "of_nat i AND CONF_GET_PROPERTY = (0 :: u32)" and "of_nat i AND CONF_GET_NO_TEMPLS = (0 :: u32)"
    and "of_nat i AND CONF_GET_NO_GLOBAL = (0 :: u32)"
  by (subst index_mask [OF assms, symmetric], simp add: and.assoc CONF_INDEX_MASK_def
    CONF_GET_PROPERTY_def CONF_GET_NO_TEMPLS_def CONF_GET_NO_GLOBAL_def)+

text \<open>What a caller sees that counts the index up: the values of the section, then the global ones.\<close>

definition enum_values :: "conf_data \<Rightarrow> wstring \<Rightarrow> wstring \<Rightarrow> wstring list" where
  "enum_values data sect name = conf_values data sect name @
     (if wcsicmp_eq sect Conf_GlobalSettings then [] else conf_values data Conf_GlobalSettings name)"

lemma Conf_Get_nth:
  assumes "conf_ok data" and "sect \<noteq> []" and "name \<noteq> []" and "i < 2 ^ 24"
  shows "Conf_Get data (Some sect) (Some name) (of_nat i) =
    (if i < length (enum_values data sect name) then Some (enum_values data sect name ! i) else None)"
proof -
  let ?l = "length (conf_values data sect name)"
  note h = Conf_Get_Helper_nth [OF assms(1)]
  note f = index_flags [OF assms(4)]
  show ?thesis
  proof (cases "i < ?l")
    case True
    obtain v idx where g: "Conf_Get_Helper data sect name (of_nat i) False = (v, idx)"
      by (cases "Conf_Get_Helper data sect name (of_nat i) False")
    with h(1) [OF assms(4) True] have "v = Some (conf_values data sect name ! i)" by simp
    with g True assms(2,3) f show ?thesis
      by (simp add: Conf_Get_def Conf_GetEx_def Let_def enum_values_def nth_append)
  next
    case False
    then have le: "?l \<le> i" by simp
    note g = h(2) [OF assms(4) le]
    have j: "i - ?l < 2 ^ 24" using assms(4) by simp
    obtain v2 idx2 where g2: "Conf_Get_Helper data Conf_GlobalSettings name (of_nat (i - ?l)) False = (v2, idx2)"
      by (cases "Conf_Get_Helper data Conf_GlobalSettings name (of_nat (i - ?l)) False")
    have v2: "v2 = (if i - ?l < length (conf_values data Conf_GlobalSettings name)
        then Some (conf_values data Conf_GlobalSettings name ! (i - ?l)) else None)"
      using h(1) [OF j, of Conf_GlobalSettings name] h(2) [OF j, of Conf_GlobalSettings name] g2 by (auto split: if_splits)
    show ?thesis
      using g g2 v2 le assms(2,3) f
      by (auto simp: Conf_Get_def Conf_GetEx_def Let_def enum_values_def nth_append split: prod.splits)
  qed
qed

section \<open>Reading what was written\<close>

text \<open>A line that \<^const>\<open>Conf_Read_Line\<close> returns as it is.\<close>

definition clean_line :: "wstring \<Rightarrow> bool" where
  "clean_line l \<longleftrightarrow> l \<noteq> [] \<and> \<not> is_ws (hd l) \<and> \<not> is_ws (last l) \<and> hd l \<noteq> CHR ''#''
     \<and> NUL \<notin> set l \<and> LF \<notin> set l \<and> CR \<notin> set l \<and> length l < 2000"

definition lines_text :: "wstring list \<Rightarrow> wstring" where
  "lines_text ls = concat (map (\<lambda>l. l @ [CR, LF]) ls)"

lemma read_units_clean:
  assumes "LF \<notin> set l" and "CR \<notin> set l" and "n + int (length l) + 1 < CONF_LINE_LEN"
  shows "read_units endst (l @ CR # rest) ch n = (STATUS_SUCCESS, ch # l, rest)"
  using assms by (induction l arbitrary: ch n) (auto simp: CONF_LINE_LEN_def)

lemma rtrim_id: "l \<noteq> [] \<Longrightarrow> \<not> is_ws (last l) \<Longrightarrow> rtrim l = l"
  by (cases l rule: rev_cases) (auto simp: rtrim_def)

lemma ltrim_id: "l \<noteq> [] \<Longrightarrow> \<not> is_ws (hd l) \<Longrightarrow> ltrim l = l"
  by (cases l) (auto simp: ltrim_def)

lemma c_str_id [simp]: "NUL \<notin> set l \<Longrightarrow> c_str l = l"
  by (auto simp: c_str_def takeWhile_eq_all_conv)

lemma Conf_Read_Line_clean:
  assumes "clean_line l"
  shows "Conf_Read_Line \<lparr>st_units = l @ CR # LF # rest, st_end = e\<rparr> n
      = (STATUS_SUCCESS, l, n, \<lparr>st_units = LF # rest, st_end = e\<rparr>)"
    and "n < CONF_MAX_LINES \<Longrightarrow> Conf_Read_Line \<lparr>st_units = LF # l @ CR # LF # rest, st_end = e\<rparr> n
      = (STATUS_SUCCESS, l, n + 1, \<lparr>st_units = LF # rest, st_end = e\<rparr>)"
proof -
  from assms obtain c l' where l: "l = c # l'" by (cases l) (auto simp: clean_line_def)
  have ru: "read_units endst (l' @ CR # LF # rest) c 0 = (STATUS_SUCCESS, l, LF # rest)" for endst
    using read_units_clean [of l' 0 endst "LF # rest" c] assms l by (simp add: clean_line_def CONF_LINE_LEN_def)
  have t: "rtrim l = l" using assms rtrim_id by (simp add: clean_line_def)
  have h: "\<not> is_ws c" "c \<noteq> CHR ''#''" "NUL \<notin> set l" using assms l by (auto simp: clean_line_def)
  show "Conf_Read_Line \<lparr>st_units = l @ CR # LF # rest, st_end = e\<rparr> n
      = (STATUS_SUCCESS, l, n, \<lparr>st_units = LF # rest, st_end = e\<rparr>)"
    using ru t h l by (subst Conf_Read_Line.simps) (simp add: status_defs Let_def)
  show "Conf_Read_Line \<lparr>st_units = LF # l @ CR # LF # rest, st_end = e\<rparr> n
      = (STATUS_SUCCESS, l, n + 1, \<lparr>st_units = LF # rest, st_end = e\<rparr>)" if "n < CONF_MAX_LINES"
    using ru t h l that by (subst Conf_Read_Line.simps) (simp add: status_defs Let_def is_ws_def)
qed

lemma Conf_Read_Line_end:
  "n < CONF_MAX_LINES \<Longrightarrow> Conf_Read_Line \<lparr>st_units = [LF], st_end = STATUS_END_OF_FILE\<rparr> n
      = (STATUS_END_OF_FILE, [], n + 1, \<lparr>st_units = [], st_end = STATUS_END_OF_FILE\<rparr>)"
  by (subst Conf_Read_Line.simps) (simp add: is_ws_def end_status_def)

text \<open>A setting and its line, a section name and its header.\<close>

definition setting_line :: "wstring \<times> wstring \<Rightarrow> wstring" where
  "setting_line kv = fst kv @ CHR ''='' # snd kv"

definition header_line :: "wstring \<Rightarrow> wstring" where
  "header_line s = CHR ''['' # s @ '']''"

definition trimmed :: "wstring \<Rightarrow> bool" where
  "trimmed s \<longleftrightarrow> s \<noteq> [] \<and> \<not> is_ws (hd s) \<and> \<not> is_ws (last s) \<and> NUL \<notin> set s \<and> LF \<notin> set s \<and> CR \<notin> set s"

definition valid_setting :: "wstring \<times> wstring \<Rightarrow> bool" where
  "valid_setting kv \<longleftrightarrow> trimmed (fst kv) \<and> trimmed (snd kv) \<and> CHR ''='' \<notin> set (fst kv)
     \<and> hd (fst kv) \<notin> {CHR ''#'', CHR ''['', CHR '']''} \<and> length (fst kv) + length (snd kv) + 1 < 2000"

definition valid_section :: "wstring \<Rightarrow> bool" where
  "valid_section s \<longleftrightarrow> NUL \<notin> set s \<and> Box_IsValidName s \<and> \<not> wcsicmp_eq s Conf_TemplateSection \<and> \<not> wcsicmp_eq s Conf_UserSettings"

lemma setting_line_clean: "valid_setting kv \<Longrightarrow> clean_line (setting_line kv)"
  by (auto simp: valid_setting_def clean_line_def setting_line_def trimmed_def)

lemma parse_setting_line: "valid_setting kv \<Longrightarrow> parse_setting (setting_line kv) = Some kv"
  by (cases kv) (auto simp: valid_setting_def setting_line_def parse_setting_def trimmed_def
      wcschr_append_Cons rtrim_id ltrim_id)

lemma setting_line_hd: "valid_setting kv \<Longrightarrow>
    deref (setting_line kv) \<noteq> CHR ''['' \<and> deref (setting_line kv) \<noteq> CHR '']''"
  by (cases "fst kv") (auto simp: valid_setting_def setting_line_def trimmed_def)

lemma box_name_loop_eq:
  "box_name_loop k i name =
     (if \<forall>c \<in> set (take k name). box_char c then Some (i + min k (length name)) else None)"
  by (induction k i name rule: box_name_loop.induct) auto

lemma deref_drop_NUL: "NUL \<notin> set s \<Longrightarrow> deref (drop n s) = NUL \<longleftrightarrow> length s \<le> n"
  by (cases "drop n s") (auto simp: deref_def intro: in_set_dropD [of _ n s])

lemma Box_IsValidName_iff:
  assumes "NUL \<notin> set s"
  shows "Box_IsValidName s \<longleftrightarrow> s \<noteq> [] \<and> length s \<le> 38 \<and> (\<forall>c \<in> set s. box_char c)"
  using deref_drop_NUL [OF assms]
  by (auto simp: Box_IsValidName_def box_name_loop_eq BOXNAME_COUNT_def split: if_splits)

lemma wcsnicmp_eq_prefix:
  assumes "length p = n" and "wcsnicmp_eq s p n"
  shows "n \<le> length s" and "wcsicmp_eq s p \<longleftrightarrow> length s = n"
proof -
  from assms have e: "wcslwr (take n s) = wcslwr p" by (simp add: wcsnicmp_eq_def)
  then have "length (take n s) = n" using assms(1) by (metis length_wcslwr)
  then show "n \<le> length s" by simp
  show "wcsicmp_eq s p \<longleftrightarrow> length s = n"
    using e assms(1) wcsicmp_eq_length [of s p] by (cases "length s = n") (auto simp: wcsicmp_eq_def)
qed

lemma box_char_units: "box_char c \<Longrightarrow> \<not> is_ws c \<and> c \<noteq> NUL \<and> c \<noteq> LF \<and> c \<noteq> CR \<and> c \<noteq> CHR '']''"
  by (auto simp: box_char_def is_ws_def Let_def)

lemma valid_section_chars:
  assumes "valid_section s"
  shows "NUL \<notin> set s" and "s \<noteq> []" and "length s \<le> 38" and "\<forall>c \<in> set s. box_char c"
  using assms Box_IsValidName_iff [of s] by (auto simp: valid_section_def)

lemma header_line_clean: "valid_section s \<Longrightarrow> clean_line (header_line s)"
  using valid_section_chars [of s] box_char_units
  by (auto simp: clean_line_def header_line_def is_ws_def)

lemma Conf_Read_Header_line:
  assumes "valid_section s"
  shows "Conf_Read_Header (header_line s) = (STATUS_SUCCESS, s)"
proof -
  note c = valid_section_chars [OF assms]
  have br: "CHR '']'' \<notin> set s" using c(4) box_char_units by blast
  have l: "length Conf_UserSettings = 13" "length Conf_TemplateSection = 9"
    by (simp_all add: Conf_UserSettings_def Conf_TemplateSection_def)
  have u: "deref (drop 13 s) \<noteq> NUL" if "wcsnicmp_eq s Conf_UserSettings 13"
    using wcsnicmp_eq_prefix [OF l(1) that] assms deref_drop_NUL [OF c(1)] by (auto simp: valid_section_def)
  have t: "deref (drop 9 s) \<noteq> NUL" if "wcsnicmp_eq s Conf_TemplateSection 9"
    using wcsnicmp_eq_prefix [OF l(2) that] assms deref_drop_NUL [OF c(1)] by (auto simp: valid_section_def)
  show ?thesis
    using assms br u t by (auto simp: Conf_Read_Header_def header_line_def valid_section_def wcschr_append_Cons)
qed

section \<open>The store the reader fills\<close>

text \<open>Allocations succeed, and the map finds a section only under its own name.\<close>

definition conf_inv :: "conf_data \<Rightarrow> bool" where
  "conf_inv data \<longleftrightarrow> conf_ok data \<and> (\<forall>i n. cd_alloc data i n) \<and> (\<forall>n. func_malloc (cd_map data) n)
     \<and> (\<forall>sec \<in> set (cd_sections data). \<forall>n. func_malloc (sec_map sec) n)
     \<and> (\<forall>name. \<forall>sp \<in> set (key_vals (cd_map data) name). same_name (sec_name (section_at data sp)) name)"

lemma same_name_sym: "same_name a b = same_name b a"
  by (auto simp: same_name_def str_map_match_def wcsicmp_eq_def)

lemma same_name_trans: "same_name a b \<Longrightarrow> same_name b c \<Longrightarrow> same_name a c"
  by (auto simp: same_name_def str_map_match_def wcsicmp_eq_def)

lemma conf_inv_alloc: "conf_inv data \<Longrightarrow> conf_alloc data k n"
  by (simp add: conf_inv_def conf_alloc_def)

lemma conf_inv_ok: "conf_inv data \<Longrightarrow> conf_ok data"
  by (simp add: conf_inv_def)

lemma Conf_Find_Sections_vals:
  "conf_ok data \<Longrightarrow> Conf_Find_Sections data s = (case key_vals (cd_map data) s of [] \<Rightarrow> None | sp # _ \<Rightarrow> Some sp)"
  by (simp add: Conf_Find_Sections_def map_get_key_vals conf_ok_def str_map_ok_def)

lemma Conf_Find_Sections_name:
  assumes "conf_inv data" and "Conf_Find_Sections data s = Some sp"
  shows "same_name (sec_name (section_at data sp)) s"
  using assms Conf_Find_Sections_vals [OF conf_inv_ok [OF assms(1)], of s]
  by (auto simp: conf_inv_def split: list.splits)

lemma Conf_Find_Sections_same:
  assumes "conf_inv data" and "Conf_Find_Sections data s = Some sp" and "same_name s s'"
  shows "Conf_Find_Sections data s' = Some sp"
proof -
  from assms(1) have k: "key_equiv (cd_map data)" "func_hash_key (cd_map data) = str_map_hash"
    "func_match_key (cd_map data) = str_map_match"
    using str_map_ok_equiv by (auto simp: conf_inv_def conf_ok_def str_map_ok_def)
  have "key_nodes (cd_map data) s' = key_nodes (cd_map data) s"
    by (rule key_nodes_congr [OF k(1)]) (use assms(3) k in \<open>simp add: same_key_def same_name_def\<close>)
  then show ?thesis using assms(2)
    by (simp add: Conf_Find_Sections_vals [OF conf_inv_ok [OF assms(1)]] key_vals_nodes)
qed

lemma Conf_Find_Sections_inj:
  assumes "conf_inv data" and "Conf_Find_Sections data s = Some sp" and "Conf_Find_Sections data s' = Some sp'"
  shows "sp' = sp \<longleftrightarrow> same_name s s'"
proof
  assume "sp' = sp"
  with Conf_Find_Sections_name [OF assms(1,2)] Conf_Find_Sections_name [OF assms(1,3)]
  show "same_name s s'" by (metis same_name_sym same_name_trans)
next
  assume "same_name s s'"
  from Conf_Find_Sections_same [OF assms(1,2) this] assms(3) show "sp' = sp" by simp
qed

text \<open>One line of a file: the setting goes to the section found under the name.\<close>

definition put_setting :: "wstring \<Rightarrow> wstring \<times> wstring \<Rightarrow> conf_data \<Rightarrow> conf_data" where
  "put_setting s kv data =
     snd (Conf_Add_Setting (the (Conf_Find_Sections data s)) (fst kv) (snd kv) False data)"

definition put_header :: "bool \<Rightarrow> wstring \<Rightarrow> conf_data \<Rightarrow> conf_data" where
  "put_header ft s data = snd (open_section s ft data)"

lemma Conf_Add_Setting_room:
  assumes "conf_inv data" and "sp < length (cd_sections data)"
  shows "Conf_Add_Setting sp name val ins data =
      (Some (length (cd_settings data)), snd (Conf_Add_Setting sp name val ins data))"
    and "conf_inv (snd (Conf_Add_Setting sp name val ins data))"
    and "cd_map (snd (Conf_Add_Setting sp name val ins data)) = cd_map data"
proof -
  let ?m = "sec_map (section_at data sp)"
  have mal: "\<forall>n. func_malloc ?m n" using assms by (auto simp: conf_inv_def section_at_def)
  obtain m where a: "map_append 8 0 name (length (cd_settings data)) ?m = (True, m)"
    using map_append_room [of ?m] mal by blast
  have mok: "hm_ok ?m" using conf_ok_section [OF conf_inv_ok [OF assms(1)] assms(2)] by (simp add: str_map_ok_def)
  have fm: "func_malloc m = func_malloc ?m" using map_add_ok(4) [OF mok a [unfolded map_append_def]] .
  have e: "Conf_Add_Setting sp name val ins data =
      (Some (length (cd_settings data)), added_setting sp name val ins m data)"
    using conf_inv_alloc [OF assms(1)] a by (simp add: Conf_Add_Setting_def added_setting_def Let_def)
  show "Conf_Add_Setting sp name val ins data =
      (Some (length (cd_settings data)), snd (Conf_Add_Setting sp name val ins data))" by (simp add: e)
  show "cd_map (snd (Conf_Add_Setting sp name val ins data)) = cd_map data"
    by (simp add: e added_setting_def upd_section_def)
  have ok: "conf_ok (added_setting sp name val ins m data)"
    using Conf_Add_Setting_ok(1) [OF conf_inv_ok [OF assms(1)] assms(2) e] .
  have nm: "sec_name (section_at (added_setting sp name val ins m data) i) = sec_name (section_at data i)" for i
    using assms(2) by (simp add: added_setting_def section_at_upd)
  show "conf_inv (snd (Conf_Add_Setting sp name val ins data))"
    using assms ok nm fm mal
    by (auto simp: e conf_inv_def) (auto simp: added_setting_def upd_section_def dest!: set_update_subset_insert [THEN subsetD])
qed

text \<open>The settings of a section in the order of its list.\<close>

definition conf_list :: "conf_data \<Rightarrow> wstring \<Rightarrow> conf_setting list" where
  "conf_list data sect = (case Conf_Find_Sections data sect of
     None \<Rightarrow> [] | Some sp \<Rightarrow> map (setting_at data) (sec_list (section_at data sp)))"

lemma Conf_Add_Setting_list:
  assumes "conf_inv data" and "sp < length (cd_sections data)" and "sp' < length (cd_sections data)"
  shows "map (setting_at (snd (Conf_Add_Setting sp name val False data)))
      (sec_list (section_at (snd (Conf_Add_Setting sp name val False data)) sp')) =
    map (setting_at data) (sec_list (section_at data sp')) @
      (if sp' = sp then [\<lparr>cs_name = name, cs_value = val, cs_from_template = False\<rparr>] else [])"
proof -
  from Conf_Add_Setting_room(1) [OF assms(1,2), of name val False] obtain m
    where d: "snd (Conf_Add_Setting sp name val False data) = added_setting sp name val False m data"
    by (cases rule: Conf_Add_Setting_cases) (auto split: if_splits)
  from conf_ok_sec_ok [OF conf_inv_ok [OF assms(1)] assms(3)]
  have sub: "set (sec_list (section_at data sp')) \<subseteq> {..<length (cd_settings data)}" by (simp add: sec_ok_def)
  have old: "map (setting_at (added_setting sp name val False m data)) xs = map (setting_at data) xs"
    if "set xs \<subseteq> {..<length (cd_settings data)}" for xs
    using that by (auto simp: added_setting_def)
  have new: "setting_at (added_setting sp name val False m data) (length (cd_settings data)) =
      \<lparr>cs_name = name, cs_value = val, cs_from_template = False\<rparr>"
    by (simp add: added_setting_def) (simp add: setting_at_def)
  show ?thesis using assms(2) old [OF sub] new unfolding d
    by (auto simp: added_setting_def section_at_upd)
qed

lemma put_setting_ok:
  assumes "conf_inv data" and "Conf_Find_Sections data s = Some sp"
  shows "conf_inv (put_setting s kv data)" and "Conf_Find_Sections (put_setting s kv data) = Conf_Find_Sections data"
    and "conf_values (put_setting s kv data) s' name = conf_values data s' name @
      (if same_name s s' \<and> same_name (fst kv) name then [snd kv] else [])"
    and "conf_list (put_setting s kv data) s' = conf_list data s' @
      (if same_name s s' then [\<lparr>cs_name = fst kv, cs_value = snd kv, cs_from_template = False\<rparr>] else [])"
proof -
  have sp: "sp < length (cd_sections data)" by (rule Conf_Find_Sections_lt [OF conf_inv_ok [OF assms(1)] assms(2)])
  note r = Conf_Add_Setting_room [OF assms(1) sp, of "fst kv" "snd kv" False]
  show "conf_inv (put_setting s kv data)" using r(2) assms(2) by (simp add: put_setting_def)
  show f: "Conf_Find_Sections (put_setting s kv data) = Conf_Find_Sections data"
    using r(3) assms(2) by (intro ext) (simp add: put_setting_def Conf_Find_Sections_def)
  show "conf_values (put_setting s kv data) s' name = conf_values data s' name @
      (if same_name s s' \<and> same_name (fst kv) name then [snd kv] else [])"
  proof (cases "Conf_Find_Sections data s'")
    case None
    then have "\<not> same_name s s'" using Conf_Find_Sections_same [OF assms] by auto
    with None f show ?thesis by (simp add: conf_values_def)
  next
    case (Some sp')
    note lt = Conf_Find_Sections_lt [OF conf_inv_ok [OF assms(1)] Some]
    from Conf_Add_Setting_vals(3) [OF conf_inv_ok [OF assms(1)] sp lt r(1)]
      Conf_Find_Sections_inj [OF assms Some] f Some assms(2)
    show ?thesis by (auto simp: conf_values_def put_setting_def)
  qed
  show "conf_list (put_setting s kv data) s' = conf_list data s' @
      (if same_name s s' then [\<lparr>cs_name = fst kv, cs_value = snd kv, cs_from_template = False\<rparr>] else [])"
  proof (cases "Conf_Find_Sections data s'")
    case None
    then have "\<not> same_name s s'" using Conf_Find_Sections_same [OF assms] by auto
    with None f show ?thesis by (simp add: conf_list_def)
  next
    case (Some sp')
    note lt = Conf_Find_Sections_lt [OF conf_inv_ok [OF assms(1)] Some]
    from Conf_Add_Setting_list [OF assms(1) sp lt, of "fst kv" "snd kv"]
      Conf_Find_Sections_inj [OF assms Some] f Some assms(2)
    show ?thesis by (auto simp: conf_list_def put_setting_def)
  qed
qed

lemma conf_map_malloc: "func_malloc (conf_map alloc) = alloc"
proof (cases "alloc (8 * 2 ^ 4)")
  case True
  have "map_resize (2 ^ 4) (map_init str_map_hash str_map_match alloc :: (wstring, nat) hash_map) = (True, conf_map alloc)"
    using True by (simp add: conf_map_def map_resize_def map_init_def)
  from map_resize_hm_ok(4) [OF hm_ok_init this] show ?thesis
    by (metis (no_types, lifting) hash_map.select_convs(3) hash_map.surjective hash_map.update_convs(4) map_init_def)
next
  case False
  then show ?thesis by (simp add: conf_map_def map_resize_def map_init_def)
qed

lemma conf_inv_empty: "conf_inv (conf_empty (\<lambda>_ _. True))"
  using conf_ok_empty [of "\<lambda>_ _. True"] by (simp add: conf_inv_def) (simp add: conf_empty_def conf_map_malloc conf_map_ok)

lemma Conf_Add_Sections_room:
  assumes "conf_inv data" and "Conf_Find_Sections data s = None"
  obtains data' where "Conf_Add_Sections s False data = (Some (length (cd_sections data)), data')"
    and "cd_sections data' = cd_sections data @ [\<lparr>sec_name = s, sec_list = [], sec_map = conf_map (\<lambda>_. True),
           sec_from_template = False, sec_is_virtual = False, sec_include_path = None\<rparr>]"
    and "cd_settings data' = cd_settings data" and "conf_inv data'"
    and "\<And>s'. Conf_Find_Sections data' s' =
      (if same_name s s' then Some (length (cd_sections data)) else Conf_Find_Sections data s')"
proof -
  let ?p = "length (cd_sections data)"
  have so: "str_map_ok (cd_map data)" "hm_ok (cd_map data)" using assms(1) by (auto simp: conf_inv_def conf_ok_def str_map_ok_def)
  have "fst (map_insert 8 0 s ?p (cd_map data))"
    using map_add_succeeds [of "cd_map data"] assms(1) by (simp add: conf_inv_def map_insert_def)
  then obtain m where a: "map_insert 8 0 s ?p (cd_map data) = (True, m)"
    by (cases "map_insert 8 0 s ?p (cd_map data)") simp
  let ?sec = "\<lparr>sec_name = s, sec_list = [], sec_map = conf_map (\<lambda>_. True),
           sec_from_template = False, sec_is_virtual = False, sec_include_path = None\<rparr>"
  let ?d = "data\<lparr>cd_sections := cd_sections data @ [?sec], cd_order := cd_order data @ [?p], cd_map := m\<rparr>"
  have e: "Conf_Add_Sections s False data = (Some ?p, ?d)"
    using conf_inv_alloc [OF assms(1)] a by (simp add: Conf_Add_Sections_def Let_def)
  note kv = key_vals_insert [OF so(1) a]
  have ok: "conf_ok ?d" using Conf_Add_Sections_ok(1) [OF conf_inv_ok [OF assms(1)] e] .
  have sub: "set (key_vals (cd_map data) n) \<subseteq> {..<?p}" for n using assms(1) by (auto simp: conf_inv_def conf_ok_def)
  have at: "section_at ?d i = (if i < ?p then section_at data i else ?sec)" if "i \<le> ?p" for i
    using that by (auto simp: section_at_def nth_append)
  have nm: "same_name (sec_name (section_at ?d i)) n" if "i \<in> set (key_vals m n)" for i n
  proof (cases "i < ?p")
    case True
    with that have "i \<in> set (key_vals (cd_map data) n)" by (auto simp: kv(2) split: if_splits)
    with assms(1) at [of i] True show ?thesis by (auto simp: conf_inv_def)
  next
    case False
    with that sub [of n] have "i = ?p" "same_name s n" by (auto simp: kv(2) same_name_def split: if_splits)
    with at [of i] show ?thesis by simp
  qed
  have inv: "conf_inv ?d"
    using assms(1) ok nm map_add_ok(4) [OF so(2) a [unfolded map_insert_def]]
    by (auto simp: conf_inv_def conf_map_malloc)
  have fs: "Conf_Find_Sections ?d s' = (if same_name s s' then Some ?p else Conf_Find_Sections data s')" for s'
    using kv(2) [of s'] by (auto simp: Conf_Find_Sections_vals [OF ok] Conf_Find_Sections_vals [OF conf_inv_ok [OF assms(1)]]
      same_name_def)
  show ?thesis by (rule that [OF e _ _ inv fs]) simp_all
qed

lemma sect_vals_flags:
  assumes "sp < length (cd_sections data)" and "\<And>sec. sec_map (f sec) = sec_map sec"
  shows "sect_vals (upd_section sp f data) sp' name = sect_vals data sp' name"
  using assms by (auto simp: sect_vals_def section_at_upd)

lemma upd_flags_inv:
  assumes "conf_inv data" and "sp < length (cd_sections data)"
    and "\<And>sec. sec_map (f sec) = sec_map sec \<and> sec_name (f sec) = sec_name sec \<and> sec_list (f sec) = sec_list sec"
  shows "conf_inv (upd_section sp f data)"
proof -
  have "conf_ok (upd_section sp f data)"
    by (rule upd_flags_ok [OF conf_inv_ok [OF assms(1)] assms(2)]) (simp_all add: assms(3))
  moreover have "sec_name (section_at (upd_section sp f data) i) = sec_name (section_at data i)" for i
    using assms(2,3) by (simp add: section_at_upd)
  moreover have "func_malloc (sec_map (f (section_at data sp))) n" for n
    using assms by (simp add: conf_inv_def section_at_def)
  ultimately show ?thesis using assms(1)
    by (auto simp: conf_inv_def) (auto simp: upd_section_def dest!: set_update_subset_insert [THEN subsetD])
qed

lemma put_header_ok:
  assumes "conf_inv data"
  shows "conf_inv (put_header ft s data)"
    and "Conf_Find_Sections (put_header ft s data) s' \<noteq> None \<longleftrightarrow> Conf_Find_Sections data s' \<noteq> None \<or> same_name s s'"
    and "conf_values (put_header ft s data) s' name = conf_values data s' name"
    and "conf_list (put_header ft s data) s' = conf_list data s'"
    and "open_section s ft data = (Conf_Find_Sections (put_header ft s data) s, put_header ft s data)"
proof -
  have "conf_inv (put_header ft s data) \<and>
    (Conf_Find_Sections (put_header ft s data) s' \<noteq> None \<longleftrightarrow> Conf_Find_Sections data s' \<noteq> None \<or> same_name s s') \<and>
    conf_values (put_header ft s data) s' name = conf_values data s' name \<and>
    conf_list (put_header ft s data) s' = conf_list data s' \<and>
    open_section s ft data = (Conf_Find_Sections (put_header ft s data) s, put_header ft s data)"
  proof (cases "Conf_Find_Sections data s")
    case (Some sp)
    with assms Conf_Find_Sections_same [OF assms Some, of s'] show ?thesis by (auto simp: put_header_def open_section_def)
  next
    case None
    obtain data' where a: "Conf_Add_Sections s False data = (Some (length (cd_sections data)), data')"
      "cd_sections data' = cd_sections data @ [\<lparr>sec_name = s, sec_list = [], sec_map = conf_map (\<lambda>_. True),
           sec_from_template = False, sec_is_virtual = False, sec_include_path = None\<rparr>]"
      "cd_settings data' = cd_settings data" "conf_inv data'"
      "\<And>s'. Conf_Find_Sections data' s' =
        (if same_name s s' then Some (length (cd_sections data)) else Conf_Find_Sections data s')"
      by (rule Conf_Add_Sections_room [OF assms None]) blast
    let ?p = "length (cd_sections data)"
    let ?f = "\<lambda>sec. sec\<lparr>sec_from_template := ft\<rparr>"
    let ?d = "upd_section ?p ?f data'"
    have p: "put_header ft s data = ?d" "open_section s ft data = (Some ?p, ?d)"
      using None a(1) by (simp_all add: put_header_def open_section_def)
    have lt: "?p < length (cd_sections data')" using a(2) by simp
    have fs: "Conf_Find_Sections ?d = Conf_Find_Sections data'"
      by (intro ext) (simp add: Conf_Find_Sections_def upd_section_def)
    have set_eq: "setting_at data' = setting_at data" using a(3) by (intro ext) (simp add: setting_at_def)
    have at: "section_at data' sp = section_at data sp" if "sp < ?p" for sp
      using that a(2) by (simp add: section_at_def nth_append)
    have new: "sec_list (section_at data' ?p) = []" "sect_vals data' ?p name = []"
      using a(2) by (simp_all add: sect_vals_def section_at_def conf_map_ok)
    have eqs: "conf_values ?d s' name = conf_values data s' name \<and> conf_list ?d s' = conf_list data s'"
    proof (cases "same_name s s'")
      case True
      have "Conf_Find_Sections data s' = None"
        using Conf_Find_Sections_same [OF assms, of s' _ s] True None same_name_sym by fastforce
      with True show ?thesis using a(5) new
        by (simp add: conf_values_def conf_list_def fs sect_vals_flags [OF lt] section_at_upd [OF lt])
    next
      case False
      with a(5) at Conf_Find_Sections_lt [OF conf_inv_ok [OF assms]] show ?thesis
        by (auto simp: conf_values_def conf_list_def fs sect_vals_flags [OF lt] section_at_upd [OF lt]
          sect_vals_def set_eq split: option.splits)
    qed
    have inv: "conf_inv ?d" by (rule upd_flags_inv [OF a(4) lt]) simp
    from p fs a(5) inv eqs show ?thesis by simp
  qed
  then show "conf_inv (put_header ft s data)"
    "Conf_Find_Sections (put_header ft s data) s' \<noteq> None \<longleftrightarrow> Conf_Find_Sections data s' \<noteq> None \<or> same_name s s'"
    "conf_values (put_header ft s data) s' name = conf_values data s' name"
    "conf_list (put_header ft s data) s' = conf_list data s'"
    "open_section s ft data = (Conf_Find_Sections (put_header ft s data) s, put_header ft s data)" by blast+
qed

text \<open>
  The interface between the reader and a view of the store: opening a section changes nothing in
  the view, adding to an open section appends the item where it hits.
\<close>

locale ini_store =
  fixes inv :: "'d \<Rightarrow> bool"
    and has :: "'d \<Rightarrow> 's \<Rightarrow> bool"
    and view :: "'d \<Rightarrow> 's \<Rightarrow> 'k \<Rightarrow> 'v list"
    and same_sect :: "'s \<Rightarrow> 's \<Rightarrow> bool"
    and hit :: "'i \<Rightarrow> 'k \<Rightarrow> bool"
    and out :: "'i \<Rightarrow> 'v"
    and header :: "'s \<Rightarrow> 'd \<Rightarrow> 'd"
    and add :: "'s \<Rightarrow> 'i \<Rightarrow> 'd \<Rightarrow> 'd"
  assumes refl_sect: "same_sect s s"
    and header_inv: "inv d \<Longrightarrow> inv (header s d)"
    and header_has: "inv d \<Longrightarrow> has (header s d) s' \<longleftrightarrow> has d s' \<or> same_sect s s'"
    and header_view: "inv d \<Longrightarrow> view (header s d) s' k = view d s' k"
    and add_inv: "inv d \<Longrightarrow> has d s \<Longrightarrow> inv (add s i d)"
    and add_has: "inv d \<Longrightarrow> has d s \<Longrightarrow> has (add s i d) s' \<longleftrightarrow> has d s'"
    and add_view: "inv d \<Longrightarrow> has d s \<Longrightarrow> view (add s i d) s' k = view d s' k @
          (if same_sect s s' \<and> hit i k then [out i] else [])"
begin

lemma adds_all:
  "inv d \<Longrightarrow> has d s \<Longrightarrow> inv (fold (add s) is d) \<and> (has (fold (add s) is d) s' \<longleftrightarrow> has d s') \<and>
     view (fold (add s) is d) s' k = view d s' k @
       (if same_sect s s' then map out (filter (\<lambda>i. hit i k) is) else [])"
  by (induction "is" arbitrary: d) (auto simp: add_inv add_has add_view)

lemma load_all:
  "inv d \<Longrightarrow> inv (fold (\<lambda>(s, is) d. fold (add s) is (header s d)) ini d) \<and>
     (has (fold (\<lambda>(s, is) d. fold (add s) is (header s d)) ini d) s' \<longleftrightarrow>
       has d s' \<or> (\<exists>x \<in> set ini. same_sect (fst x) s')) \<and>
     view (fold (\<lambda>(s, is) d. fold (add s) is (header s d)) ini d) s' k = view d s' k @
       concat (map (\<lambda>(s, is). if same_sect s s' then map out (filter (\<lambda>i. hit i k) is) else []) ini)"
proof (induction ini arbitrary: d)
  case (Cons x ini)
  obtain s kvs where x: "x = (s, kvs)" by (cases x)
  have "has (header s d) s" using header_has [OF Cons.prems] refl_sect by blast
  from adds_all [OF header_inv [OF Cons.prems] this, of kvs s' k]
  show ?case using Cons.IH header_view [OF Cons.prems] header_has [OF Cons.prems] by (auto simp: x)
qed simp

end

text \<open>The view through the map, by section and setting, and the view through the list, by section.\<close>

interpretation cs: ini_store conf_inv "\<lambda>data s. Conf_Find_Sections data s \<noteq> None" conf_values same_name
    "\<lambda>kv. same_name (fst kv)" snd "put_header ft" put_setting for ft
  by unfold_locales (use put_header_ok put_setting_ok in auto)

interpretation cl: ini_store conf_inv "\<lambda>data s. Conf_Find_Sections data s \<noteq> None" "\<lambda>data s (_ :: unit). conf_list data s"
    same_name "\<lambda>kv _. True" "\<lambda>kv. \<lparr>cs_name = fst kv, cs_value = snd kv, cs_from_template = False\<rparr>" "put_header ft" put_setting for ft
  by unfold_locales (use put_header_ok put_setting_ok in auto)

text \<open>The text of a file, from its sections with their settings.\<close>

definition section_text :: "wstring \<times> (wstring \<times> wstring) list \<Rightarrow> wstring" where
  "section_text x = lines_text (header_line (fst x) # map setting_line (snd x))"

definition ini_text :: "(wstring \<times> (wstring \<times> wstring) list) list \<Rightarrow> wstring" where
  "ini_text ini = concat (map section_text ini)"

definition ini_lines :: "(wstring \<times> (wstring \<times> wstring) list) list \<Rightarrow> nat" where
  "ini_lines ini = sum_list (map (\<lambda>x. 1 + length (snd x)) ini)"

definition valid_ini :: "(wstring \<times> (wstring \<times> wstring) list) list \<Rightarrow> bool" where
  "valid_ini ini \<longleftrightarrow> (\<forall>x \<in> set ini. valid_section (fst x) \<and> (\<forall>kv \<in> set (snd x). valid_setting kv))
     \<and> int (ini_lines ini) < CONF_MAX_LINES"

definition put_section :: "bool \<Rightarrow> wstring \<times> (wstring \<times> wstring) list \<Rightarrow> conf_data \<Rightarrow> conf_data" where
  "put_section ft = (\<lambda>(s, kvs) data. fold (put_setting s) kvs (put_header ft s data))"

lemma Conf_Read_Settings_lines:
  assumes "conf_inv data" and "Conf_Find_Sections data s = Some sp" and "\<forall>kv \<in> set kvs. valid_setting kv"
    and "n + int (length kvs) \<le> CONF_MAX_LINES"
  shows "Conf_Read_Settings \<lparr>st_units = LF # lines_text (map setting_line kvs) @ rest, st_end = e\<rparr> data sp n
    = Conf_Read_Settings \<lparr>st_units = LF # rest, st_end = e\<rparr> (fold (put_setting s) kvs data) sp (n + int (length kvs))"
  using assms
proof (induction kvs arbitrary: data n)
  case Nil
  then show ?case by (simp add: lines_text_def)
next
  case (Cons kv kvs)
  obtain name val where kv: "kv = (name, val)" by (cases kv)
  note v = put_setting_ok [OF Cons.prems(1,2), of kv]
  have valid: "valid_setting kv" using Cons.prems(3) by simp
  have "Conf_Add_Setting sp name val False data = (Some (length (cd_settings data)), put_setting s kv data)"
    using Conf_Add_Setting_room(1) [OF Cons.prems(1) Conf_Find_Sections_lt [OF conf_inv_ok [OF Cons.prems(1)] Cons.prems(2)], of name val False]
      Cons.prems(2) by (simp add: put_setting_def kv)
  then have "Conf_Read_Settings \<lparr>st_units = LF # lines_text (map setting_line (kv # kvs)) @ rest, st_end = e\<rparr> data sp n
      = Conf_Read_Settings \<lparr>st_units = LF # lines_text (map setting_line kvs) @ rest, st_end = e\<rparr>
          (put_setting s kv data) sp (n + 1)"
    using Conf_Read_Line_clean(2) [OF setting_line_clean [OF valid], of n "lines_text (map setting_line kvs) @ rest" e]
      parse_setting_line [OF valid] setting_line_hd [OF valid] Cons.prems(4)
    by (subst Conf_Read_Settings.simps) (simp add: lines_text_def NT_SUCCESS_def STATUS_SUCCESS_def kv)
  also have "\<dots> = Conf_Read_Settings \<lparr>st_units = LF # rest, st_end = e\<rparr>
      (fold (put_setting s) kvs (put_setting s kv data)) sp (n + 1 + int (length kvs))"
    using Cons.IH [OF v(1), of "n + 1"] v(2) Cons.prems by simp
  finally show ?case by (simp add: add.assoc)
qed

lemma Conf_Read_Settings_stop:
  assumes "n < CONF_MAX_LINES"
  shows "Conf_Read_Settings \<lparr>st_units = [LF], st_end = STATUS_END_OF_FILE\<rparr> data sp n
      = (STATUS_END_OF_FILE, [], n + 1, \<lparr>st_units = [], st_end = STATUS_END_OF_FILE\<rparr>, data)"
    and "valid_section s \<Longrightarrow> Conf_Read_Settings \<lparr>st_units = LF # header_line s @ CR # LF # rest, st_end = e\<rparr> data sp n
      = (STATUS_SUCCESS, header_line s, n + 1, \<lparr>st_units = LF # rest, st_end = e\<rparr>, data)"
proof -
  show "Conf_Read_Settings \<lparr>st_units = [LF], st_end = STATUS_END_OF_FILE\<rparr> data sp n
      = (STATUS_END_OF_FILE, [], n + 1, \<lparr>st_units = [], st_end = STATUS_END_OF_FILE\<rparr>, data)"
    using Conf_Read_Line_end [OF assms] by (subst Conf_Read_Settings.simps) (simp add: NT_SUCCESS_def status_defs)
  show "Conf_Read_Settings \<lparr>st_units = LF # header_line s @ CR # LF # rest, st_end = e\<rparr> data sp n
      = (STATUS_SUCCESS, header_line s, n + 1, \<lparr>st_units = LF # rest, st_end = e\<rparr>, data)" if "valid_section s"
    using Conf_Read_Line_clean(2) [OF header_line_clean [OF that] assms]
    by (subst Conf_Read_Settings.simps) (simp add: NT_SUCCESS_def status_defs header_line_def)
qed

lemma section_text_append: "section_text (s, kvs) @ rest =
    header_line s @ CR # LF # lines_text (map setting_line kvs) @ rest"
  by (simp add: section_text_def lines_text_def)

lemma read_sections_lines:
  assumes "conf_inv data" and "valid_section s" and "\<forall>kv \<in> set kvs. valid_setting kv"
    and "\<forall>x \<in> set ini. valid_section (fst x) \<and> (\<forall>kv \<in> set (snd x). valid_setting kv)"
    and "n + int (length kvs) + int (ini_lines ini) < CONF_MAX_LINES"
  shows "read_sections_loop \<lparr>st_units = LF # lines_text (map setting_line kvs) @ ini_text ini, st_end = STATUS_END_OF_FILE\<rparr>
      data (header_line s) n ft
    = (STATUS_END_OF_FILE, n + int (length kvs) + int (ini_lines ini) + 1, fold (put_section ft) ((s, kvs) # ini) data)"
  using assms
proof (induction ini arbitrary: data s kvs n)
  case Nil
  note h = put_header_ok [OF Nil.prems(1), where ft = ft and s = s]
  obtain sp where sp: "Conf_Find_Sections (put_header ft s data) s = Some sp" using h(2) [of s] by (auto simp: not_None_eq)
  have "Conf_Read_Settings \<lparr>st_units = LF # lines_text (map setting_line kvs) @ [], st_end = STATUS_END_OF_FILE\<rparr>
      (put_header ft s data) sp n = (STATUS_END_OF_FILE, [], n + int (length kvs) + 1,
        \<lparr>st_units = [], st_end = STATUS_END_OF_FILE\<rparr>, put_section ft (s, kvs) data)"
    using Conf_Read_Settings_lines [OF h(1) sp Nil.prems(3), of n "[]"] Conf_Read_Settings_stop(1) Nil.prems(5)
    by (simp add: put_section_def ini_lines_def)
  with h(5) sp Conf_Read_Header_line [OF Nil.prems(2)] show ?case
    by (subst read_sections_loop.simps)
      (simp add: open_section_def [symmetric] NT_SUCCESS_def status_defs ini_text_def ini_lines_def)
next
  case (Cons x ini)
  obtain s2 kvs2 where x: "x = (s2, kvs2)" by (cases x)
  note h = put_header_ok [OF Cons.prems(1), where ft = ft and s = s]
  obtain sp where sp: "Conf_Find_Sections (put_header ft s data) s = Some sp" using h(2) [of s] by (auto simp: not_None_eq)
  have v2: "valid_section s2" "\<forall>kv \<in> set kvs2. valid_setting kv" using Cons.prems(4) x by auto
  let ?d = "put_section ft (s, kvs) data"
  have inv: "conf_inv ?d" using cs.adds_all [OF h(1)] sp by (simp add: put_section_def)
  have r: "Conf_Read_Settings \<lparr>st_units = LF # lines_text (map setting_line kvs) @ ini_text (x # ini), st_end = STATUS_END_OF_FILE\<rparr>
      (put_header ft s data) sp n = (STATUS_SUCCESS, header_line s2, n + int (length kvs) + 1,
        \<lparr>st_units = LF # lines_text (map setting_line kvs2) @ ini_text ini, st_end = STATUS_END_OF_FILE\<rparr>, ?d)"
    using Conf_Read_Settings_lines [OF h(1) sp Cons.prems(3), of n "ini_text (x # ini)" STATUS_END_OF_FILE]
      Conf_Read_Settings_stop(2) [OF _ v2(1), of "n + int (length kvs)"] Cons.prems(5)
    by (simp add: put_section_def ini_lines_def x ini_text_def section_text_append)
  have "read_sections_loop \<lparr>st_units = LF # lines_text (map setting_line kvs) @ ini_text (x # ini), st_end = STATUS_END_OF_FILE\<rparr>
      data (header_line s) n ft
    = read_sections_loop \<lparr>st_units = LF # lines_text (map setting_line kvs2) @ ini_text ini, st_end = STATUS_END_OF_FILE\<rparr>
      ?d (header_line s2) (n + int (length kvs) + 1) ft"
    using h(5) sp Conf_Read_Header_line [OF Cons.prems(2)] r
    by (subst read_sections_loop.simps) (simp add: open_section_def [symmetric] NT_SUCCESS_def status_defs)
  with Cons.IH [OF inv v2, of "n + int (length kvs) + 1"] Cons.prems(4,5) show ?case
    by (simp add: x ini_lines_def add.assoc)
qed

lemma Conf_Read_Sections_text:
  assumes "conf_inv data" and "valid_ini ini" and "ini \<noteq> []"
  shows "Conf_Read_Sections \<lparr>st_units = ini_text ini, st_end = STATUS_END_OF_FILE\<rparr> data 1 ft
    = (STATUS_END_OF_FILE, 1 + int (ini_lines ini), fold (put_section ft) ini data)"
proof -
  obtain s kvs ini' where i: "ini = (s, kvs) # ini'" using assms(3) by (cases ini) auto
  have v: "valid_section s" "\<forall>kv \<in> set kvs. valid_setting kv"
    "\<forall>x \<in> set ini'. valid_section (fst x) \<and> (\<forall>kv \<in> set (snd x). valid_setting kv)"
    using assms(2) by (auto simp: valid_ini_def i)
  from Conf_Read_Line_clean(1) [OF header_line_clean [OF v(1)], of "lines_text (map setting_line kvs) @ ini_text ini'"]
    read_sections_lines [OF assms(1) v, of 1] conf_inv_alloc [OF assms(1)] assms(2)
  show ?thesis
    by (simp add: Conf_Read_Sections_def i ini_text_def section_text_append NT_SUCCESS_def STATUS_SUCCESS_def
        valid_ini_def ini_lines_def add.assoc)
qed

text \<open>The values a file gives for a section and a setting, in the order of the lines.\<close>

definition ini_values :: "(wstring \<times> (wstring \<times> wstring) list) list \<Rightarrow> wstring \<Rightarrow> wstring \<Rightarrow> wstring list" where
  "ini_values ini s name = concat (map (\<lambda>(s', kvs). if same_name s' s
     then map snd (filter (\<lambda>kv. same_name (fst kv) name) kvs) else []) ini)"

lemma conf_values_empty: "conf_values (conf_empty alloc) s name = []"
  using conf_map_ok(2) [of "\<lambda>_. True" s] Conf_Find_Sections_vals [OF conf_ok_empty, of alloc s]
  by (simp add: conf_values_def conf_empty_def)

text \<open>
  C7.  Reading a file of valid lines gives every setting back: the reader ends with the status of
  the end of the file and the count of lines, and the values found for a section and a setting are
  the values of its lines, in the order of the file, also when a section occurs more than once.
\<close>

theorem Conf_Read_Sections_roundtrip:
  assumes "valid_ini ini" and "ini \<noteq> []"
    and "Conf_Read_Sections \<lparr>st_units = ini_text ini, st_end = STATUS_END_OF_FILE\<rparr>
      (conf_empty (\<lambda>_ _. True)) 1 ft = (st, n, data)"
  shows "st = STATUS_END_OF_FILE \<and> n = 1 + int (ini_lines ini) \<and> conf_values data s name = ini_values ini s name"
proof -
  have "put_section ft = (\<lambda>(s, kvs) d. fold (put_setting s) kvs (put_header ft s d))"
    by (simp add: put_section_def)
  with cs.load_all [OF conf_inv_empty, of ft ini s name] Conf_Read_Sections_text [OF conf_inv_empty assms(1,2), of ft] assms(3)
  show ?thesis by (auto simp: ini_values_def conf_values_empty)
qed

theorem Conf_Read_Sections_roundtrip_witness:
  "\<exists>st n data. Conf_Read_Sections \<lparr>st_units = ini_text [(''GlobalSettings'', [(''FileRootPath'', ''C:'')]),
        (''Box'', [(''Enabled'', ''y''), (''OpenPipe'', ''a=b''), (''OpenPipe'', ''c'')])],
      st_end = STATUS_END_OF_FILE\<rparr> (conf_empty (\<lambda>_ _. True)) 1 False = (st, n, data)
    \<and> st = STATUS_END_OF_FILE \<and> n = 7 \<and> conf_values data ''Box'' ''OpenPipe'' = [''a=b'', ''c'']"
proof -
  let ?ini = "[(''GlobalSettings'', [(''FileRootPath'', ''C:'')]),
        (''Box'', [(''Enabled'', ''y''), (''OpenPipe'', ''a=b''), (''OpenPipe'', ''c'')])]"
  have v: "valid_ini ?ini" by code_simp
  obtain st n data where r: "Conf_Read_Sections \<lparr>st_units = ini_text ?ini, st_end = STATUS_END_OF_FILE\<rparr>
      (conf_empty (\<lambda>_ _. True)) 1 False = (st, n, data)" by (metis prod_cases3)
  have "ini_values ?ini ''Box'' ''OpenPipe'' = [''a=b'', ''c'']" "int (ini_lines ?ini) = 6" by code_simp+
  with Conf_Read_Sections_roundtrip [OF v _ r, of "''Box''" "''OpenPipe''"] r show ?thesis by auto
qed

section \<open>What a file loads\<close>

definition loaded :: "(wstring \<times> (wstring \<times> wstring) list) list \<Rightarrow> conf_data" where
  "loaded ini = fold (put_section False) ini (conf_empty (\<lambda>_ _. True))"

definition ini_settings :: "(wstring \<times> (wstring \<times> wstring) list) list \<Rightarrow> wstring \<Rightarrow> (wstring \<times> wstring) list" where
  "ini_settings ini s = concat (map (\<lambda>(s', kvs). if same_name s' s then kvs else []) ini)"

lemma loaded_facts:
  shows "conf_inv (loaded ini)"
    and "Conf_Find_Sections (loaded ini) s = None \<longleftrightarrow> \<not> (\<exists>x \<in> set ini. same_name (fst x) s)"
    and "conf_values (loaded ini) s name = ini_values ini s name"
    and "conf_list (loaded ini) s = map (\<lambda>kv. \<lparr>cs_name = fst kv, cs_value = snd kv, cs_from_template = False\<rparr>) (ini_settings ini s)"
proof -
  have f: "Conf_Find_Sections (conf_empty alloc) s = None" for alloc
    using conf_map_ok(2) [of "\<lambda>_. True" s] Conf_Find_Sections_vals [OF conf_ok_empty, of alloc s] by (simp add: conf_empty_def)
  have p: "put_section False = (\<lambda>(s, kvs) d. fold (put_setting s) kvs (put_header False s d))" by (simp add: put_section_def)
  note l = cs.load_all [OF conf_inv_empty, of False ini s name, folded p, folded loaded_def]
  show "conf_inv (loaded ini)" "conf_values (loaded ini) s name = ini_values ini s name"
    "Conf_Find_Sections (loaded ini) s = None \<longleftrightarrow> \<not> (\<exists>x \<in> set ini. same_name (fst x) s)"
    using l f by (auto simp: ini_values_def conf_values_empty)
  have m: "(\<lambda>(s', kvs). if same_name s' s then map g (filter (\<lambda>_. True) kvs) else []) = map g \<circ> (\<lambda>(s', kvs). if same_name s' s then kvs else [])"
    for g :: "wstring \<times> wstring \<Rightarrow> conf_setting" by (auto simp: fun_eq_iff)
  show "conf_list (loaded ini) s = map (\<lambda>kv. \<lparr>cs_name = fst kv, cs_value = snd kv, cs_from_template = False\<rparr>) (ini_settings ini s)"
    using cl.load_all [OF conf_inv_empty, of False ini s, folded p, folded loaded_def] f
    by (simp add: conf_list_def [of "conf_empty _"] ini_settings_def m map_concat)
qed

definition demo_ini :: "(wstring \<times> (wstring \<times> wstring) list) list" where
  "demo_ini = [(''Box'', [(''Template'', ''X''), (''A'', ''own'')]),
     (''Template_X'', [(''A'', ''tmpl''), (''Tmpl.Title'', ''t'')])]"

lemma loaded_witness:
  assumes "\<exists>x \<in> set ini. same_name (fst x) sect"
  obtains sp where "Conf_Find_Sections (loaded ini) sect = Some sp"
  using assms loaded_facts(2) [of ini sect] by (cases "Conf_Find_Sections (loaded ini) sect") auto

section \<open>Lookups and lines\<close>

text \<open>
  C27.  A caller that counts the index up enumerates, for a setting of a section, the values of the section
  in the order of the map and then those of GlobalSettings: \<^const>\<open>Conf_Get\<close> with the index \<open>i\<close> returns the
  \<open>i\<close>-th of them, and NULL behind the last one.
\<close>

theorem Conf_Get_enumerates:
  assumes "conf_ok data" and "sect \<noteq> []" and "name \<noteq> []" and "i < 2 ^ 24"
  shows "Conf_Get data (Some sect) (Some name) (of_nat i) =
    (let vs = conf_values data sect name @
       (if wcsicmp_eq sect Conf_GlobalSettings then [] else conf_values data Conf_GlobalSettings name)
     in if i < length vs then Some (vs ! i) else None)"
  using Conf_Get_nth [OF assms] by (simp add: enum_values_def Let_def)

theorem Conf_Get_enumerates_witness:
  "Conf_Get (loaded [(''GlobalSettings'', [(''A'', ''g'')]), (''Box'', [(''A'', ''b'')])]) (Some ''Box'') (Some ''A'') (of_nat 1) = Some ''g''"
proof -
  let ?i = "[(''GlobalSettings'', [(''A'', ''g'')]), (''Box'', [(''A'', ''b'')])]"
  have v: "conf_values (loaded ?i) ''Box'' ''A'' = [''b'']" "conf_values (loaded ?i) Conf_GlobalSettings ''A'' = [''g'']"
    unfolding loaded_facts(3) by code_simp+
  have "\<not> wcsicmp_eq ''Box'' Conf_GlobalSettings" by code_simp
  with Conf_Get_enumerates [OF conf_inv_ok [OF loaded_facts(1)], of "''Box''" "''A''" 1] v show ?thesis by simp
qed

text \<open>
  C37.  Reading keeps the configuration well formed, for every stream of 8-bit characters and every pattern of failing
  allocations of lines, sections, settings and their texts (the maps have memory): the maps stay consistent
  and every pointer in the lists and maps, the list of the sections included, leads to a section or
  setting that exists.
\<close>

theorem Conf_Read_Sections_wf:
  assumes "conf_ok data"
  shows "conf_ok (snd (snd (Conf_Read_Sections stm data linenum from_template)))"
  using Conf_Read_Sections_ok [OF assms] by (metis prod.collapse)

theorem Conf_Read_Sections_wf_witness:
  "conf_ok (snd (snd (Conf_Read_Sections \<lparr>st_units = ''[Box] x'', st_end = STATUS_END_OF_FILE\<rparr>
     (conf_empty (\<lambda>i n. i < 3 \<and> n < 5000)) 1 False)))"
  by (rule Conf_Read_Sections_wf [OF conf_ok_empty])

lemma rtrim_props:
  "rtrim s \<noteq> [] \<Longrightarrow> \<not> is_ws (last (rtrim s))" "set (rtrim s) \<subseteq> set s" "length (rtrim s) \<le> length s"
  "s \<noteq> [] \<Longrightarrow> \<not> is_ws (hd s) \<Longrightarrow> rtrim s \<noteq> [] \<and> hd (rtrim s) = hd s"
proof -
  show "rtrim s \<noteq> [] \<Longrightarrow> \<not> is_ws (last (rtrim s))"
    using hd_dropWhile [of is_ws "rev s"] by (auto simp: rtrim_def last_rev)
  show "set (rtrim s) \<subseteq> set s" using set_dropWhileD [of _ is_ws "rev s"] by (auto simp: rtrim_def)
  show "length (rtrim s) \<le> length s" using length_dropWhile_le [of is_ws "rev s"] by (simp add: rtrim_def)
  show "rtrim s \<noteq> [] \<and> hd (rtrim s) = hd s" if "s \<noteq> []" "\<not> is_ws (hd s)"
    using that by (cases s) (auto simp: rtrim_def dropWhile_append hd_append)
qed

lemma skip_blank_Some: "skip_blank endst us linenum = (st, Some ch, linenum', rest) \<Longrightarrow> st = STATUS_SUCCESS \<and> \<not> is_ws ch"
  by (induction endst us linenum rule: skip_blank.induct) (auto split: if_splits)

lemma read_units_props:
  "read_units endst us ch n = (st, line, rest) \<Longrightarrow> ch \<noteq> LF \<Longrightarrow> ch \<noteq> CR \<Longrightarrow> n < CONF_LINE_LEN \<Longrightarrow> line \<noteq> [] \<and> hd line = ch
     \<and> LF \<notin> set line \<and> CR \<notin> set line \<and> int (length line) + n \<le> CONF_LINE_LEN
     \<and> (st = STATUS_SUCCESS \<or> st = endst \<or> st = STATUS_BUFFER_OVERFLOW)
     \<and> (st = STATUS_BUFFER_OVERFLOW \<or> int (length line) + n < CONF_LINE_LEN)"
  by (induction endst us ch n arbitrary: line rule: read_units.induct) (fastforce split: if_splits prod.splits)+

lemma c_str_props:
  "set (c_str s) \<subseteq> set s" "length (c_str s) \<le> length s" "NUL \<notin> set (c_str s)"
  "s \<noteq> [] \<Longrightarrow> hd s \<noteq> NUL \<Longrightarrow> c_str s \<noteq> [] \<and> hd (c_str s) = hd s"
proof -
  show "set (c_str s) \<subseteq> set s" "NUL \<notin> set (c_str s)" by (auto simp: c_str_def dest: set_takeWhileD)
  show "length (c_str s) \<le> length s" by (simp add: c_str_def length_takeWhile_le)
  show "c_str s \<noteq> [] \<and> hd (c_str s) = hd s" if "s \<noteq> []" "hd s \<noteq> NUL" using that by (cases s) (auto simp: c_str_def)
qed

text \<open>What a line is when it is returned.\<close>

definition good_line :: "wstring \<Rightarrow> bool" where
  "good_line line \<longleftrightarrow> line \<noteq> [] \<and> \<not> is_ws (hd line) \<and> hd line \<noteq> CHR ''#''
     \<and> NUL \<notin> set line \<and> LF \<notin> set line \<and> CR \<notin> set line \<and> length line < 2000"

lemma Conf_Read_Line_good:
  "Conf_Read_Line stm linenum = (st, line, linenum', stm') \<Longrightarrow> NT_SUCCESS st \<Longrightarrow>
     st = STATUS_SUCCESS \<and> good_line line"
proof (induction stm linenum rule: Conf_Read_Line.induct)
  case (1 stm linenum)
  obtain st0 cho linenum1 us1 where sb: "skip_blank (end_status stm) (st_units stm) linenum = (st0, cho, linenum1, us1)"
    by (cases "skip_blank (end_status stm) (st_units stm) linenum") auto
  show ?case
  proof (cases cho)
    case None
    with sb "1.prems"(1) have "st = st0" by (subst (asm) Conf_Read_Line.simps) simp
    moreover from sb None have "st0 = end_status stm \<or> st0 = STATUS_TOO_MANY_COMMANDS" using skip_blank_None by simp
    moreover have "\<not> NT_SUCCESS STATUS_TOO_MANY_COMMANDS" by (simp add: NT_SUCCESS_def STATUS_TOO_MANY_COMMANDS_def)
    ultimately show ?thesis using "1.prems"(2) end_status_fails [of stm] by auto
  next
    case (Some ch)
    obtain st2 units us2 where ru: "read_units (end_status stm) us1 ch 0 = (st2, units, us2)"
      by (cases "read_units (end_status stm) us1 ch 0") auto
    let ?st3 = "if rtrim units \<noteq> [] \<and> st2 = STATUS_END_OF_FILE then STATUS_SUCCESS else st2"
    show ?thesis
    proof (cases "?st3 = STATUS_SUCCESS \<and> deref (rtrim units) = CHR ''#''")
      case True
      with "1.prems" sb Some ru have "Conf_Read_Line (stm\<lparr>st_units := us2\<rparr>) linenum1 = (st, line, linenum', stm')"
        by (subst (asm) Conf_Read_Line.simps) (simp add: Let_def)
      from "1.IH" [OF sb [symmetric] refl Some refl ru [symmetric] refl refl refl refl True this "1.prems"(2)]
      show ?thesis .
    next
      case False
      with "1.prems"(1) sb Some ru have r: "st = ?st3" "line = c_str (rtrim units)"
        by (subst (asm) Conf_Read_Line.simps; simp add: Let_def split: if_splits)+
      have ws: "\<not> is_ws ch" using skip_blank_Some [OF sb [unfolded Some]] by simp
      then have ch: "ch \<noteq> LF" "ch \<noteq> CR" "ch \<noteq> NUL" by (auto simp: is_ws_def)
      note u = read_units_props [OF ru ch(1,2)]
      have rt: "rtrim units \<noteq> []" "hd (rtrim units) = ch" using rtrim_props(4) [of units] u ws by (auto simp: CONF_LINE_LEN_def)
      have ok: "st2 \<noteq> STATUS_BUFFER_OVERFLOW" using "1.prems"(2) r(1) by (auto simp: NT_SUCCESS_def status_defs split: if_splits)
      then have l: "length units < 2000" "LF \<notin> set units" "CR \<notin> set units" using u by (auto simp: CONF_LINE_LEN_def)
      have st: "st = STATUS_SUCCESS"
        using "1.prems"(2) r(1) u ok rt(1) end_status_fails [of stm] by (auto simp: CONF_LINE_LEN_def)
      with False rt r(1) have "ch \<noteq> CHR ''#''" by (auto simp: deref_def split: list.splits)
      then show ?thesis using st r(2) c_str_props [of "rtrim units"] rt rtrim_props(2,3) [of units] l ws ch(3)
        by (auto simp: good_line_def)
    qed
  qed
qed

text \<open>
  C39. A line that is returned with success, from a stream of 8-bit characters, is one the parser can use: it is not empty and not a comment,
  starts with a character that is not white space, holds no line end and no NUL, and fits the buffer.
  The units that are left are fewer, so reading a file ends.
\<close>

theorem Conf_Read_Line_success:
  assumes "Conf_Read_Line stm linenum = (st, line, linenum', stm')" and "NT_SUCCESS st"
  shows "st = STATUS_SUCCESS \<and> line \<noteq> [] \<and> \<not> is_ws (hd line) \<and> hd line \<noteq> CHR ''#''
     \<and> NUL \<notin> set line \<and> LF \<notin> set line \<and> CR \<notin> set line \<and> length line < 2000
     \<and> length (st_units stm') < length (st_units stm)"
  using Conf_Read_Line_good [OF assms] Conf_Read_Line_shorter [OF assms] by (simp add: good_line_def)

theorem Conf_Read_Line_success_witness:
  "\<exists>st line n stm'. Conf_Read_Line \<lparr>st_units = ''# c'' @ [LF] @ '' a=1 '' @ [LF], st_end = STATUS_END_OF_FILE\<rparr> 1 = (st, line, n, stm')
     \<and> NT_SUCCESS st \<and> line \<noteq> [] \<and> length (st_units stm') < 10"
proof -
  let ?stm = "\<lparr>st_units = ''# c'' @ [LF] @ '' a=1 '' @ [LF], st_end = STATUS_END_OF_FILE\<rparr>"
  obtain st line n stm' where r: "Conf_Read_Line ?stm 1 = (st, line, n, stm')" by (metis prod_cases4)
  have "NT_SUCCESS (fst (Conf_Read_Line ?stm 1))" by code_simp
  then have s: "NT_SUCCESS st" unfolding r by simp
  from Conf_Read_Line_success [OF r s] have "line \<noteq> [] \<and> length (st_units stm') < 10" by simp
  with r s show ?thesis by blast
qed

text \<open>Lines that end in LF alone.\<close>

definition lf_text :: "(wstring \<times> wstring) list \<Rightarrow> wstring" where
  "lf_text kvs = concat (map (\<lambda>kv. setting_line kv @ [LF]) kvs)"

lemma read_units_clean_LF:
  assumes "LF \<notin> set l" and "CR \<notin> set l" and "n + int (length l) + 1 < CONF_LINE_LEN"
  shows "read_units endst (l @ LF # rest) ch n = (STATUS_SUCCESS, ch # l, rest)"
  using assms by (induction l arbitrary: ch n) (auto simp: CONF_LINE_LEN_def)

lemma Conf_Read_Line_LF:
  assumes "clean_line l"
  shows "Conf_Read_Line \<lparr>st_units = l @ LF # rest, st_end = e\<rparr> n = (STATUS_SUCCESS, l, n, \<lparr>st_units = rest, st_end = e\<rparr>)"
proof -
  from assms obtain c l' where l: "l = c # l'" by (cases l) (auto simp: clean_line_def)
  have ru: "read_units endst (l' @ LF # rest) c 0 = (STATUS_SUCCESS, l, rest)" for endst
    using read_units_clean_LF [of l' 0 endst rest c] assms l by (simp add: clean_line_def CONF_LINE_LEN_def)
  have t: "rtrim l = l" using assms rtrim_id by (simp add: clean_line_def)
  have h: "\<not> is_ws c" "c \<noteq> CHR ''#''" "NUL \<notin> set l" using assms l by (auto simp: clean_line_def)
  show ?thesis using ru t h l by (subst Conf_Read_Line.simps) (simp add: status_defs Let_def)
qed

text \<open>
   The line limit does not bind files with LF line ends: the LF that ends a line is consumed with the
  line and never counted, so any number of settings is read without the line number moving, whereas
  lines that end in CR LF are counted one by one.
\<close>

theorem Conf_Read_Settings_LF_uncounted:
  assumes "conf_inv data" and "Conf_Find_Sections data s = Some sp" and "\<forall>kv \<in> set kvs. valid_setting kv"
  shows "Conf_Read_Settings \<lparr>st_units = lf_text kvs, st_end = STATUS_END_OF_FILE\<rparr> data sp n
    = (STATUS_END_OF_FILE, [], n, \<lparr>st_units = [], st_end = STATUS_END_OF_FILE\<rparr>, fold (put_setting s) kvs data)"
  using assms
proof (induction kvs arbitrary: data)
  case Nil
  have "Conf_Read_Line \<lparr>st_units = [], st_end = STATUS_END_OF_FILE\<rparr> n =
      (STATUS_END_OF_FILE, [], n, \<lparr>st_units = [], st_end = STATUS_END_OF_FILE\<rparr>)"
    by (subst Conf_Read_Line.simps) (simp add: end_status_def)
  then show ?case by (subst Conf_Read_Settings.simps) (simp add: lf_text_def NT_SUCCESS_def status_defs)
next
  case (Cons kv kvs)
  obtain name val where kv: "kv = (name, val)" by (cases kv)
  note v = put_setting_ok [OF Cons.prems(1,2), of kv]
  have valid: "valid_setting kv" using Cons.prems(3) by simp
  have "Conf_Add_Setting sp name val False data = (Some (length (cd_settings data)), put_setting s kv data)"
    using Conf_Add_Setting_room(1) [OF Cons.prems(1) Conf_Find_Sections_lt [OF conf_inv_ok [OF Cons.prems(1)] Cons.prems(2)], of name val False]
      Cons.prems(2) by (simp add: put_setting_def kv)
  then have "Conf_Read_Settings \<lparr>st_units = lf_text (kv # kvs), st_end = STATUS_END_OF_FILE\<rparr> data sp n
      = Conf_Read_Settings \<lparr>st_units = lf_text kvs, st_end = STATUS_END_OF_FILE\<rparr> (put_setting s kv data) sp n"
    using Conf_Read_Line_LF [OF setting_line_clean [OF valid], of "lf_text kvs" STATUS_END_OF_FILE n]
      parse_setting_line [OF valid] setting_line_hd [OF valid]
    by (subst Conf_Read_Settings.simps) (simp add: lf_text_def NT_SUCCESS_def STATUS_SUCCESS_def kv)
  with Cons.IH [OF v(1)] v(2) Cons.prems(2,3) show ?case by simp
qed

theorem Conf_Read_Settings_LF_uncounted_witness:
  "\<exists>sp. fst (snd (snd (Conf_Read_Settings \<lparr>st_units = lf_text (replicate 3 (''a'', ''1'')), st_end = STATUS_END_OF_FILE\<rparr>
     (loaded demo_ini) sp 1))) = 1"
proof -
  have "\<exists>x \<in> set demo_ini. same_name (fst x) ''Box''" by code_simp
  then obtain sp where f: "Conf_Find_Sections (loaded demo_ini) ''Box'' = Some sp" by (rule loaded_witness)
  have "valid_setting (''a'', ''1'')" by code_simp
  then have "\<forall>kv \<in> set (replicate 3 (''a'', ''1'')). valid_setting kv" by simp
  from Conf_Read_Settings_LF_uncounted [OF loaded_facts(1) f this, of 1]
  show ?thesis by (intro exI [of _ sp]) (simp only: fst_conv snd_conv)
qed

end
