(* ===== verification/ConfMerge.thy ===== *)
theory ConfMerge
  imports ConfRead
begin

text \<open>
  Merging templates into sections: the loops of \<^verbatim>\<open>Conf_Merge_Template\<close> and \<^verbatim>\<open>Conf_Merge_Templates\<close> computed
  in closed form, with the fuel that is enough, and templates that include each other, for which no
  fuel is enough.
\<close>

section \<open>One setting merged from a template\<close>

definition merge_setting :: "nat \<Rightarrow> conf_setting \<Rightarrow> conf_data \<Rightarrow> conf_data" where
  "merge_setting sp s data = upd_setting (length (cd_settings data)) (\<lambda>s. s\<lparr>cs_from_template := True\<rparr>)
     (snd (Conf_Add_Setting sp (cs_name s) (cs_value s) False data))"

text \<open>The data keeps what it had: sections other than \<open>sp\<close>, names, the section map, old settings.\<close>

definition keeps :: "nat \<Rightarrow> conf_data \<Rightarrow> conf_data \<Rightarrow> bool" where
  "keeps sp data data' \<longleftrightarrow> cd_map data' = cd_map data
     \<and> length (cd_sections data') = length (cd_sections data)
     \<and> length (cd_settings data) \<le> length (cd_settings data')
     \<and> (\<forall>sp'. sp' \<noteq> sp \<longrightarrow> section_at data' sp' = section_at data sp')
     \<and> (\<forall>p < length (cd_settings data). setting_at data' p = setting_at data p)"

lemma keeps_refl [simp]: "keeps sp data data"
  by (simp add: keeps_def)

lemma keeps_trans: "keeps sp a b \<Longrightarrow> keeps sp b c \<Longrightarrow> keeps sp a c"
  by (simp add: keeps_def)

lemma upd_setting_inv: "conf_inv data \<Longrightarrow> conf_inv (upd_setting p f data)"
  by (simp add: conf_inv_def conf_ok_def upd_setting_def section_at_def)

lemma section_at_upd_setting [simp]: "section_at (upd_setting p f data) sp = section_at data sp"
  by (simp add: section_at_def upd_setting_def)

lemma setting_at_upd_setting:
  "setting_at (upd_setting p f data) q = (if q = p \<and> p < length (cd_settings data) then f (setting_at data p) else setting_at data q)"
  by (cases "p < length (cd_settings data)") (auto simp: setting_at_def upd_setting_def nth_list_update list_update_beyond)

lemma merge_setting_ok:
  assumes "conf_inv data" and "sp < length (cd_sections data)"
  shows "conf_inv (merge_setting sp s data)" and "keeps sp data (merge_setting sp s data)"
    and "sect_vals (merge_setting sp s data) sp name = sect_vals data sp name @
      (if same_name (cs_name s) name then [s\<lparr>cs_from_template := True\<rparr>] else [])"
    and "\<exists>nd. key_nodes (sec_map (section_at (merge_setting sp s data) sp)) name =
      key_nodes (sec_map (section_at data sp)) name @ (if same_name (cs_name s) name then [nd] else [])
      \<and> nd_value nd = length (cd_settings data)"
proof -
  let ?p = "length (cd_settings data)" and ?m = "sec_map (section_at data sp)"
  let ?d = "snd (Conf_Add_Setting sp (cs_name s) (cs_value s) False data)"
  note r = Conf_Add_Setting_room [OF assms, of "cs_name s" "cs_value s" False]
  note v = Conf_Add_Setting_vals [OF conf_inv_ok [OF assms(1)] assms(2,2) r(1)]
  from r(1) obtain m where a: "map_append 8 0 (cs_name s) ?p ?m = (True, m)"
      and d: "?d = added_setting sp (cs_name s) (cs_value s) False m data"
    by (cases rule: Conf_Add_Setting_cases) (auto split: if_splits)
  show "conf_inv (merge_setting sp s data)" using r(2) by (simp add: merge_setting_def upd_setting_inv)
  show "keeps sp data (merge_setting sp s data)"
    using assms(2) by (auto simp: keeps_def merge_setting_def setting_at_upd_setting d added_setting_def section_at_upd)
      (auto simp: upd_setting_def upd_section_def)
  have lt: "?p < length (cd_settings ?d)" using v(2) by simp
  have nw: "setting_at (merge_setting sp s data) ?p = s\<lparr>cs_from_template := True\<rparr>"
    unfolding merge_setting_def setting_at_upd_setting using lt
    by (simp add: d added_setting_def) (simp add: setting_at_def)
  have old: "setting_at (merge_setting sp s data) q = setting_at data q" if "q < ?p" for q
    using that by (auto simp: merge_setting_def setting_at_upd_setting d added_setting_def)
  have kv: "key_vals (sec_map (section_at (merge_setting sp s data) sp)) name =
      key_vals ?m name @ (if same_name (cs_name s) name then [?p] else [])"
    using key_vals_append(2) [OF conf_ok_section [OF conf_inv_ok [OF assms(1)] assms(2)] a, of name] assms(2)
    by (simp add: merge_setting_def d added_setting_def section_at_upd same_name_def)
  have sub: "set (key_vals ?m name) \<subseteq> {..<?p}"
    using conf_ok_sec_ok [OF conf_inv_ok [OF assms(1)] assms(2)] by (simp add: sec_ok_def)
  show "sect_vals (merge_setting sp s data) sp name = sect_vals data sp name @
      (if same_name (cs_name s) name then [s\<lparr>cs_from_template := True\<rparr>] else [])"
    using kv sub old nw by (auto simp: sect_vals_def)
  have mok: "hm_ok ?m" "func_hash_key ?m = str_map_hash" "func_match_key ?m = str_map_match"
    using conf_ok_section [OF conf_inv_ok [OF assms(1)] assms(2)] by (auto simp: str_map_ok_def)
  show "\<exists>nd. key_nodes (sec_map (section_at (merge_setting sp s data) sp)) name =
      key_nodes ?m name @ (if same_name (cs_name s) name then [nd] else []) \<and> nd_value nd = ?p"
    using map_append_nodes [OF mok(1) a, of name] assms(2)
    by (intro exI [of _ "\<lparr>nd_addr = next_addr ?m, nd_hash = str_map_hash (cs_name s), nd_key = cs_name s, nd_value = ?p\<rparr>"])
      (simp add: merge_setting_def d added_setting_def section_at_upd same_key_def mok(2,3) same_name_def)
qed

text \<open>Merging a list of settings.\<close>

lemma merge_settings_ok:
  assumes "conf_inv data" and "sp < length (cd_sections data)"
  shows "conf_inv (fold (merge_setting sp) ss data) \<and> keeps sp data (fold (merge_setting sp) ss data) \<and>
    sect_vals (fold (merge_setting sp) ss data) sp name = sect_vals data sp name @
      map (\<lambda>s. s\<lparr>cs_from_template := True\<rparr>) (filter (\<lambda>s. same_name (cs_name s) name) ss) \<and>
    (\<exists>nds. key_nodes (sec_map (section_at (fold (merge_setting sp) ss data) sp)) name =
      key_nodes (sec_map (section_at data sp)) name @ nds \<and>
      length nds = length (filter (\<lambda>s. same_name (cs_name s) name) ss))"
  using assms
proof (induction ss arbitrary: data)
  case Nil
  then show ?case by simp
next
  case (Cons s ss)
  note m = merge_setting_ok [OF Cons.prems, of s]
  have lt: "sp < length (cd_sections (merge_setting sp s data))" using m(2) Cons.prems(2) by (simp add: keeps_def)
  from m(4) [of name] obtain nd where nd: "key_nodes (sec_map (section_at (merge_setting sp s data) sp)) name =
      key_nodes (sec_map (section_at data sp)) name @ (if same_name (cs_name s) name then [nd] else [])" by blast
  from Cons.IH [OF m(1) lt] obtain nds where ih: "conf_inv (fold (merge_setting sp) ss (merge_setting sp s data))"
      "keeps sp (merge_setting sp s data) (fold (merge_setting sp) ss (merge_setting sp s data))"
      "sect_vals (fold (merge_setting sp) ss (merge_setting sp s data)) sp name = sect_vals (merge_setting sp s data) sp name @
        map (\<lambda>s. s\<lparr>cs_from_template := True\<rparr>) (filter (\<lambda>s. same_name (cs_name s) name) ss)"
      "key_nodes (sec_map (section_at (fold (merge_setting sp) ss (merge_setting sp s data)) sp)) name =
        key_nodes (sec_map (section_at (merge_setting sp s data) sp)) name @ nds"
      "length nds = length (filter (\<lambda>s. same_name (cs_name s) name) ss)"
    by blast
  show ?case
    using ih m(3) [of name] keeps_trans [OF m(2) ih(2)] nd
    by (auto intro!: exI [of _ "(if same_name (cs_name s) name then [nd] else []) @ nds"])
qed

text \<open>The settings of a template that are merged: all but those of the template itself.\<close>

definition tmpl_part :: "conf_data \<Rightarrow> nat list \<Rightarrow> conf_setting list" where
  "tmpl_part data ps = filter (\<lambda>s. \<not> wcsnicmp_eq (cs_name s) Conf_Tmpl 5) (map (setting_at data) ps)"

lemma tmpl_part_keeps:
  assumes "keeps sp data data'" and "set ps \<subseteq> {..<length (cd_settings data)}"
  shows "tmpl_part data' ps = tmpl_part data ps"
proof -
  have "map (setting_at data') ps = map (setting_at data) ps" using assms by (auto simp: keeps_def)
  then show ?thesis unfolding tmpl_part_def by (rule arg_cong)
qed

lemma sec_list_lt:
  "conf_inv data \<Longrightarrow> tp < length (cd_sections data) \<Longrightarrow>
    set (sec_list (section_at data tp)) \<subseteq> {..<length (cd_settings data)}"
  using conf_ok_sec_ok [OF conf_inv_ok] by (simp add: sec_ok_def)

lemma merge_tmpl_loop_eq:
  assumes "conf_inv data" and "sp < length (cd_sections data)" and "tp < length (cd_sections data)" and "tp \<noteq> sp"
    and "length (sec_list (section_at data tp)) - i < fuel \<or> merge_tmpl_loop fuel tp sp i data \<noteq> None"
  shows "merge_tmpl_loop fuel tp sp i data =
    Some (STATUS_SUCCESS, fold (merge_setting sp) (tmpl_part data (drop i (sec_list (section_at data tp)))) data)"
  using assms
proof (induction fuel arbitrary: data i)
  case (Suc fuel)
  let ?l = "sec_list (section_at data tp)"
  show ?case
  proof (cases "length ?l \<le> i")
    case True
    then show ?thesis by (simp add: Let_def tmpl_part_def)
  next
    case False
    then have dr: "drop i ?l = ?l ! i # drop (Suc i) ?l" by (simp add: Cons_nth_drop_Suc)
    let ?s = "setting_at data (?l ! i)"
    show ?thesis
    proof (cases "wcsnicmp_eq (cs_name ?s) Conf_Tmpl 5")
      case True
      with False have st: "merge_tmpl_loop (Suc fuel) tp sp i data = merge_tmpl_loop fuel tp sp (i + 1) data"
        by (simp add: Let_def)
      have "length ?l - (i + 1) < fuel \<or> merge_tmpl_loop fuel tp sp (i + 1) data \<noteq> None"
        using Suc.prems(5) False st by auto
      from Suc.IH [OF Suc.prems(1-4) this] st dr True show ?thesis by (simp add: tmpl_part_def)
    next
      case nt: False
      let ?d = "merge_setting sp ?s data"
      note m = merge_setting_ok [OF Suc.prems(1,2), of ?s]
      have k: "sp < length (cd_sections ?d)" "tp < length (cd_sections ?d)" "section_at ?d tp = section_at data tp"
        using m(2) Suc.prems(2-4) by (simp_all add: keeps_def)
      have sub: "set (drop (Suc i) ?l) \<subseteq> {..<length (cd_settings data)}"
        using sec_list_lt [OF Suc.prems(1,3)] set_drop_subset [of "Suc i" ?l] by blast
      have st: "merge_tmpl_loop (Suc fuel) tp sp i data = merge_tmpl_loop fuel tp sp (i + 1) ?d"
        using False nt Conf_Add_Setting_room(1) [OF Suc.prems(1,2), of "cs_name ?s" "cs_value ?s" False]
        by (auto simp: Let_def merge_setting_def split: prod.splits option.splits)
      have "length (sec_list (section_at ?d tp)) - (i + 1) < fuel \<or> merge_tmpl_loop fuel tp sp (i + 1) ?d \<noteq> None"
        using Suc.prems(5) k(3) False st by auto
      from Suc.IH [OF m(1) k(1,2) Suc.prems(4) this]
      have "merge_tmpl_loop fuel tp sp (i + 1) ?d =
          Some (STATUS_SUCCESS, fold (merge_setting sp) (tmpl_part data (drop (Suc i) ?l)) ?d)"
        using k(3) tmpl_part_keeps [OF m(2) sub] by simp
      with st dr nt show ?thesis by (simp add: tmpl_part_def)
    qed
  qed
qed simp

section \<open>Merging the templates of a section\<close>

definition tmpl_section :: "conf_data \<Rightarrow> wstring \<Rightarrow> nat option" where
  "tmpl_section data v = (if length v < 119 then Conf_Get_Section data (Conf_TemplateSection @ v) else None)"

text \<open>The settings a template brings in.\<close>

definition tmpl_settings :: "conf_data \<Rightarrow> wstring \<Rightarrow> conf_setting list" where
  "tmpl_settings data v = (case tmpl_section data v of
     None \<Rightarrow> [] | Some tp \<Rightarrow> tmpl_part data (sec_list (section_at data tp)))"

text \<open>
  A template that can be merged into the section \<open>sp\<close>: it is another section, brings in no further
  \<^verbatim>\<open>Template\<close> setting and has at most \<open>n\<close> settings.
\<close>

definition flat_tmpl :: "conf_data \<Rightarrow> nat \<Rightarrow> nat \<Rightarrow> wstring \<Rightarrow> bool" where
  "flat_tmpl data sp n v \<longleftrightarrow> tmpl_section data v \<noteq> Some sp
     \<and> list_all (\<lambda>s. \<not> same_name (cs_name s) Conf_Template) (tmpl_settings data v)
     \<and> (case tmpl_section data v of None \<Rightarrow> True | Some tp \<Rightarrow> length (sec_list (section_at data tp)) \<le> n)"

lemma tmpl_section_lt: "conf_inv data \<Longrightarrow> tmpl_section data v = Some tp \<Longrightarrow> tp < length (cd_sections data)"
  using Conf_Find_Sections_lt [OF conf_inv_ok, of data "Conf_TemplateSection @ v" tp]
  by (auto simp: tmpl_section_def Conf_Get_Section_def Conf_Find_Sections_def split: if_splits)

lemma Conf_Merge_Template_eq:
  assumes "conf_inv data" and "sp < length (cd_sections data)" and "flat_tmpl data sp n v" and "n < fuel"
  shows "Conf_Merge_Template fuel v sp data = Some (STATUS_SUCCESS, fold (merge_setting sp) (tmpl_settings data v) data)"
proof (cases "tmpl_section data v")
  case None
  then show ?thesis
    by (simp add: Conf_Merge_Template_def tmpl_section_def [symmetric] tmpl_settings_def)
next
  case (Some tp)
  with assms(3) have "tp \<noteq> sp" "length (sec_list (section_at data tp)) - 0 < fuel \<or> merge_tmpl_loop fuel tp sp 0 data \<noteq> None"
    using assms(4) by (auto simp: flat_tmpl_def)
  from merge_tmpl_loop_eq [OF assms(1,2) tmpl_section_lt [OF assms(1) Some] this] Some show ?thesis
    by (simp add: Conf_Merge_Template_def tmpl_section_def [symmetric] tmpl_settings_def)
qed

lemma keeps_flat:
  assumes "conf_inv data" and "keeps sp data data'" and "flat_tmpl data sp n v"
  shows "tmpl_settings data' v = tmpl_settings data v" and "flat_tmpl data' sp n v"
proof -
  have sec: "tmpl_section data' v = tmpl_section data v"
    using assms(2) by (simp add: keeps_def tmpl_section_def Conf_Get_Section_def)
  show st: "tmpl_settings data' v = tmpl_settings data v"
  proof (cases "tmpl_section data v")
    case (Some tp)
    with assms(3) have "tp \<noteq> sp" by (simp add: flat_tmpl_def)
    with assms(2) have "section_at data' tp = section_at data tp" by (simp add: keeps_def)
    with Some sec tmpl_part_keeps [OF assms(2) sec_list_lt [OF assms(1) tmpl_section_lt [OF assms(1) Some]]]
    show ?thesis by (simp add: tmpl_settings_def)
  qed (simp add: tmpl_settings_def sec)
  show "flat_tmpl data' sp n v"
    using assms(2,3) sec st by (auto simp: flat_tmpl_def keeps_def split: option.splits)
qed

text \<open>The value of a \<^verbatim>\<open>Template\<close> setting at a node of the map.\<close>

abbreviation tmpl_val :: "conf_data \<Rightarrow> (wstring, nat) map_node \<Rightarrow> wstring" where
  "tmpl_val data nd \<equiv> cs_value (setting_at data (nd_value nd))"

abbreviation tmpl_nodes :: "conf_data \<Rightarrow> nat \<Rightarrow> (wstring, nat) map_node list" where
  "tmpl_nodes data sp \<equiv> key_nodes (sec_map (section_at data sp)) Conf_Template"

lemma merge_flat_nodes:
  assumes "conf_inv data" and "sp < length (cd_sections data)" and "flat_tmpl data sp n v"
  shows "tmpl_nodes (fold (merge_setting sp) (tmpl_settings data v) data) sp = tmpl_nodes data sp"
proof -
  have "filter (\<lambda>s. same_name (cs_name s) Conf_Template) (tmpl_settings data v) = []"
    using assms(3) by (simp add: flat_tmpl_def list_all_iff filter_empty_conv)
  with merge_settings_ok [OF assms(1,2), of "tmpl_settings data v" Conf_Template] show ?thesis by auto
qed

text \<open>The loop behind a step of the iterator: one template has been found.\<close>

lemma merge_templates_step:
  assumes "conf_inv data" and "sp < length (cd_sections data)"
    and "tmpl_nodes data sp = l @ nd # r" and "map_next (sec_map (section_at data sp)) iter0 = (True, iter)"
    and "it_node iter = Some nd" and "it_ksize iter" and "it_key iter = Some (nd_key nd)" and "it_value iter = Some (nd_value nd)"
    and "\<forall>x \<in> set (nd # r). flat_tmpl data sp n (tmpl_val data x)" and "n + length r + 2 \<le> fuel"
  shows "merge_templates_loop (Suc fuel) sp sp iter0 status data = Some (STATUS_SUCCESS,
    fold (merge_setting sp) (concat (map (\<lambda>x. tmpl_settings data (tmpl_val data x)) (nd # r))) data)"
  using assms
proof (induction r arbitrary: l nd iter0 iter data fuel status)
  case (Nil l nd iter0 iter data fuel status)
  obtain f where f: "fuel = Suc f" using Nil.prems(10) by (cases fuel) auto
  let ?ss = "tmpl_settings data (tmpl_val data nd)"
  let ?d = "fold (merge_setting sp) ?ss data"
  have fl: "flat_tmpl data sp n (tmpl_val data nd)" using Nil.prems(9) by simp
  have cm: "Conf_Merge_Template fuel (tmpl_val data nd) sp data = Some (STATUS_SUCCESS, ?d)"
    by (rule Conf_Merge_Template_eq [OF Nil.prems(1,2) fl]) (use Nil.prems(10) in simp)
  note m = merge_settings_ok [OF Nil.prems(1,2), of ?ss]
  have lt: "sp < length (cd_sections ?d)" using m Nil.prems(2) by (simp add: keeps_def)
  have ok: "str_map_ok (sec_map (section_at ?d sp))" using m conf_ok_section [OF conf_inv_ok lt] by blast
  have "map_next (sec_map (section_at ?d sp)) iter = (False, iter\<lparr>it_node := None\<rparr>)"
    using map_next_key [OF _ str_map_ok_equiv [OF ok], of Conf_Template l nd "[]" iter] ok Nil.prems(3,5-7)
      merge_flat_nodes [OF Nil.prems(1,2) fl] by (simp add: str_map_ok_def)
  then show ?case using cm Nil.prems(4,8) f by (simp add: NT_SUCCESS_def STATUS_SUCCESS_def)
next
  case (Cons nd2 r l nd iter0 iter data fuel status)
  obtain f where f: "fuel = Suc f" using Cons.prems(10) by (cases fuel) auto
  let ?ss = "tmpl_settings data (tmpl_val data nd)"
  let ?d = "fold (merge_setting sp) ?ss data"
  have fl: "flat_tmpl data sp n (tmpl_val data nd)" using Cons.prems(9) by simp
  have cm: "Conf_Merge_Template fuel (tmpl_val data nd) sp data = Some (STATUS_SUCCESS, ?d)"
    by (rule Conf_Merge_Template_eq [OF Cons.prems(1,2) fl]) (use Cons.prems(10) in simp)
  note m = merge_settings_ok [OF Cons.prems(1,2), of ?ss]
  then have inv: "conf_inv ?d" and kp: "keeps sp data ?d" by blast+
  have lt: "sp < length (cd_sections ?d)" using kp Cons.prems(2) by (simp add: keeps_def)
  have ok: "str_map_ok (sec_map (section_at ?d sp))" using conf_ok_section [OF conf_inv_ok [OF inv] lt] .
  note nodes = merge_flat_nodes [OF Cons.prems(1,2) fl]
  obtain iter2 where it2: "map_next (sec_map (section_at ?d sp)) iter = (True, iter2)"
    "it_node iter2 = Some nd2" "it_ksize iter2" "it_key iter2 = Some (nd_key nd2)" "it_value iter2 = Some (nd_value nd2)"
    using map_next_key [OF _ str_map_ok_equiv [OF ok], of Conf_Template l nd "nd2 # r" iter] ok Cons.prems(3,5-7) nodes
    by (simp add: str_map_ok_def iter_at_def)
  have sub: "nd_value x < length (cd_settings data)" if "x \<in> set (tmpl_nodes data sp)" for x
    using conf_ok_sec_ok [OF conf_inv_ok [OF Cons.prems(1)] Cons.prems(2)] that
    by (auto simp: sec_ok_def key_vals_nodes)
  have tv: "tmpl_val ?d x = tmpl_val data x" if "x \<in> set (nd2 # r)" for x
    using kp sub [of x] that Cons.prems(3) by (auto simp: keeps_def)
  have fl2: "\<forall>x \<in> set (nd2 # r). flat_tmpl ?d sp n (tmpl_val ?d x)"
    using keeps_flat(2) [OF Cons.prems(1) kp] Cons.prems(9) tv by simp
  have ts: "map (\<lambda>x. tmpl_settings ?d (tmpl_val ?d x)) (nd2 # r) = map (\<lambda>x. tmpl_settings data (tmpl_val data x)) (nd2 # r)"
    using keeps_flat(1) [OF Cons.prems(1) kp] Cons.prems(9) tv by (intro map_cong) auto
  have "merge_templates_loop (Suc f) sp sp iter STATUS_SUCCESS ?d = Some (STATUS_SUCCESS,
      fold (merge_setting sp) (concat (map (\<lambda>x. tmpl_settings data (tmpl_val data x)) (nd2 # r))) ?d)"
    unfolding ts [symmetric]
    by (rule Cons.IH [OF inv lt _ it2 fl2]) (use nodes Cons.prems(3,10) f in auto)
  then show ?case using cm Cons.prems(4,8) f by (simp add: NT_SUCCESS_def STATUS_SUCCESS_def)
qed

lemma Conf_Merge_Templates_eq:
  assumes "conf_inv data" and "sp < length (cd_sections data)"
    and "\<forall>x \<in> set (tmpl_nodes data sp). flat_tmpl data sp n (tmpl_val data x)"
    and "n + length (tmpl_nodes data sp) + 2 \<le> fuel"
  shows "Conf_Merge_Templates fuel sp sp data = Some (STATUS_SUCCESS,
    fold (merge_setting sp) (concat (map (\<lambda>x. tmpl_settings data (tmpl_val data x)) (tmpl_nodes data sp))) data)"
proof -
  obtain f where f: "fuel = Suc f" using assms(4) by (cases fuel) auto
  have ok: "hm_ok (sec_map (section_at data sp))"
    using conf_ok_section [OF conf_inv_ok [OF assms(1)] assms(2)] by (simp add: str_map_ok_def)
  show ?thesis
  proof (cases "tmpl_nodes data sp")
    case Nil
    with map_next_none [OF ok, of Conf_Template] f show ?thesis by (auto simp: Conf_Merge_Templates_def)
  next
    case (Cons nd r)
    from map_next_first [OF ok Cons] obtain iter where "map_next (sec_map (section_at data sp)) (map_key_iter Conf_Template) = (True, iter)"
      "it_node iter = Some nd" "it_ksize iter" "it_key iter = Some (nd_key nd)" "it_value iter = Some (nd_value nd)" by blast
    from merge_templates_step [OF assms(1,2) _ this, of "[]" r n f] Cons assms(3,4) f show ?thesis
      by (simp add: Conf_Merge_Templates_def)
  qed
qed

lemma tmpl_values:
  assumes "conf_inv data" and "Conf_Find_Sections data sect = Some sp"
  shows "conf_values data sect Conf_Template = map (tmpl_val data) (tmpl_nodes data sp)"
  using assms by (simp add: conf_values_def sect_vals_def key_vals_nodes)

text \<open>
  C26.  Merging templates ends and does what it says: when no template of a section brings in a
  further \<^verbatim>\<open>Template\<close> setting, \<^const>\<open>Conf_Merge_Templates\<close> succeeds, and the values of every setting of the
  section are its own values, followed by those of the templates in the order in which they are named.
\<close>

theorem Conf_Merge_Templates_values:
  assumes "conf_inv data" and "Conf_Find_Sections data sect = Some sp"
    and "\<forall>v \<in> set (conf_values data sect Conf_Template). flat_tmpl data sp n v"
    and "n + length (conf_values data sect Conf_Template) + 2 \<le> fuel"
  shows "\<exists>data'. Conf_Merge_Templates fuel sp sp data = Some (STATUS_SUCCESS, data') \<and>
    conf_values data' sect name = conf_values data sect name @ map cs_value
      (filter (\<lambda>s. same_name (cs_name s) name)
        (concat (map (tmpl_settings data) (conf_values data sect Conf_Template))))"
proof -
  note lt = Conf_Find_Sections_lt [OF conf_inv_ok [OF assms(1)] assms(2)]
  note tv = tmpl_values [OF assms(1,2)]
  let ?ss = "concat (map (\<lambda>x. tmpl_settings data (tmpl_val data x)) (tmpl_nodes data sp))"
  have e: "Conf_Merge_Templates fuel sp sp data = Some (STATUS_SUCCESS, fold (merge_setting sp) ?ss data)"
    by (rule Conf_Merge_Templates_eq [OF assms(1) lt, of n]) (use assms(3,4) in \<open>simp_all add: tv\<close>)
  have c: "?ss = concat (map (tmpl_settings data) (conf_values data sect Conf_Template))"
    by (simp add: tv comp_def)
  let ?D = "fold (merge_setting sp) ?ss data"
  note m = merge_settings_ok [OF assms(1) lt, of ?ss name]
  then have f: "Conf_Find_Sections ?D sect = Some sp"
    using assms(2) by (simp add: keeps_def Conf_Find_Sections_def)
  have "conf_values ?D sect name = map cs_value (sect_vals ?D sp name)" using f by (simp add: conf_values_def)
  also have "\<dots> = map cs_value (sect_vals data sp name) @ map cs_value (filter (\<lambda>s. same_name (cs_name s) name) ?ss)"
    using m by (simp add: comp_def)
  also have "map cs_value (sect_vals data sp name) = conf_values data sect name"
    using assms(2) by (simp add: conf_values_def)
  finally show ?thesis using e unfolding c by blast
qed

lemma tmpl_settings_list:
  "tmpl_settings data v = (if length v < 119
     then filter (\<lambda>s. \<not> wcsnicmp_eq (cs_name s) Conf_Tmpl 5) (conf_list data (Conf_TemplateSection @ v)) else [])"
  by (auto simp: tmpl_settings_def tmpl_section_def tmpl_part_def conf_list_def Conf_Get_Section_def
      Conf_Find_Sections_def split: option.splits)

lemma flat_tmpl_list:
  assumes "conf_inv data" and "Conf_Find_Sections data sect = Some sp" and "\<not> same_name sect (Conf_TemplateSection @ v)"
    and "list_all (\<lambda>s. \<not> same_name (cs_name s) Conf_Template) (tmpl_settings data v)"
    and "length (conf_list data (Conf_TemplateSection @ v)) \<le> n"
  shows "flat_tmpl data sp n v"
proof -
  have t: "tmpl_section data v = Some tp \<Longrightarrow> Conf_Find_Sections data (Conf_TemplateSection @ v) = Some tp" for tp
    by (simp add: tmpl_section_def Conf_Get_Section_def Conf_Find_Sections_def split: if_splits)
  from assms t Conf_Find_Sections_inj [OF assms(1,2)] show ?thesis
    by (auto simp: flat_tmpl_def conf_list_def split: option.splits)
qed

theorem Conf_Merge_Templates_values_witness:
  "\<exists>sp data'. Conf_Find_Sections (loaded demo_ini) ''Box'' = Some sp \<and>
     Conf_Merge_Templates 5 sp sp (loaded demo_ini) = Some (STATUS_SUCCESS, data') \<and>
     conf_values data' ''Box'' ''A'' = [''own'', ''tmpl'']"
proof -
  let ?d = "loaded demo_ini"
  have "\<exists>x \<in> set demo_ini. same_name (fst x) ''Box''" by code_simp
  then obtain sp where f: "Conf_Find_Sections ?d ''Box'' = Some sp" using loaded_facts(2) [of demo_ini "''Box''"] by auto
  have v: "conf_values ?d ''Box'' Conf_Template = [''X'']" "conf_values ?d ''Box'' ''A'' = [''own'']"
    unfolding loaded_facts(3) by code_simp+
  have t: "tmpl_settings ?d ''X'' = [\<lparr>cs_name = ''A'', cs_value = ''tmpl'', cs_from_template = False\<rparr>]"
    "length (conf_list ?d (Conf_TemplateSection @ ''X'')) \<le> 2"
    unfolding tmpl_settings_list loaded_facts(4) by code_simp+
  have n: "\<not> same_name ''Box'' (Conf_TemplateSection @ ''X'')" "\<not> same_name ''A'' Conf_Template" "same_name ''A'' ''A''"
    by code_simp+
  have "flat_tmpl ?d sp 2 ''X''"
    by (rule flat_tmpl_list [OF loaded_facts(1) f n(1) _ t(2)]) (simp add: t(1) n(2))
  with Conf_Merge_Templates_values [OF loaded_facts(1) f, of 2 5 "''A''"] f v t(1) n(3) show ?thesis by auto
qed

section \<open>Templates that include themselves\<close>

text \<open>
  A set of templates in which each names another of the set: their merging never runs out of
  \<^verbatim>\<open>Template\<close> settings.
\<close>

definition cyclic_tmpls :: "conf_data \<Rightarrow> nat \<Rightarrow> wstring set \<Rightarrow> bool" where
  "cyclic_tmpls data sp V \<longleftrightarrow> (\<forall>v \<in> V. tmpl_section data v \<noteq> None \<and> tmpl_section data v \<noteq> Some sp
     \<and> (\<exists>s \<in> set (tmpl_settings data v). same_name (cs_name s) Conf_Template)
     \<and> (\<forall>s \<in> set (tmpl_settings data v). same_name (cs_name s) Conf_Template \<longrightarrow> cs_value s \<in> V))"

lemma cyclic_merge:
  assumes "conf_inv data" and "sp < length (cd_sections data)" and "cyclic_tmpls data sp V" and "v \<in> V"
    and "Conf_Merge_Template fuel v sp data = Some (st, data')"
  shows "st = STATUS_SUCCESS" and "data' = fold (merge_setting sp) (tmpl_settings data v) data"
    and "cyclic_tmpls data' sp V"
proof -
  from assms(3,4) obtain tp where tp: "tmpl_section data v = Some tp" "tp \<noteq> sp" by (auto simp: cyclic_tmpls_def)
  with assms(5) have r: "merge_tmpl_loop fuel tp sp 0 data = Some (st, data')"
    by (simp add: Conf_Merge_Template_def tmpl_section_def [symmetric])
  with merge_tmpl_loop_eq [OF assms(1,2) tmpl_section_lt [OF assms(1) tp(1)] tp(2), of 0 fuel] tp(1)
  show "st = STATUS_SUCCESS" and d: "data' = fold (merge_setting sp) (tmpl_settings data v) data"
    by (simp_all add: tmpl_settings_def)
  have kp: "keeps sp data data'" unfolding d using merge_settings_ok [OF assms(1,2)] by blast
  have "tmpl_section data' w = tmpl_section data w" for w
    using kp by (simp add: keeps_def tmpl_section_def Conf_Get_Section_def)
  moreover have "tmpl_settings data' w = tmpl_settings data w" if "w \<in> V" for w
  proof -
    from assms(3) that obtain tw where tw: "tmpl_section data w = Some tw" "tw \<noteq> sp" by (auto simp: cyclic_tmpls_def)
    with kp have "section_at data' tw = section_at data tw" by (simp add: keeps_def)
    with tw(1) calculation tmpl_part_keeps [OF kp sec_list_lt [OF assms(1) tmpl_section_lt [OF assms(1) tw(1)]]]
    show ?thesis by (simp add: tmpl_settings_def)
  qed
  ultimately show "cyclic_tmpls data' sp V" using assms(3) by (simp add: cyclic_tmpls_def)
qed

lemma cyclic_loop:
  assumes "conf_inv data" and "sp < length (cd_sections data)" and "cyclic_tmpls data sp V"
    and "tmpl_nodes data sp = l @ nd # r" and "\<forall>x \<in> set (tmpl_nodes data sp). tmpl_val data x \<in> V"
    and "map_next (sec_map (section_at data sp)) iter0 = (True, iter)"
    and "it_node iter = Some nd" and "it_ksize iter" and "it_key iter = Some (nd_key nd)" and "it_value iter = Some (nd_value nd)"
  shows "merge_templates_loop fuel sp sp iter0 status data = None"
  using assms
proof (induction fuel arbitrary: data l nd r iter0 iter status)
  case (Suc fuel)
  let ?v = "tmpl_val data nd"
  have v: "?v \<in> V" using Suc.prems(4,5) by simp
  show ?case
  proof (cases "Conf_Merge_Template fuel ?v sp data")
    case None
    with Suc.prems(6,10) show ?thesis by simp
  next
    case (Some res)
    obtain st data' where res: "res = (st, data')" by (cases res)
    note c = cyclic_merge [OF Suc.prems(1-3) v Some [unfolded res]]
    let ?ss = "tmpl_settings data ?v"
    note m = merge_settings_ok [OF Suc.prems(1,2), of ?ss Conf_Template, folded c(2)]
    then obtain nds where nds: "tmpl_nodes data' sp = tmpl_nodes data sp @ nds"
      "length nds = length (filter (\<lambda>s. same_name (cs_name s) Conf_Template) ?ss)" by blast
    from m have inv: "conf_inv data'" and lt: "sp < length (cd_sections data')" using Suc.prems(2) by (auto simp: keeps_def)
    have "filter (\<lambda>s. same_name (cs_name s) Conf_Template) ?ss \<noteq> []"
      using Suc.prems(3) v by (auto simp: cyclic_tmpls_def filter_empty_conv)
    with nds(2) have "nds \<noteq> []" by (metis length_0_conv)
    then obtain nd2 r2 where r2: "r @ nds = nd2 # r2" by (cases "r @ nds") auto
    have nodes: "tmpl_nodes data' sp = l @ nd # nd2 # r2" using nds(1) Suc.prems(4) r2 by simp
    have ok: "str_map_ok (sec_map (section_at data' sp))" by (rule conf_ok_section [OF conf_inv_ok [OF inv] lt])
    obtain iter2 where it2: "map_next (sec_map (section_at data' sp)) iter = (True, iter2)"
      "it_node iter2 = Some nd2" "it_ksize iter2" "it_key iter2 = Some (nd_key nd2)" "it_value iter2 = Some (nd_value nd2)"
      using map_next_key [OF _ str_map_ok_equiv [OF ok] nodes Suc.prems(7-9)] ok Suc.prems(8)
      by (simp add: str_map_ok_def iter_at_def)
    have "set (map cs_value (sect_vals data' sp Conf_Template)) \<subseteq> V"
      using m Suc.prems(3,5) v by (auto simp: cyclic_tmpls_def sect_vals_def key_vals_nodes)
    then have vals: "\<forall>x \<in> set (tmpl_nodes data' sp). tmpl_val data' x \<in> V"
      by (auto simp: sect_vals_def key_vals_nodes)
    have "merge_templates_loop fuel sp sp iter st data' = None"
      by (rule Suc.IH [OF inv lt c(3) _ vals it2, of "l @ [nd]" r2]) (simp add: nodes)
    with Suc.prems(6,10) Some res c(1) show ?thesis by (simp add: NT_SUCCESS_def STATUS_SUCCESS_def)
  qed
qed simp

text \<open>
  C36.  Templates that include each other in a cycle are merged without end: when the templates of a
  section are in a set of templates each of which brings in a \<^verbatim>\<open>Template\<close> setting that names a template
  of the set, \<^const>\<open>Conf_Merge_Templates\<close> does not end, whatever the number of turns, as long as memory
  can be allocated.
\<close>

theorem Conf_Merge_Templates_cycle:
  assumes "conf_inv data" and "Conf_Find_Sections data sect = Some sp" and "cyclic_tmpls data sp V"
    and "conf_values data sect Conf_Template \<noteq> []" and "set (conf_values data sect Conf_Template) \<subseteq> V"
  shows "Conf_Merge_Templates fuel sp sp data = None"
proof -
  note lt = Conf_Find_Sections_lt [OF conf_inv_ok [OF assms(1)] assms(2)]
  note tv = tmpl_values [OF assms(1,2)]
  have ok: "hm_ok (sec_map (section_at data sp))"
    using conf_ok_section [OF conf_inv_ok [OF assms(1)] lt] by (simp add: str_map_ok_def)
  from assms(4) tv obtain nd r where n: "tmpl_nodes data sp = nd # r" by (cases "tmpl_nodes data sp") auto
  from map_next_first [OF ok n] obtain iter where it:
    "map_next (sec_map (section_at data sp)) (map_key_iter Conf_Template) = (True, iter)"
    "it_node iter = Some nd" "it_ksize iter" "it_key iter = Some (nd_key nd)" "it_value iter = Some (nd_value nd)" by blast
  have "\<forall>x \<in> set (tmpl_nodes data sp). tmpl_val data x \<in> V" using assms(5) by (auto simp: tv)
  from cyclic_loop [OF assms(1) lt assms(3) _ this it, of "[]" r] n show ?thesis
    by (simp add: Conf_Merge_Templates_def)
qed

definition cycle_ini :: "(wstring \<times> (wstring \<times> wstring) list) list" where
  "cycle_ini = [(''Box'', [(''Template'', ''X'')]), (''Template_X'', [(''Template'', ''Y'')]),
     (''Template_Y'', [(''Template'', ''X'')])]"

lemma cyclic_tmpls_list:
  assumes "conf_inv data" and "Conf_Find_Sections data sect = Some sp"
    and "\<And>v. v \<in> V \<Longrightarrow> \<not> same_name sect (Conf_TemplateSection @ v)"
    and "\<And>v. v \<in> V \<Longrightarrow> \<exists>s \<in> set (tmpl_settings data v). same_name (cs_name s) Conf_Template"
    and "\<And>v. v \<in> V \<Longrightarrow> \<forall>s \<in> set (tmpl_settings data v). cs_value s \<in> V"
  shows "cyclic_tmpls data sp V"
  unfolding cyclic_tmpls_def
proof (intro ballI conjI)
  fix v
  assume v: "v \<in> V"
  show "tmpl_section data v \<noteq> None" using assms(4) [OF v] by (cases "tmpl_section data v") (auto simp: tmpl_settings_def)
  show "tmpl_section data v \<noteq> Some sp"
    using Conf_Find_Sections_inj [OF assms(1,2), of "Conf_TemplateSection @ v" sp] assms(3) [OF v]
    by (auto simp: tmpl_section_def Conf_Get_Section_def Conf_Find_Sections_def)
qed (use assms(4,5) in auto)

theorem Conf_Merge_Templates_cycle_witness:
  "\<exists>sp. Conf_Find_Sections (loaded cycle_ini) ''Box'' = Some sp \<and>
     (\<forall>fuel. Conf_Merge_Templates fuel sp sp (loaded cycle_ini) = None)"
proof -
  let ?d = "loaded cycle_ini"
  have "\<exists>x \<in> set cycle_ini. same_name (fst x) ''Box''" by code_simp
  then obtain sp where f: "Conf_Find_Sections ?d ''Box'' = Some sp" using loaded_facts(2) [of cycle_ini "''Box''"] by auto
  have v: "conf_values ?d ''Box'' Conf_Template = [''X'']" unfolding loaded_facts(3) by code_simp
  have t: "tmpl_settings ?d ''X'' = [\<lparr>cs_name = ''Template'', cs_value = ''Y'', cs_from_template = False\<rparr>]"
    "tmpl_settings ?d ''Y'' = [\<lparr>cs_name = ''Template'', cs_value = ''X'', cs_from_template = False\<rparr>]"
    unfolding tmpl_settings_list loaded_facts(4) by code_simp+
  have n: "\<not> same_name ''Box'' (Conf_TemplateSection @ ''X'')" "\<not> same_name ''Box'' (Conf_TemplateSection @ ''Y'')"
    "same_name ''Template'' Conf_Template" by code_simp+
  have "cyclic_tmpls ?d sp {''X'', ''Y''}"
    by (rule cyclic_tmpls_list [OF loaded_facts(1) f]) (use t n in auto)
  from Conf_Merge_Templates_cycle [OF loaded_facts(1) f this] v f show ?thesis by auto
qed

end
