(* ===== verification/ConfUpdate.thy ===== *)
theory ConfUpdate
  imports ConfMerge
begin

text \<open>
  Changes at run time: removal of values on the hash map and the list, \<^verbatim>\<open>Conf_Update\<close>, and what a reload does
  with sections made at run time.
\<close>

section \<open>Removing and updating values\<close>

text \<open>The settings that a removal leaves of those of a name: it stops at the first from a template.\<close>

definition left_over :: "(conf_setting \<Rightarrow> bool) \<Rightarrow> conf_setting list \<Rightarrow> conf_setting list" where
  "left_over del ss = filter (\<lambda>s. \<not> del s) (takeWhile (\<lambda>s. \<not> cs_from_template s) ss)
     @ dropWhile (\<lambda>s. \<not> cs_from_template s) ss"

definition removes :: "nat \<Rightarrow> wstring option \<Rightarrow> conf_setting \<Rightarrow> bool" where
  "removes uMode value_ptr s \<longleftrightarrow> \<not> (uMode = CONF_REMOVE_VALUE \<and> value_ptr \<noteq> None
     \<and> \<not> wcsicmp_eq (cs_value s) (the value_ptr))"

text \<open>Removal in the section \<open>sp\<close> changes its list and map only.\<close>

definition same_but :: "nat \<Rightarrow> conf_data \<Rightarrow> conf_data \<Rightarrow> bool" where
  "same_but sp data data' \<longleftrightarrow> cd_settings data' = cd_settings data \<and> cd_map data' = cd_map data
     \<and> length (cd_sections data') = length (cd_sections data)
     \<and> (\<forall>sp'. sp' \<noteq> sp \<longrightarrow> section_at data' sp' = section_at data sp')"

lemma same_but_refl [simp]: "same_but sp data data"
  by (simp add: same_but_def)

lemma same_but_trans: "same_but sp a b \<Longrightarrow> same_but sp b c \<Longrightarrow> same_but sp a c"
  by (simp add: same_but_def)

lemma same_but_setting: "same_but sp data data' \<Longrightarrow> setting_at data' = setting_at data"
  by (auto simp: same_but_def setting_at_def)

lemma inv_section_map:
  assumes "conf_inv data" and "sp < length (cd_sections data)"
  shows "hm_ok (sec_map (section_at data sp))" and "key_equiv (sec_map (section_at data sp))"
    and "same_key (sec_map (section_at data sp)) = same_name"
  using conf_ok_section [OF conf_inv_ok [OF assms(1)] assms(2)] str_map_ok_equiv
  by (auto simp: str_map_ok_def same_key_def same_name_def fun_eq_iff)

lemma erase_setting_ok:
  assumes "conf_inv data" and "sp < length (cd_sections data)"
    and "key_nodes (sec_map (section_at data sp)) name = l @ nd # r"
    and "iter_on (sec_map (section_at data sp)) name iter nd"
  shows "\<exists>iter2 data'. erase_setting sp iter data = Some (iter2, data') \<and> conf_inv data' \<and> same_but sp data data' \<and>
    (\<forall>name'. key_nodes (sec_map (section_at data' sp)) name' =
      (if same_name name name' then l @ r else key_nodes (sec_map (section_at data sp)) name')) \<and>
    (r = [] \<longrightarrow> it_node iter2 = None) \<and>
    (\<forall>nd2 r2. r = nd2 # r2 \<longrightarrow> iter_on (sec_map (section_at data' sp)) name iter2 nd2)"
proof -
  let ?m = "sec_map (section_at data sp)"
  note im = inv_section_map [OF assms(1,2)]
  from map_erase_key [OF im(1,2) assms(3,4)] obtain ret iter2
    where e: "map_erase iter ?m = Some (ret, iter2, map_remove_node nd ?m)" "r = [] \<longrightarrow> it_node iter2 = None"
      "\<forall>nd2 r2. r = nd2 # r2 \<longrightarrow> iter_on (map_remove_node nd ?m) name iter2 nd2" by blast
  note kn = key_nodes_remove [OF im(1,2) assms(3), unfolded im(3)]
  let ?f = "\<lambda>sec. sec\<lparr>sec_list := remove1 (the (it_value iter)) (sec_list sec), sec_map := map_remove_node nd ?m\<rparr>"
  let ?d = "upd_section sp ?f data"
  have er: "erase_setting sp iter data = Some (iter2, ?d)" using e(1) by (simp add: erase_setting_def)
  have so: "sec_ok (length (cd_settings data)) (section_at data sp)"
    by (rule conf_ok_sec_ok [OF conf_inv_ok [OF assms(1)] assms(2)])
  have "set (key_nodes (map_remove_node nd ?m) n) \<subseteq> set (key_nodes ?m n)" for n
    using kn(2) [of n] assms(3) key_nodes_congr [OF im(2), of name n] by (auto simp: im(3))
  then have "set (key_vals (map_remove_node nd ?m) n) \<subseteq> set (key_vals ?m n)" for n
    unfolding key_vals_nodes by (metis image_mono list.set_map)
  moreover have "str_map_ok (map_remove_node nd ?m)" using so kn(1) by (simp add: sec_ok_def str_map_ok_def)
  moreover have "set (remove1 (the (it_value iter)) (sec_list (section_at data sp))) \<subseteq> set (sec_list (section_at data sp))"
    by (rule set_remove1_subset)
  ultimately have so': "sec_ok (length (cd_settings data)) (?f (section_at data sp))"
    using so by (simp add: sec_ok_def) (meson order_trans)
  have ok: "conf_ok ?d" by (rule upd_section_ok [OF conf_inv_ok [OF assms(1)]]) (rule so')
  have "sec_name (section_at ?d i) = sec_name (section_at data i)" for i
    using assms(2) by (simp add: section_at_upd)
  moreover have "\<forall>n. func_malloc ?m n" using assms(1,2) by (auto simp: conf_inv_def section_at_def)
  ultimately have "conf_inv ?d" using assms(1) ok
    by (auto simp: conf_inv_def) (auto simp: upd_section_def dest!: set_update_subset_insert [THEN subsetD])
  moreover have "same_but sp data ?d"
    using assms(2) by (auto simp: same_but_def section_at_upd) (auto simp: upd_section_def)
  ultimately show ?thesis using er kn(2) e(2,3) assms(2)
    by (intro exI [of _ iter2] exI [of _ ?d]) (auto simp: section_at_upd)
qed

lemma remove_values_loop_ok:
  assumes "conf_inv data" and "sp < length (cd_sections data)"
    and "key_nodes (sec_map (section_at data sp)) name = l @ ns"
    and "case ns of [] \<Rightarrow> it_node iter = None | nd # _ \<Rightarrow> iter_on (sec_map (section_at data sp)) name iter nd"
    and "length ns < fuel"
  shows "\<exists>data'. remove_values_loop fuel sp uMode value_ptr iter data = Some data' \<and> conf_inv data' \<and>
    same_but sp data data' \<and>
    (\<forall>name'. sect_vals data' sp name' = (if same_name name name'
       then map (setting_at data \<circ> nd_value) l @ left_over (removes uMode value_ptr) (map (setting_at data \<circ> nd_value) ns)
       else sect_vals data sp name'))"
  using assms
proof (induction ns arbitrary: data l iter fuel)
  case Nil
  obtain f where f: "fuel = Suc f" using Nil.prems(5) by (cases fuel) auto
  note im = inv_section_map [OF Nil.prems(1,2)]
  have same: "sect_vals data sp name' = map (setting_at data \<circ> nd_value) l" if "same_name name name'" for name'
    using key_nodes_congr [OF im(2), of name name'] that im(3) Nil.prems(3) by (simp add: sect_vals_def key_vals_nodes)
  from f Nil.prems(1,4) same show ?case by (auto simp: left_over_def)
next
  case (Cons nd ns)
  obtain f where f: "fuel = Suc f" using Cons.prems(5) by (cases fuel) auto
  note im = inv_section_map [OF Cons.prems(1,2)]
  have on: "iter_on (sec_map (section_at data sp)) name iter nd" using Cons.prems(4) by simp
  then have it: "it_node iter = Some nd" "it_value iter = Some (nd_value nd)" by (auto simp: iter_on_def)
  let ?s = "setting_at data (nd_value nd)"
  have same: "sect_vals data sp name' = map (setting_at data \<circ> nd_value) (l @ nd # ns)" if "same_name name name'" for name'
    using key_nodes_congr [OF im(2), of name name'] that im(3) Cons.prems(3) by (simp add: sect_vals_def key_vals_nodes)
  show ?case
  proof (cases "cs_from_template ?s")
    case True
    with f it same Cons.prems(1) show ?thesis by (auto simp: left_over_def)
  next
    case own: False
    show ?thesis
    proof (cases "removes uMode value_ptr ?s")
      case True
      from erase_setting_ok [OF Cons.prems(1-3) on] obtain iter2 data1
        where e: "erase_setting sp iter data = Some (iter2, data1)" "conf_inv data1" "same_but sp data data1"
          "\<forall>name'. key_nodes (sec_map (section_at data1 sp)) name' =
            (if same_name name name' then l @ ns else key_nodes (sec_map (section_at data sp)) name')"
          "ns = [] \<longrightarrow> it_node iter2 = None"
          "\<forall>nd2 r2. ns = nd2 # r2 \<longrightarrow> iter_on (sec_map (section_at data1 sp)) name iter2 nd2" by blast
      have st: "remove_values_loop fuel sp uMode value_ptr iter data = remove_values_loop f sp uMode value_ptr iter2 data1"
        using f it own True e(1) by (simp add: Let_def removes_def)
      have lt: "sp < length (cd_sections data1)" using e(3) Cons.prems(2) by (simp add: same_but_def)
      have "case ns of [] \<Rightarrow> it_node iter2 = None | nd # _ \<Rightarrow> iter_on (sec_map (section_at data1 sp)) name iter2 nd"
        using e(5,6) by (cases ns) auto
      from Cons.IH [OF e(2) lt _ this, of l f] e(4) Cons.prems(5) f obtain data'
        where d: "remove_values_loop f sp uMode value_ptr iter2 data1 = Some data'" "conf_inv data'" "same_but sp data1 data'"
          "\<forall>name'. sect_vals data' sp name' = (if same_name name name'
             then map (setting_at data1 \<circ> nd_value) l @ left_over (removes uMode value_ptr) (map (setting_at data1 \<circ> nd_value) ns)
             else sect_vals data1 sp name')" by auto
      have "sect_vals data1 sp name' = sect_vals data sp name'" if "\<not> same_name name name'" for name'
        using e(4) that same_but_setting [OF e(3)] by (simp add: sect_vals_def key_vals_nodes)
      with st d same_but_trans [OF e(3) d(3)] own True show ?thesis
        by (auto simp: same_but_setting [OF e(3)] left_over_def)
    next
      case False
      let ?iter2 = "snd (map_next (sec_map (section_at data sp)) iter)"
      have st: "remove_values_loop fuel sp uMode value_ptr iter data = remove_values_loop f sp uMode value_ptr ?iter2 data"
        using f it own False by (auto simp: Let_def removes_def)
      have "case ns of [] \<Rightarrow> it_node ?iter2 = None | nd # _ \<Rightarrow> iter_on (sec_map (section_at data sp)) name ?iter2 nd"
        using iter_on_next [OF im(1,2) Cons.prems(3) on] by (cases ns) auto
      from Cons.IH [OF Cons.prems(1,2) _ this, of "l @ [nd]" f] Cons.prems(3,5) f st own False show ?thesis
        by (auto simp: left_over_def comp_def)
    qed
  qed
qed

lemma remove_values_ok:
  assumes "conf_inv data" and "sp < length (cd_sections data)" and "nnodes (sec_map (section_at data sp)) < fuel"
  shows "\<exists>data'. remove_values_loop fuel sp uMode value_ptr (iter_start data sp (map_key_iter name)) data = Some data' \<and>
    conf_inv data' \<and> same_but sp data data' \<and>
    (\<forall>name'. sect_vals data' sp name' = (if same_name name name'
       then left_over (removes uMode value_ptr) (sect_vals data sp name) else sect_vals data sp name'))"
proof -
  note im = inv_section_map [OF assms(1,2)]
  let ?m = "sec_map (section_at data sp)"
  let ?iter = "iter_start data sp (map_key_iter name)"
  have st: "case key_nodes ?m name of [] \<Rightarrow> it_node ?iter = None | nd # _ \<Rightarrow> iter_on ?m name ?iter nd"
  proof (cases "key_nodes ?m name")
    case Nil
    then show ?thesis using getref_key_nodes(1) [OF im(1), of name]
      by (auto simp: iter_start_def map_next_def map_key_iter_def map_iter_def Let_def)
  next
    case (Cons nd r)
    with iter_on_first [OF im(1) Cons] show ?thesis by (auto simp: iter_start_def)
  qed
  have "length (key_nodes ?m name) < fuel"
    using key_vals_le_nnodes [OF im(1), of name] assms(3) by (simp add: key_vals_nodes)
  moreover have "sect_vals data sp name = map (setting_at data \<circ> nd_value) (key_nodes ?m name)"
    by (simp add: sect_vals_def key_vals_nodes)
  ultimately show ?thesis
    using remove_values_loop_ok [OF assms(1,2) _ st, of "[]" fuel uMode value_ptr, unfolded list.map(1) append_Nil] by metis
qed

lemma mode_distinct [simp]: "CONF_UPDATE_VALUE \<noteq> CONF_REMOVE_SECTION" "CONF_APPEND_VALUE \<noteq> CONF_REMOVE_SECTION"
  "CONF_REMOVE_VALUE \<noteq> CONF_REMOVE_SECTION" "CONF_UPDATE_VALUE \<noteq> CONF_APPEND_VALUE"
  "CONF_UPDATE_VALUE \<noteq> CONF_REMOVE_VALUE" "CONF_APPEND_VALUE \<noteq> CONF_REMOVE_VALUE" "CONF_REMOVE_VALUE \<noteq> CONF_APPEND_VALUE"
  "CONF_UPDATE_VALUE \<noteq> CONF_UPDATE_TEMPLATES" "CONF_APPEND_VALUE \<noteq> CONF_UPDATE_TEMPLATES"
  "CONF_REMOVE_VALUE \<noteq> CONF_UPDATE_TEMPLATES"
  by (simp_all add: CONF_UPDATE_VALUE_def CONF_APPEND_VALUE_def CONF_REMOVE_VALUE_def CONF_REMOVE_SECTION_def
      CONF_UPDATE_TEMPLATES_def)

lemma left_over_all: "uMode \<noteq> CONF_REMOVE_VALUE \<Longrightarrow> left_over (removes uMode v) ss = dropWhile (\<lambda>s. \<not> cs_from_template s) ss"
  by (simp add: left_over_def removes_def)

lemma sect_vals_same:
  assumes "conf_inv data" and "sp < length (cd_sections data)" and "same_name name name'"
  shows "sect_vals data sp name' = sect_vals data sp name"
  using key_nodes_congr [OF inv_section_map(2) [OF assms(1,2)], of name name'] inv_section_map(3) [OF assms(1,2)] assms(3)
  by (simp add: sect_vals_def key_vals_nodes)

lemma update_templates_none:
  "\<not> wcsicmp_eq name Conf_Template \<Longrightarrow> uMode \<noteq> CONF_UPDATE_TEMPLATES \<Longrightarrow>
    update_templates fuel sp (Some name) v uMode data = Some (STATUS_SUCCESS, data)"
  by (simp add: update_templates_def)

lemma update_value_ok:
  assumes "conf_inv data" and "sp < length (cd_sections data)" and "\<not> wcsicmp_eq name Conf_Template"
    and "uMode = CONF_UPDATE_VALUE \<or> uMode = CONF_APPEND_VALUE"
    and "nnodes (sec_map (section_at data sp)) < fuel"
  shows "\<exists>data'. update_section fuel sp (Some name) (Some v) uMode data = Some (STATUS_SUCCESS, data')
    \<and> conf_inv data' \<and> cd_map data' = cd_map data
    \<and> (\<forall>name'. sect_vals data' sp name' = (if \<not> same_name name name' then sect_vals data sp name'
        else (if uMode = CONF_APPEND_VALUE then sect_vals data sp name'
              else dropWhile (\<lambda>s. \<not> cs_from_template s) (sect_vals data sp name'))
             @ [\<lparr>cs_name = name, cs_value = v, cs_from_template = False\<rparr>]))"
proof -
  have "\<exists>data1. (if uMode \<noteq> CONF_APPEND_VALUE
      then remove_values_loop fuel sp uMode (Some v) (iter_start data sp (map_key_iter name)) data else Some data) = Some data1
    \<and> conf_inv data1 \<and> same_but sp data data1 \<and> (\<forall>name'. sect_vals data1 sp name' =
      (if same_name name name' \<and> uMode \<noteq> CONF_APPEND_VALUE
       then dropWhile (\<lambda>s. \<not> cs_from_template s) (sect_vals data sp name') else sect_vals data sp name'))"
  proof (cases "uMode = CONF_APPEND_VALUE")
    case True
    with assms(1) show ?thesis by simp
  next
    case False
    with assms(4) have m: "uMode = CONF_UPDATE_VALUE" by simp
    from remove_values_ok [OF assms(1,2,5), of uMode "Some v" name] m sect_vals_same [OF assms(1,2)] show ?thesis
      by (auto simp: left_over_all)
  qed
  then obtain data1 where d1: "(if uMode \<noteq> CONF_APPEND_VALUE
      then remove_values_loop fuel sp uMode (Some v) (iter_start data sp (map_key_iter name)) data else Some data) = Some data1"
    "conf_inv data1" "same_but sp data data1" "\<forall>name'. sect_vals data1 sp name' =
      (if same_name name name' \<and> uMode \<noteq> CONF_APPEND_VALUE
       then dropWhile (\<lambda>s. \<not> cs_from_template s) (sect_vals data sp name') else sect_vals data sp name')" by blast
  have lt: "sp < length (cd_sections data1)" using d1(3) assms(2) by (simp add: same_but_def)
  note r = Conf_Add_Setting_room [OF d1(2) lt, of name v True]
  let ?d = "snd (Conf_Add_Setting sp name v True data1)"
  have m: "uMode \<noteq> CONF_REMOVE_SECTION" "uMode \<noteq> CONF_REMOVE_VALUE" "uMode \<noteq> CONF_UPDATE_TEMPLATES"
    using assms(4) by (elim disjE, simp_all)+
  have "update_section fuel sp (Some name) (Some v) uMode data = (case (if uMode \<noteq> CONF_APPEND_VALUE
      then remove_values_loop fuel sp uMode (Some v) (iter_start data sp (map_key_iter name)) data else Some data) of
        None \<Rightarrow> None
      | Some data1 \<Rightarrow> (case Conf_Add_Setting sp name v True data1 of
          (None, data2) \<Rightarrow> Some (STATUS_INSUFFICIENT_RESOURCES, data2)
        | (Some _, data2) \<Rightarrow> update_templates fuel sp (Some name) (Some v) uMode data2))"
    using assms(4) m by (simp add: update_section_def cong: option.case_cong)
  then have up: "update_section fuel sp (Some name) (Some v) uMode data = Some (STATUS_SUCCESS, ?d)"
    unfolding d1(1) using r(1) update_templates_none [OF assms(3) m(3)] by (auto split: prod.splits option.splits)
  have "cd_map ?d = cd_map data" using r(3) d1(3) by (simp add: same_but_def)
  with up r(2) Conf_Add_Setting_vals(3) [OF conf_inv_ok [OF d1(2)] lt lt r(1)] d1(4) show ?thesis by auto
qed

text \<open>
  C29.  Setting a value at run time, in a section that exists and for a setting other than \<^verbatim>\<open>Template\<close> (for which the
  settings of templates change too): \<^const>\<open>Conf_Update\<close> with \<^const>\<open>CONF_APPEND_VALUE\<close> adds the value behind all
  values of the setting, those from templates included; with \<^const>\<open>CONF_UPDATE_VALUE\<close> it first removes the values
  up to the first one that came from a template.  Other settings keep their values, and the configuration stays
  well formed.  So after the update a value of the section itself stands behind those of templates, against the
  comment in \<^verbatim>\<open>Conf_Get_Helper\<close> that template settings come after all others, with the effect shown below.
\<close>

theorem Conf_Update_value:
  assumes "conf_inv data" and "Conf_Find_Sections data sect = Some sp" and "\<not> wcsicmp_eq name Conf_Template"
    and "uMode = CONF_UPDATE_VALUE \<or> uMode = CONF_APPEND_VALUE"
    and "nnodes (sec_map (section_at data sp)) < fuel"
  shows "\<exists>data'. Conf_Update fuel sect (Some name) (Some v) uMode data = Some (STATUS_SUCCESS, data')
    \<and> conf_inv data' \<and> Conf_Find_Sections data' sect = Some sp
    \<and> (\<forall>name'. sect_vals data' sp name' = (if \<not> same_name name name' then sect_vals data sp name'
        else (if uMode = CONF_APPEND_VALUE then sect_vals data sp name'
              else dropWhile (\<lambda>s. \<not> cs_from_template s) (sect_vals data sp name'))
             @ [\<lparr>cs_name = name, cs_value = v, cs_from_template = False\<rparr>]))"
  using update_value_ok [OF assms(1) Conf_Find_Sections_lt [OF conf_inv_ok [OF assms(1)] assms(2)] assms(3-5), of v] assms(2)
  by (auto simp: Conf_Update_def Conf_Find_Sections_def)

theorem Conf_Update_value_witness:
  "\<exists>fuel data'. Conf_Update fuel ''Box'' (Some ''A'') (Some ''new'') CONF_UPDATE_VALUE (loaded demo_ini) = Some (STATUS_SUCCESS, data')
     \<and> conf_inv data' \<and> conf_values data' ''Box'' ''Template'' = [''X'']"
proof -
  have "\<exists>x \<in> set demo_ini. same_name (fst x) ''Box''" by code_simp
  then obtain sp where f: "Conf_Find_Sections (loaded demo_ini) ''Box'' = Some sp" by (rule loaded_witness)
  have n: "\<not> wcsicmp_eq ''A'' Conf_Template" "\<not> same_name ''A'' ''Template''" by code_simp+
  have v: "conf_values (loaded demo_ini) ''Box'' ''Template'' = [''X'']" unfolding loaded_facts(3) by code_simp
  from Conf_Update_value [OF loaded_facts(1) f n(1) disjI1 [OF refl] lessI, of "''new''"] obtain data'
    where d: "Conf_Update (Suc (nnodes (sec_map (section_at (loaded demo_ini) sp)))) ''Box'' (Some ''A'') (Some ''new'')
        CONF_UPDATE_VALUE (loaded demo_ini) = Some (STATUS_SUCCESS, data')" "conf_inv data'"
      "Conf_Find_Sections data' ''Box'' = Some sp" "sect_vals data' sp ''Template'' = sect_vals (loaded demo_ini) sp ''Template''"
    using n(2) by auto
  have "conf_values data' ''Box'' ''Template'' = [''X'']" using v f d(3,4) by (simp add: conf_values_def)
  with d show ?thesis by blast
qed

text \<open>
   A value set at run time is hidden behind a value from a template: if the first value of a setting
  came from a template, a lookup after the update still returns the value of the template, and a
  lookup without templates returns what the global section has.  In the file, and after a reload, the
  section's own value comes first.
\<close>

theorem Conf_Update_hidden:
  assumes "conf_inv data" and "Conf_Find_Sections data sect = Some sp" and "\<not> wcsicmp_eq name Conf_Template"
    and "sect \<noteq> []" and "name \<noteq> []" and "sect_vals data sp name = s # ss" and "cs_from_template s"
    and "nnodes (sec_map (section_at data sp)) < fuel"
  shows "\<exists>data'. Conf_Update fuel sect (Some name) (Some v) CONF_UPDATE_VALUE data = Some (STATUS_SUCCESS, data')
    \<and> Conf_Get data' (Some sect) (Some name) 0 = Some (cs_value s)
    \<and> fst (Conf_Get_Helper data' sect name 0 True) = None"
proof -
  note lt = Conf_Find_Sections_lt [OF conf_inv_ok [OF assms(1)] assms(2)]
  from update_value_ok [OF assms(1) lt assms(3) _ assms(8), of CONF_UPDATE_VALUE v] assms(6,7) obtain data'
    where d: "update_section fuel sp (Some name) (Some v) CONF_UPDATE_VALUE data = Some (STATUS_SUCCESS, data')"
      "conf_inv data'" "cd_map data' = cd_map data"
      "sect_vals data' sp name = s # ss @ [\<lparr>cs_name = name, cs_value = v, cs_from_template = False\<rparr>]"
    by auto
  have f: "Conf_Find_Sections data' sect = Some sp" using assms(2) d(3) by (simp add: Conf_Find_Sections_def)
  have "Conf_Get data' (Some sect) (Some name) 0 = Some (cs_value s)"
    using Conf_Get_nth [OF conf_inv_ok [OF d(2)] assms(4,5), of 0] f d(4) by (simp add: enum_values_def conf_values_def)
  moreover have "fst (Conf_Get_Helper data' sect name 0 True) = None"
  proof -
    have "key_settings (section_at data' sp) name = key_vals (sec_map (section_at data' sp)) name"
      by (rule key_settings_vals, rule conf_ok_section [OF conf_inv_ok [OF d(2)] Conf_Find_Sections_lt [OF conf_inv_ok [OF d(2)] f]])
    moreover from d(4) obtain p ps where "key_vals (sec_map (section_at data' sp)) name = p # ps" "setting_at data' p = s"
      by (auto simp: sect_vals_def)
    ultimately show ?thesis using f assms(7) by (simp add: Conf_Get_Helper_def Let_def)
  qed
  ultimately show ?thesis using d(1) assms(2) by (auto simp: Conf_Update_def)
qed

theorem Conf_Update_hidden_witness:
  "\<exists>data fuel data'. conf_inv data \<and>
     Conf_Update fuel ''Box'' (Some ''A'') (Some ''own'') CONF_UPDATE_VALUE data = Some (STATUS_SUCCESS, data') \<and>
     Conf_Get data' (Some ''Box'') (Some ''A'') 0 = Some ''tmpl''"
proof -
  let ?l = "loaded [(''Box'', [])]" and ?s = "\<lparr>cs_name = ''A'', cs_value = ''tmpl'', cs_from_template = True\<rparr>"
  have "\<exists>x \<in> set [(''Box'', [])]. same_name (fst x) ''Box''" by simp
  then obtain sp where f: "Conf_Find_Sections ?l ''Box'' = Some sp" by (rule loaded_witness)
  let ?d = "merge_setting sp ?s ?l"
  note lt = Conf_Find_Sections_lt [OF conf_inv_ok [OF loaded_facts(1)] f]
  note m = merge_setting_ok [OF loaded_facts(1) lt, of ?s]
  have "map cs_value (sect_vals ?l sp ''A'') = []"
    using loaded_facts(3) [of "[(''Box'', [])]" "''Box''" "''A''"] f by (simp add: conf_values_def ini_values_def)
  then have v: "sect_vals ?d sp ''A'' = [?s]" using m(3) [of "''A''"] by simp
  have f': "Conf_Find_Sections ?d ''Box'' = Some sp" using m(2) f by (simp add: keeps_def Conf_Find_Sections_def)
  have "\<not> wcsicmp_eq ''A'' Conf_Template" by code_simp
  from Conf_Update_hidden [OF m(1) f' this _ _ v _ lessI, of "''own''"] m(1) show ?thesis by auto
qed

text \<open>
   Removing values at run time: \<^const>\<open>Conf_Update\<close> with \<^const>\<open>CONF_REMOVE_VALUE\<close> removes, of the values before
  the first from a template, all or those equal to the given one up to case, and leaves every other
  setting alone.
\<close>

theorem Conf_Update_remove:
  assumes "conf_inv data" and "Conf_Find_Sections data sect = Some sp" and "\<not> wcsicmp_eq name Conf_Template"
    and "nnodes (sec_map (section_at data sp)) < fuel"
  shows "\<exists>data'. Conf_Update fuel sect (Some name) value_ptr CONF_REMOVE_VALUE data = Some (STATUS_SUCCESS, data')
    \<and> conf_inv data' \<and> Conf_Find_Sections data' sect = Some sp
    \<and> (\<forall>name'. sect_vals data' sp name' = (if \<not> same_name name name' then sect_vals data sp name'
        else filter (\<lambda>s. \<exists>v. value_ptr = Some v \<and> \<not> wcsicmp_eq (cs_value s) v)
               (takeWhile (\<lambda>s. \<not> cs_from_template s) (sect_vals data sp name'))
             @ dropWhile (\<lambda>s. \<not> cs_from_template s) (sect_vals data sp name')))"
proof -
  note lt = Conf_Find_Sections_lt [OF conf_inv_ok [OF assms(1)] assms(2)]
  have rm: "(\<lambda>s. \<not> removes CONF_REMOVE_VALUE value_ptr s) = (\<lambda>s. \<exists>v. value_ptr = Some v \<and> \<not> wcsicmp_eq (cs_value s) v)"
    by (auto simp: removes_def fun_eq_iff)
  from remove_values_ok [OF assms(1) lt assms(4), of CONF_REMOVE_VALUE value_ptr name] obtain data'
    where d: "remove_values_loop fuel sp CONF_REMOVE_VALUE value_ptr (iter_start data sp (map_key_iter name)) data = Some data'"
      "conf_inv data'" "same_but sp data data'"
      "\<forall>name'. sect_vals data' sp name' = (if same_name name name'
         then left_over (removes CONF_REMOVE_VALUE value_ptr) (sect_vals data sp name) else sect_vals data sp name')" by blast
  have "Conf_Update fuel sect (Some name) value_ptr CONF_REMOVE_VALUE data = Some (STATUS_SUCCESS, data')"
    using assms(2) d(1) update_templates_none [OF assms(3)] by (simp add: Conf_Update_def update_section_def)
  moreover have "Conf_Find_Sections data' sect = Some sp" using d(3) assms(2) by (simp add: same_but_def Conf_Find_Sections_def)
  ultimately show ?thesis using d(2,4) sect_vals_same [OF assms(1) lt] by (auto simp: left_over_def rm)
qed

theorem Conf_Update_remove_witness:
  "\<exists>fuel data'. Conf_Update fuel ''Box'' (Some ''A'') None CONF_REMOVE_VALUE (loaded demo_ini) = Some (STATUS_SUCCESS, data')
     \<and> conf_inv data' \<and> conf_values data' ''Box'' ''Template'' = [''X'']"
proof -
  have "\<exists>x \<in> set demo_ini. same_name (fst x) ''Box''" by code_simp
  then obtain sp where f: "Conf_Find_Sections (loaded demo_ini) ''Box'' = Some sp" by (rule loaded_witness)
  have n: "\<not> wcsicmp_eq ''A'' Conf_Template" "\<not> same_name ''A'' ''Template''" by code_simp+
  have v: "conf_values (loaded demo_ini) ''Box'' ''Template'' = [''X'']" unfolding loaded_facts(3) by code_simp
  from Conf_Update_remove [OF loaded_facts(1) f n(1) lessI, of None] obtain data'
    where d: "Conf_Update (Suc (nnodes (sec_map (section_at (loaded demo_ini) sp)))) ''Box'' (Some ''A'') None
        CONF_REMOVE_VALUE (loaded demo_ini) = Some (STATUS_SUCCESS, data')" "conf_inv data'"
      "Conf_Find_Sections data' ''Box'' = Some sp" "sect_vals data' sp ''Template'' = sect_vals (loaded demo_ini) sp ''Template''"
    using n(2) by auto
  have "conf_values data' ''Box'' ''Template'' = [''X'']" using v f d(3,4) by (simp add: conf_values_def)
  with d show ?thesis by blast
qed

section \<open>Reloading\<close>

lemma import_virtual_exists:
  assumes "sec_is_virtual (section_at cur sp)" and "map_get (cd_map data) (sec_name (section_at cur sp)) \<noteq> None"
    and "\<forall>x \<in> set pre. \<not> sec_is_virtual (section_at cur x)"
  shows "import_virtual fuel cur (pre @ sp # sps) st data = Some (STATUS_OBJECT_NAME_EXISTS, data)"
  using assms by (induction pre) (auto simp: Let_def)

text \<open>
  C38.  A name clash with a section made at run time turns a failed reload into a success: if reading
  Sandboxie.ini fails, and what has been read up to the error has a section with the name of the
  first virtual section, \<^const>\<open>Conf_Read\<close> returns \<^const>\<open>STATUS_OBJECT_NAME_EXISTS\<close>, which \<^const>\<open>NT_SUCCESS\<close>
  accepts, and the incomplete data replaces the configuration.
\<close>

theorem Conf_Read_masks_error:
  assumes "read_file file False ((conf_empty alloc)\<lparr>cd_home := home, cd_path := path\<rparr>) = (st, data)"
    and "\<not> NT_SUCCESS st" and "cd_order cur = pre @ sp # sps"
    and "\<forall>x \<in> set pre. \<not> sec_is_virtual (section_at cur x)" and "sec_is_virtual (section_at cur sp)"
    and "map_get (cd_map data) (sec_name (section_at cur sp)) \<noteq> None"
  shows "Conf_Read fuel alloc home path includes (Some file) templates (Some cur) = Some (STATUS_OBJECT_NAME_EXISTS, Some data)
    \<and> NT_SUCCESS STATUS_OBJECT_NAME_EXISTS"
  using assms(1,2) import_virtual_exists [OF assms(5,6,4), of fuel sps st] assms(3)
  by (simp add: Conf_Read_def NT_SUCCESS_def STATUS_OBJECT_NAME_EXISTS_def)

definition virtual_box :: conf_data where
  "virtual_box = upd_section 0 (\<lambda>sec. sec\<lparr>sec_is_virtual := True\<rparr>) (put_header False ''Box'' (conf_empty (\<lambda>_ _. True)))"

theorem Conf_Read_masks_error_witness:
  "\<exists>data. Conf_Read 1 (\<lambda>_ _. True) True None (\<lambda>d. d) (Some (STATUS_SUCCESS, \<lparr>st_units = ''[Box]'' @ [LF] @ ''junk'', st_end = STATUS_END_OF_FILE\<rparr>))
     (Inl STATUS_OBJECT_NAME_NOT_FOUND) (Some virtual_box) = Some (STATUS_OBJECT_NAME_EXISTS, Some data)"
proof -
  let ?file = "(STATUS_SUCCESS, \<lparr>st_units = ''[Box]'' @ [LF] @ ''junk'', st_end = STATUS_END_OF_FILE\<rparr>)"
  let ?e = "(conf_empty (\<lambda>_ _. True))\<lparr>cd_home := True, cd_path := None\<rparr>"
  obtain st data where r: "read_file ?file False ?e = (st, data)" by (cases "read_file ?file False ?e")
  have "\<not> NT_SUCCESS (fst (read_file ?file False ?e))" by code_simp
  then have st: "\<not> NT_SUCCESS st" unfolding r by simp
  have v: "cd_order virtual_box = [] @ 0 # []" "sec_is_virtual (section_at virtual_box 0)" "sec_name (section_at virtual_box 0) = ''Box''"
    by code_simp+
  have "map_get (cd_map (snd (read_file ?file False ?e))) ''Box'' \<noteq> None" by code_simp
  then have "map_get (cd_map data) (sec_name (section_at virtual_box 0)) \<noteq> None" unfolding r v(3) by simp
  from Conf_Read_masks_error [OF r st v(1) _ v(2) this] show ?thesis by simp
qed

end
