(* ===== verification/SettingsFlow.thy ===== *)
theory SettingsFlow
  imports WfpCorrect ConfUpdate
begin

text \<open>
  The way of a setting from the file to its users: the loops that count the index of \<^verbatim>\<open>Conf_Get\<close> up, over the
  interface of the configuration, and the environment of the process rules and of the network
  filter when the configuration was read from a file.
\<close>

section \<open>Settings by index\<close>

text \<open>
  Every user of the settings enumerates them in a loop that counts the index up until \<^verbatim>\<open>Conf_Get\<close> returns NULL;
  \<^const>\<open>None\<close> is missing fuel.
\<close>

fun conf_loop :: "nat \<Rightarrow> (u32 \<Rightarrow> 'v option) \<Rightarrow> nat \<Rightarrow> 'v list option" where
  "conf_loop 0 get index = None"
| "conf_loop (Suc fuel) get index =
     (case get (of_nat index) of None \<Rightarrow> Some [] | Some v \<Rightarrow> map_option ((#) v) (conf_loop fuel get (index + 1)))"

text \<open>What the users of the settings rely on: an index below \<open>2^24\<close> gives the value at that place.\<close>

locale conf_provider =
  fixes inv :: "'d \<Rightarrow> bool"
    and named :: "'s \<Rightarrow> bool"
    and get :: "'d \<Rightarrow> 's \<Rightarrow> 's \<Rightarrow> u32 \<Rightarrow> 'v option"
    and vals :: "'d \<Rightarrow> 's \<Rightarrow> 's \<Rightarrow> 'v list"
  assumes get_nth: "inv d \<Longrightarrow> named s \<Longrightarrow> named t \<Longrightarrow> i < 2 ^ 24 \<Longrightarrow>
      get d s t (of_nat i) = (if i < length (vals d s t) then Some (vals d s t ! i) else None)"
begin

lemma loop_from:
  assumes "inv d" "named s" "named t" "length (vals d s t) < 2 ^ 24"
  shows "i \<le> length (vals d s t) \<Longrightarrow> length (vals d s t) - i < fuel \<Longrightarrow> conf_loop fuel (get d s t) i = Some (drop i (vals d s t))"
proof (induction fuel arbitrary: i)
  case (Suc fuel)
  have g: "get d s t (of_nat i) = (if i < length (vals d s t) then Some (vals d s t ! i) else None)"
    using Suc.prems(1) assms by (intro get_nth) auto
  show ?case
  proof (cases "i < length (vals d s t)")
    case True
    with Suc g show ?thesis by (simp add: Cons_nth_drop_Suc)
  next
    case False
    with Suc.prems g show ?thesis by simp
  qed
qed simp

lemma loop_all:
  assumes "inv d" "named s" "named t" "length (vals d s t) < 2 ^ 24" "length (vals d s t) < fuel"
  shows "conf_loop fuel (get d s t) 0 = Some (vals d s t)"
  using loop_from [OF assms(1-4), of 0 fuel] assms(5) by simp

end

interpretation cp: conf_provider conf_ok "\<lambda>s. s \<noteq> []" "\<lambda>data sect name. Conf_Get data (Some sect) (Some name)" enum_values
  by unfold_locales (rule Conf_Get_nth)

text \<open>The environment of the driver whose settings come from loaded configuration data.\<close>

definition data_env :: "nat \<Rightarrow> conf_data \<Rightarrow> conf_env \<Rightarrow> conf_env" where
  "data_env fuel data base =
     base\<lparr>env_conf := (\<lambda>sect name. case conf_loop fuel (Conf_Get data (Some sect) (Some name)) 0 of None \<Rightarrow> [] | Some vs \<Rightarrow> vs)\<rparr>"

text \<open>The values a file gives for a setting of a section, with those of GlobalSettings behind them.\<close>

definition file_values :: "(wstring \<times> (wstring \<times> wstring) list) list \<Rightarrow> wstring \<Rightarrow> wstring \<Rightarrow> wstring list" where
  "file_values ini sect name = ini_values ini sect name @
     (if wcsicmp_eq sect Conf_GlobalSettings then [] else ini_values ini Conf_GlobalSettings name)"

text \<open>
  The data after \<^verbatim>\<open>Conf_Read_Sections\<close> of one file.  The files it includes and the merging of templates, which \<^verbatim>\<open>Conf_Read\<close>
  does behind it, are not part of this.
\<close>

definition read_ini :: "(wstring \<times> (wstring \<times> wstring) list) list \<Rightarrow> conf_data" where
  "read_ini ini = snd (snd (Conf_Read_Sections \<lparr>st_units = ini_text ini, st_end = STATUS_END_OF_FILE\<rparr> (conf_empty (\<lambda>_ _. True)) 1 False))"

definition conf_fuel :: nat where "conf_fuel = 2 * nat CONF_MAX_LINES + 1"

lemma length_ini_values: "length (ini_values ini s name) \<le> ini_lines ini"
proof (induction ini)
  case (Cons x ini)
  obtain s' kvs where x: "x = (s', kvs)" by (cases x)
  have "length (filter (\<lambda>kv. same_name (fst kv) name) kvs) \<le> length kvs" by (rule length_filter_le)
  with Cons show ?case by (simp add: ini_values_def ini_lines_def x del: length_filter_le)
qed (simp add: ini_values_def)

lemma read_ini_loaded: "valid_ini ini \<Longrightarrow> ini \<noteq> [] \<Longrightarrow> read_ini ini = loaded ini"
  using Conf_Read_Sections_text [OF conf_inv_empty, of ini False] by (simp add: read_ini_def loaded_def)

lemma file_env:
  assumes "valid_ini ini" "ini \<noteq> []" "sect \<noteq> []" "name \<noteq> []"
  shows "env_conf (data_env conf_fuel (read_ini ini) base) sect name = file_values ini sect name"
proof -
  note r = read_ini_loaded [OF assms(1,2)]
  have ok: "conf_ok (read_ini ini)" unfolding r by (rule conf_inv_ok [OF loaded_facts(1)])
  have v: "enum_values (read_ini ini) sect name = file_values ini sect name"
    unfolding enum_values_def file_values_def r loaded_facts(3) by simp
  have l: "length (file_values ini sect name) \<le> 2 * ini_lines ini"
    using length_ini_values [of ini sect name] length_ini_values [of ini Conf_GlobalSettings name] by (simp add: file_values_def)
  have "ini_lines ini < nat CONF_MAX_LINES" using assms(1) by (auto simp: valid_ini_def CONF_MAX_LINES_def)
  with l have "length (file_values ini sect name) < conf_fuel" "length (file_values ini sect name) < 2 ^ 24"
    by (simp_all add: conf_fuel_def CONF_MAX_LINES_def)
  with cp.loop_all [OF ok assms(3,4)] v show ?thesis by (simp add: data_env_def)
qed

end
