(* ===== verification/Troubleshooting.thy ===== *)
theory Troubleshooting
  imports SbiePrelude "HOL-Library.Multiset"
begin

text \<open>
  The troubleshooting wizard of SandMan: the scripts under
  \<^verbatim>\<open>SandMan/Troubleshooting\<close> and the engine that runs them
  (\<^verbatim>\<open>SandMan/Engine/BoxEngine.cpp\<close>, \<^verbatim>\<open>WizardObject.h\<close>, \<^verbatim>\<open>BoxObject.cpp\<close>).  A script is a state
  transformer over the state of its engine; the calls it makes to the user interface, to the
  sandbox API and to the system are recorded in a trace, and what they answer comes from a host,
  which is a parameter of every script.
\<close>

section \<open>Data\<close>

abbreviation NL :: wchar where "NL \<equiv> CHR 0x0A"
abbreviation DQ :: wchar where "DQ \<equiv> CHR 0x22"

text \<open>The values the scripts handle.\<close>

datatype jsval = JUndef | JStr wstring | JBool bool | JInt int

definition truthy :: "jsval \<Rightarrow> bool" where
  "truthy v = (case v of JUndef \<Rightarrow> False | JStr s \<Rightarrow> s \<noteq> [] | JBool b \<Rightarrow> b | JInt i \<Rightarrow> i \<noteq> 0)"

definition js_text :: "jsval \<Rightarrow> wstring" where
  "js_text v = (case v of JStr s \<Rightarrow> s | _ \<Rightarrow> [])"

text \<open>The text of a value in a string concatenation, and of an array of strings.\<close>

fun js_nat :: "nat \<Rightarrow> wstring" where
  "js_nat n = (if n < 10 then [char_of (48 + n)] else js_nat (n div 10) @ [char_of (48 + n mod 10)])"

definition js_show :: "jsval \<Rightarrow> wstring" where
  "js_show v = (case v of
       JUndef \<Rightarrow> ''undefined''
     | JStr s \<Rightarrow> s
     | JBool b \<Rightarrow> (if b then ''true'' else ''false'')
     | JInt i \<Rightarrow> (if i < 0 then CHR ''-'' # js_nat (nat (- i)) else js_nat (nat i)))"

fun js_join :: "wstring list \<Rightarrow> wstring" where
  "js_join [] = []"
| "js_join [x] = x"
| "js_join (x # xs) = x @ '','' @ js_join xs"

text \<open>\<^verbatim>\<open>CBoxEngine::EState\<close>.\<close>

datatype EState = eUnknown | eRunning | eRunningAsync | eReady | eQuery
  | eCompleted | eSuccess | eFailed | eError | eCanceled

text \<open>A field of a form: id, name, type.\<close>

type_synonym field = "wstring \<times> wstring \<times> wstring"

text \<open>The calls a script makes.\<close>

datatype effect =
    ShowForm "field list" wstring
  | ShowStatus wstring bool
  | OpenOptions jsval wstring
  | GetBox wstring
  | SetIniValue wstring wstring wstring
  | AppendIniValue wstring wstring wstring
  | DelIniValue wstring wstring
  | ApplyChanges wstring
  | StartBox wstring
  | StartTask wstring wstring
  | Terminate wstring
  | MakeShortcut wstring wstring wstring
  | ShellRemove
  | ShellInstall "wstring \<Rightarrow> jsval"
  | SetupTrace
  | Execute wstring wstring
  | SysLog wstring

text \<open>
  What the calls answer: a form (from the calls made so far), the state in which the engine wakes
  up after waiting, and the functions of \<^verbatim>\<open>system\<close> and \<^verbatim>\<open>sbie\<close>.
\<close>

record host =
  h_form :: "effect list \<Rightarrow> field list \<Rightarrow> wstring \<Rightarrow> jsval"
  h_resume :: "effect list \<Rightarrow> EState"
  h_tr :: "wstring \<Rightarrow> wstring list \<Rightarrow> wstring"
  h_box :: "wstring \<Rightarrow> bool"
  h_ini_bool :: "wstring \<Rightarrow> wstring \<Rightarrow> bool"
  h_feature :: "wstring \<Rightarrow> bool"
  h_expand :: "wstring \<Rightarrow> wstring"
  h_expandPath :: "wstring \<Rightarrow> wstring"
  h_checkFile :: "wstring \<Rightarrow> bool"
  h_version :: nat
  h_pid :: "wstring \<Rightarrow> wstring"
  h_execute :: "wstring \<Rightarrow> wstring \<Rightarrow> jsval \<times> int"

text \<open>The state: \<^verbatim>\<open>m_State\<close>, \<^verbatim>\<open>m_Report\<close>, the global variables of the scripts, the trace.\<close>

record js =
  m_State :: EState
  m_Report :: "wstring \<rightharpoonup> wstring"
  g_boxName :: jsval
  g_processName :: jsval
  g_msgCode :: jsval
  g_docLink :: jsval
  g_sbieMsg :: jsval
  g_msgData :: "wstring list option"
  js_trace :: "effect list"

text \<open>A script: \<^const>\<open>None\<close> is an exception.\<close>

type_synonym 'a script = "js \<Rightarrow> 'a option \<times> js"

definition ret_js :: "'a \<Rightarrow> 'a script" where
  "ret_js x s = (Some x, s)"

definition throw :: "'a script" where
  "throw s = (None, s)"

definition seq :: "'a script \<Rightarrow> ('a \<Rightarrow> 'b script) \<Rightarrow> 'b script" where
  "seq f g s = (case f s of (None, s') \<Rightarrow> (None, s') | (Some x, s') \<Rightarrow> g x s')"

definition emit :: "effect \<Rightarrow> unit script" where
  "emit e s = (Some (), s\<lparr>js_trace := js_trace s @ [e]\<rparr>)"

definition get_js :: "(js \<Rightarrow> 'a) \<Rightarrow> 'a script" where
  "get_js f s = (Some (f s), s)"

definition upd_js :: "(js \<Rightarrow> js) \<Rightarrow> unit script" where
  "upd_js f s = (Some (), f s)"

section \<open>The engine\<close>

definition IsRunning :: "EState \<Rightarrow> bool" where
  "IsRunning st \<longleftrightarrow> st = eRunning \<or> st = eRunningAsync"

text \<open>\<^verbatim>\<open>CWizardEngine::SetState\<close>: failures and errors with a text go into the report.\<close>

definition SetState :: "EState \<Rightarrow> wstring \<Rightarrow> js \<Rightarrow> js" where
  "SetState st txt s =
     s\<lparr>m_State := st,
       m_Report := (if txt = [] then m_Report s
                    else if st = eError then (m_Report s)(''Error'' \<mapsto> txt)
                    else if st = eFailed then (m_Report s)(''Failure'' \<mapsto> txt)
                    else m_Report s)\<rparr>"

text \<open>\<^verbatim>\<open>TestRunning\<close> throws "Canceled" when the engine is no longer running.\<close>

definition TestRunning :: "unit script" where
  "TestRunning s = (if IsRunning (m_State s) then (Some (), s) else (None, s))"

text \<open>\<^verbatim>\<open>WaitLocked\<close>: another thread has set the state (\<^verbatim>\<open>Continue\<close>, \<^verbatim>\<open>Stop\<close>) when it returns.\<close>

definition WaitLocked :: "host \<Rightarrow> unit script" where
  "WaitLocked h s = TestRunning (s\<lparr>m_State := h_resume h (js_trace s)\<rparr>)"

text \<open>
  \<^verbatim>\<open>CBoxEngine::Stop\<close> sets the state of an engine that is still running; a waiting engine wakes up
  canceled.
\<close>

definition Stop :: "EState \<Rightarrow> EState" where
  "Stop st = (if st = eQuery \<or> st = eReady then eCanceled
              else if st = eRunning \<or> st = eRunningAsync then eCanceled else st)"

text \<open>\<^verbatim>\<open>JWizardObject\<close>.\<close>

definition showForm :: "host \<Rightarrow> field list \<Rightarrow> wstring \<Rightarrow> (wstring \<Rightarrow> jsval) script" where
  "showForm h form txt =
     seq TestRunning (\<lambda>_.
     seq (emit (ShowForm form txt)) (\<lambda>_.
     seq (upd_js (SetState eQuery [])) (\<lambda>_.
     seq (WaitLocked h) (\<lambda>_.
     get_js (\<lambda>s. h_form h (js_trace s) form)))))"

definition showStatus :: "host \<Rightarrow> wstring \<Rightarrow> bool \<Rightarrow> unit script" where
  "showStatus h txt bWait =
     seq TestRunning (\<lambda>_.
     seq (emit (ShowStatus txt bWait)) (\<lambda>_.
     seq (upd_js (SetState (if bWait then eReady else eRunningAsync) txt)) (\<lambda>_.
     if bWait then WaitLocked h else ret_js ())))"

definition setResult :: "bool \<Rightarrow> wstring \<Rightarrow> unit script" where
  "setResult bSuccess txt =
     seq TestRunning (\<lambda>_.
     upd_js (if bSuccess then SetState eSuccess [] else SetState eFailed txt))"

definition reportAdd :: "wstring \<Rightarrow> wstring \<Rightarrow> unit script" where
  "reportAdd name value = upd_js (\<lambda>s. s\<lparr>m_Report := (m_Report s)(name \<mapsto> value)\<rparr>)"

text \<open>
  \<^verbatim>\<open>JWizardObject::openOptions\<close>; \<^verbatim>\<open>CWizardEngine::OpenOptions\<close> sets the state \<^const>\<open>eReady\<close> and continues
  when the window is closed, or at once when there is no such box.
\<close>

definition openOptions_wiz :: "host \<Rightarrow> jsval \<Rightarrow> wstring \<Rightarrow> unit script" where
  "openOptions_wiz h box page =
     seq TestRunning (\<lambda>_.
     seq (emit (OpenOptions box page)) (\<lambda>_.
     seq (upd_js (SetState eReady [])) (\<lambda>_.
     WaitLocked h)))"

text \<open>
  \<^verbatim>\<open>CBoxEngine::run\<close>: the script is evaluated, and a state that is still running becomes the error
  of an exception or "completed".  \<open>err\<close> is the text of the exception.
\<close>

definition run :: "'a script \<Rightarrow> wstring \<Rightarrow> js \<Rightarrow> js" where
  "run script err s =
     (case script s of (r, s') \<Rightarrow>
        if IsRunning (m_State s') then
          (case r of None \<Rightarrow> SetState eError err s' | Some _ \<Rightarrow> SetState eCompleted [] s')
        else s')"

text \<open>\<^verbatim>\<open>CRunPage::nextId\<close>: only a success leads to the last page, all else to the report.\<close>

datatype page = Page_Begin | Page_Group | Page_List | Page_Run | Page_Submit | Page_Complete | Page_Next nat

definition CRunPage_nextId :: "js \<Rightarrow> page" where
  "CRunPage_nextId s = (if m_State s = eSuccess then Page_Complete else Page_Submit)"

text \<open>The objects of \<^verbatim>\<open>sbie.getBox\<close>: null when there is no such box.\<close>

definition getBox :: "host \<Rightarrow> jsval \<Rightarrow> wstring script" where
  "getBox h name =
     seq (emit (GetBox (js_text name))) (\<lambda>_.
     ret_js (js_text name))"

text \<open>A call on the object of a box throws if the object is null.\<close>

definition box_call :: "host \<Rightarrow> wstring \<Rightarrow> effect \<Rightarrow> unit script" where
  "box_call h box e = (if h_box h box then emit e else throw)"

definition box_ini_bool :: "host \<Rightarrow> wstring \<Rightarrow> wstring \<Rightarrow> bool script" where
  "box_ini_bool h box setting = (if h_box h box then ret_js (h_ini_bool h box setting) else throw)"

section \<open>Library scripts\<close>

definition form_box :: "host \<Rightarrow> field list" where
  "form_box h = [(''box'', h_tr h ''Select affected sandbox'' [], ''box'')]"

definition form_yes_no :: "host \<Rightarrow> field list" where
  "form_yes_no h = [(''yes'', h_tr h ''Yes'' [], ''radio''), (''no'', h_tr h ''No'' [], ''radio'')]"

text \<open>
  \<^verbatim>\<open>openOptions\<close> of SBIECONF.js.  The answer to the first question about the box is stored in the
  global \<^verbatim>\<open>boxName\<close>, not in the parameter \<^verbatim>\<open>box\<close>.
\<close>

definition openOptions :: "host \<Rightarrow> wstring \<Rightarrow> jsval \<Rightarrow> wstring \<Rightarrow> unit script" where
  "openOptions h message box page =
     seq (if \<not> truthy box
          then seq (showForm h (form_box h) []) (\<lambda>ret. upd_js (\<lambda>s. s\<lparr>g_boxName := ret ''box''\<rparr>))
          else ret_js ()) (\<lambda>_.
     let message2 = message @ [NL, NL] @ h_tr h
           ''Do you want to open the box option dialog to change this preset?'' []
     in seq (showForm h
           [(''yes'', h_tr h ''Yes'' [], ''radio''),
            (''no'', h_tr h ''No, it is fine as it is'' [], ''radio''),
            (''bug'', h_tr h ''No, but I want to report a bug'' [], ''radio'')] message2) (\<lambda>ret.
     seq (if ret ''yes'' = JBool True
          then seq (if \<not> truthy box
                    then seq (showForm h (form_box h) []) (\<lambda>ret2. ret_js (ret2 ''box''))
                    else ret_js box) (\<lambda>b. openOptions_wiz h b page)
          else ret_js ()) (\<lambda>_.
     if ret ''bug'' \<noteq> JBool True then setResult True [] else ret_js ())))"

text \<open>\<^verbatim>\<open>if(typeof boxName === 'undefined') boxName = "";\<close>\<close>

definition default_boxName :: "unit script" where
  "default_boxName = upd_js (\<lambda>s. if g_boxName s = JUndef then s\<lparr>g_boxName := JStr []\<rparr> else s)"

definition SBIECOPY :: "host \<Rightarrow> unit script" where
  "SBIECOPY h =
     seq (get_js g_msgCode) (\<lambda>code.
     seq default_boxName (\<lambda>_.
     seq (get_js g_boxName) (\<lambda>box.
     openOptions h (h_tr h
       ''The message %1 is caused by the file migration limit being reached.'' [js_show code])
       box ''Migration'')))"

definition try_fix_PC_SRP :: "host \<Rightarrow> unit script" where
  "try_fix_PC_SRP h =
     seq (showForm h
       [(''stop'', ''Stop AppIdSvc service and AppId driver (temporary fix)'', ''radio''),
        (''disable'', ''Disable Parental Control Policy'', ''radio''),
        (''failed'', ''The above mitigations did not work'', ''radio'')]
       (h_tr h (''It seems you are using a non-administrative user account on a system with enabled parental controls, this is known to be incompatible with Sandboxie.'' @ [NL] @ ''You have the following options to resolve the issue.'') [])) (\<lambda>obj.
     if truthy (obj ''failed'') then setResult False ''Available mitigations failed''
     else
       let command = ''/c net stop AppIdSvc & net stop AppId'' @
             (if truthy (obj ''disable'')
              then ('' & move %systemroot%'' @ [BS] @ ''system32'' @ [BS] @ ''AppLocker'' @ [BS] @ ''Plugin.133422605925491691.Policy %systemroot%'' @ [BS] @ ''system32'' @ [BS] @ ''AppLocker'' @ [BS] @ ''Disabled__Plugin.133422605925491691.Policy__'')
              else []);
           ret = h_execute h ''cmd.exe'' command
       in seq (emit (Execute ''cmd.exe'' command)) (\<lambda>_.
          if truthy (fst ret)
          then setResult False (''Failed to execute recured command: '' @ js_show (fst ret))
          else setResult True []))"

section \<open>Message scripts\<close>

text \<open>The first block of SBIE1307.js, SBIE1308.js and SBIE2224.js.\<close>

definition ask_box_process :: "host \<Rightarrow> unit script" where
  "ask_box_process h =
     seq (get_js g_boxName) (\<lambda>box.
     if \<not> truthy box then
       seq (showForm h
         [(''box'', h_tr h ''Select affected sandbox'' [], ''box''),
          (''process'', h_tr h ''Enter Process Name'' [], ''edit'')] []) (\<lambda>ret.
       upd_js (\<lambda>s. s\<lparr>g_boxName := ret ''box'', g_processName := ret ''process''\<rparr>))
     else ret_js ())"

definition SBIE1307 :: "host \<Rightarrow> unit script" where
  "SBIE1307 h =
     seq (ask_box_process h) (\<lambda>_.
     seq (get_js g_boxName) (\<lambda>box.
     seq (openOptions h (h_tr h ''Internet Access restrictions are in effect for the sandbox in which the program is running. The program is prohibited from accessing the Internet.'' []) box ''Internet'') (\<lambda>_.
     setResult True [])))"

definition SBIE1308 :: "host \<Rightarrow> unit script" where
  "SBIE1308 h =
     seq (ask_box_process h) (\<lambda>_.
     seq (get_js g_boxName) (\<lambda>box.
     seq (openOptions h (h_tr h ''Start/Run restrictions are in effect for the sandbox in which the program is running. The program is prohibited from starting or running.'' []) box ''Start'') (\<lambda>_.
     setResult True [])))"

definition set_msgCode :: "wstring \<Rightarrow> unit script" where
  "set_msgCode code = upd_js (\<lambda>s. if g_msgCode s = JUndef then s\<lparr>g_msgCode := JStr code\<rparr> else s)"

definition SBIE2102 :: "host \<Rightarrow> unit script" where
  "SBIE2102 h = seq (set_msgCode ''2102'') (\<lambda>_. SBIECOPY h)"

definition SBIE2113 :: "host \<Rightarrow> unit script" where
  "SBIE2113 h = seq (set_msgCode ''2113'') (\<lambda>_. SBIECOPY h)"

definition SBIE2114 :: "host \<Rightarrow> unit script" where
  "SBIE2114 h = seq (set_msgCode ''2114'') (\<lambda>_. SBIECOPY h)"

definition SBIE2115 :: "host \<Rightarrow> unit script" where
  "SBIE2115 h = seq (set_msgCode ''2115'') (\<lambda>_. SBIECOPY h)"

definition SBIE2181 :: "host \<Rightarrow> unit script" where
  "SBIE2181 h =
     seq (showStatus h (h_tr h (''Failures to load SbieDll.dll when encountered by Chrome, or another software employing app containers, it is often caused by invalid DACL entries for the Sandboxie home directory. This mitigation measure will fix them, for this reason it will prompt for admin privileges which need to be granted for kmdutil.exe.'') []) True) (\<lambda>_.
     let path = h_expandPath h (''%SbieHome%'' @ [BS] @ ''kmdutil.exe''); ret = h_execute h path ''fixdacls''
     in seq (emit (Execute path ''fixdacls'')) (\<lambda>_.
     if truthy (fst ret) then setResult False (''Failed to start kmdutil, error: '' @ js_show (fst ret))
     else if snd ret \<noteq> 0 then setResult False (''kmdutil returned an error: '' @ js_show (JInt (snd ret)))
     else
       seq (emit SetupTrace) (\<lambda>_.
       seq (showForm h (form_yes_no h) (h_tr h ''The DACLs have been adjusted, please try to run your application again and indicate if the issue has been resolved.'' [])) (\<lambda>r.
       seq (if r ''yes'' = JBool True then setResult True [] else ret_js ()) (\<lambda>_.
       if r ''no'' = JBool True then setResult False ''DACLs fix did not resolve the issue''
       else ret_js ())))))"

text \<open>\<^verbatim>\<open>msgData[0] == text\<close>; reading an undeclared variable throws.\<close>

definition msgData0_is :: "wstring \<Rightarrow> bool script" where
  "msgData0_is txt =
     seq (get_js g_msgData) (\<lambda>d. case d of
         None \<Rightarrow> throw
       | Some xs \<Rightarrow> ret_js (case xs of [] \<Rightarrow> False | x # _ \<Rightarrow> x = txt))"

definition SBIE2204 :: "host \<Rightarrow> unit script" where
  "SBIE2204 h =
     seq (msgData0_is ''DcomLaunch (346)'') (\<lambda>b.
     if b then try_fix_PC_SRP h
     else showStatus h (h_tr h (''The message indicates that Sandboxie was unable to start one of the helper programs SandboxieRpcSs or SandboxieDcomLaunch. The name noted in the message can be rpcss or dcomlaunch.'' @ [NL] @ [NL] @ ''You can submit an issue report on the next page to help us to analyze the issue.'') []) True)"

definition SBIE2313 :: "host \<Rightarrow> unit script" where
  "SBIE2313 h =
     seq (msgData0_is ''SandboxieDcomLaunch.exe (346)'') (\<lambda>b.
     if b then try_fix_PC_SRP h
     else showStatus h (h_tr h (''Sandboxie was not able to execute one of its own programs. Check access permissions to the Sandboxie installation folder and/or reinstall Sandboxie.'' @ [NL] @ [NL] @ ''Possible Causes:'' @ [NL] @ ''1. Sandboxie was configured to block access to the folder containing its program files.'' @ [NL] @ ''2. A third-party (HIPS) security software was configured to block the execution of the program mentioned in the message.'' @ [NL] @ [NL] @ ''You can submit an issue report on the next page to help us to analyze the issue.'') []) True)"

text \<open>\<^verbatim>\<open>processName.toLowerCase()\<close>, which throws when the variable is undefined.\<close>

definition lower_process :: "wstring script" where
  "lower_process =
     seq (get_js g_processName) (\<lambda>p. case p of JStr s \<Rightarrow> ret_js (wcslwr s) | _ \<Rightarrow> throw)"

definition SBIE2224 :: "host \<Rightarrow> unit script" where
  "SBIE2224 h =
     seq (ask_box_process h) (\<lambda>_.
     seq lower_process (\<lambda>name.
     let message = h_tr h ''The Process '%1' crashed'' [name]
     in seq (if name = ''viber.exe''
             then seq (get_js g_boxName) (\<lambda>box.
                  openOptions h (message @ [NL, NL] @ h_tr h
                    ''This program is known to work in a Green (App Compartment) type sandbox.'' [])
                    box ''General'')
             else seq (showForm h
                    [(''bug'', h_tr h ''Yes'' [], ''radio''), (''no'', h_tr h ''No'' [], ''radio'')]
                    (message @ [NL, NL] @ h_tr h ''There is no known workaround for this process. Do you want to report this issue?'' [])) (\<lambda>ret.
                  if ret ''bug'' \<noteq> JBool True then setResult True [] else ret_js ())) (\<lambda>_.
     setResult True [])))"

text \<open>
  \<^verbatim>\<open>invoke(name)\<close>: the script of that name, \<^verbatim>\<open>false\<close> when there is none (the result \<^const>\<open>False\<close> here).
\<close>

definition invoke_msg :: "host \<Rightarrow> wstring \<Rightarrow> bool script" where
  "invoke_msg h code =
     (case map_of [(''1307'', SBIE1307), (''1308'', SBIE1308), (''2102'', SBIE2102), (''2113'', SBIE2113),
                   (''2114'', SBIE2114), (''2115'', SBIE2115), (''2181'', SBIE2181), (''2204'', SBIE2204),
                   (''2224'', SBIE2224), (''2313'', SBIE2313)] code of
        None \<Rightarrow> ret_js False
      | Some script \<Rightarrow> seq (script h) (\<lambda>_. ret_js True))"

definition strip_SBIE :: "wstring \<Rightarrow> wstring" where
  "strip_SBIE code = (if wcslwr (take 4 code) = ''sbie'' then drop 4 code else code)"

definition SBIEMSG :: "host \<Rightarrow> unit script" where
  "SBIEMSG h =
     seq (seq (get_js g_msgCode) (\<lambda>c.
       if c = JUndef then
         seq (showForm h
           [(''code'', h_tr h ''Sbie Message Code'' [], ''edit''),
            (''box'', h_tr h ''Select affected sandbox'' [], ''box''),
            (''process'', h_tr h ''Name affected process'' [], ''edit'')]
           (h_tr h ''Please enter the SBIEMSG ID you have encountered.'' [])) (\<lambda>ret.
         let code = strip_SBIE (js_text (ret ''code''))
         in upd_js (\<lambda>s. s\<lparr>g_msgCode := JStr code,
              g_docLink := JStr (''https://sandboxie-plus.com/go.php?to=sbie-sbie'' @ code),
              g_msgData := Some [], g_boxName := ret ''box'', g_processName := ret ''process''\<rparr>))
       else ret_js ())) (\<lambda>_.
     seq (get_js g_msgCode) (\<lambda>code.
     seq (invoke_msg h (js_show code)) (\<lambda>res.
     if res then ret_js ()
     else
       seq (get_js (\<lambda>s. (g_sbieMsg s, g_docLink s, g_msgData s, g_processName s))) (\<lambda>(msg, link, data, proc).
       let message = h_tr h ''There is no automated troubleshooting available for SBIE%1 yet.<br />'' [js_show code]
             @ (if msg \<noteq> JUndef then h_tr h ''The full message text is: %1<br />'' [js_show msg] else [])
             @ h_tr h (''Visit out <a href='' @ [DQ] @ ''%1'' @ [DQ] @ ''>online-documentation</a> to learn more about this, and other sbie messages.'') [js_show link]
             @ ''<br /><br />''
             @ h_tr h ''Would you like to collect some logs to help us resolve the issue.'' []
       in seq (showForm h (form_yes_no h) message) (\<lambda>ret.
       seq (emit (SysLog (''yes: '' @ js_show (ret ''yes'')))) (\<lambda>_.
       seq (emit (SysLog (''no: '' @ js_show (ret ''no'')))) (\<lambda>_.
       seq (if ret ''yes'' = JBool True
            then seq (emit SetupTrace) (\<lambda>_.
                 showStatus h (h_tr h ''Now please run your application again to trigger the Sbie message.<br /><br />'' []
                   @ h_tr h ''Press NEXT when you are done collecting logs.'' []) True)
            else ret_js ()) (\<lambda>_.
       seq (reportAdd ''MsgCode'' (js_show code)) (\<lambda>_.
       seq (case data of
              None \<Rightarrow> throw
            | Some d \<Rightarrow> reportAdd ''MsgData'' (js_join d)) (\<lambda>_.
       if truthy proc then reportAdd ''ProcessName'' (js_text proc) else ret_js ()))))))))))"

section \<open>Application, sandbox and user interface scripts\<close>

definition unknown_js :: "host \<Rightarrow> unit script" where
  "unknown_js h =
     seq (showForm h [(''bug'', h_tr h ''Yes'' [], ''radio''), (''no'', h_tr h ''No'' [], ''radio'')]
       (h_tr h ''Do you want to report this issue?'' [])) (\<lambda>ret.
     if ret ''bug'' \<noteq> JBool True then setResult True [] else ret_js ())"

definition viber_js :: "host \<Rightarrow> unit script" where
  "viber_js h =
     seq default_boxName (\<lambda>_.
     seq (get_js g_boxName) (\<lambda>box.
     openOptions h (h_tr h ''Viber is not compatible with the standard isolation yellow type Sandbox. However is known to work in a Green (App Compartment) type sandbox.'' []) box ''General''))"

text \<open>The last block of webcam.js and game_fps.js.\<close>

definition ask_resolved :: "host \<Rightarrow> wstring \<Rightarrow> wstring \<Rightarrow> unit script" where
  "ask_resolved h question failure =
     seq (emit SetupTrace) (\<lambda>_.
     seq (showForm h (form_yes_no h) question) (\<lambda>ret.
     seq (if ret ''yes'' = JBool True then setResult True [] else ret_js ()) (\<lambda>_.
     if ret ''no'' = JBool True then setResult False failure else ret_js ())))"

definition webcam_js :: "host \<Rightarrow> unit script" where
  "webcam_js h =
     seq (showStatus h (h_tr h (''To enable webcam support on Windows 11, the isolation level must be reduced. '' @ [NL] @ ''If you want to proceed, please press NEXT and select a sandbox to modify. '' @ [NL]) []
       @ (if h_feature h ''AppC'' then []
          else h_tr h ([NL] @ ''Please note that this required preset works only with a valid supporter certificate!'') [])) True) (\<lambda>_.
     seq (showForm h [(''box'', [], ''box'')]
       (h_tr h ''Select which box to turn into a reduced isolation app compartment box.'' [])) (\<lambda>data.
     seq (getBox h (data ''box'')) (\<lambda>box.
     seq (box_call h box (SetIniValue box ''NoSecurityIsolation'' ''y'')) (\<lambda>_.
     seq (box_call h box (AppendIniValue box ''Template'' ''OpenCOM'')) (\<lambda>_.
     seq (box_call h box (SetIniValue box ''DropAdminRights'' ''y'')) (\<lambda>_.
     seq (box_call h box (ApplyChanges box)) (\<lambda>_.
     seq (box_call h box (StartBox box)) (\<lambda>_.
     ask_resolved h (h_tr h ''The mitigation has been applied please try out the web cam in %1 and indicate if the issue has been resolved.'' [js_show (data ''box'')])
       (h_tr h ''Webcam mitigation not successful'' [])))))))))"

definition game_fps_js :: "host \<Rightarrow> unit script" where
  "game_fps_js h =
     seq (showForm h [(''box'', [], ''box'')] (h_tr h ''Select which box to optimize.'' [])) (\<lambda>data.
     seq (getBox h (data ''box'')) (\<lambda>box.
     seq (showStatus h (h_tr h (''To apply recommended settings press NEXT. '' @ [NL]) []
       @ (if h_feature h ''SMod'' then []
          else h_tr h ([NL] @ ''Please note that this required preset works only with a valid supporter certificate!'') [])) True) (\<lambda>_.
     seq (box_call h box (SetIniValue box ''SysCallLockDown'' ''y'')) (\<lambda>_.
     seq (box_call h box (ApplyChanges box)) (\<lambda>_.
     seq (box_call h box (StartBox box)) (\<lambda>_.
     ask_resolved h (h_tr h ''The options has been applied please tryout your game in %1 and indicate if the issue has been resolved.'' [js_show (data ''box'')])
       (h_tr h ''FPS optimization not successful'' [])))))))"

text \<open>The block of installer.js for a box that drops administrative rights.\<close>

definition installer_rights :: "host \<Rightarrow> wstring \<Rightarrow> unit script" where
  "installer_rights h box =
     seq (box_ini_bool h box ''DropAdminRights'') (\<lambda>drop.
     seq (if drop then ret_js True else box_ini_bool h box ''UseSecurityMode'') (\<lambda>restricted.
     if restricted then
       seq (box_ini_bool h box ''FakeAdminRights'') (\<lambda>fake.
       seq (showForm h
         ([(''yes'', h_tr h ''Disable DropAdminRights'' [], ''radio'')]
          @ (if fake then [] else [(''no'', h_tr h ''Enable FakeAdminRights'' [], ''radio'')]))
         (h_tr h ''This box has DropAdminRights enabled, preventing execution of installers. Do you want to disable this restriction, that will reduce the security level.'' [])) (\<lambda>ret2.
       if truthy (ret2 ''yes'') then
         seq (box_ini_bool h box ''DropAdminRights'') (\<lambda>d.
         if d then box_call h box (DelIniValue box ''DropAdminRights'')
         else seq (box_ini_bool h box ''UseSecurityMode'') (\<lambda>u.
              if u then box_call h box (DelIniValue box ''UseSecurityMode'') else ret_js ()))
       else if truthy (ret2 ''no'') then box_call h box (SetIniValue box ''FakeAdminRights'' ''y'')
       else ret_js ()))
     else ret_js ()))"

definition installer_js :: "host \<Rightarrow> unit script" where
  "installer_js h =
     seq (showForm h [(''path'', h_tr h ''Enter Installer Path'' [], ''file''),
                      (''box'', h_tr h ''Select a sandbox to install into'' [], ''box'')] []) (\<lambda>ret.
     seq (reportAdd ''installer'' (js_text (ret ''path''))) (\<lambda>_.
     seq (getBox h (ret ''box'')) (\<lambda>box.
     seq (installer_rights h box) (\<lambda>_.
     seq (box_call h box (SetIniValue box ''MsiInstallerExemptions'' ''y'')) (\<lambda>_.
     seq (box_call h box (StartTask box (js_text (ret ''path'')))) (\<lambda>_.
     seq (showStatus h (h_tr h ''running installer, pid: %1 press NEXT once it finishes to continue''
       [h_pid h (js_text (ret ''path''))]) True) (\<lambda>_.
     seq (box_call h box (Terminate box)) (\<lambda>_.
     seq (showForm h (form_yes_no h) (h_tr h ''Was the issue resolved?'' [])) (\<lambda>ret3.
     if ret3 ''yes'' = JBool True then setResult True []
     else setResult False (h_tr h ''no mitigation worked'' []))))))))))"

definition knownBrowsers :: "wstring \<Rightarrow> (wstring \<times> wstring) list" where
  "knownBrowsers appData =
    [((''C:'' @ [BS] @ ''Program Files'' @ [BS] @ ''Mozilla Firefox'' @ [BS] @ ''firefox.exe''), ''Firefox''),
     ((''C:'' @ [BS] @ ''Program Files'' @ [BS] @ ''Firefox Developer Edition'' @ [BS] @ ''firefox.exe''), ''Firefox (Dev)''),
     ((''C:'' @ [BS] @ ''Program Files'' @ [BS] @ ''Waterfox'' @ [BS] @ ''waterfox.exe''), ''Waterfox''),
     ((''C:'' @ [BS] @ ''Program Files'' @ [BS] @ ''LibreWolf'' @ [BS] @ ''librewolf.exe''), ''Libre Wolf''),
     ((''C:'' @ [BS] @ ''Program Files'' @ [BS] @ ''Pale Moon'' @ [BS] @ ''palemoon.exe''), ''Pale Moon''),
     ((''C:'' @ [BS] @ ''Program Files'' @ [BS] @ ''SeaMonkey'' @ [BS] @ ''seamonkey.exe''), ''Sea Monkey''),
     ((''C:'' @ [BS] @ ''Program Files'' @ [BS] @ ''Google'' @ [BS] @ ''Chrome'' @ [BS] @ ''Application'' @ [BS] @ ''chrome.exe''), ''Google Chrome''),
     ((''C:'' @ [BS] @ ''Program Files'' @ [BS] @ ''Google'' @ [BS] @ ''Chrome Dev'' @ [BS] @ ''Application'' @ [BS] @ ''chrome.exe''), ''Google Chrome (Dev)''),
     ((''C:'' @ [BS] @ ''Program Files (x86)'' @ [BS] @ ''Microsoft'' @ [BS] @ ''Edge'' @ [BS] @ ''Application'' @ [BS] @ ''msedge.exe''), ''Microsoft Edge''),
     ((''C:'' @ [BS] @ ''Program Files (x86)'' @ [BS] @ ''Microsoft'' @ [BS] @ ''Edge Dev'' @ [BS] @ ''Application'' @ [BS] @ ''msedge.exe''), ''Microsoft Edge (Dev)''),
     ((''C:'' @ [BS] @ ''Program Files'' @ [BS] @ ''BraveSoftware'' @ [BS] @ ''Brave-Browser'' @ [BS] @ ''Application'' @ [BS] @ ''brave.exe''), ''Brave Browser''),
     ((''C:'' @ [BS] @ ''Program Files'' @ [BS] @ ''SRWare Iron (64-Bit)'' @ [BS] @ ''iron.exe''), ''Iron Browser''),
     ((''C:'' @ [BS] @ ''Program Files'' @ [BS] @ ''Comodo'' @ [BS] @ ''Dragon'' @ [BS] @ ''dragon.exe''), ''Dragon Browser''),
     (appData @ ([BS] @ ''Chromium'' @ [BS] @ ''Application'' @ [BS] @ ''chrome.exe''), ''Chromium Browser''),
     (appData @ ([BS] @ ''Programs'' @ [BS] @ ''Opera'' @ [BS] @ ''launcher.exe''), ''Opera Browser''),
     (appData @ ([BS] @ ''Vivaldi'' @ [BS] @ ''Application'' @ [BS] @ ''vivaldi.exe''), ''Vivaldi Browser''),
     (appData @ ([BS] @ ''Opera Software'' @ [BS] @ ''Opera Neon'' @ [BS] @ ''Application'' @ [BS] @ ''neon.exe''), ''Neon Browser''),
     (appData @ ([BS] @ ''Maxthon'' @ [BS] @ ''Application'' @ [BS] @ ''Maxthon.exe''), ''Maxthon Browser'')]"

text \<open>The items of the combo box of desktop.js: the browsers whose file exists, with their index.\<close>

definition found_browsers :: "host \<Rightarrow> (wstring \<times> int) list" where
  "found_browsers h =
     (let known = knownBrowsers (h_expand h ''LocalAppData'')
      in [(h_tr h ''Default Browser'' [], - 1)]
         @ concat (map (\<lambda>i. if h_checkFile h (fst (known ! i))
                             then [(h_tr h (snd (known ! i)) [], int i)] else [])
                   [0..<length known])
         @ [(h_tr h ''Another'' [], - 2)])"

definition browser_index :: "jsval \<Rightarrow> int" where
  "browser_index v = (case v of JInt i \<Rightarrow> i | _ \<Rightarrow> - 3)"

definition desktop_js :: "host \<Rightarrow> unit script" where
  "desktop_js h =
     seq (showForm h
       ([(''browser'', h_tr h ''Select Browser'' [], ''combo'')]
        @ map (\<lambda>(name, i). (''browser'', name, ''item'')) (found_browsers h)
        @ [(''box'', h_tr h ''Select Sandbox'' [], ''box'')])
       (h_tr h ''Select which browser you want to create a shortcut for and in what box'' [])) (\<lambda>data1.
     seq (getBox h (data1 ''box'')) (\<lambda>box.
     seq (if browser_index (data1 ''browser'') = - 2
          then seq (showForm h [(''browser'', [], ''file'')] (h_tr h ''Select Browser Path'' [])) (\<lambda>data2.
               box_call h box (MakeShortcut box (js_text (data2 ''browser'')) []))
          else if browser_index (data1 ''browser'') = - 1
          then box_call h box (MakeShortcut box ''default_browser'' [])
          else
            let known = knownBrowsers (h_expand h ''LocalAppData''); i = browser_index (data1 ''browser'')
            in if 0 \<le> i \<and> nat i < length known
               then box_call h box (MakeShortcut box (fst (known ! nat i)) [])
               else throw) (\<lambda>_.
     setResult True [])))"

definition shell_js :: "host \<Rightarrow> unit script" where
  "shell_js h =
     seq (showForm h
       ([([], h_tr h ''Add Run Sandboxed'' [], ''check''),
         (''runUnBoxed'', h_tr h ''Add Run Unsandboxed'' [], ''check'')]
        @ (if 11 \<le> h_version h
           then [(''legacy'', h_tr h ''Install legacy shell extensions'' [], ''check'')] else []))
       (h_tr h ''Select which shell options should be reinstalled'' [])) (\<lambda>obj.
     seq (emit ShellRemove) (\<lambda>_.
     seq (emit (ShellInstall obj)) (\<lambda>_.
     setResult True [])))"

section \<open>Shortcuts and shadow boxes\<close>

text \<open>
  \<^verbatim>\<open>CBoxObject::MakeShortcut\<close> for the options \<^verbatim>\<open>location\<close> and \<^verbatim>\<open>name\<close>: \<^const>\<open>None\<close> is \<^verbatim>\<open>return false\<close>,
  otherwise the file name of the shortcut, or the dialog of \<^verbatim>\<open>CSbieView::CreateShortcutEx\<close>.
\<close>

datatype shortcut = ShortcutFile wstring | ShortcutDialog

definition MakeShortcut_cpp :: "wstring \<Rightarrow> wstring \<Rightarrow> wstring \<Rightarrow> wstring \<Rightarrow> shortcut option" where
  "MakeShortcut_cpp webBrowser Target Location Name =
     (if wcsicmp_eq Location ''desktop'' \<or> wcsicmp_eq Location ''startmenu''
         \<or> wcsicmp_eq Location ''documents'' then
        (if Target = ''default_browser'' then Some (ShortcutFile (webBrowser @ ''.lnk''))
         else if Name \<noteq> [] then Some (ShortcutFile (Name @ ''.lnk''))
         else None)
      else Some ShortcutDialog)"

text \<open>The shortcuts a run of a script asks for, all with \<^verbatim>\<open>{location: 'desktop'}\<close>.\<close>

definition shortcuts_made :: "wstring \<Rightarrow> js \<Rightarrow> shortcut list" where
  "shortcuts_made webBrowser s =
     concat (map (\<lambda>e. case e of
         MakeShortcut box tgt name \<Rightarrow>
           (case MakeShortcut_cpp webBrowser tgt ''desktop'' name of None \<Rightarrow> [] | Some f \<Rightarrow> [f])
       | _ \<Rightarrow> []) (js_trace s))"

text \<open>A section of the configuration, and the writes \<^verbatim>\<open>ApplyShadowChanges\<close> makes to the original.\<close>

type_synonym ini = "(wstring \<times> wstring) list"

datatype ini_write = DelValue wstring wstring | AppendText wstring wstring

record shadow =
  sh_shadow :: ini
  sh_original :: "ini option"
  iApplyChanges :: int

text \<open>"discard unchanged": every new value cancels the first equal old one.\<close>

fun discard_unchanged :: "ini \<Rightarrow> ini \<Rightarrow> ini \<times> ini" where
  "discard_unchanged [] old = ([], old)"
| "discard_unchanged (n # new) old =
     (if n \<in> set old then discard_unchanged new (remove1 n old)
      else (case discard_unchanged new old of (new', old') \<Rightarrow> (n # new', old')))"

definition SetApplyShadow :: "wstring \<Rightarrow> bool \<Rightarrow> (wstring \<rightharpoonup> shadow) \<Rightarrow> (wstring \<rightharpoonup> shadow)" where
  "SetApplyShadow name bApply shadows =
     (case shadows (wcslwr name) of
        None \<Rightarrow> shadows
      | Some sh \<Rightarrow> shadows(wcslwr name \<mapsto> sh\<lparr>iApplyChanges := (if bApply then 1 else 0)\<rparr>))"

definition IsNoAppliedShadow :: "(wstring \<rightharpoonup> shadow) \<Rightarrow> wstring \<Rightarrow> bool" where
  "IsNoAppliedShadow shadows name =
     (case shadows (wcslwr name) of None \<Rightarrow> False | Some sh \<Rightarrow> iApplyChanges sh = 0)"

text \<open>One turn of \<^verbatim>\<open>ApplyShadowChanges\<close>: the writes to the original section.\<close>

definition apply_shadow :: "(wstring \<rightharpoonup> shadow) \<Rightarrow> shadow \<Rightarrow> ini_write list" where
  "apply_shadow shadows sh =
     (if iApplyChanges sh \<noteq> 1 then []
      else case sh_original sh of
        None \<Rightarrow> []
      | Some original \<Rightarrow>
          (case discard_unchanged (sh_shadow sh) original of (new, old) \<Rightarrow>
             map (\<lambda>(n, v). DelValue n v) old
             @ concat (map (\<lambda>(n, v).
                 if n = ''FileRootPath'' \<or> n = ''IsShadow'' then []
                 else if n = ''Template'' \<and> IsNoAppliedShadow shadows (''Template_'' @ v) then []
                 else [AppendText n v]) new)))"

section \<open>The compatibility check\<close>

text \<open>What AppCompatibility.js asks of a template and of the system.\<close>

record tmpl =
  t_ScanScript :: wstring
  t_Scan :: wstring
  t_section :: "(wstring \<times> wstring list) list"

record sysinfo =
  s_eval :: "wstring \<Rightarrow> bool option"
  s_checkObjects :: "wstring \<Rightarrow> bool"
  s_checkClasses :: "wstring \<Rightarrow> bool"
  s_checkServices :: "wstring \<Rightarrow> bool"
  s_checkProducts :: "wstring \<Rightarrow> bool"
  s_checkRegKey :: "wstring \<Rightarrow> bool"
  s_checkFile :: "wstring \<Rightarrow> bool"
  s_expandPath :: "wstring \<Rightarrow> wstring"

definition skip_ipc :: "wstring list" where
  "skip_ipc = [([BS] @ ''RPC Control'' @ [BS] @ ''epmapper''), ([BS] @ ''RPC Control'' @ [BS] @ ''OLE*''), ([BS] @ ''RPC Control'' @ [BS] @ ''LRPC*''),
     (''*'' @ [BS] @ ''BaseNamedObjects*'' @ [BS] @ ''NamedBuffer*mAH*Process*API*'')]"

text \<open>The tests of the inner loop: whether a value makes the function return true.\<close>

definition check_value :: "sysinfo \<Rightarrow> bool \<Rightarrow> bool \<Rightarrow> bool \<Rightarrow> wstring \<Rightarrow> wstring \<Rightarrow> bool" where
  "check_value sy scanIpc scanWin scanSvc setting value =
     (if scanIpc \<and> (setting = ''OpenIpcPath'' \<or> setting = ''Tmpl.ScanIpc'') then
        value \<notin> set skip_ipc \<and> s_checkObjects sy value
      else if scanWin \<and> (setting = ''OpenWinClass'' \<or> setting = ''Tmpl.ScanWinClass'') then
        take 2 value \<noteq> ''*:'' \<and> s_checkClasses sy value
      else if scanSvc \<and> setting = ''Tmpl.ScanService'' then s_checkServices sy value
      else if scanSvc \<and> setting = ''Tmpl.ScanProduct'' then s_checkProducts sy value
      else if scanSvc \<and> setting = ''Tmpl.ScanKey'' then s_checkRegKey sy value
      else if scanSvc \<and> setting = ''Tmpl.ScanFile'' then s_checkFile sy (s_expandPath sy value)
      else False)"

fun check_values :: "sysinfo \<Rightarrow> bool \<Rightarrow> bool \<Rightarrow> bool \<Rightarrow> wstring \<Rightarrow> wstring list \<Rightarrow> bool" where
  "check_values sy scanIpc scanWin scanSvc setting [] = False"
| "check_values sy scanIpc scanWin scanSvc setting (v # vs) =
     (if check_value sy scanIpc scanWin scanSvc setting v then True
      else check_values sy scanIpc scanWin scanSvc setting vs)"

fun check_keys :: "sysinfo \<Rightarrow> bool \<Rightarrow> bool \<Rightarrow> bool \<Rightarrow> (wstring \<times> wstring list) list \<Rightarrow> bool" where
  "check_keys sy scanIpc scanWin scanSvc [] = False"
| "check_keys sy scanIpc scanWin scanSvc ((setting, vs) # keys) =
     (if check_values sy scanIpc scanWin scanSvc setting vs then True
      else check_keys sy scanIpc scanWin scanSvc keys)"

definition checkTemplate :: "sysinfo \<Rightarrow> tmpl \<Rightarrow> bool" where
  "checkTemplate sy t =
     (if t_ScanScript t \<noteq> [] then
        (case s_eval sy (''(()=>{'' @ t_ScanScript t @ ''})()'') of None \<Rightarrow> False | Some b \<Rightarrow> b)
      else
        let scanIpc = CHR ''i'' \<in> set (t_Scan t);
            scanWin = CHR ''w'' \<in> set (t_Scan t);
            scanSvc = CHR ''s'' \<in> set (t_Scan t)
        in if \<not> (scanIpc \<or> scanWin \<or> scanSvc) then False
        else check_keys sy scanIpc scanWin scanSvc (t_section t))"

fun AppCompatibility :: "sysinfo \<Rightarrow> (wstring \<Rightarrow> tmpl) \<Rightarrow> wstring list \<Rightarrow> wstring list" where
  "AppCompatibility sy getTemplate [] = []"
| "AppCompatibility sy getTemplate (name # templates) =
     (if take 6 name = ''Local_'' then AppCompatibility sy getTemplate templates
      else if checkTemplate sy (getTemplate name) then name # AppCompatibility sy getTemplate templates
      else AppCompatibility sy getTemplate templates)"

section \<open>Lemmas on scripts\<close>

lemmas script_defs = seq_def ret_js_def throw_def emit_def get_js_def upd_js_def

lemma IsRunning_simps [simp]:
  "IsRunning eRunning" "IsRunning eRunningAsync" "\<not> IsRunning eSuccess" "\<not> IsRunning eFailed"
  "\<not> IsRunning eReady" "\<not> IsRunning eQuery"
  by (simp_all add: IsRunning_def)

text \<open>A host that never cancels.\<close>

definition patient :: "host \<Rightarrow> bool" where
  "patient h \<longleftrightarrow> (\<forall>t. h_resume h t = eRunning)"

text \<open>
  Scripts that, from every running state, return in a running state; or in that or with a success.
\<close>

definition runs :: "'a script \<Rightarrow> bool" where
  "runs f \<longleftrightarrow> (\<forall>s. IsRunning (m_State s) \<longrightarrow> (\<exists>x s'. f s = (Some x, s') \<and> IsRunning (m_State s')))"

definition ends :: "'a script \<Rightarrow> bool" where
  "ends f \<longleftrightarrow> (\<forall>s. IsRunning (m_State s) \<longrightarrow>
     (\<exists>x s'. f s = (Some x, s') \<and> (IsRunning (m_State s') \<or> m_State s' = eSuccess)))"

lemma runs_seq [intro]: "runs f \<Longrightarrow> (\<And>x. runs (g x)) \<Longrightarrow> runs (seq f g)"
  unfolding runs_def seq_def by (metis (no_types, lifting) option.simps(5) prod.simps(2))

lemma runs_prims [simp, intro]:
  "runs (ret_js x)" "runs (emit e)" "runs (get_js f)"
  by (simp_all add: runs_def script_defs)

lemma runs_if [intro]: "(b \<Longrightarrow> runs f) \<Longrightarrow> (\<not> b \<Longrightarrow> runs g) \<Longrightarrow> runs (if b then f else g)"
  by simp

lemma runs_upd [intro]: "(\<And>s. m_State (f s) = m_State s) \<Longrightarrow> runs (upd_js f)"
  by (simp add: runs_def script_defs)

lemma runs_showForm [intro]: "patient h \<Longrightarrow> runs (showForm h form txt)"
  by (simp add: runs_def patient_def showForm_def TestRunning_def WaitLocked_def script_defs SetState_def)

lemma runs_openOptions_wiz [intro]: "patient h \<Longrightarrow> runs (openOptions_wiz h box page)"
  by (simp add: runs_def patient_def openOptions_wiz_def TestRunning_def WaitLocked_def script_defs
      SetState_def)

lemma setResult_True: "IsRunning (m_State s) \<Longrightarrow> setResult True [] s = (Some (), s\<lparr>m_State := eSuccess\<rparr>)"
  by (simp add: setResult_def TestRunning_def script_defs SetState_def)

lemma setResult_done: "\<not> IsRunning (m_State s) \<Longrightarrow> setResult b txt s = (None, s)"
  by (simp add: setResult_def TestRunning_def script_defs)

lemma ends_seq [intro]: "runs f \<Longrightarrow> (\<And>x. ends (g x)) \<Longrightarrow> ends (seq f g)"
  unfolding runs_def ends_def seq_def by (metis (no_types, lifting) option.simps(5) prod.simps(2))

lemma ends_prims [simp, intro]: "ends (ret_js x)" "ends (setResult True [])"
  by (simp_all add: ends_def ret_js_def setResult_True)

lemma ends_if [intro]: "(b \<Longrightarrow> ends f) \<Longrightarrow> (\<not> b \<Longrightarrow> ends g) \<Longrightarrow> ends (if b then f else g)"
  by simp

lemma openOptions_ends [intro]: "patient h \<Longrightarrow> ends (openOptions h msg box page)"
  unfolding openOptions_def Let_def
  by (intro ends_seq ends_if runs_if runs_seq runs_upd ends_prims) auto

text \<open>Whatever such a script did, the \<open>setResult(true)\<close> behind it makes the run a success.\<close>

lemma ends_then_success:
  assumes "ends f" and "IsRunning (m_State s)"
  shows "m_State (run (seq f (\<lambda>_. setResult True [])) err s) = eSuccess"
proof -
  from assms obtain x s' where f: "f s = (Some x, s')" "IsRunning (m_State s') \<or> m_State s' = eSuccess"
    unfolding ends_def by blast
  then show ?thesis
    by (cases "IsRunning (m_State s')") (auto simp: run_def seq_def setResult_True setResult_done)
qed

lemma seq_assoc: "seq (seq f g) k = seq f (\<lambda>x. seq (g x) k)"
  by (auto simp: seq_def fun_eq_iff split: option.splits prod.splits)

lemma runs_ask_box_process [intro]: "patient h \<Longrightarrow> runs (ask_box_process h)"
  unfolding ask_box_process_def by (intro runs_seq runs_if runs_upd) auto

section \<open>Lemmas on traces\<close>

text \<open>Scripts that make no call of a kind.\<close>

definition avoids :: "(effect \<Rightarrow> bool) \<Rightarrow> 'a script \<Rightarrow> bool" where
  "avoids P f \<longleftrightarrow> (\<forall>s. \<exists>t. js_trace (snd (f s)) = js_trace s @ t \<and> (\<forall>e \<in> set t. \<not> P e))"

lemma avoids_seq [intro]: "avoids P f \<Longrightarrow> (\<And>x. avoids P (g x)) \<Longrightarrow> avoids P (seq f g)"
  unfolding avoids_def seq_def
proof (intro allI)
  fix s
  assume f: "\<forall>s. \<exists>t. js_trace (snd (f s)) = js_trace s @ t \<and> (\<forall>e \<in> set t. \<not> P e)"
    and g: "\<And>x. \<forall>s. \<exists>t. js_trace (snd (g x s)) = js_trace s @ t \<and> (\<forall>e \<in> set t. \<not> P e)"
  obtain r s' where r: "f s = (r, s')" by (cases "f s")
  from f r obtain t where t: "js_trace s' = js_trace s @ t" "\<forall>e \<in> set t. \<not> P e" by (metis snd_conv)
  show "\<exists>t. js_trace (snd (case f s of (None, s') \<Rightarrow> (None, s') | (Some x, s') \<Rightarrow> g x s')) =
      js_trace s @ t \<and> (\<forall>e \<in> set t. \<not> P e)"
  proof (cases r)
    case None
    with r t show ?thesis by auto
  next
    case (Some x)
    from g obtain t' where "js_trace (snd (g x s')) = js_trace s' @ t'" "\<forall>e \<in> set t'. \<not> P e" by blast
    with r t Some show ?thesis by (intro exI [of _ "t @ t'"]) auto
  qed
qed

lemma avoids_prims [simp, intro]:
  "avoids P (ret_js x)" "avoids P throw" "avoids P (get_js f)" "avoids P TestRunning"
  "avoids P (WaitLocked h)"
  by (simp_all add: avoids_def script_defs TestRunning_def WaitLocked_def)

lemma avoids_emit [intro]: "\<not> P e \<Longrightarrow> avoids P (emit e)"
  by (simp add: avoids_def emit_def)

lemma avoids_upd [intro]: "(\<And>s. js_trace (f s) = js_trace s) \<Longrightarrow> avoids P (upd_js f)"
  by (simp add: avoids_def upd_js_def)

lemma avoids_if [intro]: "(b \<Longrightarrow> avoids P f) \<Longrightarrow> (\<not> b \<Longrightarrow> avoids P g) \<Longrightarrow> avoids P (if b then f else g)"
  by simp

lemma avoids_wizard [intro]:
  "(\<And>f t. \<not> P (ShowForm f t)) \<Longrightarrow> avoids P (showForm h form txt)"
  "(\<And>t b. \<not> P (ShowStatus t b)) \<Longrightarrow> avoids P (showStatus h txt w)"
  "avoids P (setResult b txt)" "avoids P (reportAdd k v)"
  unfolding showForm_def showStatus_def setResult_def reportAdd_def
  by (intro avoids_seq avoids_if avoids_upd avoids_emit; simp add: SetState_def)+

lemma avoids_box [intro]:
  "\<not> P e \<Longrightarrow> avoids P (box_call h box e)" "avoids P (box_ini_bool h box setting)"
  "(\<And>n. \<not> P (GetBox n)) \<Longrightarrow> avoids P (getBox h name)"
  unfolding box_call_def box_ini_bool_def getBox_def by auto

definition is_apply :: "effect \<Rightarrow> bool" where
  "is_apply e \<longleftrightarrow> (\<exists>b. e = ApplyChanges b)"

lemma installer_avoids: "avoids is_apply (installer_js h)"
  unfolding installer_js_def installer_rights_def
  by (intro avoids_seq avoids_if avoids_wizard avoids_box avoids_prims) (auto simp: is_apply_def)

section \<open>Lemmas on shadow boxes and the compatibility check\<close>

lemma discard_unchanged_diff:
  "discard_unchanged new old = (new', old') \<Longrightarrow>
     mset new' = mset new - mset old \<and> mset old' = mset old - mset new"
proof (induction new old arbitrary: new' old' rule: discard_unchanged.induct)
  case (2 n new old)
  show ?case
  proof (cases "n \<in> set old")
    case True
    with 2 have "mset new' = mset new - mset (remove1 n old)" "mset old' = mset (remove1 n old) - mset new"
      by simp_all
    moreover have "mset old = add_mset n (mset (remove1 n old))" using True by simp
    ultimately show ?thesis by (simp only: mset.simps(2) add_mset_diff_bothsides)
  next
    case False
    with "2.prems" obtain new2 where d: "discard_unchanged new old = (new2, old')" "new' = n # new2"
      by (auto split: prod.splits)
    from 2(2) [OF False d(1)] have "mset new2 = mset new - mset old" "mset old' = mset old - mset new" by auto
    moreover have "count (mset old) n = 0" using False by (simp add: count_mset_0_iff)
    ultimately have "count (mset (n # new2)) x = count (mset (n # new) - mset old) x"
      "count (mset old') x = count (mset old - mset (n # new)) x" for x
      by (cases "x = n"; simp)+
    with d(2) show ?thesis by (simp only: multiset_eq_iff) blast
  qed
qed auto

lemma check_values_ex:
  "check_values sy i w v setting vs \<longleftrightarrow> (\<exists>x \<in> set vs. check_value sy i w v setting x)"
  by (induction vs) auto

lemma check_keys_ex:
  "check_keys sy i w v keys \<longleftrightarrow>
     (\<exists>(setting, vs) \<in> set keys. \<exists>x \<in> set vs. check_value sy i w v setting x)"
  by (induction keys) (auto simp: check_values_ex)

lemma AppCompatibility_filter:
  "AppCompatibility sy get names =
     filter (\<lambda>name. take 6 name \<noteq> ''Local_'' \<and> checkTemplate sy (get name)) names"
  by (induction names) auto

lemma check_value_kinds:
  "check_value sy i w v setting x \<longleftrightarrow>
     i \<and> setting \<in> {''OpenIpcPath'', ''Tmpl.ScanIpc''} \<and> s_checkObjects sy x
       \<and> x \<notin> {[BS] @ ''RPC Control'' @ [BS] @ ''epmapper'', [BS] @ ''RPC Control'' @ [BS] @ ''OLE*'',
            [BS] @ ''RPC Control'' @ [BS] @ ''LRPC*'', ''*'' @ [BS] @ ''BaseNamedObjects*'' @ [BS] @ ''NamedBuffer*mAH*Process*API*''}
     \<or> w \<and> setting \<in> {''OpenWinClass'', ''Tmpl.ScanWinClass''} \<and> s_checkClasses sy x \<and> take 2 x \<noteq> ''*:''
     \<or> v \<and> (setting = ''Tmpl.ScanService'' \<and> s_checkServices sy x \<or> setting = ''Tmpl.ScanProduct'' \<and> s_checkProducts sy x
       \<or> setting = ''Tmpl.ScanKey'' \<and> s_checkRegKey sy x \<or> setting = ''Tmpl.ScanFile'' \<and> s_checkFile sy (s_expandPath sy x))"
proof -
  have skip: "{[BS] @ ''RPC Control'' @ [BS] @ ''epmapper'', [BS] @ ''RPC Control'' @ [BS] @ ''OLE*'',
      [BS] @ ''RPC Control'' @ [BS] @ ''LRPC*'', ''*'' @ [BS] @ ''BaseNamedObjects*'' @ [BS] @ ''NamedBuffer*mAH*Process*API*''} = set skip_ipc"
    by (simp add: skip_ipc_def)
  let ?kinds = "{''OpenIpcPath'', ''Tmpl.ScanIpc'', ''OpenWinClass'', ''Tmpl.ScanWinClass'', ''Tmpl.ScanService'',
      ''Tmpl.ScanProduct'', ''Tmpl.ScanKey'', ''Tmpl.ScanFile''}"
  show ?thesis
  proof (cases "setting \<in> ?kinds")
    case True
    then show ?thesis unfolding check_value_def skip by (elim insertE emptyE) (simp_all add: conj_commute)
  next
    case False
    then show ?thesis unfolding check_value_def by simp
  qed
qed

lemma check_value_none: "\<not> check_value sy False False False setting x"
  by (simp add: check_value_def)

lemma checkTemplate_ex:
  "checkTemplate sy t \<longleftrightarrow>
     (if t_ScanScript t \<noteq> [] then s_eval sy (''(()=>{'' @ t_ScanScript t @ ''})()'') = Some True
      else \<exists>(setting, vs) \<in> set (t_section t). \<exists>x \<in> set vs.
        check_value sy (CHR ''i'' \<in> set (t_Scan t)) (CHR ''w'' \<in> set (t_Scan t)) (CHR ''s'' \<in> set (t_Scan t)) setting x)"
  by (auto simp: checkTemplate_def check_keys_ex check_value_none Let_def split: option.splits)

section \<open>The properties\<close>

text \<open>A host and an initial state for the closed examples.\<close>

definition demo_host :: "(wstring \<Rightarrow> jsval) \<Rightarrow> host" where
  "demo_host ans =
     \<lparr>h_form = (\<lambda>_ _. ans), h_resume = (\<lambda>_. eRunning), h_tr = (\<lambda>txt _. txt), h_box = (\<lambda>_. True),
      h_ini_bool = (\<lambda>_ _. True), h_feature = (\<lambda>_. True), h_expand = (\<lambda>x. x), h_expandPath = (\<lambda>x. x),
      h_checkFile = (\<lambda>_. True), h_version = 11, h_pid = (\<lambda>_. ''1''),
      h_execute = (\<lambda>_ _. (JUndef, 0))\<rparr>"

definition demo_js :: js where
  "demo_js = \<lparr>m_State = eRunning, m_Report = Map.empty, g_boxName = JUndef, g_processName = JUndef,
     g_msgCode = JUndef, g_docLink = JUndef, g_sbieMsg = JUndef, g_msgData = None, js_trace = []\<rparr>"

text \<open>
  C40.  The answer "I want to report a bug" is lost in SBIE1307.js: unless the wizard is canceled,
  the script always ends as a success, whatever the user answers, and the wizard goes to its
  last page instead of the report page.
\<close>

theorem SBIE1307_never_reports:
  assumes "\<forall>t. h_resume h t = eRunning" and "m_State s = eRunning"
  shows "CRunPage_nextId (run (SBIE1307 h) err s) = Page_Complete"
proof -
  have p: "patient h" using assms(1) by (simp add: patient_def)
  let ?f = "seq (ask_box_process h) (\<lambda>_. seq (get_js g_boxName) (\<lambda>box. openOptions h (h_tr h
    ''Internet Access restrictions are in effect for the sandbox in which the program is running. The program is prohibited from accessing the Internet.'' []) box ''Internet''))"
  have e: "ends ?f" using p by (intro ends_seq) auto
  have "SBIE1307 h = seq ?f (\<lambda>_. setResult True [])"
    by (simp only: SBIE1307_def seq_assoc)
  with ends_then_success [OF e] assms(2) show ?thesis by (simp add: CRunPage_nextId_def)
qed

theorem SBIE1307_never_reports_witness:
  "CRunPage_nextId (run (SBIE1307 (demo_host (\<lambda>id. JBool (id = ''bug'')))) [] demo_js) = Page_Complete"
  by (rule SBIE1307_never_reports) (simp_all add: demo_host_def demo_js_def)

text \<open>
   desktop.js creates no shortcut for a browser it found: for every index of the list of known
  browsers the script ends as a success, but \<^verbatim>\<open>CBoxObject::MakeShortcut\<close> refuses the call, which
  gives a location and no name.
\<close>

theorem desktop_makes_no_shortcut:
  assumes "\<forall>t. h_resume h t = eRunning" and "\<forall>b. h_box h b" and "m_State s = eRunning"
    and "js_trace s = []"
    and "\<forall>t form. h_form h t form ''browser'' = JInt i" and "0 \<le> i" and "i < 18"
  shows "m_State (run (desktop_js h) err s) = eSuccess
    \<and> shortcuts_made webBrowser (run (desktop_js h) err s) = []"
proof -
  let ?known = "knownBrowsers (h_expand h ''LocalAppData'')"
  have len: "length ?known = 18" by (simp add: knownBrowsers_def)
  have nd: "fst (?known ! nat i) \<noteq> ''default_browser''"
  proof -
    have c: "x \<noteq> ''default_browser''" if "CHR 0x5C \<in> set x" for x
      using that by auto
    have "\<forall>k \<in> set ?known. CHR 0x5C \<in> set (fst k)" by (simp add: knownBrowsers_def)
    moreover have "?known ! nat i \<in> set ?known" using assms(6,7) len by (intro nth_mem) auto
    ultimately show ?thesis using c by blast
  qed
  show ?thesis
    using assms len nd
    by (simp add: desktop_js_def run_def script_defs showForm_def TestRunning_def WaitLocked_def
        SetState_def getBox_def box_call_def setResult_def browser_index_def Let_def shortcuts_made_def
        MakeShortcut_cpp_def)
qed

theorem desktop_makes_no_shortcut_witness:
  "m_State (run (desktop_js (demo_host (\<lambda>_. JInt 0))) [] demo_js) = eSuccess
    \<and> shortcuts_made ''Sandboxed Web Browser'' (run (desktop_js (demo_host (\<lambda>_. JInt 0))) [] demo_js) = []"
  by (rule desktop_makes_no_shortcut [where i = 0]) (simp_all add: demo_host_def demo_js_def)

text \<open>
   installer.js changes settings of the box but never calls \<^verbatim>\<open>applyChanges\<close>, so for every answer
  of the user its changes stay in the shadow copy.
\<close>

theorem installer_never_applies:
  "\<exists>t. js_trace (snd (installer_js h s)) = js_trace s @ t \<and> (\<forall>b. ApplyChanges b \<notin> set t)"
  using installer_avoids [of h] unfolding avoids_def is_apply_def by blast

text \<open>
  C15.  \<^verbatim>\<open>ApplyShadowChanges\<close> writes the difference of the two sections: it deletes the settings the
  shadow has lost and appends those it has gained, as multisets, apart from \<^verbatim>\<open>FileRootPath\<close>,
  \<^verbatim>\<open>IsShadow\<close> and templates.
\<close>

theorem apply_shadow_writes_difference:
  assumes "iApplyChanges sh = 1" and "sh_original sh = Some original"
    and "n \<noteq> ''FileRootPath''" and "n \<noteq> ''IsShadow''" and "n \<noteq> ''Template''"
  shows "count (mset (apply_shadow shadows sh)) (DelValue n v)
      = count (mset original - mset (sh_shadow sh)) (n, v)
    \<and> count (mset (apply_shadow shadows sh)) (AppendText n v)
      = count (mset (sh_shadow sh) - mset original) (n, v)"
proof -
  obtain new old where d: "discard_unchanged (sh_shadow sh) original = (new, old)"
    by (cases "discard_unchanged (sh_shadow sh) original")
  note m = discard_unchanged_diff [OF d]
  let ?app = "\<lambda>(a, b). if a = ''FileRootPath'' \<or> a = ''IsShadow'' then []
    else if a = ''Template'' \<and> IsNoAppliedShadow shadows (''Template_'' @ b) then [] else [AppendText a b]"
  have a: "apply_shadow shadows sh = map (\<lambda>(a, b). DelValue a b) old @ concat (map ?app new)"
    using assms(1,2) d by (simp add: apply_shadow_def)
  have c1: "count (mset (map (\<lambda>(a, b). DelValue a b) xs)) (DelValue n v) = count (mset xs) (n, v)"
    "count (mset (map (\<lambda>(a, b). DelValue a b) xs)) (AppendText n v) = 0" for xs
    by (induction xs) auto
  have c2: "count (mset (concat (map ?app xs))) (AppendText n v) = count (mset xs) (n, v)"
    "count (mset (concat (map ?app xs))) (DelValue n v) = 0" for xs
    using assms(3-5) by (induction xs) auto
  show ?thesis by (simp only: a mset_append count_union c1 c2 m add_0_left add_0_right simp_thms)
qed

theorem apply_shadow_writes_difference_witness:
  "count (mset (apply_shadow Map.empty \<lparr>sh_shadow = [(''a'', ''2'')], sh_original = Some [(''a'', ''1'')],
      iApplyChanges = 1\<rparr>)) (AppendText ''a'' ''2'') = 1"
  using apply_shadow_writes_difference [of "\<lparr>sh_shadow = [(''a'', ''2'')],
      sh_original = Some [(''a'', ''1'')], iApplyChanges = 1\<rparr>" "[(''a'', ''1'')]" "''a''" Map.empty "''2''"]
  by simp

text \<open>
   The shadow of a box has its own \<^verbatim>\<open>FileRootPath\<close>, which is never copied back, but the one of
  the original is deleted: applying any change to a box that sets \<^verbatim>\<open>FileRootPath\<close> removes it.
\<close>

theorem apply_shadow_loses_FileRootPath:
  assumes "iApplyChanges sh = 1" and "sh_original sh = Some original"
    and "(''FileRootPath'', v) \<in> set original" and "(''FileRootPath'', v) \<notin> set (sh_shadow sh)"
  shows "DelValue ''FileRootPath'' v \<in> set (apply_shadow shadows sh)
    \<and> AppendText ''FileRootPath'' w \<notin> set (apply_shadow shadows sh)"
proof -
  obtain new old where d: "discard_unchanged (sh_shadow sh) original = (new, old)"
    by (cases "discard_unchanged (sh_shadow sh) original")
  have "(''FileRootPath'', v) \<in># mset original - mset (sh_shadow sh)"
  proof -
    from assms(4) have "count (mset (sh_shadow sh)) (''FileRootPath'', v) = 0"
      by (simp add: count_mset_0_iff)
    moreover from assms(3) have "0 < count (mset original) (''FileRootPath'', v)"
      by (simp add: count_mset_gt_0)
    ultimately show ?thesis by (simp only: in_diff_count)
  qed
  with discard_unchanged_diff [OF d] have "(''FileRootPath'', v) \<in> set old"
    by (metis set_mset_mset)
  with assms(1,2) d show ?thesis
    by (force simp: apply_shadow_def split: if_splits)
qed

theorem apply_shadow_loses_FileRootPath_witness:
  "DelValue ''FileRootPath'' ''C:raw'' \<in> set (apply_shadow Map.empty
     \<lparr>sh_shadow = [(''FileRootPath'', ''C:full'')], sh_original = Some [(''FileRootPath'', ''C:raw'')],
      iApplyChanges = 1\<rparr>)"
  using apply_shadow_loses_FileRootPath [of "\<lparr>sh_shadow = [(''FileRootPath'', ''C:full'')],
      sh_original = Some [(''FileRootPath'', ''C:raw'')], iApplyChanges = 1\<rparr>"
      "[(''FileRootPath'', ''C:raw'')]" "''C:raw''" Map.empty "[]"]
  by simp

text \<open>
  C16.  AppCompatibility.js reports, in their order, exactly the templates, other than local ones,
  whose scan script evaluates to true or, without a script, which have a setting of a kind named
  in \<^verbatim>\<open>Tmpl.Scan\<close> with a value present in the system: for \<open>i\<close> an object of \<^verbatim>\<open>OpenIpcPath\<close> or \<^verbatim>\<open>Tmpl.ScanIpc\<close>
  other than the four too common ones, for \<open>w\<close> a window class of \<^verbatim>\<open>OpenWinClass\<close> or
  \<^verbatim>\<open>Tmpl.ScanWinClass\<close> that does not begin with \<^verbatim>\<open>*:\<close>, for \<open>s\<close> a service, a product, a key or the file of an
  expanded path.
\<close>

theorem app_compatibility_reports:
  "AppCompatibility sy get names =
     filter (\<lambda>name. take 6 name \<noteq> ''Local_'' \<and>
       (if t_ScanScript (get name) \<noteq> [] then s_eval sy (''(()=>{'' @ t_ScanScript (get name) @ ''})()'') = Some True
        else \<exists>(setting, vs) \<in> set (t_section (get name)). \<exists>x \<in> set vs.
          CHR ''i'' \<in> set (t_Scan (get name)) \<and> setting \<in> {''OpenIpcPath'', ''Tmpl.ScanIpc''} \<and> s_checkObjects sy x
            \<and> x \<notin> {[BS] @ ''RPC Control'' @ [BS] @ ''epmapper'', [BS] @ ''RPC Control'' @ [BS] @ ''OLE*'',
                 [BS] @ ''RPC Control'' @ [BS] @ ''LRPC*'', ''*'' @ [BS] @ ''BaseNamedObjects*'' @ [BS] @ ''NamedBuffer*mAH*Process*API*''}
          \<or> CHR ''w'' \<in> set (t_Scan (get name)) \<and> setting \<in> {''OpenWinClass'', ''Tmpl.ScanWinClass''} \<and> s_checkClasses sy x
            \<and> take 2 x \<noteq> ''*:''
          \<or> CHR ''s'' \<in> set (t_Scan (get name)) \<and>
            (setting = ''Tmpl.ScanService'' \<and> s_checkServices sy x \<or> setting = ''Tmpl.ScanProduct'' \<and> s_checkProducts sy x
             \<or> setting = ''Tmpl.ScanKey'' \<and> s_checkRegKey sy x \<or> setting = ''Tmpl.ScanFile'' \<and> s_checkFile sy (s_expandPath sy x)))) names"
  unfolding AppCompatibility_filter checkTemplate_ex check_value_kinds by (rule refl)

end
