(* ===== verification/ScriptManager.thy ===== *)
theory ScriptManager
  imports Troubleshooting
begin

text \<open>
  How the troubleshooting scripts reach the user: \<^verbatim>\<open>CScriptManager\<close> (SandMan/Engine/ScriptManager.cpp)
  reads the comment header of every script, leaves out the scripts of other Windows builds or
  versions and sorts the rest into the groups of layout.json; \<^verbatim>\<open>CBoxAssistant\<close>
  (SandMan/Wizards/BoxAssistant.cpp) finds the script for a message and leads the user through the
  pages of the wizard.  The comment headers of the scripts are definitions of their own, so that the
  theorems on loading can be stated for the folder that is shipped.

  The JSON parser, the file system and the widgets are Qt's: the entries of layout.json and the
  folder with the texts of its files are arguments, a page shows a list of items and the user picks
  one.
\<close>

section \<open>Strings and variants\<close>

abbreviation TAB :: wchar where "TAB \<equiv> CHR 0x09"

text \<open>\<^verbatim>\<open>QChar::isSpace\<close> up to U+00FF, \<^verbatim>\<open>QString::trimmed\<close>, \<^verbatim>\<open>indexOf\<close> and \<^verbatim>\<open>split\<close>.\<close>

definition q_space :: "wchar \<Rightarrow> bool" where
  "q_space c = (let n = of_char c :: int in (9 \<le> n \<and> n \<le> 13) \<or> n = 32 \<or> n = 133 \<or> n = 160)"

definition q_trimmed :: "wstring \<Rightarrow> wstring" where
  "q_trimmed s = rev (dropWhile q_space (rev (dropWhile q_space s)))"

fun q_indexOf :: "wstring \<Rightarrow> wstring \<Rightarrow> nat option" where
  "q_indexOf sub [] = (if sub = [] then Some 0 else None)"
| "q_indexOf sub (c # s) =
     (if take (length sub) (c # s) = sub then Some 0 else map_option Suc (q_indexOf sub s))"

fun q_split :: "wchar \<Rightarrow> wstring \<Rightarrow> wstring list" where
  "q_split sep [] = [[]]"
| "q_split sep (c # s) =
     (if c = sep then [] # q_split sep s
      else case q_split sep s of [] \<Rightarrow> [[c]] | p # ps \<Rightarrow> (c # p) # ps)"

text \<open>\<^verbatim>\<open>Split2\<close> with \<^verbatim>\<open>Back\<close> false, and \<^verbatim>\<open>SplitStr\<close>.\<close>

definition Split2 :: "wstring \<Rightarrow> wstring \<Rightarrow> wstring \<times> wstring" where
  "Split2 s separator =
     (case q_indexOf separator s of
        Some sep \<Rightarrow> (q_trimmed (take sep s), q_trimmed (drop (sep + length separator) s))
      | None \<Rightarrow> (q_trimmed s, []))"

definition SplitStr :: "wstring \<Rightarrow> wchar \<Rightarrow> wstring list" where
  "SplitStr s separator = filter (\<lambda>p. p \<noteq> []) (map q_trimmed (q_split separator s))"

text \<open>
  \<^verbatim>\<open>QString::toUInt\<close> and \<^verbatim>\<open>toInt\<close> to base ten: 0 when the text is not a number or does not fit.
\<close>

definition q_digits :: "wstring \<Rightarrow> int option" where
  "q_digits s =
     (if s \<noteq> [] \<and> list_all (\<lambda>c. 48 \<le> (of_char c :: int) \<and> (of_char c :: int) \<le> 57) s
      then Some (foldl (\<lambda>n c. 10 * n + (of_char c - 48)) 0 s) else None)"

definition q_toUInt :: "wstring \<Rightarrow> u32" where
  "q_toUInt str =
     (let s = q_trimmed str
      in case q_digits (if take 1 s = ''+'' then drop 1 s else s) of
           Some n \<Rightarrow> (if n < 2 ^ 32 then word_of_int n else 0)
         | None \<Rightarrow> 0)"

definition q_toInt :: "wstring \<Rightarrow> int" where
  "q_toInt str =
     (let s = q_trimmed str
      in if take 1 s = ''-'' then
           (case q_digits (drop 1 s) of Some n \<Rightarrow> (if n \<le> 2 ^ 31 then - n else 0) | None \<Rightarrow> 0)
         else
           (case q_digits (if take 1 s = ''+'' then drop 1 s else s) of
              Some n \<Rightarrow> (if n < 2 ^ 31 then n else 0) | None \<Rightarrow> 0))"

text \<open>\<^verbatim>\<open>COnlineUpdater::VersionToInt\<close> and \<^verbatim>\<open>CurrentVersion\<close>: four numbers, one per byte.\<close>

fun version_loop :: "wstring list \<Rightarrow> nat \<Rightarrow> u32 \<Rightarrow> u32" where
  "version_loop [] steps version = version"
| "version_loop (n # nums) 0 version = version"
| "version_loop (n # nums) (Suc steps) version =
     version_loop nums steps (version OR push_bit (8 * steps) (word_of_int (q_toInt n) AND 0xFF))"

definition VersionToInt :: "wstring \<Rightarrow> u32" where
  "VersionToInt VersionStr = version_loop (q_split CHR ''.'' VersionStr) 4 0"

definition VERSION_MJR :: u32 where "VERSION_MJR = 1"
definition VERSION_MIN :: u32 where "VERSION_MIN = 17"
definition VERSION_REV :: u32 where "VERSION_REV = 0"

definition CurrentVersion :: u32 where
  "CurrentVersion = push_bit 24 VERSION_MJR OR push_bit 16 VERSION_MIN OR push_bit 8 VERSION_REV"

text \<open>
  A \<^verbatim>\<open>QVariantMap\<close> with the kinds of values that headers and layout.json have.  \<^verbatim>\<open>QInvalid\<close> is the
  value that \<^verbatim>\<open>operator[]\<close> of a map that is not constant puts in for a missing key.
\<close>

datatype qvariant = QInvalid | QStr wstring | QBool bool

type_synonym qmap = "wstring \<rightharpoonup> qvariant"

definition q_at :: "qmap \<Rightarrow> wstring \<Rightarrow> qvariant" where
  "q_at m k = (case m k of None \<Rightarrow> QInvalid | Some v \<Rightarrow> v)"

definition with_key :: "wstring \<Rightarrow> qmap \<Rightarrow> qmap" where
  "with_key k m = (case m k of None \<Rightarrow> m(k \<mapsto> QInvalid) | Some _ \<Rightarrow> m)"

definition toString :: "qvariant \<Rightarrow> wstring" where
  "toString v = (case v of QInvalid \<Rightarrow> [] | QStr s \<Rightarrow> s | QBool b \<Rightarrow> (if b then ''true'' else ''false''))"

definition q_text :: "qmap \<Rightarrow> wstring \<Rightarrow> wstring" where
  "q_text m k = toString (q_at m k)"

section \<open>The script manager\<close>

text \<open>\<^verbatim>\<open>ReadCommentHeader\<close>, one line and all of them.\<close>

definition comment_field :: "wstring \<Rightarrow> (wstring \<times> wstring) option" where
  "comment_field line =
     (let line = q_trimmed line;
          line = (if take 1 line = ''*'' then q_trimmed (drop 1 line) else line)
      in case Split2 line '':'' of (k, v) \<Rightarrow>
           if k = [] \<or> CHR '' '' \<in> set k then None else Some (k, v))"

definition ReadCommentHeader :: "wstring \<Rightarrow> (wstring \<times> wstring) list" where
  "ReadCommentHeader header = List.map_filter comment_field (q_split NL header)"

text \<open>
  The loop of \<^verbatim>\<open>LoadIssues\<close> over the scripts: the fields of a header, the tests of versions and
  builds, and the entry of a script; \<^const>\<open>None\<close> is \<^verbatim>\<open>continue\<close>.
\<close>

definition fileName :: "wstring \<Rightarrow> wstring" where
  "fileName path = rev (takeWhile (\<lambda>c. c \<noteq> CHR ''/'') (rev path))"

definition header_of :: "wstring \<Rightarrow> wstring option" where
  "header_of Script =
     (case q_indexOf ''/*'' Script of
        Some 0 \<Rightarrow>
          (case q_indexOf ''*/'' Script of
             Some e \<Rightarrow> Some (if e < 2 then drop 2 Script else take (e - 2) (drop 2 Script))
           | None \<Rightarrow> None)
      | _ \<Rightarrow> None)"

definition header_issue :: "wstring \<Rightarrow> wstring \<Rightarrow> qmap" where
  "header_issue file header =
     fold (\<lambda>(k, v) m. m(k \<mapsto> QStr v)) (ReadCommentHeader header)
       [''id'' \<mapsto> QStr (take (length (fileName file) - 3) (fileName file)), ''type'' \<mapsto> QStr ''issue'']"

definition range_hit :: "(wstring \<Rightarrow> u32) \<Rightarrow> u32 \<Rightarrow> wstring \<Rightarrow> bool" where
  "range_hit conv current V =
     (case Split2 V ''-'' of (a, b) \<Rightarrow>
        (b = [] \<and> conv a = current) \<or> (b \<noteq> [] \<and> conv a \<le> current \<and> current \<le> conv b))"

definition applicable :: "u32 \<Rightarrow> qmap \<Rightarrow> bool" where
  "applicable OsBuild issue =
     ((case issue ''versions'' of
         None \<Rightarrow> True
       | Some v \<Rightarrow> list_ex (range_hit VersionToInt CurrentVersion) (SplitStr (toString v) CHR '',''))
      \<and> (case issue ''os_builds'' of
           None \<Rightarrow> True
         | Some v \<Rightarrow> list_ex (range_hit q_toUInt OsBuild) (SplitStr (toString v) CHR '','')))"

definition load_script :: "u32 \<Rightarrow> wstring \<times> wstring \<Rightarrow> qmap option" where
  "load_script OsBuild = (\<lambda>(file, Script).
     case header_of Script of
       None \<Rightarrow> None
     | Some header \<Rightarrow>
         let issue = with_key ''group'' (header_issue file header)
         in if q_at issue ''group'' = QStr ''system'' \<or> q_at issue ''group'' = QStr ''library'' then None
         else
           let issue = issue(''script'' \<mapsto> QStr Script)
           in if applicable OsBuild issue then Some issue else None)"

text \<open>
  \<^verbatim>\<open>m_GroupedIssues\<close>, a \<^verbatim>\<open>QMap\<close> from the names of groups: the pairs in the order of the keys.
\<close>

type_synonym groups = "(wstring \<times> qmap list) list"

fun str_less :: "wstring \<Rightarrow> wstring \<Rightarrow> bool" where
  "str_less [] [] = False"
| "str_less [] (d # t) = True"
| "str_less (c # s) [] = False"
| "str_less (c # s) (d # t) =
     ((of_char c :: int) < of_char d \<or> (c = d \<and> str_less s t))"

fun grp_upd :: "wstring \<Rightarrow> (qmap list \<Rightarrow> qmap list) \<Rightarrow> groups \<Rightarrow> groups" where
  "grp_upd k f [] = [(k, f [])]"
| "grp_upd k f ((k', v) # m) =
     (if k = k' then (k, f v) # m
      else if str_less k k' then (k, f []) # (k', v) # m
      else (k', v) # grp_upd k f m)"

definition grp_value :: "groups \<Rightarrow> wstring \<Rightarrow> qmap list" where
  "grp_value m k = (case map_of m k of None \<Rightarrow> [] | Some v \<Rightarrow> v)"

text \<open>
  The second loop of \<^verbatim>\<open>LoadIssues\<close>: an entry goes to the end of its group or, when the group has an
  entry with its id, into that entry.
\<close>

fun put_issue :: "qmap \<Rightarrow> qmap list \<Rightarrow> qmap list" where
  "put_issue issue [] = [issue]"
| "put_issue issue (cur # gs) =
     (if q_at cur ''id'' = QStr (q_text issue ''id'') then (cur ++ issue) # gs
      else cur # put_issue issue gs)"

definition add_entry :: "qmap \<Rightarrow> groups \<Rightarrow> groups" where
  "add_entry entry m =
     (let issue = with_key ''id'' (with_key ''group'' entry)
      in grp_upd (q_text issue ''group'') (put_issue issue) m)"

definition LoadIssues :: "u32 \<Rightarrow> qmap list \<Rightarrow> (wstring \<times> wstring) list \<Rightarrow> groups \<Rightarrow> groups" where
  "LoadIssues OsBuild Entries files m_GroupedIssues =
     (if Entries = [] then m_GroupedIssues
      else fold add_entry (Entries @ List.map_filter (load_script OsBuild) files) [])"

text \<open>
  \<^verbatim>\<open>ListDir\<close> with subfolders; a folder has its script files and its subfolders in the order of
  \<^verbatim>\<open>QDir::entryList\<close>, and each path comes with the text of its file.
\<close>

datatype dir = Dir "(wstring \<times> wstring) list" "(wstring \<times> dir) list"

fun ListDir :: "dir \<Rightarrow> (wstring \<times> wstring) list" where
  "ListDir (Dir files dirs) =
     files @ concat (map (\<lambda>(name, d). map (\<lambda>(f, txt). (name @ ''/'' @ f, txt)) (ListDir d)) dirs)"

definition GetScript :: "dir \<Rightarrow> wstring \<Rightarrow> wstring" where
  "GetScript root Name =
     (case find (\<lambda>(path, txt). drop (length path - (length Name + 3)) path = Name @ ''.js'') (ListDir root) of
        None \<Rightarrow> []
      | Some (path, txt) \<Rightarrow> txt)"

section \<open>Lemmas on headers\<close>

definition trim :: "wstring \<Rightarrow> bool" where
  "trim s \<longleftrightarrow> s \<noteq> [] \<and> \<not> q_space (hd s) \<and> \<not> q_space (last s)"

lemma q_trimmed_id: "trim s \<Longrightarrow> q_trimmed s = s"
proof -
  assume "trim s"
  then have "dropWhile q_space s = s" "dropWhile q_space (rev s) = rev s"
    by (cases s, simp_all add: trim_def, cases s rule: rev_cases, simp_all)
  then show ?thesis by (simp add: q_trimmed_def)
qed

lemma q_trimmed_front: "list_all q_space ws \<Longrightarrow> q_trimmed (ws @ s) = q_trimmed s"
  by (induction ws) (auto simp: q_trimmed_def)

lemma q_trimmed_Nil [simp]: "q_trimmed [] = []"
  by (simp add: q_trimmed_def)

lemma trim_append: "trim s \<Longrightarrow> trim t \<Longrightarrow> trim (s @ u @ t)"
  by (auto simp: trim_def)

lemma q_indexOf_char: "c \<notin> set s \<Longrightarrow> q_indexOf [c] (s @ c # t) = Some (length s)"
  by (induction s) auto

lemma q_split_line: "sep \<notin> set l \<Longrightarrow> q_split sep (l @ sep # s) = l # q_split sep s"
  by (induction l) auto

lemma q_split_lines:
  "\<forall>l \<in> set ls. NL \<notin> set l \<Longrightarrow> q_split NL (concat (map (\<lambda>l. l @ [NL]) ls)) = ls @ [[]]"
  by (induction ls) (auto simp: q_split_line)

text \<open>A field of a header: white space, a key and a value.\<close>

definition field_ok :: "wstring \<times> wstring \<times> wstring \<Rightarrow> bool" where
  "field_ok = (\<lambda>(ws, k, v).
     ws \<noteq> [] \<and> list_all q_space ws \<and> NL \<notin> set ws
     \<and> k \<noteq> [] \<and> list_all (\<lambda>c. \<not> q_space c \<and> c \<noteq> CHR '':'' \<and> c \<noteq> STAR) k
     \<and> trim v \<and> NL \<notin> set v \<and> STAR \<notin> set v)"

definition print_field :: "wstring \<times> wstring \<times> wstring \<Rightarrow> wstring" where
  "print_field = (\<lambda>(ws, k, v). ''*'' @ ws @ k @ '': '' @ v)"

definition text_lines :: "wstring list \<Rightarrow> wstring" where
  "text_lines ls = concat (map (\<lambda>l. l @ [NL]) ls)"

definition print_header :: "(wstring \<times> wstring \<times> wstring) list \<Rightarrow> wstring" where
  "print_header fs = text_lines ([''/*''] @ map print_field fs @ [''*'', ''*/''])"

lemma q_space_code: "q_space CHR '' ''" "q_space TAB" "q_space NL" "\<not> q_space STAR" "\<not> q_space CHR '':''"
  by (simp_all add: q_space_def)

lemma comment_field_print:
  assumes "field_ok (ws, k, v)"
  shows "comment_field (print_field (ws, k, v)) = Some (k, v)"
proof -
  from assms have ws: "list_all q_space ws" and k: "k \<noteq> []" "list_all (\<lambda>c. \<not> q_space c \<and> c \<noteq> CHR '':'' \<and> c \<noteq> STAR) k"
    and v: "trim v" by (auto simp: field_ok_def)
  have kt: "trim k" using k by (auto simp: trim_def list_all_iff)
  have no: "CHR '':'' \<notin> set k" "CHR '' '' \<notin> set k"
    using k(2) q_space_code(1) by (auto simp: list_all_iff)
  have star: "trim ''*''" by (simp add: trim_def q_space_code)
  have 1: "q_trimmed (''*'' @ (ws @ k @ '': '') @ v) = ''*'' @ (ws @ k @ '': '') @ v"
    by (rule q_trimmed_id [OF trim_append [OF star v]])
  have 2: "q_trimmed (ws @ k @ '': '' @ v) = k @ '': '' @ v"
    using q_trimmed_front [OF ws] q_trimmed_id [OF trim_append [OF kt v, of "'': ''"]] by simp
  have 3: "Split2 (k @ '': '' @ v) '':'' = (k, v)"
    using q_indexOf_char [OF no(1), of "CHR '' '' # v"] q_trimmed_id [OF kt] q_trimmed_id [OF v]
      q_trimmed_front [of "'' ''" v]
    by (simp add: Split2_def q_space_code)
  show ?thesis
    using 1 2 3 no k by (simp add: comment_field_def print_field_def)
qed

lemma comment_field_none: "comment_field [] = None" "comment_field ''*'' = None"
  by (simp_all add: comment_field_def Split2_def q_trimmed_def q_space_def)

fun no_end :: "wstring \<Rightarrow> bool" where
  "no_end [] = True"
| "no_end (c # s) \<longleftrightarrow> \<not> (c = STAR \<and> take 1 s = ''/'') \<and> no_end s"

lemma indexOf_end: "no_end s \<Longrightarrow> q_indexOf ''*/'' (s @ ''*/'' @ r) = Some (length s)"
proof (induction s)
  case (Cons c s)
  have "take 2 (c # s @ ''*/'' @ r) \<noteq> ''*/''"
    using Cons.prems by (cases s) auto
  then show ?case using Cons by (simp add: numeral_2_eq_2)
qed (simp add: numeral_2_eq_2)

lemma no_end_append: "no_end s \<Longrightarrow> no_end t \<Longrightarrow> hd t \<noteq> CHR ''/'' \<Longrightarrow> no_end (s @ t)"
proof (induction s)
  case (Cons c s)
  then show ?case by (cases s; cases t) auto
qed simp

lemma no_end_plain: "STAR \<notin> set s \<Longrightarrow> no_end s"
  by (induction s) auto

lemma no_end_field:
  assumes "field_ok f" shows "no_end (print_field f @ [NL])"
proof -
  obtain ws k v where f: "f = (ws, k, v)" by (cases f) auto
  have sp: "c \<noteq> CHR ''/''" "c \<noteq> STAR" if "q_space c" for c using that by (auto simp: q_space_def)
  have "STAR \<notin> set (ws @ k @ '': '' @ v @ [NL])" using assms sp f by (auto simp: field_ok_def list_all_iff)
  moreover have "take 1 (ws @ k @ '': '' @ v @ [NL]) \<noteq> ''/''"
    using assms sp f by (cases ws) (auto simp: field_ok_def)
  ultimately show ?thesis by (simp add: print_field_def f no_end_plain del: set_append)
qed

lemma no_end_fields:
  "list_all field_ok fs \<Longrightarrow> no_end (text_lines (map print_field fs) @ [STAR, NL])"
proof (induction fs)
  case (Cons f fs)
  have "hd (text_lines (map print_field fs) @ [STAR, NL]) \<noteq> CHR ''/''"
    by (cases fs) (auto simp: text_lines_def print_field_def)
  with Cons no_end_field [of f] no_end_append [of "print_field f @ [NL]"] show ?case by (simp add: text_lines_def)
qed (simp add: text_lines_def)

lemma header_of_print:
  assumes "list_all field_ok fs"
  shows "header_of (print_header fs @ body) = Some (text_lines ([[]] @ map print_field fs @ [''*'']))"
proof -
  let ?f = "text_lines (map print_field fs) @ [STAR, NL]"
  have split: "print_header fs @ body = (''/*'' @ [NL] @ ?f) @ ''*/'' @ (NL # body)"
    by (simp add: print_header_def text_lines_def)
  have "hd ?f \<noteq> CHR ''/''" by (cases fs) (auto simp: text_lines_def print_field_def)
  then have "no_end (''/*'' @ [NL] @ ?f)"
    using no_end_append [of "''/*'' @ [NL]" ?f] no_end_fields [OF assms] by simp
  from indexOf_end [OF this, of "NL # body"] show ?thesis
    unfolding header_of_def split by (simp add: text_lines_def)
qed

lemma map_filter_append: "List.map_filter f (xs @ ys) = List.map_filter f xs @ List.map_filter f ys"
  by (induction xs) (auto simp: map_filter_simps split: option.splits)

lemma ReadCommentHeader_print:
  assumes "list_all field_ok fs"
  shows "ReadCommentHeader (text_lines ([[]] @ map print_field fs @ [''*''])) = map snd fs"
proof -
  have "\<forall>l \<in> set ([[]] @ map print_field fs @ [''*'']). NL \<notin> set l"
    using assms q_space_code by (fastforce simp: list_all_iff field_ok_def print_field_def)
  then have split: "q_split NL (text_lines ([[]] @ map print_field fs @ [''*''])) = [[]] @ map print_field fs @ [''*''] @ [[]]"
    unfolding text_lines_def using q_split_lines by (metis append_assoc)
  have "List.map_filter comment_field (map print_field fs) = map snd fs"
    using assms by (induction fs) (auto simp: comment_field_print map_filter_simps)
  then show ?thesis
    unfolding ReadCommentHeader_def split
    by (simp add: map_filter_simps comment_field_none map_filter_append)
qed

section \<open>Lemmas on groups\<close>

lemma str_less_irrefl [simp]: "\<not> str_less s s"
  by (induction s) auto

lemma str_less_trans: "str_less s t \<Longrightarrow> str_less t u \<Longrightarrow> str_less s u"
  by (induction s t arbitrary: u rule: str_less.induct; case_tac u; fastforce)

lemma of_char_int_inj: "(of_char c :: int) = of_char d \<Longrightarrow> c = d"
  by simp

lemma str_less_total: "s \<noteq> t \<Longrightarrow> str_less s t \<or> str_less t s"
proof (induction s t rule: str_less.induct)
  case (4 c s d t)
  then show ?case using of_char_int_inj [of c d] by (cases "c = d") (auto simp: not_less_iff_gr_or_eq)
qed auto

definition groups_sorted :: "groups \<Rightarrow> bool" where
  "groups_sorted m \<longleftrightarrow> sorted_wrt str_less (map fst m)"

lemma grp_upd_keys: "fst ` set (grp_upd k f m) = insert k (fst ` set m)"
  by (induction k f m rule: grp_upd.induct) auto

lemma grp_upd_sorted: "groups_sorted m \<Longrightarrow> groups_sorted (grp_upd k f m)"
proof (induction k f m rule: grp_upd.induct)
  case (2 k f k' v m)
  then show ?case
    using str_less_total [of k k'] grp_upd_keys [of k f m]
    by (auto simp: groups_sorted_def intro: str_less_trans dest: str_less_trans)
qed (simp add: groups_sorted_def)

lemma grp_value_upd:
  "groups_sorted m \<Longrightarrow> grp_value (grp_upd k f m) g = (if g = k then f (grp_value m k) else grp_value m g)"
proof (induction k f m rule: grp_upd.induct)
  case (2 k f k' v m)
  have "map_of m k = None" if "str_less k k'"
    using 2(2) that str_less_trans [of k k'] by (force simp: groups_sorted_def map_of_eq_None_iff)
  with 2 show ?case by (auto simp: groups_sorted_def grp_value_def)
qed (simp add: grp_value_def)

text \<open>The entries of a group by their ids, in the order in which the ids appear first.\<close>

definition first_ids :: "wstring list \<Rightarrow> wstring list" where
  "first_ids ids = rev (remdups (rev ids))"

definition merge_id :: "qmap list \<Rightarrow> wstring \<Rightarrow> qmap" where
  "merge_id es i = foldl (++) Map.empty (filter (\<lambda>e. q_text e ''id'' = i) es)"

definition merged :: "qmap list \<Rightarrow> qmap list" where
  "merged es = map (merge_id es) (first_ids (map (\<lambda>e. q_text e ''id'') es))"

definition has_id :: "qmap \<Rightarrow> bool" where
  "has_id e \<longleftrightarrow> e ''id'' = Some (QStr (q_text e ''id''))"

lemma foldl_map_add: "es \<noteq> [] \<Longrightarrow> \<forall>e \<in> set es. e k = Some v \<Longrightarrow> foldl (++) m es k = Some v"
  by (induction es arbitrary: m rule: rev_induct) (auto simp: map_add_Some_iff)

lemma first_ids_set [simp]: "set (first_ids ids) = set ids"
  by (simp add: first_ids_def)

lemma first_ids_distinct [simp]: "distinct (first_ids ids)"
  by (simp add: first_ids_def)

lemma first_ids_snoc: "first_ids (ids @ [i]) = (if i \<in> set ids then first_ids ids else first_ids ids @ [i])"
  by (simp add: first_ids_def)

lemma merge_id_at:
  assumes "\<forall>e \<in> set es. has_id e" and "i \<in> (\<lambda>e. q_text e ''id'') ` set es"
  shows "q_at (merge_id es i) ''id'' = QStr i"
proof -
  from assms(2) have "filter (\<lambda>e. q_text e ''id'' = i) es \<noteq> []" by (auto simp: filter_empty_conv)
  moreover have "\<forall>e \<in> set (filter (\<lambda>e. q_text e ''id'' = i) es). e ''id'' = Some (QStr i)"
    using assms(1) by (auto simp: has_id_def)
  ultimately show ?thesis unfolding merge_id_def q_at_def by (simp add: foldl_map_add)
qed

lemma put_issue_map:
  assumes "distinct ids" and "\<forall>i \<in> set ids. q_at (F i) ''id'' = QStr i"
  shows "put_issue e (map F ids) =
    (if q_text e ''id'' \<in> set ids then map (\<lambda>i. if i = q_text e ''id'' then F i ++ e else F i) ids
     else map F ids @ [e])"
  using assms by (induction ids) (auto intro: map_cong)

lemma put_issue_merged:
  assumes "\<forall>e \<in> set es. has_id e"
  shows "put_issue e (merged es) = merged (es @ [e])"
proof -
  let ?ids = "map (\<lambda>e. q_text e ''id'') es"
  have "put_issue e (merged es) =
     (if q_text e ''id'' \<in> set ?ids
      then map (\<lambda>i. if i = q_text e ''id'' then merge_id es i ++ e else merge_id es i) (first_ids ?ids)
      else map (merge_id es) (first_ids ?ids) @ [e])"
    unfolding merged_def by (subst put_issue_map) (auto simp: merge_id_at [OF assms])
  moreover have "merge_id (es @ [e]) i = (if i = q_text e ''id'' then merge_id es i ++ e else merge_id es i)" for i
    by (auto simp: merge_id_def)
  moreover have "merge_id es (q_text e ''id'') = Map.empty" if "q_text e ''id'' \<notin> set ?ids"
  proof -
    from that have "filter (\<lambda>e'. q_text e' ''id'' = q_text e ''id'') es = []" by (auto simp: filter_empty_conv image_iff)
    then show ?thesis by (simp only: merge_id_def foldl_Nil)
  qed
  ultimately show ?thesis
    by (auto simp: merged_def first_ids_snoc image_iff intro!: map_cong dest: sym)
qed

definition full_entry :: "qmap \<Rightarrow> qmap" where
  "full_entry e = with_key ''id'' (with_key ''group'' e)"

lemma full_entry_has_id: "has_id e \<Longrightarrow> has_id (full_entry e)"
  by (auto simp: has_id_def full_entry_def with_key_def q_text_def q_at_def split: option.splits)

lemma add_entries_merged:
  assumes "\<forall>e \<in> set es. has_id e"
  shows "groups_sorted (fold add_entry es [])
    \<and> grp_value (fold add_entry es []) g = merged (filter (\<lambda>e. q_text e ''group'' = g) (map full_entry es))"
  using assms
proof (induction es arbitrary: g rule: rev_induct)
  case Nil
  show ?case by (simp add: groups_sorted_def grp_value_def merged_def first_ids_def)
next
  case (snoc e es)
  let ?m = "fold add_entry es []"
  have IH: "groups_sorted ?m" "grp_value ?m g' = merged (filter (\<lambda>e. q_text e ''group'' = g') (map full_entry es))" for g'
    using snoc by auto
  have ids: "\<forall>e \<in> set (filter (\<lambda>e. q_text e ''group'' = g') (map full_entry es)). has_id e" for g'
    using snoc.prems by (auto intro: full_entry_has_id)
  have "add_entry e ?m = grp_upd (q_text (full_entry e) ''group'') (put_issue (full_entry e)) ?m"
    by (simp add: add_entry_def full_entry_def Let_def)
  with IH ids show ?case
    by (auto simp: grp_upd_sorted grp_value_upd put_issue_merged)
qed

lemma fold_upd_other: "k \<notin> fst ` set fs \<Longrightarrow> fold (\<lambda>(k, v) m. m(k \<mapsto> QStr v)) fs m k = m k"
  by (induction fs arbitrary: m) auto

lemma fold_upd_str: "(\<exists>s. m k = Some (QStr s)) \<Longrightarrow> \<exists>s. fold (\<lambda>(k, v) m. m(k \<mapsto> QStr v)) fs m k = Some (QStr s)"
proof (induction fs arbitrary: m)
  case (Cons f fs)
  obtain k' v where f: "f = (k', v)" by (cases f)
  have "\<exists>s. (m(k' \<mapsto> QStr v)) k = Some (QStr s)" using Cons.prems by auto
  then show ?case using Cons.IH [of "m(k' \<mapsto> QStr v)"] by (simp add: f)
qed simp

lemma has_id_iff: "has_id e \<longleftrightarrow> (\<exists>s. e ''id'' = Some (QStr s))"
  by (auto simp: has_id_def q_text_def q_at_def toString_def)

lemma header_issue_str: "\<exists>s. header_issue file h ''id'' = Some (QStr s)" "\<exists>s. header_issue file h ''type'' = Some (QStr s)"
  unfolding header_issue_def by (rule fold_upd_str; simp)+

lemma load_script_has_id: "load_script OsBuild f = Some e \<Longrightarrow> has_id e"
  using header_issue_str(1)
  by (auto simp: load_script_def has_id_iff with_key_def Let_def split: prod.splits option.splits if_splits)

lemma map_filter_in: "y \<in> set (List.map_filter f xs) \<Longrightarrow> \<exists>x \<in> set xs. f x = Some y"
  by (induction xs) (auto simp: map_filter_simps split: option.splits)

lemma load_ids:
  assumes "\<forall>e \<in> set Entries. has_id e"
  shows "\<forall>e \<in> set (Entries @ List.map_filter (load_script OsBuild) files). has_id e"
  using assms load_script_has_id by (auto dest!: map_filter_in)

section \<open>The properties\<close>

text \<open>
  C24. Headers read back what was written: a script that begins with a comment of lines "* key: value", with any white
  space behind the star, keys without blanks, colons and stars and trimmed values without stars, has exactly these
  fields in this order, whatever follows the comment.
\<close>

theorem header_roundtrip:
  assumes "list_all field_ok fs"
  shows "map_option ReadCommentHeader (header_of (print_header fs @ body)) = Some (map snd fs)"
  using header_of_print [OF assms] ReadCommentHeader_print [OF assms] by simp

theorem header_roundtrip_witness:
  "map_option ReadCommentHeader (header_of (print_header [([TAB], ''group'', ''other''), ('' '', ''name'', ''SBIE1: x/y'')] @ ''let a = 1 /* 2 */;''))
    = Some [(''group'', ''other''), (''name'', ''SBIE1: x/y'')]"
  using header_roundtrip [of "[([TAB], ''group'', ''other''), ('' '', ''name'', ''SBIE1: x/y'')]"]
  by (simp add: field_ok_def trim_def q_space_def)

definition demo_entries :: "qmap list" where
  "demo_entries = [[''id'' \<mapsto> QStr ''b'', ''group'' \<mapsto> QStr ''x'', ''icon'' \<mapsto> QStr ''I''],
     [''id'' \<mapsto> QStr ''a'', ''group'' \<mapsto> QStr ''x''], [''id'' \<mapsto> QStr ''b'', ''group'' \<mapsto> QStr ''x'', ''icon'' \<mapsto> QStr ''J'']]"

text \<open>
  C23. What the wizard shows of a group, when all entries of layout.json have ids: one issue for every id
  of the entries and the scripts of this group, in the order in which the ids come first in the layout and then in the
  folder, with the fields of all of them, later ones replacing earlier ones.  Scripts without a header, of the groups
  system and library, or for other versions or builds are left out.
\<close>

theorem LoadIssues_merges:
  assumes "Entries \<noteq> []" and "\<forall>e \<in> set Entries. \<exists>i. e ''id'' = Some (QStr i)"
  shows "grp_value (LoadIssues OsBuild Entries files old) g =
    merged (filter (\<lambda>e. q_text e ''group'' = g)
      (map full_entry (Entries @ List.map_filter (load_script OsBuild) files)))"
proof -
  have "\<forall>e \<in> set Entries. has_id e" using assms(2) by (simp add: has_id_iff)
  from add_entries_merged [OF load_ids [OF this], where g = g] assms(1) show ?thesis by (simp add: LoadIssues_def)
qed

theorem LoadIssues_merges_witness:
  "map (\<lambda>e. (q_text e ''id'', q_text e ''icon'')) (grp_value (LoadIssues 19045 demo_entries [(''a.js'', ''no header'')] []) ''x'') =
    [(''b'', ''J''), (''a'', [])]"
  using LoadIssues_merges [of demo_entries 19045 "[(''a.js'', ''no header'')]" "[]" "''x''"]
  by (simp add: demo_entries_def merged_def merge_id_def first_ids_def full_entry_def with_key_def q_text_def q_at_def
      toString_def map_filter_simps load_script_def header_of_def)

end
