(* ===== verification/Wizard.thy ===== *)
theory Wizard
  imports ScriptManager
begin

text \<open>
  The wizard around the scripts: the comment headers of the shipped scripts, the choice of the script
  for a message (\<^verbatim>\<open>CBoxAssistant::TryFix\<close>), the lists of issues and the pages the user goes through.
\<close>

section \<open>The assistant\<close>

text \<open>The values of \<^verbatim>\<open>m_Params\<close>.\<close>

datatype param = PStr wstring | PInt u32 | PList "wstring list"

text \<open>
  \<^verbatim>\<open>CBoxAssistant\<close>: the stack of issues, the counter of the group pages made at run time, the
  parameters of the script; the pages visited, as \<^verbatim>\<open>QWizard\<close> keeps them, the current one last; and the
  issue that was current when a page was shown, from which \<^verbatim>\<open>initializePage\<close> made its items.
\<close>

record assistant =
  m_IssueStack :: "qmap list"
  m_NextCounter :: nat
  m_Params :: "wstring \<rightharpoonup> param"
  w_history :: "page list"
  w_root :: "page \<Rightarrow> qmap"

definition new_assistant :: assistant where
  "new_assistant = \<lparr>m_IssueStack = [], m_NextCounter = 0, m_Params = Map.empty, w_history = [Page_Begin],
     w_root = (\<lambda>_. Map.empty)\<rparr>"

definition PushIssue :: "qmap \<Rightarrow> assistant \<Rightarrow> assistant" where
  "PushIssue issue w = w\<lparr>m_IssueStack := m_IssueStack w @ [issue]\<rparr>"

definition PopIssue :: "assistant \<Rightarrow> assistant" where
  "PopIssue w = w\<lparr>m_IssueStack := butlast (m_IssueStack w)\<rparr>"

definition CurrentIssue :: "assistant \<Rightarrow> qmap" where
  "CurrentIssue w = (if m_IssueStack w = [] then Map.empty else last (m_IssueStack w))"

text \<open>
  The loops of \<^verbatim>\<open>TryFix\<close>: a handler of the message ends the search of its group only; the general
  handler is taken while there is none.  An issue that is taken has an id, so \<^const>\<open>None\<close> stands for
  an \<^verbatim>\<open>Issue\<close> that is empty.
\<close>

fun tryfix_group :: "wstring \<Rightarrow> qmap list \<Rightarrow> qmap option \<Rightarrow> qmap option" where
  "tryfix_group Msg [] issue = issue"
| "tryfix_group Msg (j # js) issue =
     (if wcsicmp_eq (q_text j ''id'') Msg then Some j
      else if issue = None \<and> wcsicmp_eq (q_text j ''id'') ''SBIEMSG'' then tryfix_group Msg js (Some j)
      else tryfix_group Msg js issue)"

definition tryfix_issue :: "groups \<Rightarrow> wstring \<Rightarrow> qmap option" where
  "tryfix_issue m Msg = fold (\<lambda>(g, issues). tryfix_group Msg issues) m None"

definition msg_name :: "u32 \<Rightarrow> wstring" where
  "msg_name MsgCode = ''SBIE'' @ js_nat (unat (MsgCode AND 0xFFFF))"

definition TryFix ::
  "groups \<Rightarrow> u32 \<Rightarrow> wstring list \<Rightarrow> wstring \<Rightarrow> wstring \<Rightarrow> (wstring \<times> wstring) \<Rightarrow> assistant \<Rightarrow> assistant" where
  "TryFix m MsgCode MsgData ProcessName BoxName msg_link w =
     (case tryfix_issue m (msg_name MsgCode) of
        None \<Rightarrow> w
      | Some issue \<Rightarrow>
          (PushIssue issue w)\<lparr>m_Params := (m_Params w)(
             ''sbieMsg'' \<mapsto> PStr (fst msg_link),
             ''docLink'' \<mapsto> PStr (snd msg_link),
             ''msgCode'' \<mapsto> PInt (MsgCode AND 0xFFFF),
             ''msgData'' \<mapsto> PList (drop 1 MsgData),
             ''processName'' \<mapsto> PStr (if ProcessName \<noteq> [] \<and> take 4 ProcessName \<noteq> ''PID:'' then ProcessName else []),
             ''boxName'' \<mapsto> PStr BoxName),
           w_history := [Page_Run]\<rparr>)"

text \<open>\<^verbatim>\<open>GetIssues\<close>: the group of the root, or all issues of its class.\<close>

definition GetIssues :: "groups \<Rightarrow> qmap \<Rightarrow> qmap list" where
  "GetIssues m Root =
     (if Root ''id'' \<noteq> None then grp_value m (q_text Root ''id'')
      else filter (\<lambda>j. q_at j ''type'' = QStr ''issue''
             \<and> (q_text Root ''class'' = [] \<or> wcsicmp_eq (q_text j ''class'') (q_text Root ''class'')))
           (concat (map snd m)))"

text \<open>\<^verbatim>\<open>StartEngine\<close>: the script of the current issue, with its name; \<^const>\<open>None\<close> when there is none.\<close>

definition StartEngine :: "assistant \<Rightarrow> (wstring \<times> wstring \<times> (wstring \<rightharpoonup> param)) option" where
  "StartEngine w =
     (let issue = CurrentIssue w
      in if q_text issue ''script'' = [] then None
         else Some (q_text issue ''script'', q_text issue ''id'', m_Params w))"

section \<open>The pages\<close>

text \<open>The buttons of \<^verbatim>\<open>CBeginPage::initializePage\<close>: empty groups are left out.\<close>

definition begin_items :: "groups \<Rightarrow> qmap list" where
  "begin_items m =
     filter (\<lambda>issue. \<not> (GetIssues m issue = [] \<and> q_at issue ''type'' \<noteq> QStr ''issue''))
       (GetIssues m [''id'' \<mapsto> QStr ''root''])"

text \<open>
  \<^verbatim>\<open>CBeginPage::validatePage\<close> and \<^verbatim>\<open>nextId\<close>; \<open>another\<close> is the translation of "Another issue".  Every
  issue that is pushed has a type or a group, so \<^verbatim>\<open>CurrentIssue().isEmpty()\<close> means an empty stack.
\<close>

definition begin_validate :: "wstring \<Rightarrow> assistant \<Rightarrow> assistant" where
  "begin_validate another w =
     (if m_IssueStack w = []
      then PushIssue [''type'' \<mapsto> QStr ''list'', ''name'' \<mapsto> QStr another] w else w)"

definition begin_nextId :: "assistant \<Rightarrow> page" where
  "begin_nextId w =
     (let type = q_text (CurrentIssue w) ''type''
      in if type = ''issue'' then Page_Run else if type = ''list'' then Page_List else Page_Group)"

text \<open>The items of \<^verbatim>\<open>CGroupPage::initializePage\<close> and \<^verbatim>\<open>CListPage::LoadIssues\<close> (with the filter text).\<close>

definition page_items :: "groups \<Rightarrow> wstring \<Rightarrow> qmap \<Rightarrow> qmap list" where
  "page_items m another Group =
     GetIssues m Group
     @ (if q_text Group ''class'' = [] then []
        else [[''type'' \<mapsto> QStr ''list'', ''class'' \<mapsto> q_at Group ''class'', ''name'' \<mapsto> QStr another]])"

definition list_items ::
  "groups \<Rightarrow> (wstring \<Rightarrow> wstring) \<Rightarrow> wstring \<Rightarrow> wstring \<Rightarrow> qmap \<Rightarrow> qmap list" where
  "list_items m Tr none_above Filter root =
     filter (\<lambda>issue. q_text issue ''name'' \<noteq> []
         \<and> (Filter = [] \<or> q_indexOf (wcslwr Filter) (wcslwr (Tr (q_text issue ''name''))) \<noteq> None
            \<or> q_indexOf (wcslwr Filter) (wcslwr (Tr (q_text issue ''description''))) \<noteq> None))
       (GetIssues m root)
     @ (if root ''id'' \<noteq> None then []
        else [[''type'' \<mapsto> QStr ''submit'', ''name'' \<mapsto> QStr none_above, ''bold'' \<mapsto> QBool True]])"

text \<open>\<^verbatim>\<open>validatePage\<close> and \<^verbatim>\<open>nextId\<close> of the group and list pages, which are the same.\<close>

definition item_validate :: "qmap \<Rightarrow> assistant \<Rightarrow> assistant" where
  "item_validate issue w =
     (let type = q_text issue ''type''
      in PushIssue issue (if type = ''group'' \<or> type = ''list''
           then w\<lparr>m_NextCounter := m_NextCounter w + 1\<rparr> else w))"

definition item_nextId :: "qmap \<Rightarrow> assistant \<Rightarrow> page" where
  "item_nextId issue w =
     (let type = q_text issue ''type''
      in if type = ''issue'' then Page_Run
         else if type = ''group'' then Page_Next (m_NextCounter w)
         else if type = ''list'' then Page_List
         else Page_Submit)"

text \<open>
  \<^verbatim>\<open>QWizard::next\<close> behind \<^verbatim>\<open>validatePage\<close>: a page that was met already is not shown again; a new one is
  initialized.
\<close>

definition go_next :: "page \<Rightarrow> assistant \<Rightarrow> assistant" where
  "go_next p w =
     (if p \<in> set (w_history w) then w
      else w\<lparr>w_history := w_history w @ [p], w_root := (w_root w)(p := CurrentIssue w)\<rparr>)"

text \<open>
  \<^verbatim>\<open>QWizard::back\<close> with \<^verbatim>\<open>cleanupPage\<close>: group and list pages take their issue from the stack and (10 ms
  later) the page made last from the wizard, the run page ends the engine.
\<close>

definition go_back :: "assistant \<Rightarrow> assistant" where
  "go_back w =
     (if length (w_history w) < 2 then w
      else
        let p = last (w_history w);
            w' = w\<lparr>w_history := butlast (w_history w)\<rparr>
        in if p = Page_Group \<or> p = Page_List \<or> (case p of Page_Next n \<Rightarrow> True | _ \<Rightarrow> False)
           then (PopIssue w')\<lparr>m_NextCounter := m_NextCounter w - 1\<rparr>
           else w')"

text \<open>
  The steps of the user: a category, the next button with nothing chosen, an item of a group or list
  page, back, and the end of a script.  The list page makes its items anew, for the current issue, when
  the filter is changed.
\<close>

definition w_current :: "assistant \<Rightarrow> page" where
  "w_current w = last (w_history w)"

inductive wizard_step :: "groups \<Rightarrow> assistant \<Rightarrow> assistant \<Rightarrow> bool" for m where
  category: "w_current w = Page_Begin \<Longrightarrow> issue \<in> set (begin_items m)
    \<Longrightarrow> w' = begin_validate another (PushIssue issue w)
    \<Longrightarrow> wizard_step m w (go_next (begin_nextId w') w')"
| other: "w_current w = Page_Begin \<Longrightarrow> w' = begin_validate another w
    \<Longrightarrow> wizard_step m w (go_next (begin_nextId w') w')"
| group_item: "w_current w = Page_Group \<or> w_current w = Page_Next n
    \<Longrightarrow> issue \<in> set (page_items m another (w_root w (w_current w))) \<Longrightarrow> w' = item_validate issue w
    \<Longrightarrow> wizard_step m w (go_next (item_nextId issue w') w')"
| list_item: "w_current w = Page_List \<Longrightarrow> root = w_root w Page_List \<or> root = CurrentIssue w
    \<Longrightarrow> issue \<in> set (list_items m Tr none_above Filter root)
    \<Longrightarrow> w' = item_validate issue w
    \<Longrightarrow> wizard_step m w (go_next (item_nextId issue w') w')"
| step_back: "wizard_step m w (go_back w)"
| script_ends: "w_current w = Page_Run \<Longrightarrow> wizard_step m w (go_next (CRunPage_nextId s) w)"

inductive wizard_reach :: "groups \<Rightarrow> assistant \<Rightarrow> bool" for m where
  start: "wizard_reach m new_assistant"
| message: "wizard_reach m (TryFix m MsgCode MsgData ProcessName BoxName msg_link new_assistant)"
| step: "wizard_reach m w \<Longrightarrow> wizard_step m w w' \<Longrightarrow> wizard_reach m w'"

section \<open>The shipped folder\<close>

text \<open>The comment headers, line by line.\<close>

definition hdr_AppCompatibility :: wstring where
  "hdr_AppCompatibility = text_lines
     [''/*'',
      ''* group: system'',
      ''* name: App compatibility checker'',
      ''* description: This script checks which app compatibility templates need to be enabled'',
      ''*'',
      ''*/'']"

definition hdr_unknown :: wstring where
  "hdr_unknown = text_lines
     [''/*'',
      ''*'' @ [TAB] @ ''group: apps'',
      ''*'' @ [TAB] @ ''class: sandboxing'',
      ''* name: Unknown application crashed'',
      ''* description: An Unknown application crashed'',
      ''* bold: true'',
      ''*'',
      ''*/'']"

definition hdr_viber :: wstring where
  "hdr_viber = text_lines
     [''/*'',
      ''*'' @ [TAB] @ ''group: apps'',
      ''*'' @ [TAB] @ ''class: sandboxing'',
      ''* name: Viber crashes on startup'',
      ''* description: The Viber messenger crashes on startup'',
      ''*'',
      ''*/'']"

definition hdr_game_fps :: wstring where
  "hdr_game_fps = text_lines
     [''/*'',
      ''*'' @ [TAB] @ ''group: sandboxing'',
      ''*'' @ [TAB] @ ''class: sandboxing'',
      ''* name: Low FPS in sandboxed games'',
      ''* description: This procedure will optimize the box settings for gaming'',
      ''*'',
      ''*/'']"

definition hdr_installer :: wstring where
  "hdr_installer = text_lines
     [''/*'',
      ''*'' @ [TAB] @ ''group: sandboxing'',
      ''*'' @ [TAB] @ ''class: sandboxing'',
      ''* name: Failed to install application into a sandbox'',
      ''* description: It helps troubleshoot issues related to installing applications in the sandbox'',
      ''*'',
      ''*/'']"

definition hdr_webcam :: wstring where
  "hdr_webcam = text_lines
     [''/*'',
      ''*'' @ [TAB] @ ''group: sandboxing'',
      ''*'' @ [TAB] @ ''class: sandboxing'',
      ''* os_builds: 22000-99000'',
      ''* name: Webcam or Sound does not work when sandboxed'',
      ''* description: Description Text...'',
      ''*'',
      ''*/'']"

definition hdr_SBIE1307 :: wstring where
  "hdr_SBIE1307 = text_lines
     [''/*'',
      ''*'' @ [TAB] @ ''group: other'',
      ''*'' @ [TAB] @ ''class: sandboxing'',
      ''* name: SBIE1307: Program cannot access the Internet due to restrictions'',
      ''* description: Program cannot access the Internet due to restrictions'',
      ''*'',
      ''*/'']"

definition hdr_SBIE1308 :: wstring where
  "hdr_SBIE1308 = text_lines
     [''/*'',
      ''*'' @ [TAB] @ ''group: other'',
      ''*'' @ [TAB] @ ''class: sandboxing'',
      ''* name: SBIE1308: Program cannot start due to restrictions'',
      ''* description: Program cannot start due to restrictions'',
      ''*'',
      ''*/'']"

definition hdr_SBIE2102 :: wstring where
  "hdr_SBIE2102 = text_lines
     [''/*'',
      ''*'' @ [TAB] @ ''group: other'',
      ''*'' @ [TAB] @ ''class: sandboxing'',
      ''* name: SBIE2102: File is too large to copy into sandbox'',
      ''* description: File is too large to copy into sandbox'',
      ''*'',
      ''*/'']"

definition hdr_SBIE2113 :: wstring where
  "hdr_SBIE2113 = text_lines
     [''/*'',
      ''*'' @ [TAB] @ ''group: other'',
      ''*'' @ [TAB] @ ''class: sandboxing'',
      ''* name: SBIE2113: File is too large to copy into sandbox, creating empty file'',
      ''* description: File is too large to copy into sandbox, creating empty file'',
      ''*'',
      ''*/'']"

definition hdr_SBIE2114 :: wstring where
  "hdr_SBIE2114 = text_lines
     [''/*'',
      ''*'' @ [TAB] @ ''group: other'',
      ''*'' @ [TAB] @ ''class: sandboxing'',
      ''* name: SBIE2114: File is too large to copy into sandbox, denying access'',
      ''* description: File is too large to copy into sandbox, denying access'',
      ''*'',
      ''*/'']"

definition hdr_SBIE2115 :: wstring where
  "hdr_SBIE2115 = text_lines
     [''/*'',
      ''*'' @ [TAB] @ ''group: other'',
      ''*'' @ [TAB] @ ''class: sandboxing'',
      ''* name: SBIE2115: File is too large to copy into sandbox, opening in read only'',
      ''* description: File is too large to copy into sandbox, opening in read only'',
      ''*'',
      ''*/'']"

definition hdr_SBIE2181 :: wstring where
  "hdr_SBIE2181 = text_lines
     [''/*'',
      ''*'' @ [TAB] @ ''group: other'',
      ''*'' @ [TAB] @ ''class: sandboxing'',
      ''* name: SBIE2181: Failed to load SbieDll.dll'',
      ''* description: Fix the DACLs of Sandboxie'' @ [CHR 0x27] @ ''s home folder'',
      ''*'',
      ''*/'']"

definition hdr_SBIE2204 :: wstring where
  "hdr_SBIE2204 = text_lines
     [''/*'',
      ''* group: other'',
      ''* class: sandboxing'',
      ''* name: SBIE2204: Cannot start a specific sandboxed service'',
      ''* description: Sandboxie failed to start a service in the sandbox'',
      ''*'',
      ''*/'']"

definition hdr_SBIE2224 :: wstring where
  "hdr_SBIE2224 = text_lines
     [''/*'',
      ''*'' @ [TAB] @ ''group: other'',
      ''*'' @ [TAB] @ ''class: sandboxing'',
      ''* name: SBIE2224: Sandboxed program has crashed'',
      ''* description: A Sandboxed program has crashed'',
      ''*'',
      ''*/'']"

definition hdr_SBIE2313 :: wstring where
  "hdr_SBIE2313 = text_lines
     [''/*'',
      ''* group: other'',
      ''* class: sandboxing'',
      ''* name: SBIE2313: Could not execute specific process'',
      ''* description: Sandboxie failed to start a process in the sandbox'',
      ''*'',
      ''*/'']"

definition hdr_SBIECONF :: wstring where
  "hdr_SBIECONF = text_lines
     [''/*'',
      ''*'' @ [TAB] @ ''group: library'',
      ''*'' @ [TAB] @ ''class: sandboxing'',
      ''* name: open config'',
      ''* description: opens box config on a given page'',
      ''*'',
      ''*/'']"

definition hdr_SBIECOPY :: wstring where
  "hdr_SBIECOPY = text_lines
     [''/*'',
      ''*'' @ [TAB] @ ''group: library'',
      ''*'' @ [TAB] @ ''class: sandboxing'',
      ''* name: SBIE 2113/2114/2115 and 2102'',
      ''* description: handle migration error messages'',
      ''*'',
      ''*/'']"

definition hdr_SBIEFIXPC :: wstring where
  "hdr_SBIEFIXPC = text_lines
     [''/*'',
      ''*'' @ [TAB] @ ''group: library'',
      ''*'' @ [TAB] @ ''class: sandboxing'',
      ''* name: fix parental controls breaking sandboxie'',
      ''* description: stops AppId driver and AppIdSvc service and disables the offending policy file'',
      ''*'',
      ''*/'']"

definition hdr_SBIEMSG :: wstring where
  "hdr_SBIEMSG = text_lines
     [''/*'',
      ''*'' @ [TAB] @ ''group: other'',
      ''*'' @ [TAB] @ ''class: sandboxing'',
      ''*   name: SBIEMSG, I'' @ [CHR 0x27] @ ''m getting a cryptic SBIExxxx message'',
      ''*   description: Handle all sbie messages...'',
      ''*'',
      ''*/'']"

definition hdr_desktop :: wstring where
  "hdr_desktop = text_lines
     [''/*'',
      ''*'' @ [TAB] @ ''group: ui'',
      ''*'' @ [TAB] @ ''class: ui'',
      ''* name: Browser shortcut is missing from the desktop'',
      ''* description: This procedure will add a browser shortcut to the desktop'',
      ''*'',
      ''*/'']"

definition hdr_shell :: wstring where
  "hdr_shell = text_lines
     [''/*'',
      ''*'' @ [TAB] @ ''group: ui'',
      ''*'' @ [TAB] @ ''class: ui'',
      ''* name: Explorer Context Menu extension does not work'',
      ''* description: This procedure will re install the shell integration'',
      ''*'',
      ''*/'']"

text \<open>The entries of layout.json, and the folder; \<open>body\<close> is the text of a script behind its header.\<close>

definition layout_entries :: "qmap list" where
  "layout_entries =
     [[''description'' \<mapsto> QStr ''Description Text...'', ''group'' \<mapsto> QStr ''root'', ''icon'' \<mapsto> QStr ''Warning'', ''id'' \<mapsto> QStr ''current'', ''name'' \<mapsto> QStr ''Fix current issues'', ''type'' \<mapsto> QStr ''group''],
      [''description'' \<mapsto> QStr ''Description Text...'', ''group'' \<mapsto> QStr ''root'', ''icon'' \<mapsto> QStr ''Sandbox'', ''id'' \<mapsto> QStr ''sandboxing'', ''name'' \<mapsto> QStr ''Fix issues with sandboxing'', ''type'' \<mapsto> QStr ''group'', ''class'' \<mapsto> QStr ''sandboxing''],
      [''description'' \<mapsto> QStr ''Description Text...'', ''group'' \<mapsto> QStr ''sandboxing'', ''id'' \<mapsto> QStr ''apps'', ''name'' \<mapsto> QStr ''An Application does not work properly when sandboxed'', ''type'' \<mapsto> QStr ''list''],
      [''group'' \<mapsto> QStr ''sandboxing'', ''id'' \<mapsto> QStr ''installer''],
      [''group'' \<mapsto> QStr ''apps'', ''id'' \<mapsto> QStr ''application'', ''bold'' \<mapsto> QBool True],
      [''description'' \<mapsto> QStr ''Description Text...'', ''group'' \<mapsto> QStr ''sandboxing'', ''id'' \<mapsto> QStr ''browser'', ''name'' \<mapsto> QStr ''Issues with a web browser'', ''type'' \<mapsto> QStr ''group'', ''class'' \<mapsto> QStr ''sandboxing''],
      [''description'' \<mapsto> QStr ''Description Text...'', ''group'' \<mapsto> QStr ''root'', ''icon'' \<mapsto> QStr ''Maintenance'', ''id'' \<mapsto> QStr ''maintenance'', ''name'' \<mapsto> QStr ''Perform Sandbox maintenance'', ''type'' \<mapsto> QStr ''group''],
      [''description'' \<mapsto> QStr ''Description Text...'', ''group'' \<mapsto> QStr ''root'', ''icon'' \<mapsto> QStr ''Interface'', ''id'' \<mapsto> QStr ''ui'', ''name'' \<mapsto> QStr ''Fix issues with the UI or Shell'', ''type'' \<mapsto> QStr ''group'', ''class'' \<mapsto> QStr ''ui'']]"

definition troubleshooting_dir :: "(wstring \<Rightarrow> wstring) \<Rightarrow> dir" where
  "troubleshooting_dir body =
     Dir [(''AppCompatibility.js'', hdr_AppCompatibility @ body ''AppCompatibility'')]
       [(''KnownApps'', Dir [(''unknown.js'', hdr_unknown @ body ''unknown''),
       (''viber.js'', hdr_viber @ body ''viber'')] []),
        (''Sandboxing'', Dir [(''game_fps.js'', hdr_game_fps @ body ''game_fps''),
       (''installer.js'', hdr_installer @ body ''installer''),
       (''webcam.js'', hdr_webcam @ body ''webcam'')]
          [(''SBIEMSG'', Dir [(''SBIE1307.js'', hdr_SBIE1307 @ body ''SBIE1307''),
       (''SBIE1308.js'', hdr_SBIE1308 @ body ''SBIE1308''),
       (''SBIE2102.js'', hdr_SBIE2102 @ body ''SBIE2102''),
       (''SBIE2113.js'', hdr_SBIE2113 @ body ''SBIE2113''),
       (''SBIE2114.js'', hdr_SBIE2114 @ body ''SBIE2114''),
       (''SBIE2115.js'', hdr_SBIE2115 @ body ''SBIE2115''),
       (''SBIE2181.js'', hdr_SBIE2181 @ body ''SBIE2181''),
       (''SBIE2204.js'', hdr_SBIE2204 @ body ''SBIE2204''),
       (''SBIE2224.js'', hdr_SBIE2224 @ body ''SBIE2224''),
       (''SBIE2313.js'', hdr_SBIE2313 @ body ''SBIE2313''),
       (''SBIECONF.js'', hdr_SBIECONF @ body ''SBIECONF''),
       (''SBIECOPY.js'', hdr_SBIECOPY @ body ''SBIECOPY''),
       (''SBIEFIXPC.js'', hdr_SBIEFIXPC @ body ''SBIEFIXPC''),
       (''SBIEMSG.js'', hdr_SBIEMSG @ body ''SBIEMSG'')] [])]),
        (''UI'', Dir [(''desktop.js'', hdr_desktop @ body ''desktop''),
       (''shell.js'', hdr_shell @ body ''shell'')] [])]"

end
