(* ===== verification/WizardCorrect.thy ===== *)
theory WizardCorrect
  imports Wizard
begin

text \<open>
  Correctness of the wizard: which script a message starts, what the user can reach through the
  pages (an invariant over all sequences of steps), and the scripts of the shipped folder.
\<close>

section \<open>Lemmas on the choice of a script\<close>

abbreviation all_issues :: "groups \<Rightarrow> qmap list" where
  "all_issues m \<equiv> concat (map snd m)"

abbreviation is_msg :: "wstring \<Rightarrow> qmap \<Rightarrow> bool" where
  "is_msg Msg j \<equiv> wcsicmp_eq (q_text j ''id'') Msg"

lemma tryfix_group_spec:
  "tryfix_group Msg js issue =
     (case find (is_msg Msg) js of
        Some j \<Rightarrow> Some j
      | None \<Rightarrow> (case issue of Some i \<Rightarrow> Some i | None \<Rightarrow> find (is_msg ''SBIEMSG'') js))"
  by (induction Msg js issue rule: tryfix_group.induct) (auto split: option.splits)

lemma find_append: "find P (xs @ ys) = (case find P xs of None \<Rightarrow> find P ys | Some x \<Rightarrow> Some x)"
  by (induction xs) auto

lemma tryfix_fold_none:
  assumes "\<forall>j \<in> set (all_issues m). \<not> is_msg Msg j"
  shows "fold (\<lambda>(g, issues). tryfix_group Msg issues) m acc =
      (case acc of Some i \<Rightarrow> Some i | None \<Rightarrow> find (is_msg ''SBIEMSG'') (all_issues m))"
  using assms
proof (induction m arbitrary: acc)
  case (Cons p m)
  then have "find (is_msg Msg) (snd p) = None" by (auto simp: find_None_iff)
  then show ?case using Cons by (cases p) (auto simp: tryfix_group_spec find_append split: option.splits)
qed (simp split: option.splits)

lemma tryfix_fold_some:
  assumes "\<exists>j \<in> set (all_issues m). is_msg Msg j"
  shows "\<exists>j \<in> set (all_issues m). is_msg Msg j \<and> fold (\<lambda>(g, issues). tryfix_group Msg issues) m acc = Some j"
  using assms
proof (induction m arbitrary: acc)
  case (Cons p m)
  show ?case
  proof (cases "\<exists>j \<in> set (all_issues m). is_msg Msg j")
    case True
    then show ?thesis using Cons.IH [of "tryfix_group Msg (snd p) acc"] by (cases p) auto
  next
    case False
    with Cons.prems obtain j where j: "find (is_msg Msg) (snd p) = Some j" "j \<in> set (snd p)" "is_msg Msg j"
      by (cases "find (is_msg Msg) (snd p)") (auto simp: find_None_iff find_Some_iff)
    then have "tryfix_group Msg (snd p) acc = Some j" by (simp add: tryfix_group_spec)
    then show ?thesis using tryfix_fold_none [of m Msg "Some j"] False j by (cases p) auto
  qed
qed simp

lemma tryfix_general:
  "\<forall>j \<in> set (all_issues m). \<not> is_msg Msg j \<Longrightarrow> tryfix_issue m Msg = find (is_msg ''SBIEMSG'') (all_issues m)"
  unfolding tryfix_issue_def by (subst tryfix_fold_none) auto

lemmas tryfix_special = tryfix_fold_some [where acc = None, folded tryfix_issue_def]

section \<open>The pages the user can reach\<close>

text \<open>An issue that is on the stack is loaded or made by a page, and then without a script.\<close>

definition from_load :: "groups \<Rightarrow> qmap \<Rightarrow> bool" where
  "from_load m issue \<longleftrightarrow> issue \<in> set (all_issues m) \<or> issue ''script'' = None"

definition wizard_inv :: "groups \<Rightarrow> assistant \<Rightarrow> bool" where
  "wizard_inv m w \<longleftrightarrow>
     w_history w \<noteq> [] \<and> distinct (w_history w)
     \<and> (Page_Run \<in> set (w_history w) \<longrightarrow>
          m_IssueStack w \<noteq> []
          \<and> (hd (w_history w) = Page_Begin \<longrightarrow> q_text (last (m_IssueStack w)) ''type'' = ''issue'')
          \<and> (last (w_history w) = Page_Run
             \<or> butlast (w_history w) \<noteq> [] \<and> last (butlast (w_history w)) = Page_Run
               \<and> last (w_history w) \<in> {Page_Submit, Page_Complete}))
     \<and> (\<forall>issue \<in> set (m_IssueStack w). from_load m issue)"

lemmas wizard_defs = w_current_def go_next_def PushIssue_def PopIssue_def CurrentIssue_def

lemma grp_value_sub: "set (grp_value m g) \<subseteq> set (all_issues m)"
proof (cases "map_of m g")
  case (Some js)
  then have "(g, js) \<in> set m" by (rule map_of_SomeD)
  then show ?thesis using Some by (force simp: grp_value_def)
qed (simp add: grp_value_def)

lemma GetIssues_sub: "set (GetIssues m root) \<subseteq> set (all_issues m)"
  using grp_value_sub by (auto simp: GetIssues_def)

lemma items_from_load:
  "issue \<in> set (begin_items m) \<Longrightarrow> from_load m issue"
  "issue \<in> set (page_items m another root) \<Longrightarrow> from_load m issue"
  "issue \<in> set (list_items m Tr none_above Filter root) \<Longrightarrow> from_load m issue"
  using GetIssues_sub [of m]
  by (auto simp: begin_items_def page_items_def list_items_def from_load_def split: if_splits)

lemma inv_not_run:
  "wizard_inv m w \<Longrightarrow> w_current w \<notin> {Page_Run, Page_Submit, Page_Complete} \<Longrightarrow> Page_Run \<notin> set (w_history w)"
  by (auto simp: wizard_inv_def w_current_def)

text \<open>Going on to a page with an issue pushed keeps the invariant.\<close>

lemma inv_go_next:
  assumes "w_history w \<noteq> []" "distinct (w_history w)" "Page_Run \<notin> set (w_history w)"
    and "\<forall>issue \<in> set (m_IssueStack w). from_load m issue"
    and "p = Page_Run \<Longrightarrow> m_IssueStack w \<noteq> [] \<and> q_text (last (m_IssueStack w)) ''type'' = ''issue''"
  shows "wizard_inv m (go_next p w)"
  using assms by (auto simp: wizard_inv_def go_next_def)

lemma inv_item:
  assumes "wizard_inv m w" and "w_current w \<notin> {Page_Run, Page_Submit, Page_Complete}" and "from_load m issue"
  shows "wizard_inv m (go_next (item_nextId issue (item_validate issue w)) (item_validate issue w))"
  using assms inv_not_run [OF assms(1,2)]
  by (intro inv_go_next) (auto simp: wizard_inv_def item_validate_def item_nextId_def PushIssue_def Let_def split: if_splits)

lemma inv_begin:
  assumes "wizard_inv m w" and "w_current w = Page_Begin"
  shows "wizard_inv m (go_next (begin_nextId (begin_validate another w)) (begin_validate another w))"
  using assms inv_not_run [OF assms(1)]
  by (intro inv_go_next)
    (auto simp: wizard_inv_def begin_validate_def begin_nextId_def PushIssue_def CurrentIssue_def Let_def from_load_def
      q_text_def q_at_def toString_def split: if_splits)

lemma inv_push: "wizard_inv m w \<Longrightarrow> w_current w = Page_Begin \<Longrightarrow> from_load m issue \<Longrightarrow> wizard_inv m (PushIssue issue w)"
  using inv_not_run [of m w] by (auto simp: wizard_inv_def PushIssue_def)

lemma inv_back:
  assumes "wizard_inv m w" shows "wizard_inv m (go_back w)"
proof (cases "length (w_history w) < 2")
  case False
  then obtain h p where h: "w_history w = h @ [p]" "h \<noteq> []"
    by (cases "w_history w" rule: rev_cases) auto
  have run: "p \<in> {Page_Submit, Page_Complete}" "last h = Page_Run" if "Page_Run \<in> set h"
    using assms that h by (auto simp: wizard_inv_def)
  have stack: "set (butlast (m_IssueStack w)) \<subseteq> set (m_IssueStack w)" by (auto dest: in_set_butlastD)
  show ?thesis
  proof (cases "Page_Run \<in> set h")
    case True
    then show ?thesis using assms run h by (auto simp: wizard_inv_def go_back_def Let_def)
  next
    case no: False
    then show ?thesis using assms False h stack
      by (auto simp: wizard_inv_def go_back_def PopIssue_def Let_def split: page.splits)
  qed
qed (use assms in \<open>simp add: go_back_def\<close>)

lemma wizard_step_inv: "wizard_step m w w' \<Longrightarrow> wizard_inv m w \<Longrightarrow> wizard_inv m w'"
proof (induction rule: wizard_step.induct)
  case (category w issue w' another)
  then show ?case using inv_push [of m w issue] inv_begin [of m "PushIssue issue w"] items_from_load(1) [of issue m]
    by (simp add: w_current_def PushIssue_def)
next
  case (other w w' another)
  then show ?case using inv_begin by blast
next
  case (group_item w n issue another w')
  then show ?case using inv_item [of m w issue] items_from_load(2) by auto
next
  case (list_item w root issue Tr none_above Filter w')
  then show ?case using inv_item [of m w issue] items_from_load(3) by auto
next
  case (step_back w)
  then show ?case by (rule inv_back)
next
  case (script_ends w s)
  then show ?case by (auto simp: wizard_inv_def wizard_defs CRunPage_nextId_def)
qed

lemma find_in: "find P xs = Some x \<Longrightarrow> x \<in> set xs \<and> P x"
  by (induction xs) (auto split: if_splits)

lemma tryfix_loaded: "tryfix_issue m Msg = Some j \<Longrightarrow> j \<in> set (all_issues m)"
proof (cases "\<exists>j \<in> set (all_issues m). is_msg Msg j")
  case True
  then show "tryfix_issue m Msg = Some j \<Longrightarrow> j \<in> set (all_issues m)" using tryfix_special [of m Msg] by auto
next
  case False
  then show "tryfix_issue m Msg = Some j \<Longrightarrow> j \<in> set (all_issues m)"
    using tryfix_general [of m Msg] find_in [of "is_msg ''SBIEMSG''" "all_issues m" j] by simp
qed

lemma inv_message: "wizard_inv m (TryFix m MsgCode MsgData ProcessName BoxName msg_link new_assistant)"
  by (auto simp: wizard_inv_def TryFix_def new_assistant_def PushIssue_def from_load_def tryfix_loaded
      dest!: tryfix_loaded split: option.splits)

lemma wizard_reach_inv: "wizard_reach m w \<Longrightarrow> wizard_inv m w"
proof (induction rule: wizard_reach.induct)
  case start
  show ?case by (simp add: wizard_inv_def new_assistant_def)
next
  case (message MsgCode MsgData ProcessName BoxName msg_link)
  show ?case by (rule inv_message)
next
  case (step w w')
  then show ?case using wizard_step_inv by blast
qed

text \<open>The script of a loaded issue is the text of a script that was loaded.\<close>

lemma merge_id_from: "merge_id es i k = Some v \<Longrightarrow> \<exists>e \<in> set es. e k = Some v"
proof -
  have "foldl (++) m es k = Some v \<Longrightarrow> m k = Some v \<or> (\<exists>e \<in> set es. e k = Some v)" for m and es :: "qmap list"
    by (induction es arbitrary: m) (auto simp: map_add_Some_iff)
  then show "merge_id es i k = Some v \<Longrightarrow> \<exists>e \<in> set es. e k = Some v" by (fastforce simp: merge_id_def)
qed

lemma groups_all:
  assumes "groups_sorted m" and "j \<in> set (all_issues m)"
  shows "\<exists>g. j \<in> set (grp_value m g)"
proof -
  have irr: "distinct ks" if "sorted_wrt str_less ks" for ks using that by (induction ks) auto
  from assms(2) obtain g js where "(g, js) \<in> set m" "j \<in> set js" by auto
  moreover have "distinct (map fst m)" using assms(1) irr by (simp add: groups_sorted_def)
  ultimately show ?thesis by (auto simp: grp_value_def intro!: exI [of _ g])
qed

lemma with_key_other: "k \<noteq> k' \<Longrightarrow> with_key k m k' = m k'"
  by (simp add: with_key_def split: option.splits)

lemma full_entry_other: "k \<noteq> ''id'' \<Longrightarrow> k \<noteq> ''group'' \<Longrightarrow> full_entry e k = e k"
  by (simp add: full_entry_def with_key_other)

lemma loaded_key:
  assumes "Entries \<noteq> []" and "\<forall>e \<in> set Entries. has_id e"
    and "j \<in> set (all_issues (LoadIssues OsBuild Entries files old))" and "j k = Some v"
    and "k \<noteq> ''id''" "k \<noteq> ''group''"
  shows "\<exists>e \<in> set (Entries @ List.map_filter (load_script OsBuild) files). e k = Some v"
proof -
  let ?es = "Entries @ List.map_filter (load_script OsBuild) files"
  note ids = load_ids [OF assms(2), of OsBuild files]
  have L: "LoadIssues OsBuild Entries files old = fold add_entry ?es []"
    using assms(1) by (simp add: LoadIssues_def)
  obtain g where "j \<in> set (grp_value (LoadIssues OsBuild Entries files old) g)"
    using groups_all [OF _ assms(3)] add_entries_merged [OF ids] L by metis
  then have "j \<in> set (merged (filter (\<lambda>e. q_text e ''group'' = g) (map full_entry ?es)))"
    unfolding L using add_entries_merged [OF ids, of g] by (simp only:)
  then obtain i where "merge_id (filter (\<lambda>e. q_text e ''group'' = g) (map full_entry ?es)) i k = Some v"
    using assms(4) by (auto simp: merged_def)
  from merge_id_from [OF this] obtain e where e: "e \<in> set ?es" "full_entry e k = Some v" by auto
  then have "e k = Some v" using full_entry_other assms(5,6) by simp
  with e(1) show ?thesis by blast
qed

section \<open>The shipped scripts\<close>

text \<open>The fields of the headers.\<close>

definition fields_AppCompatibility :: "(wstring \<times> wstring \<times> wstring) list" where
  "fields_AppCompatibility =
     [('' '', ''group'', ''system''),
      ('' '', ''name'', ''App compatibility checker''),
      ('' '', ''description'', ''This script checks which app compatibility templates need to be enabled'')]"

definition fields_unknown :: "(wstring \<times> wstring \<times> wstring) list" where
  "fields_unknown =
     [([TAB], ''group'', ''apps''),
      ([TAB], ''class'', ''sandboxing''),
      ('' '', ''name'', ''Unknown application crashed''),
      ('' '', ''description'', ''An Unknown application crashed''),
      ('' '', ''bold'', ''true'')]"

definition fields_viber :: "(wstring \<times> wstring \<times> wstring) list" where
  "fields_viber =
     [([TAB], ''group'', ''apps''),
      ([TAB], ''class'', ''sandboxing''),
      ('' '', ''name'', ''Viber crashes on startup''),
      ('' '', ''description'', ''The Viber messenger crashes on startup'')]"

definition fields_game_fps :: "(wstring \<times> wstring \<times> wstring) list" where
  "fields_game_fps =
     [([TAB], ''group'', ''sandboxing''),
      ([TAB], ''class'', ''sandboxing''),
      ('' '', ''name'', ''Low FPS in sandboxed games''),
      ('' '', ''description'', ''This procedure will optimize the box settings for gaming'')]"

definition fields_installer :: "(wstring \<times> wstring \<times> wstring) list" where
  "fields_installer =
     [([TAB], ''group'', ''sandboxing''),
      ([TAB], ''class'', ''sandboxing''),
      ('' '', ''name'', ''Failed to install application into a sandbox''),
      ('' '', ''description'', ''It helps troubleshoot issues related to installing applications in the sandbox'')]"

definition fields_webcam :: "(wstring \<times> wstring \<times> wstring) list" where
  "fields_webcam =
     [([TAB], ''group'', ''sandboxing''),
      ([TAB], ''class'', ''sandboxing''),
      ('' '', ''os_builds'', ''22000-99000''),
      ('' '', ''name'', ''Webcam or Sound does not work when sandboxed''),
      ('' '', ''description'', ''Description Text...'')]"

definition fields_SBIE1307 :: "(wstring \<times> wstring \<times> wstring) list" where
  "fields_SBIE1307 =
     [([TAB], ''group'', ''other''),
      ([TAB], ''class'', ''sandboxing''),
      ('' '', ''name'', ''SBIE1307: Program cannot access the Internet due to restrictions''),
      ('' '', ''description'', ''Program cannot access the Internet due to restrictions'')]"

definition fields_SBIE1308 :: "(wstring \<times> wstring \<times> wstring) list" where
  "fields_SBIE1308 =
     [([TAB], ''group'', ''other''),
      ([TAB], ''class'', ''sandboxing''),
      ('' '', ''name'', ''SBIE1308: Program cannot start due to restrictions''),
      ('' '', ''description'', ''Program cannot start due to restrictions'')]"

definition fields_SBIE2102 :: "(wstring \<times> wstring \<times> wstring) list" where
  "fields_SBIE2102 =
     [([TAB], ''group'', ''other''),
      ([TAB], ''class'', ''sandboxing''),
      ('' '', ''name'', ''SBIE2102: File is too large to copy into sandbox''),
      ('' '', ''description'', ''File is too large to copy into sandbox'')]"

definition fields_SBIE2113 :: "(wstring \<times> wstring \<times> wstring) list" where
  "fields_SBIE2113 =
     [([TAB], ''group'', ''other''),
      ([TAB], ''class'', ''sandboxing''),
      ('' '', ''name'', ''SBIE2113: File is too large to copy into sandbox, creating empty file''),
      ('' '', ''description'', ''File is too large to copy into sandbox, creating empty file'')]"

definition fields_SBIE2114 :: "(wstring \<times> wstring \<times> wstring) list" where
  "fields_SBIE2114 =
     [([TAB], ''group'', ''other''),
      ([TAB], ''class'', ''sandboxing''),
      ('' '', ''name'', ''SBIE2114: File is too large to copy into sandbox, denying access''),
      ('' '', ''description'', ''File is too large to copy into sandbox, denying access'')]"

definition fields_SBIE2115 :: "(wstring \<times> wstring \<times> wstring) list" where
  "fields_SBIE2115 =
     [([TAB], ''group'', ''other''),
      ([TAB], ''class'', ''sandboxing''),
      ('' '', ''name'', ''SBIE2115: File is too large to copy into sandbox, opening in read only''),
      ('' '', ''description'', ''File is too large to copy into sandbox, opening in read only'')]"

definition fields_SBIE2181 :: "(wstring \<times> wstring \<times> wstring) list" where
  "fields_SBIE2181 =
     [([TAB], ''group'', ''other''),
      ([TAB], ''class'', ''sandboxing''),
      ('' '', ''name'', ''SBIE2181: Failed to load SbieDll.dll''),
      ('' '', ''description'', ''Fix the DACLs of Sandboxie'' @ [CHR 0x27] @ ''s home folder'')]"

definition fields_SBIE2204 :: "(wstring \<times> wstring \<times> wstring) list" where
  "fields_SBIE2204 =
     [('' '', ''group'', ''other''),
      ('' '', ''class'', ''sandboxing''),
      ('' '', ''name'', ''SBIE2204: Cannot start a specific sandboxed service''),
      ('' '', ''description'', ''Sandboxie failed to start a service in the sandbox'')]"

definition fields_SBIE2224 :: "(wstring \<times> wstring \<times> wstring) list" where
  "fields_SBIE2224 =
     [([TAB], ''group'', ''other''),
      ([TAB], ''class'', ''sandboxing''),
      ('' '', ''name'', ''SBIE2224: Sandboxed program has crashed''),
      ('' '', ''description'', ''A Sandboxed program has crashed'')]"

definition fields_SBIE2313 :: "(wstring \<times> wstring \<times> wstring) list" where
  "fields_SBIE2313 =
     [('' '', ''group'', ''other''),
      ('' '', ''class'', ''sandboxing''),
      ('' '', ''name'', ''SBIE2313: Could not execute specific process''),
      ('' '', ''description'', ''Sandboxie failed to start a process in the sandbox'')]"

definition fields_SBIECONF :: "(wstring \<times> wstring \<times> wstring) list" where
  "fields_SBIECONF =
     [([TAB], ''group'', ''library''),
      ([TAB], ''class'', ''sandboxing''),
      ('' '', ''name'', ''open config''),
      ('' '', ''description'', ''opens box config on a given page'')]"

definition fields_SBIECOPY :: "(wstring \<times> wstring \<times> wstring) list" where
  "fields_SBIECOPY =
     [([TAB], ''group'', ''library''),
      ([TAB], ''class'', ''sandboxing''),
      ('' '', ''name'', ''SBIE 2113/2114/2115 and 2102''),
      ('' '', ''description'', ''handle migration error messages'')]"

definition fields_SBIEFIXPC :: "(wstring \<times> wstring \<times> wstring) list" where
  "fields_SBIEFIXPC =
     [([TAB], ''group'', ''library''),
      ([TAB], ''class'', ''sandboxing''),
      ('' '', ''name'', ''fix parental controls breaking sandboxie''),
      ('' '', ''description'', ''stops AppId driver and AppIdSvc service and disables the offending policy file'')]"

definition fields_SBIEMSG :: "(wstring \<times> wstring \<times> wstring) list" where
  "fields_SBIEMSG =
     [([TAB], ''group'', ''other''),
      ([TAB], ''class'', ''sandboxing''),
      (''   '', ''name'', ''SBIEMSG, I'' @ [CHR 0x27] @ ''m getting a cryptic SBIExxxx message''),
      (''   '', ''description'', ''Handle all sbie messages...'')]"

definition fields_desktop :: "(wstring \<times> wstring \<times> wstring) list" where
  "fields_desktop =
     [([TAB], ''group'', ''ui''),
      ([TAB], ''class'', ''ui''),
      ('' '', ''name'', ''Browser shortcut is missing from the desktop''),
      ('' '', ''description'', ''This procedure will add a browser shortcut to the desktop'')]"

definition fields_shell :: "(wstring \<times> wstring \<times> wstring) list" where
  "fields_shell =
     [([TAB], ''group'', ''ui''),
      ([TAB], ''class'', ''ui''),
      ('' '', ''name'', ''Explorer Context Menu extension does not work''),
      ('' '', ''description'', ''This procedure will re install the shell integration'')]"

lemmas header_eval = print_header_def text_lines_def print_field_def field_ok_def trim_def q_space_def

lemma hdr_fields_AppCompatibility: "hdr_AppCompatibility = print_header fields_AppCompatibility \<and> list_all field_ok fields_AppCompatibility \<and> ''id'' \<notin> fst ` set (map snd fields_AppCompatibility)"
  by (simp add: hdr_AppCompatibility_def fields_AppCompatibility_def header_eval)

lemma hdr_fields_unknown: "hdr_unknown = print_header fields_unknown \<and> list_all field_ok fields_unknown \<and> ''id'' \<notin> fst ` set (map snd fields_unknown)"
  by (simp add: hdr_unknown_def fields_unknown_def header_eval)

lemma hdr_fields_viber: "hdr_viber = print_header fields_viber \<and> list_all field_ok fields_viber \<and> ''id'' \<notin> fst ` set (map snd fields_viber)"
  by (simp add: hdr_viber_def fields_viber_def header_eval)

lemma hdr_fields_game_fps: "hdr_game_fps = print_header fields_game_fps \<and> list_all field_ok fields_game_fps \<and> ''id'' \<notin> fst ` set (map snd fields_game_fps)"
  by (simp add: hdr_game_fps_def fields_game_fps_def header_eval)

lemma hdr_fields_installer: "hdr_installer = print_header fields_installer \<and> list_all field_ok fields_installer \<and> ''id'' \<notin> fst ` set (map snd fields_installer)"
  by (simp add: hdr_installer_def fields_installer_def header_eval)

lemma hdr_fields_webcam: "hdr_webcam = print_header fields_webcam \<and> list_all field_ok fields_webcam \<and> ''id'' \<notin> fst ` set (map snd fields_webcam)"
  by (simp add: hdr_webcam_def fields_webcam_def header_eval)

lemma hdr_fields_SBIE1307: "hdr_SBIE1307 = print_header fields_SBIE1307 \<and> list_all field_ok fields_SBIE1307 \<and> ''id'' \<notin> fst ` set (map snd fields_SBIE1307)"
  by (simp add: hdr_SBIE1307_def fields_SBIE1307_def header_eval)

lemma hdr_fields_SBIE1308: "hdr_SBIE1308 = print_header fields_SBIE1308 \<and> list_all field_ok fields_SBIE1308 \<and> ''id'' \<notin> fst ` set (map snd fields_SBIE1308)"
  by (simp add: hdr_SBIE1308_def fields_SBIE1308_def header_eval)

lemma hdr_fields_SBIE2102: "hdr_SBIE2102 = print_header fields_SBIE2102 \<and> list_all field_ok fields_SBIE2102 \<and> ''id'' \<notin> fst ` set (map snd fields_SBIE2102)"
  by (simp add: hdr_SBIE2102_def fields_SBIE2102_def header_eval)

lemma hdr_fields_SBIE2113: "hdr_SBIE2113 = print_header fields_SBIE2113 \<and> list_all field_ok fields_SBIE2113 \<and> ''id'' \<notin> fst ` set (map snd fields_SBIE2113)"
  by (simp add: hdr_SBIE2113_def fields_SBIE2113_def header_eval)

lemma hdr_fields_SBIE2114: "hdr_SBIE2114 = print_header fields_SBIE2114 \<and> list_all field_ok fields_SBIE2114 \<and> ''id'' \<notin> fst ` set (map snd fields_SBIE2114)"
  by (simp add: hdr_SBIE2114_def fields_SBIE2114_def header_eval)

lemma hdr_fields_SBIE2115: "hdr_SBIE2115 = print_header fields_SBIE2115 \<and> list_all field_ok fields_SBIE2115 \<and> ''id'' \<notin> fst ` set (map snd fields_SBIE2115)"
  by (simp add: hdr_SBIE2115_def fields_SBIE2115_def header_eval)

lemma hdr_fields_SBIE2181: "hdr_SBIE2181 = print_header fields_SBIE2181 \<and> list_all field_ok fields_SBIE2181 \<and> ''id'' \<notin> fst ` set (map snd fields_SBIE2181)"
  by (simp add: hdr_SBIE2181_def fields_SBIE2181_def header_eval)

lemma hdr_fields_SBIE2204: "hdr_SBIE2204 = print_header fields_SBIE2204 \<and> list_all field_ok fields_SBIE2204 \<and> ''id'' \<notin> fst ` set (map snd fields_SBIE2204)"
  by (simp add: hdr_SBIE2204_def fields_SBIE2204_def header_eval)

lemma hdr_fields_SBIE2224: "hdr_SBIE2224 = print_header fields_SBIE2224 \<and> list_all field_ok fields_SBIE2224 \<and> ''id'' \<notin> fst ` set (map snd fields_SBIE2224)"
  by (simp add: hdr_SBIE2224_def fields_SBIE2224_def header_eval)

lemma hdr_fields_SBIE2313: "hdr_SBIE2313 = print_header fields_SBIE2313 \<and> list_all field_ok fields_SBIE2313 \<and> ''id'' \<notin> fst ` set (map snd fields_SBIE2313)"
  by (simp add: hdr_SBIE2313_def fields_SBIE2313_def header_eval)

lemma hdr_fields_SBIECONF: "hdr_SBIECONF = print_header fields_SBIECONF \<and> list_all field_ok fields_SBIECONF \<and> ''id'' \<notin> fst ` set (map snd fields_SBIECONF)"
  by (simp add: hdr_SBIECONF_def fields_SBIECONF_def header_eval)

lemma hdr_fields_SBIECOPY: "hdr_SBIECOPY = print_header fields_SBIECOPY \<and> list_all field_ok fields_SBIECOPY \<and> ''id'' \<notin> fst ` set (map snd fields_SBIECOPY)"
  by (simp add: hdr_SBIECOPY_def fields_SBIECOPY_def header_eval)

lemma hdr_fields_SBIEFIXPC: "hdr_SBIEFIXPC = print_header fields_SBIEFIXPC \<and> list_all field_ok fields_SBIEFIXPC \<and> ''id'' \<notin> fst ` set (map snd fields_SBIEFIXPC)"
  by (simp add: hdr_SBIEFIXPC_def fields_SBIEFIXPC_def header_eval)

lemma hdr_fields_SBIEMSG: "hdr_SBIEMSG = print_header fields_SBIEMSG \<and> list_all field_ok fields_SBIEMSG \<and> ''id'' \<notin> fst ` set (map snd fields_SBIEMSG)"
  by (simp add: hdr_SBIEMSG_def fields_SBIEMSG_def header_eval)

lemma hdr_fields_desktop: "hdr_desktop = print_header fields_desktop \<and> list_all field_ok fields_desktop \<and> ''id'' \<notin> fst ` set (map snd fields_desktop)"
  by (simp add: hdr_desktop_def fields_desktop_def header_eval)

lemma hdr_fields_shell: "hdr_shell = print_header fields_shell \<and> list_all field_ok fields_shell \<and> ''id'' \<notin> fst ` set (map snd fields_shell)"
  by (simp add: hdr_shell_def fields_shell_def header_eval)

text \<open>Numbers in the names of messages.\<close>

declare js_nat.simps [simp del]

lemma js_nat_digits: "c \<in> set (js_nat n) \<Longrightarrow> 48 \<le> (of_char c :: int) \<and> (of_char c :: int) \<le> 57"
proof (induction n rule: js_nat.induct)
  case (1 n)
  have d: "(of_char (char_of (48 + k) :: char) :: int) = 48 + int k" if "k < 10" for k :: nat
  proof -
    have "(of_char (char_of (48 + k) :: char) :: nat) = 48 + k" using that by simp
    then show ?thesis by (metis of_nat_of_char of_nat_add of_nat_numeral)
  qed
  from 1 show ?case using d [of n] d [of "n mod 10"] by (subst (asm) js_nat.simps) (auto split: if_splits)
qed

lemma q_digits_js_nat: "q_digits (js_nat n) = Some (int n)"
proof -
  have d: "(of_char (char_of (48 + k) :: char) :: int) - 48 = int k" if "k < 10" for k :: nat
  proof -
    have "(of_char (char_of (48 + k) :: char) :: nat) = 48 + k" using that by simp
    then have "(of_char (char_of (48 + k) :: char) :: int) = 48 + int k" by (metis of_nat_of_char of_nat_add of_nat_numeral)
    then show ?thesis by simp
  qed
  have "foldl (\<lambda>n c. 10 * n + (of_char c - 48)) 0 (js_nat n) = int n"
  proof (induction n rule: js_nat.induct)
    case (1 n)
    show ?case using 1 d [of n] d [of "n mod 10"] by (subst js_nat.simps) (auto simp: zdiv_int zmod_int)
  qed
  moreover have "js_nat n \<noteq> []" by (subst js_nat.simps) simp
  ultimately show ?thesis using js_nat_digits by (auto simp: q_digits_def list_all_iff)
qed

lemma js_nat_inj: "js_nat a = js_nat b \<longleftrightarrow> a = b"
  by (metis q_digits_js_nat option.inject of_nat_eq_iff)

lemma wcslwr_js_nat: "wcslwr (js_nat n) = js_nat n"
proof -
  have "towlower c = c" if "c \<in> set (js_nat n)" for c
  proof -
    have "(of_char c :: int) \<le> 57" using js_nat_digits [OF that] by simp
    then have "(of_char c :: nat) \<le> 57" by (metis of_nat_of_char of_nat_le_iff of_nat_numeral)
    then show ?thesis by (simp add: towlower_def)
  qed
  then show ?thesis by (simp add: wcslwr_def map_idI)
qed

lemma msg_name_eq: "wcsicmp_eq s (msg_name MsgCode) \<longleftrightarrow> wcslwr s = ''sbie'' @ js_nat (unat (MsgCode AND 0xFFFF))"
proof -
  have "wcslwr ''SBIE'' = ''sbie''" by code_simp
  then have "wcslwr (''SBIE'' @ t) = ''sbie'' @ wcslwr t" for t by (simp add: wcslwr_def)
  then show ?thesis by (simp add: wcsicmp_eq_def msg_name_def wcslwr_js_nat)
qed

text \<open>An id that only one entry has.\<close>

lemma full_entry_id: "has_id e \<Longrightarrow> q_text (full_entry e) ''id'' = q_text e ''id''"
  by (auto simp: has_id_def full_entry_def with_key_def q_text_def q_at_def split: option.splits)

lemma hits_full:
  "\<forall>e \<in> set es. has_id e \<Longrightarrow> filter (is_msg Msg) (map full_entry es) = map full_entry (filter (is_msg Msg) es)"
  by (induction es) (auto simp: full_entry_id)

lemma merge_single:
  assumes "filter (is_msg Msg) es = [e]" and "wcsicmp_eq i Msg"
    and "i \<in> (\<lambda>e. q_text e ''id'') ` set (filter P es)"
  shows "merge_id (filter P es) i = e"
proof -
  have "filter (\<lambda>x. q_text x ''id'' = i) (filter P es) = filter (\<lambda>x. P x \<and> q_text x ''id'' = i) (filter (is_msg Msg) es)"
    using assms(2) by (auto intro: filter_cong)
  moreover have "filter (\<lambda>x. q_text x ''id'' = i) (filter P es) \<noteq> []" using assms(3) by (auto simp: filter_empty_conv)
  ultimately have "filter (\<lambda>x. q_text x ''id'' = i) (filter P es) = [e]" unfolding assms(1) by (auto split: if_splits)
  then show ?thesis unfolding merge_id_def by simp
qed

lemma loaded_merge:
  assumes "\<forall>e \<in> set es. has_id e" and "j \<in> set (all_issues (fold add_entry es []))"
  obtains g where "q_text j ''id'' \<in> (\<lambda>e. q_text e ''id'') ` set (filter (\<lambda>e. q_text e ''group'' = g) (map full_entry es))"
    and "j = merge_id (filter (\<lambda>e. q_text e ''group'' = g) (map full_entry es)) (q_text j ''id'')"
proof -
  obtain g where "j \<in> set (grp_value (fold add_entry es []) g)"
    using groups_all [OF _ assms(2)] add_entries_merged [OF assms(1)] by metis
  then have "j \<in> set (merged (filter (\<lambda>e. q_text e ''group'' = g) (map full_entry es)))"
    using add_entries_merged [OF assms(1), of g] by (simp only:)
  then obtain i where i: "i \<in> (\<lambda>e. q_text e ''id'') ` set (filter (\<lambda>e. q_text e ''group'' = g) (map full_entry es))"
    "j = merge_id (filter (\<lambda>e. q_text e ''group'' = g) (map full_entry es)) i"
    by (auto simp: merged_def)
  have "\<forall>e \<in> set (filter (\<lambda>e. q_text e ''group'' = g) (map full_entry es)). has_id e"
    using assms(1) by (auto intro: full_entry_has_id)
  from merge_id_at [OF this i(1)] i(2) have "q_text j ''id'' = i" by (simp add: q_text_def toString_def)
  with i that [of g] show ?thesis by simp
qed

lemma filter_single: "filter P xs = [x] \<Longrightarrow> x \<in> set xs \<and> P x"
  by (induction xs) (auto split: if_splits)

lemma loaded_single:
  assumes "\<forall>e \<in> set es. has_id e" and "filter (is_msg Msg) es = [e]" and "full_entry e = e"
  shows "e \<in> set (all_issues (fold add_entry es []))"
    and "j \<in> set (all_issues (fold add_entry es [])) \<Longrightarrow> is_msg Msg j \<Longrightarrow> j = e"
proof -
  have hit: "filter (is_msg Msg) (map full_entry es) = [e]"
    using hits_full [OF assms(1)] assms(2,3) by simp
  let ?E = "filter (\<lambda>x. q_text x ''group'' = q_text e ''group'') (map full_entry es)"
  have e: "e \<in> set (map full_entry es)" "is_msg Msg e" using filter_single [OF hit] by auto
  then have i: "q_text e ''id'' \<in> (\<lambda>e. q_text e ''id'') ` set ?E" by auto
  from merge_single [OF hit e(2) i] i have "e \<in> set (merged ?E)" by (force simp: merged_def)
  then have "e \<in> set (grp_value (fold add_entry es []) (q_text e ''group''))"
    using add_entries_merged [OF assms(1), of "q_text e ''group''"] by (simp only:)
  then show "e \<in> set (all_issues (fold add_entry es []))" using grp_value_sub by blast
  assume "j \<in> set (all_issues (fold add_entry es []))" and m: "is_msg Msg j"
  then obtain g where g: "q_text j ''id'' \<in> (\<lambda>e. q_text e ''id'') ` set (filter (\<lambda>e. q_text e ''group'' = g) (map full_entry es))"
    "j = merge_id (filter (\<lambda>e. q_text e ''group'' = g) (map full_entry es)) (q_text j ''id'')"
    using loaded_merge [OF assms(1)] by blast
  from merge_single [OF hit m g(1)] g(2) show "j = e" by simp
qed

lemma loaded_none:
  assumes "\<forall>e \<in> set es. has_id e" and "filter (is_msg Msg) es = []"
  shows "\<forall>j \<in> set (all_issues (fold add_entry es [])). \<not> is_msg Msg j"
proof
  fix j assume "j \<in> set (all_issues (fold add_entry es []))"
  then obtain g where "q_text j ''id'' \<in> (\<lambda>e. q_text e ''id'') ` set (filter (\<lambda>e. q_text e ''group'' = g) (map full_entry es))"
    using loaded_merge [OF assms(1)] by blast
  then obtain e where "e \<in> set es" "q_text j ''id'' = q_text e ''id''" using full_entry_id assms(1) by auto
  then show "\<not> is_msg Msg j" using assms(2) by (auto simp: filter_empty_conv)
qed

lemma tryfix_loaded_single:
  assumes "\<forall>e \<in> set es. has_id e" and "filter (is_msg Msg) es = [e]" and "full_entry e = e"
  shows "tryfix_issue (fold add_entry es []) Msg = Some e"
proof -
  have "is_msg Msg e" using filter_single [OF assms(2)] by blast
  then have "\<exists>j \<in> set (all_issues (fold add_entry es [])). is_msg Msg j" using loaded_single(1) [OF assms] by blast
  from tryfix_special [OF this] show ?thesis using loaded_single(2) [OF assms] by blast
qed

lemma tryfix_loaded_general:
  assumes "\<forall>e \<in> set es. has_id e" and "filter (is_msg Msg) es = []"
    and "filter (is_msg ''SBIEMSG'') es = [e]" and "full_entry e = e"
  shows "tryfix_issue (fold add_entry es []) Msg = Some e"
proof -
  let ?m = "fold add_entry es []"
  note single = loaded_single [OF assms(1,3,4)]
  have "is_msg ''SBIEMSG'' e" using filter_single [OF assms(3)] by blast
  then have "find (is_msg ''SBIEMSG'') (all_issues ?m) \<noteq> None"
    using single(1) find_None_iff [of "is_msg ''SBIEMSG''" "all_issues ?m"] by blast
  then obtain j where j: "find (is_msg ''SBIEMSG'') (all_issues ?m) = Some j" by blast
  then have "j = e" using single(2) find_in [OF j] by blast
  with j show ?thesis using tryfix_general [OF loaded_none [OF assms(1,2)]] by simp
qed

text \<open>Scripts with printed headers.\<close>

definition base_name :: "wstring \<Rightarrow> wstring" where
  "base_name path = take (length (fileName path) - 3) (fileName path)"

definition good_file :: "wstring \<times> wstring \<Rightarrow> bool" where
  "good_file f \<longleftrightarrow> (\<exists>fs b. snd f = print_header fs @ b \<and> list_all field_ok fs \<and> ''id'' \<notin> fst ` set (map snd fs))"

lemma load_script_id:
  assumes "good_file f" and "load_script OsBuild f = Some e"
  shows "q_text e ''id'' = base_name (fst f)"
proof -
  from assms(1) obtain fs b where f: "snd f = print_header fs @ b" "list_all field_ok fs" "''id'' \<notin> fst ` set (map snd fs)"
    by (auto simp: good_file_def)
  have "header_issue (fst f) (text_lines ([[]] @ map print_field fs @ [''*''])) ''id'' = Some (QStr (base_name (fst f)))"
    unfolding header_issue_def ReadCommentHeader_print [OF f(2)] fold_upd_other [OF f(3)] by (simp add: base_name_def)
  then show ?thesis
    using assms(2) header_of_print [OF f(2), of b] f(1)
    by (cases f) (auto simp: load_script_def with_key_def q_text_def q_at_def toString_def Let_def split: option.splits if_splits)
qed

lemma hits_load:
  assumes "\<forall>f \<in> set files. good_file f"
  shows "filter (is_msg Msg) (List.map_filter (load_script OsBuild) files) =
    List.map_filter (load_script OsBuild) (filter (\<lambda>f. wcsicmp_eq (base_name (fst f)) Msg) files)"
  using assms
proof (induction files)
  case (Cons f files)
  show ?case
  proof (cases "load_script OsBuild f")
    case None
    then show ?thesis using Cons by (auto simp: map_filter_simps)
  next
    case (Some e)
    then show ?thesis using Cons load_script_id [of f OsBuild e] by (auto simp: map_filter_simps)
  qed
qed (simp add: map_filter_simps)

lemma good_hdr:
  "hdr = print_header fs \<and> list_all field_ok fs \<and> ''id'' \<notin> fst ` set (map snd fs) \<Longrightarrow> good_file (path, hdr @ b)"
  unfolding good_file_def by auto

lemmas good_files = hdr_fields_AppCompatibility [THEN good_hdr] hdr_fields_unknown [THEN good_hdr]
  hdr_fields_viber [THEN good_hdr] hdr_fields_game_fps [THEN good_hdr] hdr_fields_installer [THEN good_hdr]
  hdr_fields_webcam [THEN good_hdr] hdr_fields_SBIE1307 [THEN good_hdr] hdr_fields_SBIE1308 [THEN good_hdr]
  hdr_fields_SBIE2102 [THEN good_hdr] hdr_fields_SBIE2113 [THEN good_hdr] hdr_fields_SBIE2114 [THEN good_hdr]
  hdr_fields_SBIE2115 [THEN good_hdr] hdr_fields_SBIE2181 [THEN good_hdr] hdr_fields_SBIE2204 [THEN good_hdr]
  hdr_fields_SBIE2224 [THEN good_hdr] hdr_fields_SBIE2313 [THEN good_hdr] hdr_fields_SBIECONF [THEN good_hdr]
  hdr_fields_SBIECOPY [THEN good_hdr] hdr_fields_SBIEFIXPC [THEN good_hdr] hdr_fields_SBIEMSG [THEN good_hdr]
  hdr_fields_desktop [THEN good_hdr] hdr_fields_shell [THEN good_hdr]

lemma shipped_good: "\<forall>f \<in> set (ListDir (troubleshooting_dir body)). good_file f"
  by (simp add: troubleshooting_dir_def good_files)

text \<open>The scripts of the folder, by their names.\<close>

lemma shipped_names:
  "map (\<lambda>(path, txt). (base_name path, txt)) (ListDir (troubleshooting_dir body)) =
    [(''AppCompatibility'', hdr_AppCompatibility @ body ''AppCompatibility''),
     (''unknown'', hdr_unknown @ body ''unknown''), (''viber'', hdr_viber @ body ''viber''),
     (''game_fps'', hdr_game_fps @ body ''game_fps''), (''installer'', hdr_installer @ body ''installer''),
     (''webcam'', hdr_webcam @ body ''webcam''),
     (''SBIE1307'', hdr_SBIE1307 @ body ''SBIE1307''), (''SBIE1308'', hdr_SBIE1308 @ body ''SBIE1308''),
     (''SBIE2102'', hdr_SBIE2102 @ body ''SBIE2102''), (''SBIE2113'', hdr_SBIE2113 @ body ''SBIE2113''),
     (''SBIE2114'', hdr_SBIE2114 @ body ''SBIE2114''), (''SBIE2115'', hdr_SBIE2115 @ body ''SBIE2115''),
     (''SBIE2181'', hdr_SBIE2181 @ body ''SBIE2181''), (''SBIE2204'', hdr_SBIE2204 @ body ''SBIE2204''),
     (''SBIE2224'', hdr_SBIE2224 @ body ''SBIE2224''), (''SBIE2313'', hdr_SBIE2313 @ body ''SBIE2313''),
     (''SBIECONF'', hdr_SBIECONF @ body ''SBIECONF''), (''SBIECOPY'', hdr_SBIECOPY @ body ''SBIECOPY''),
     (''SBIEFIXPC'', hdr_SBIEFIXPC @ body ''SBIEFIXPC''), (''SBIEMSG'', hdr_SBIEMSG @ body ''SBIEMSG''),
     (''desktop'', hdr_desktop @ body ''desktop''), (''shell'', hdr_shell @ body ''shell'')]"
  by (simp add: troubleshooting_dir_def base_name_def fileName_def)

definition other_fields :: "(wstring \<times> wstring \<times> wstring) list \<Rightarrow> bool" where
  "other_fields fs \<longleftrightarrow>
     (\<exists>c n d. map snd fs = [(''group'', ''other''), (''class'', c), (''name'', n), (''description'', d)])"

lemma message_fields:
  "other_fields fields_SBIE1307" "other_fields fields_SBIE1308" "other_fields fields_SBIE2102" "other_fields fields_SBIE2113" "other_fields fields_SBIE2114" "other_fields fields_SBIE2115" "other_fields fields_SBIE2181" "other_fields fields_SBIE2204" "other_fields fields_SBIE2224" "other_fields fields_SBIE2313" "other_fields fields_SBIEMSG"
  by (simp_all add: other_fields_def fields_SBIE1307_def fields_SBIE1308_def fields_SBIE2102_def fields_SBIE2113_def fields_SBIE2114_def fields_SBIE2115_def fields_SBIE2181_def fields_SBIE2204_def fields_SBIE2224_def fields_SBIE2313_def fields_SBIEMSG_def)

lemma load_other:
  assumes "hdr = print_header fs \<and> list_all field_ok fs \<and> ''id'' \<notin> fst ` set (map snd fs)" and "other_fields fs"
  shows "\<exists>e. load_script OsBuild (path, hdr @ b) = Some e \<and> full_entry e = e \<and> e ''script'' = Some (QStr (hdr @ b))
    \<and> e ''id'' = Some (QStr (base_name path)) \<and> hdr @ b \<noteq> []"
proof -
  obtain c n d where fs: "map snd fs = [(''group'', ''other''), (''class'', c), (''name'', n), (''description'', d)]"
    using assms(2) by (auto simp: other_fields_def)
  show ?thesis
    using assms(1) fs header_of_print [of fs b] ReadCommentHeader_print [of fs]
    by (auto simp: load_script_def header_issue_def applicable_def with_key_def full_entry_def q_at_def base_name_def
        Let_def print_header_def text_lines_def)
qed

lemmas load_messages =
  load_other [OF hdr_fields_SBIE1307 message_fields(1)]
  load_other [OF hdr_fields_SBIE1308 message_fields(2)]
  load_other [OF hdr_fields_SBIE2102 message_fields(3)]
  load_other [OF hdr_fields_SBIE2113 message_fields(4)]
  load_other [OF hdr_fields_SBIE2114 message_fields(5)]
  load_other [OF hdr_fields_SBIE2115 message_fields(6)]
  load_other [OF hdr_fields_SBIE2181 message_fields(7)]
  load_other [OF hdr_fields_SBIE2204 message_fields(8)]
  load_other [OF hdr_fields_SBIE2224 message_fields(9)]
  load_other [OF hdr_fields_SBIE2313 message_fields(10)]
  load_other [OF hdr_fields_SBIEMSG message_fields(11)]

definition handled_codes :: "nat list" where
  "handled_codes = [1307, 1308, 2102, 2113, 2114, 2115, 2181, 2204, 2224, 2313]"

lemma js_nat_codes:
  "js_nat 1307 = ''1307''" "js_nat 1308 = ''1308''" "js_nat 2102 = ''2102''" "js_nat 2113 = ''2113''" "js_nat 2114 = ''2114''" "js_nat 2115 = ''2115''" "js_nat 2181 = ''2181''" "js_nat 2204 = ''2204''" "js_nat 2224 = ''2224''" "js_nat 2313 = ''2313''"
  by (simp_all add: js_nat.simps char_of_def bit_0)

lemma js_nat_handled:
  "js_nat k = ''1307'' \<longleftrightarrow> k = 1307" "js_nat k = ''1308'' \<longleftrightarrow> k = 1308" "js_nat k = ''2102'' \<longleftrightarrow> k = 2102"
  "js_nat k = ''2113'' \<longleftrightarrow> k = 2113" "js_nat k = ''2114'' \<longleftrightarrow> k = 2114" "js_nat k = ''2115'' \<longleftrightarrow> k = 2115"
  "js_nat k = ''2181'' \<longleftrightarrow> k = 2181" "js_nat k = ''2204'' \<longleftrightarrow> k = 2204" "js_nat k = ''2224'' \<longleftrightarrow> k = 2224"
  "js_nat k = ''2313'' \<longleftrightarrow> k = 2313"
  by (simp_all only: js_nat_inj flip: js_nat_codes)

lemma js_nat_letters: "c \<in> set s \<Longrightarrow> 57 < (of_char c :: int) \<Longrightarrow> js_nat k \<noteq> s"
  using js_nat_digits [of c k] by auto

lemma layout_ids: "\<forall>e \<in> set layout_entries. has_id e"
  by (simp add: layout_entries_def has_id_iff)

lemma layout_no_msg: "filter (is_msg (msg_name MsgCode)) layout_entries = []" "filter (is_msg ''SBIEMSG'') layout_entries = []"
  by (simp_all only: msg_name_eq)
    (simp_all add: layout_entries_def q_text_def q_at_def toString_def wcslwr_def towlower_def wcsicmp_eq_def)

lemma low_ids:
  "wcslwr ''AppCompatibility'' = ''appcompatibility''" "wcslwr ''unknown'' = ''unknown''" "wcslwr ''viber'' = ''viber''"
  "wcslwr ''game_fps'' = ''game_fps''" "wcslwr ''installer'' = ''installer''" "wcslwr ''webcam'' = ''webcam''"
  "wcslwr ''SBIE1307'' = ''sbie1307''" "wcslwr ''SBIE1308'' = ''sbie1308''" "wcslwr ''SBIE2102'' = ''sbie2102''"
  "wcslwr ''SBIE2113'' = ''sbie2113''" "wcslwr ''SBIE2114'' = ''sbie2114''" "wcslwr ''SBIE2115'' = ''sbie2115''"
  "wcslwr ''SBIE2181'' = ''sbie2181''" "wcslwr ''SBIE2204'' = ''sbie2204''" "wcslwr ''SBIE2224'' = ''sbie2224''"
  "wcslwr ''SBIE2313'' = ''sbie2313''" "wcslwr ''SBIECONF'' = ''sbieconf''" "wcslwr ''SBIECOPY'' = ''sbiecopy''"
  "wcslwr ''SBIEFIXPC'' = ''sbiefixpc''" "wcslwr ''SBIEMSG'' = ''sbiemsg''" "wcslwr ''desktop'' = ''desktop''"
  "wcslwr ''shell'' = ''shell''"
  by (simp_all add: wcslwr_def towlower_def char_of_def bit_0)

lemma js_nat_not:
  "''conf'' \<noteq> js_nat k" "''copy'' \<noteq> js_nat k" "''fixpc'' \<noteq> js_nat k" "''msg'' \<noteq> js_nat k"
  using js_nat_letters [of "CHR ''c''" "''conf''" k] js_nat_letters [of "CHR ''c''" "''copy''" k]
    js_nat_letters [of "CHR ''x''" "''fixpc''" k] js_nat_letters [of "CHR ''s''" "''msg''" k]
  by auto

lemma shipped_hits_general:
  assumes "unat (MsgCode AND 0xFFFF) \<notin> set handled_codes"
  shows "filter (\<lambda>f. wcsicmp_eq (base_name (fst f)) (msg_name MsgCode)) (ListDir (troubleshooting_dir body)) = []"
  using assms js_nat_not
  by (simp only: msg_name_eq)
    (simp add: troubleshooting_dir_def base_name_def fileName_def low_ids handled_codes_def js_nat_handled
      eq_commute [of "_ # _" "js_nat k" for k])

lemma shipped_hits_SBIEMSG:
  "filter (\<lambda>f. wcsicmp_eq (base_name (fst f)) ''SBIEMSG'') (ListDir (troubleshooting_dir body)) =
     [(''Sandboxing/SBIEMSG/SBIEMSG.js'', hdr_SBIEMSG @ body ''SBIEMSG'')]"
  by (simp add: wcsicmp_eq_def troubleshooting_dir_def base_name_def fileName_def low_ids)

lemma shipped_hits:
  "unat (MsgCode AND 0xFFFF) = 1307 \<Longrightarrow> filter (\<lambda>f. wcsicmp_eq (base_name (fst f)) (msg_name MsgCode)) (ListDir (troubleshooting_dir body)) =
     [(''Sandboxing/SBIEMSG/SBIE1307.js'', hdr_SBIE1307 @ body ''SBIE1307'')]"
  "unat (MsgCode AND 0xFFFF) = 1308 \<Longrightarrow> filter (\<lambda>f. wcsicmp_eq (base_name (fst f)) (msg_name MsgCode)) (ListDir (troubleshooting_dir body)) =
     [(''Sandboxing/SBIEMSG/SBIE1308.js'', hdr_SBIE1308 @ body ''SBIE1308'')]"
  "unat (MsgCode AND 0xFFFF) = 2102 \<Longrightarrow> filter (\<lambda>f. wcsicmp_eq (base_name (fst f)) (msg_name MsgCode)) (ListDir (troubleshooting_dir body)) =
     [(''Sandboxing/SBIEMSG/SBIE2102.js'', hdr_SBIE2102 @ body ''SBIE2102'')]"
  "unat (MsgCode AND 0xFFFF) = 2113 \<Longrightarrow> filter (\<lambda>f. wcsicmp_eq (base_name (fst f)) (msg_name MsgCode)) (ListDir (troubleshooting_dir body)) =
     [(''Sandboxing/SBIEMSG/SBIE2113.js'', hdr_SBIE2113 @ body ''SBIE2113'')]"
  "unat (MsgCode AND 0xFFFF) = 2114 \<Longrightarrow> filter (\<lambda>f. wcsicmp_eq (base_name (fst f)) (msg_name MsgCode)) (ListDir (troubleshooting_dir body)) =
     [(''Sandboxing/SBIEMSG/SBIE2114.js'', hdr_SBIE2114 @ body ''SBIE2114'')]"
  "unat (MsgCode AND 0xFFFF) = 2115 \<Longrightarrow> filter (\<lambda>f. wcsicmp_eq (base_name (fst f)) (msg_name MsgCode)) (ListDir (troubleshooting_dir body)) =
     [(''Sandboxing/SBIEMSG/SBIE2115.js'', hdr_SBIE2115 @ body ''SBIE2115'')]"
  "unat (MsgCode AND 0xFFFF) = 2181 \<Longrightarrow> filter (\<lambda>f. wcsicmp_eq (base_name (fst f)) (msg_name MsgCode)) (ListDir (troubleshooting_dir body)) =
     [(''Sandboxing/SBIEMSG/SBIE2181.js'', hdr_SBIE2181 @ body ''SBIE2181'')]"
  "unat (MsgCode AND 0xFFFF) = 2204 \<Longrightarrow> filter (\<lambda>f. wcsicmp_eq (base_name (fst f)) (msg_name MsgCode)) (ListDir (troubleshooting_dir body)) =
     [(''Sandboxing/SBIEMSG/SBIE2204.js'', hdr_SBIE2204 @ body ''SBIE2204'')]"
  "unat (MsgCode AND 0xFFFF) = 2224 \<Longrightarrow> filter (\<lambda>f. wcsicmp_eq (base_name (fst f)) (msg_name MsgCode)) (ListDir (troubleshooting_dir body)) =
     [(''Sandboxing/SBIEMSG/SBIE2224.js'', hdr_SBIE2224 @ body ''SBIE2224'')]"
  "unat (MsgCode AND 0xFFFF) = 2313 \<Longrightarrow> filter (\<lambda>f. wcsicmp_eq (base_name (fst f)) (msg_name MsgCode)) (ListDir (troubleshooting_dir body)) =
     [(''Sandboxing/SBIEMSG/SBIE2313.js'', hdr_SBIE2313 @ body ''SBIE2313'')]"
  by (simp_all only: msg_name_eq)
    (simp_all add: troubleshooting_dir_def base_name_def fileName_def low_ids js_nat_codes)

lemma shipped_scripts:
  "GetScript (troubleshooting_dir body) ''SBIE1307'' = hdr_SBIE1307 @ body ''SBIE1307''"
  "GetScript (troubleshooting_dir body) ''SBIE1308'' = hdr_SBIE1308 @ body ''SBIE1308''"
  "GetScript (troubleshooting_dir body) ''SBIE2102'' = hdr_SBIE2102 @ body ''SBIE2102''"
  "GetScript (troubleshooting_dir body) ''SBIE2113'' = hdr_SBIE2113 @ body ''SBIE2113''"
  "GetScript (troubleshooting_dir body) ''SBIE2114'' = hdr_SBIE2114 @ body ''SBIE2114''"
  "GetScript (troubleshooting_dir body) ''SBIE2115'' = hdr_SBIE2115 @ body ''SBIE2115''"
  "GetScript (troubleshooting_dir body) ''SBIE2181'' = hdr_SBIE2181 @ body ''SBIE2181''"
  "GetScript (troubleshooting_dir body) ''SBIE2204'' = hdr_SBIE2204 @ body ''SBIE2204''"
  "GetScript (troubleshooting_dir body) ''SBIE2224'' = hdr_SBIE2224 @ body ''SBIE2224''"
  "GetScript (troubleshooting_dir body) ''SBIE2313'' = hdr_SBIE2313 @ body ''SBIE2313''"
  "GetScript (troubleshooting_dir body) ''SBIEMSG'' = hdr_SBIEMSG @ body ''SBIEMSG''"
  by (simp_all add: GetScript_def troubleshooting_dir_def)

lemma shipped_load:
  assumes "filter (\<lambda>f. wcsicmp_eq (base_name (fst f)) Msg) (ListDir (troubleshooting_dir body)) = [(path, txt)]"
    and "filter (is_msg Msg) layout_entries = []"
    and "\<exists>e. load_script OsBuild (path, txt) = Some e \<and> full_entry e = e \<and> e ''script'' = Some (QStr txt)
      \<and> e ''id'' = Some (QStr (base_name path)) \<and> txt \<noteq> []"
  shows "\<exists>e. filter (is_msg Msg) (layout_entries @ List.map_filter (load_script OsBuild) (ListDir (troubleshooting_dir body))) = [e]
    \<and> full_entry e = e \<and> e ''script'' = Some (QStr txt) \<and> e ''id'' = Some (QStr (base_name path)) \<and> txt \<noteq> []"
  using assms hits_load [OF shipped_good, of Msg OsBuild body] by (auto simp: map_filter_simps)

abbreviation shipped :: "u32 \<Rightarrow> (wstring \<Rightarrow> wstring) \<Rightarrow> qmap list" where
  "shipped OsBuild body \<equiv> layout_entries @ List.map_filter (load_script OsBuild) (ListDir (troubleshooting_dir body))"

lemma load_shipped: "LoadIssues OsBuild layout_entries (ListDir (troubleshooting_dir body)) old = fold add_entry (shipped OsBuild body) []"
  by (simp add: LoadIssues_def layout_entries_def)

text \<open>The handler of a message in the shipped folder.\<close>

definition msg_script :: "u32 \<Rightarrow> wstring" where
  "msg_script MsgCode =
     (let code = unat (MsgCode AND 0xFFFF) in if code \<in> set handled_codes then ''SBIE'' @ js_nat code else ''SBIEMSG'')"

definition handler :: "(wstring \<Rightarrow> wstring) \<Rightarrow> wstring \<Rightarrow> qmap \<Rightarrow> bool" where
  "handler body name e \<longleftrightarrow> full_entry e = e \<and> e ''script'' = Some (QStr (GetScript (troubleshooting_dir body) name))
     \<and> e ''id'' = Some (QStr name) \<and> GetScript (troubleshooting_dir body) name \<noteq> []"

lemma SBIEMSG_single: "\<exists>e. filter (is_msg ''SBIEMSG'') (shipped OsBuild body) = [e] \<and> handler body ''SBIEMSG'' e"
  unfolding handler_def shipped_scripts
  using shipped_load [OF shipped_hits_SBIEMSG layout_no_msg(2) load_messages(11)] by (auto simp: base_name_def fileName_def)

lemma handled_single:
  assumes "unat (MsgCode AND 0xFFFF) \<in> set handled_codes"
  shows "\<exists>e. filter (is_msg (msg_name MsgCode)) (shipped OsBuild body) = [e] \<and> handler body (msg_script MsgCode) e"
proof -
  note load = shipped_load [OF shipped_hits(1) layout_no_msg(1) load_messages(1)]
    shipped_load [OF shipped_hits(2) layout_no_msg(1) load_messages(2)]
    shipped_load [OF shipped_hits(3) layout_no_msg(1) load_messages(3)]
    shipped_load [OF shipped_hits(4) layout_no_msg(1) load_messages(4)]
    shipped_load [OF shipped_hits(5) layout_no_msg(1) load_messages(5)]
    shipped_load [OF shipped_hits(6) layout_no_msg(1) load_messages(6)]
    shipped_load [OF shipped_hits(7) layout_no_msg(1) load_messages(7)]
    shipped_load [OF shipped_hits(8) layout_no_msg(1) load_messages(8)]
    shipped_load [OF shipped_hits(9) layout_no_msg(1) load_messages(9)]
    shipped_load [OF shipped_hits(10) layout_no_msg(1) load_messages(10)]
  from assms show ?thesis
    using load [of MsgCode OsBuild body]
    by (auto simp: handled_codes_def msg_script_def handler_def js_nat_codes shipped_scripts base_name_def fileName_def)
qed

lemma tryfix_shipped:
  "\<exists>e. tryfix_issue (LoadIssues OsBuild layout_entries (ListDir (troubleshooting_dir body)) old) (msg_name MsgCode) = Some e
    \<and> handler body (msg_script MsgCode) e"
proof -
  have ids: "\<forall>e \<in> set (shipped OsBuild body). has_id e" by (rule load_ids [OF layout_ids])
  show ?thesis
  proof (cases "unat (MsgCode AND 0xFFFF) \<in> set handled_codes")
    case True
    then obtain e where e: "filter (is_msg (msg_name MsgCode)) (shipped OsBuild body) = [e]" "handler body (msg_script MsgCode) e"
      using handled_single by blast
    then have "full_entry e = e" by (simp add: handler_def)
    from tryfix_loaded_single [OF ids e(1) this] e(2) show ?thesis unfolding load_shipped by blast
  next
    case False
    have none: "filter (is_msg (msg_name MsgCode)) (shipped OsBuild body) = []"
      using layout_no_msg(1) hits_load [OF shipped_good] shipped_hits_general [OF False]
      by (simp add: map_filter_simps)
    obtain e where e: "filter (is_msg ''SBIEMSG'') (shipped OsBuild body) = [e]" "handler body ''SBIEMSG'' e"
      using SBIEMSG_single by blast
    then have "full_entry e = e" by (simp add: handler_def)
    from tryfix_loaded_general [OF ids none e(1) this] e(2) False show ?thesis
      unfolding load_shipped by (auto simp: msg_script_def)
  qed
qed

section \<open>The properties\<close>

lemma applicable_cong:
  "e ''versions'' = e' ''versions'' \<Longrightarrow> e ''os_builds'' = e' ''os_builds'' \<Longrightarrow> applicable b e = applicable b e'"
  by (simp add: applicable_def)

lemma header_issue_values: "header_issue file h k = Some v \<Longrightarrow> \<exists>s. v = QStr s"
proof -
  have "fold (\<lambda>(k, v) m. m(k \<mapsto> QStr v)) fs m k = Some v \<Longrightarrow> m k = Some v \<or> (\<exists>s. v = QStr s)" for fs m
    by (induction fs arbitrary: m) (fastforce split: if_splits)+
  then show "header_issue file h k = Some v \<Longrightarrow> \<exists>s. v = QStr s"
    unfolding header_issue_def by (fastforce split: if_splits)
qed

lemma load_script_parts:
  assumes "load_script OsBuild (file, Script) = Some e"
  shows "e ''script'' = Some (QStr Script) \<and> (\<exists>h. header_of Script = Some h \<and> applicable OsBuild (header_issue file h)
    \<and> q_text (header_issue file h) ''group'' \<notin> {''system'', ''library''})"
proof -
  from assms obtain h where h: "header_of Script = Some h"
    and g: "q_at (with_key ''group'' (header_issue file h)) ''group'' \<notin> {QStr ''system'', QStr ''library''}"
    and e: "e = (with_key ''group'' (header_issue file h))(''script'' \<mapsto> QStr Script)" "applicable OsBuild e"
    by (auto simp: load_script_def Let_def split: option.splits if_splits)
  have "applicable OsBuild (header_issue file h)"
    using e(2) applicable_cong [of e "header_issue file h"] by (simp add: e(1) with_key_other)
  moreover have "q_text (header_issue file h) ''group'' \<notin> {''system'', ''library''}"
    using g header_issue_values [of "file" h "''group''"]
    by (cases "header_issue file h ''group''") (auto simp: q_text_def q_at_def with_key_def toString_def)
  ultimately show ?thesis using h e(1) by simp
qed

text \<open>
  C18. Whatever the user does in the wizard, from its first page or from a message, forward and back: a
  script that is started is the text of a file of the folder whose header admits it for this Windows build and this
  version and does not put it into the groups system and library, as long as layout.json itself holds no scripts.
\<close>

theorem wizard_runs_loaded:
  assumes "Entries \<noteq> []" and "\<forall>e \<in> set Entries. (\<exists>i. e ''id'' = Some (QStr i)) \<and> e ''script'' = None"
    and "wizard_reach (LoadIssues OsBuild Entries files old) w" and "StartEngine w = Some (txt, name, params)"
  shows "\<exists>path header. (path, txt) \<in> set files \<and> header_of txt = Some header
    \<and> applicable OsBuild (header_issue path header)
    \<and> q_text (header_issue path header) ''group'' \<notin> {''system'', ''library''}"
proof -
  let ?m = "LoadIssues OsBuild Entries files old"
  from assms(4) have script: "q_text (CurrentIssue w) ''script'' = txt" "txt \<noteq> []"
    by (auto simp: StartEngine_def Let_def split: if_splits)
  then have "m_IssueStack w \<noteq> []" by (auto simp: CurrentIssue_def q_text_def q_at_def toString_def)
  then have "from_load ?m (CurrentIssue w)"
    using wizard_reach_inv [OF assms(3)] by (simp add: wizard_inv_def CurrentIssue_def)
  moreover obtain v where v: "CurrentIssue w ''script'' = Some v" "toString v = txt"
    using script by (cases "CurrentIssue w ''script''") (auto simp: q_text_def q_at_def toString_def)
  ultimately have "CurrentIssue w \<in> set (all_issues ?m)" by (simp add: from_load_def)
  moreover have "\<forall>e \<in> set Entries. has_id e" using assms(2) by (simp add: has_id_iff)
  ultimately obtain e where e: "e \<in> set (Entries @ List.map_filter (load_script OsBuild) files)" "e ''script'' = Some v"
    using loaded_key [of Entries "CurrentIssue w" OsBuild files old "''script''" v] assms(1) v(1) by auto
  then obtain p Script where f: "(p, Script) \<in> set files" "load_script OsBuild (p, Script) = Some e"
    using assms(2) by (auto dest!: map_filter_in)
  from load_script_parts [OF f(2)] e(2) v(2) f(1) show ?thesis by (force simp: toString_def)
qed

definition demo_script :: wstring where
  "demo_script = ''/*'' @ [NL] @ ''group: x'' @ [NL] @ ''os_builds: 22000-99000'' @ [NL] @ ''name: N'' @ [NL] @ ''*/''"

lemma demo_header:
  "header_of demo_script = Some ([NL] @ ''group: x'' @ [NL] @ ''os_builds: 22000-99000'' @ [NL] @ ''name: N'' @ [NL])"
  "ReadCommentHeader ([NL] @ ''group: x'' @ [NL] @ ''os_builds: 22000-99000'' @ [NL] @ ''name: N'' @ [NL]) =
    [(''group'', ''x''), (''os_builds'', ''22000-99000''), (''name'', ''N'')]"
  by code_simp+

lemma demo_load:
  "load_script 22631 (''SBIE1.js'', demo_script) =
    Some [''id'' \<mapsto> QStr ''SBIE1'', ''type'' \<mapsto> QStr ''issue'', ''group'' \<mapsto> QStr ''x'', ''os_builds'' \<mapsto> QStr ''22000-99000'',
      ''name'' \<mapsto> QStr ''N'', ''script'' \<mapsto> QStr demo_script]"
proof -
  have "list_ex (range_hit q_toUInt 22631) (SplitStr ''22000-99000'' CHR '','')" by code_simp
  then show ?thesis
    using demo_header by (simp add: load_script_def header_issue_def fileName_def with_key_def q_at_def applicable_def toString_def Let_def)
qed

definition demo_groups :: groups where
  "demo_groups = LoadIssues 22631 demo_entries [(''SBIE1.js'', demo_script)] []"

lemma demo_groups_eq:
  "demo_groups = [(''x'', [[''id'' \<mapsto> QStr ''b'', ''group'' \<mapsto> QStr ''x'', ''icon'' \<mapsto> QStr ''I''] ++
      [''id'' \<mapsto> QStr ''b'', ''group'' \<mapsto> QStr ''x'', ''icon'' \<mapsto> QStr ''J''],
      [''id'' \<mapsto> QStr ''a'', ''group'' \<mapsto> QStr ''x''],
      [''id'' \<mapsto> QStr ''SBIE1'', ''type'' \<mapsto> QStr ''issue'', ''group'' \<mapsto> QStr ''x'', ''os_builds'' \<mapsto> QStr ''22000-99000'',
      ''name'' \<mapsto> QStr ''N'', ''script'' \<mapsto> QStr demo_script]])]"
  by (simp add: demo_groups_def LoadIssues_def demo_entries_def demo_load add_entry_def with_key_def q_text_def q_at_def
      toString_def map_filter_simps Let_def)

theorem wizard_runs_loaded_witness:
  "\<exists>path header. (path, demo_script) \<in> set [(''SBIE1.js'', demo_script)] \<and> header_of demo_script = Some header
    \<and> applicable 22631 (header_issue path header)
    \<and> q_text (header_issue path header) ''group'' \<notin> {''system'', ''library''}"
proof -
  let ?w = "TryFix demo_groups 1 [] [] [] ([], []) new_assistant"
  have "msg_name 1 = ''SBIE1''" by (simp add: msg_name_def js_nat.simps char_of_def bit_0)
  moreover have "demo_script \<noteq> []" by (simp add: demo_script_def)
  ultimately have "StartEngine ?w = Some (demo_script, ''SBIE1'', m_Params ?w)"
    by (simp add: TryFix_def demo_groups_eq tryfix_issue_def wcsicmp_eq_def wcslwr_def towlower_def q_text_def q_at_def toString_def
        wizard_defs StartEngine_def new_assistant_def Let_def)
  moreover have "\<forall>e \<in> set demo_entries. (\<exists>i. e ''id'' = Some (QStr i)) \<and> e ''script'' = None" "demo_entries \<noteq> []"
    by (simp_all add: demo_entries_def)
  moreover have "wizard_reach (LoadIssues 22631 demo_entries [(''SBIE1.js'', demo_script)] []) ?w"
    using wizard_reach.message [of demo_groups 1 "[]" "[]" "[]" "([], [])"] by (simp only: demo_groups_def)
  ultimately show ?thesis
    by (intro wizard_runs_loaded [of demo_entries 22631 "[(''SBIE1.js'', demo_script)]" "[]" ?w demo_script]) simp_all
qed

text \<open>
  C19. Every issue that was loaded, is of the type "issue" and has a name can be started by the user: from
  the first page a sequence of steps leads to the run page with this issue.
\<close>

theorem wizard_reaches:
  assumes "(g, issues) \<in> set m" and "issue \<in> set issues"
    and "issue ''type'' = Some (QStr ''issue'')" and "q_text issue ''name'' \<noteq> []"
  shows "\<exists>w. wizard_reach m w \<and> w_current w = Page_Run \<and> CurrentIssue w = issue"
proof -
  let ?v = "begin_validate [] new_assistant"
  let ?w1 = "go_next (begin_nextId ?v) ?v"
  have w1: "wizard_reach m ?w1"
    by (rule wizard_reach.step [OF wizard_reach.start wizard_step.other]) (simp_all add: new_assistant_def w_current_def)
  have p1: "w_current ?w1 = Page_List" "CurrentIssue ?w1 = [''type'' \<mapsto> QStr ''list'', ''name'' \<mapsto> QStr []]"
    "w_history ?w1 = [Page_Begin, Page_List]"
    by (simp_all add: new_assistant_def begin_validate_def begin_nextId_def wizard_defs q_text_def q_at_def toString_def)
  have item: "issue \<in> set (list_items m id [] [] (CurrentIssue ?w1))"
    using assms by (force simp: p1(2) list_items_def GetIssues_def q_text_def q_at_def toString_def)
  let ?w2 = "go_next (item_nextId issue (item_validate issue ?w1)) (item_validate issue ?w1)"
  have "wizard_step m ?w1 ?w2"
    by (rule wizard_step.list_item [OF p1(1) disjI2 [OF refl] item refl])
  from wizard_reach.step [OF w1 this] have "wizard_reach m ?w2" .
  moreover have "q_text issue ''type'' = ''issue''" using assms(3) by (simp add: q_text_def q_at_def toString_def)
  then have "w_current ?w2 = Page_Run" "CurrentIssue ?w2 = issue"
    using p1(3) by (simp_all add: item_validate_def item_nextId_def wizard_defs)
  ultimately show ?thesis by blast
qed

theorem wizard_reaches_witness:
  "\<exists>w. wizard_reach demo_groups w \<and> w_current w = Page_Run \<and> q_text (CurrentIssue w) ''script'' = demo_script"
proof -
  let ?e = "[''id'' \<mapsto> QStr ''SBIE1'', ''type'' \<mapsto> QStr ''issue'', ''group'' \<mapsto> QStr ''x'', ''os_builds'' \<mapsto> QStr ''22000-99000'',
      ''name'' \<mapsto> QStr ''N'', ''script'' \<mapsto> QStr demo_script]"
  have "\<exists>w. wizard_reach demo_groups w \<and> w_current w = Page_Run \<and> CurrentIssue w = ?e"
    by (rule wizard_reaches [of "''x''" "snd (hd demo_groups)"])
      (simp_all add: demo_groups_eq q_text_def q_at_def toString_def)
  moreover have "q_text ?e ''script'' = demo_script" by (simp add: q_text_def q_at_def toString_def)
  ultimately show ?thesis by metis
qed

text \<open>
  C17. In the shipped folder every message has its handler, on every Windows build and whatever
  the bodies of the scripts are: for the ten codes with a script of their own the wizard starts on the run page with
  that script, for all others with SBIEMSG.js, and passes on the code, the message data without the first item and the
  box.
\<close>

theorem TryFix_shipped:
  "let m = LoadIssues OsBuild layout_entries (ListDir (troubleshooting_dir body)) old;
       w = TryFix m MsgCode MsgData ProcessName BoxName msg_link new_assistant
   in w_current w = Page_Run
      \<and> StartEngine w = Some (GetScript (troubleshooting_dir body) (msg_script MsgCode), msg_script MsgCode, m_Params w)
      \<and> m_Params w ''msgCode'' = Some (PInt (MsgCode AND 0xFFFF))
      \<and> m_Params w ''msgData'' = Some (PList (drop 1 MsgData))
      \<and> m_Params w ''boxName'' = Some (PStr BoxName)"
proof -
  obtain e where e: "tryfix_issue (LoadIssues OsBuild layout_entries (ListDir (troubleshooting_dir body)) old) (msg_name MsgCode) = Some e"
    "handler body (msg_script MsgCode) e" using tryfix_shipped by blast
  then show ?thesis
    by (simp add: Let_def TryFix_def handler_def wizard_defs StartEngine_def new_assistant_def q_text_def q_at_def toString_def)
qed

text \<open>
  Going back from the run page leaves the issue on the stack, so that the page behind it takes the
  wrong one away: back at the first page, the next button opens the group chosen before and not the
  list of all issues.
\<close>

lemma stale_category:
  fixes grp issue m
  defines "grp \<equiv> [''group'' \<mapsto> QStr ''root'', ''id'' \<mapsto> QStr ''ui'', ''type'' \<mapsto> QStr ''group'']"
    and "issue \<equiv> [''group'' \<mapsto> QStr ''ui'', ''id'' \<mapsto> QStr ''shell'', ''type'' \<mapsto> QStr ''issue'', ''name'' \<mapsto> QStr ''n'']"
  defines "m \<equiv> [(''root'', [grp]), (''ui'', [issue])]"
  shows "\<exists>w. wizard_reach m w \<and> w_history w = [Page_Begin] \<and> m_IssueStack w = [grp]
    \<and> begin_nextId (begin_validate another w) = Page_Group"
proof -
  let ?v = "begin_validate another (PushIssue grp new_assistant)"
  let ?w1 = "go_next (begin_nextId ?v) ?v"
  have items: "grp \<in> set (begin_items m)" "issue \<in> set (page_items m another grp)"
    by (simp_all add: begin_items_def page_items_def GetIssues_def grp_value_def m_def q_text_def q_at_def toString_def)
      (simp_all add: grp_def issue_def)
  have w1: "wizard_reach m ?w1"
    by (rule wizard_reach.step [OF wizard_reach.start wizard_step.category]) (use items in \<open>simp_all add: new_assistant_def w_current_def\<close>)
  have n1: "m_IssueStack ?w1 = [grp]" "w_history ?w1 = [Page_Begin, Page_Group]" "w_root ?w1 Page_Group = grp"
    by (simp_all add: new_assistant_def begin_validate_def begin_nextId_def wizard_defs q_text_def q_at_def toString_def grp_def)
  let ?x = "item_validate issue ?w1"
  let ?w2 = "go_next (item_nextId issue ?x) ?x"
  have "wizard_step m ?w1 ?w2"
    by (rule wizard_step.group_item [where n = 0 and issue = issue and another = another])
      (use items(2) n1 in \<open>simp_all add: w_current_def\<close>)
  then have w2: "wizard_reach m ?w2" by (rule wizard_reach.step [OF w1])
  have n2: "m_IssueStack ?w2 = [grp, issue]" "w_history ?w2 = [Page_Begin, Page_Group, Page_Run]"
    using n1 by (simp_all add: item_validate_def item_nextId_def wizard_defs q_text_def q_at_def toString_def issue_def)
  have "wizard_reach m (go_back (go_back ?w2))"
    by (intro wizard_reach.step [OF wizard_reach.step [OF w2 wizard_step.step_back] wizard_step.step_back])
  moreover have "w_history (go_back (go_back ?w2)) = [Page_Begin]" "m_IssueStack (go_back (go_back ?w2)) = [grp]"
    using n2 by (simp_all add: go_back_def PopIssue_def Let_def)
  ultimately show ?thesis
    by (intro exI [of _ "go_back (go_back ?w2)"])
      (simp add: begin_validate_def begin_nextId_def CurrentIssue_def q_text_def q_at_def toString_def grp_def)
qed

end
