(* ===== verification/PathTree.thy ===== *)
theory PathTree
  imports NetFw
begin

text \<open>
  The tree of deleted and renamed paths, \<^verbatim>\<open>core/dll/file_del.c\<close>, as files and registry keys
  (\<^verbatim>\<open>core/dll/key_del.c\<close>) use it: a node per path segment with the flags "deleted" and "relocated",
  lookups that combine the flags along a path, deletion and renaming of branches, and the text file
  in the box root through which the processes of a box share the tree.

  \<^verbatim>\<open>Dll_Alloc\<close> does not return without memory.  A \<^verbatim>\<open>LIST\<close> of nodes is the list from head to tail; nodes that
  are freed are gone from it.
\<close>

section \<open>Nodes and paths\<close>

definition FILE_DELETED_FLAG :: u32 where "FILE_DELETED_FLAG = 0x1"
definition FILE_RELOCATION_FLAG :: u32 where "FILE_RELOCATION_FLAG = 0x2"
definition FILE_PATH_DELETED_FLAG :: u32 where "FILE_PATH_DELETED_FLAG = 0x10000"
definition FILE_PATH_RELOCATED_FLAG :: u32 where "FILE_PATH_RELOCATED_FLAG = 0x20000"
definition FILE_CHILDREN_DELETED_FLAG :: u32 where "FILE_CHILDREN_DELETED_FLAG = 0x40000"
definition FILE_DELETED_MASK :: u32 where "FILE_DELETED_MASK = FILE_DELETED_FLAG OR FILE_PATH_DELETED_FLAG"
definition FILE_RELOCATED_MASK :: u32 where "FILE_RELOCATED_MASK = FILE_RELOCATION_FLAG OR FILE_PATH_RELOCATED_FLAG"

definition FILE_IS_DELETED :: "u32 \<Rightarrow> bool" where "FILE_IS_DELETED x \<longleftrightarrow> x AND FILE_DELETED_FLAG \<noteq> 0"
definition FILE_PATH_DELETED :: "u32 \<Rightarrow> bool" where "FILE_PATH_DELETED x \<longleftrightarrow> x AND FILE_DELETED_MASK \<noteq> 0"
definition FILE_PATH_RELOCATED :: "u32 \<Rightarrow> bool" where "FILE_PATH_RELOCATED x \<longleftrightarrow> x AND FILE_RELOCATED_MASK \<noteq> 0"

text \<open>\<^verbatim>\<open>struct _PATH_NODE\<close>.\<close>

datatype path_node =
  PATH_NODE (pn_name: wstring) (pn_flags: u32) (pn_reloc: "wstring option") (pn_items: "path_node list")

text \<open>
  The loop over a path that all functions share: each segment with the rest of the path from its
  \<^verbatim>\<open>next\<close> pointer, which is empty at the last segment.  Empty segments are skipped.
\<close>

function path_segs :: "wstring \<Rightarrow> (wstring \<times> wstring) list" where
  "path_segs ptr =
     (if ptr = [] then []
      else
        let seg = takeWhile (\<lambda>c. c \<noteq> BS) ptr; nxt = dropWhile (\<lambda>c. c \<noteq> BS) ptr
        in if seg = [] then path_segs (drop 1 nxt)
           else (seg, nxt) # (if nxt = [] then [] else path_segs (drop 1 nxt)))"
  by pat_completeness auto
termination
proof (relation "measure length", goal_cases)
  case (2 ptr seg nxt)
  then show ?case by (cases ptr) (auto split: if_splits)
next
  case (3 ptr seg nxt)
  have "length (dropWhile (\<lambda>c. c \<noteq> BS) ptr) \<le> length ptr" by (rule length_dropWhile_le)
  then show ?case using 3 by (cases ptr) (auto simp: less_Suc_eq_le)
qed simp

text \<open>\<^verbatim>\<open>File_GetPathNode_internal\<close>: the first child with the name, added at the tail if \<^verbatim>\<open>can_add\<close>.\<close>

definition same_seg :: "wstring \<Rightarrow> wstring \<Rightarrow> bool" where
  "same_seg a name \<longleftrightarrow> length a = length name \<and> wcsnicmp_eq a name (length name)"

definition get_node :: "wstring \<Rightarrow> path_node list \<Rightarrow> path_node option" where
  "get_node name items = find (\<lambda>child. same_seg (pn_name child) name) items"

fun upd_child :: "wstring \<Rightarrow> (path_node \<Rightarrow> path_node) \<Rightarrow> path_node list \<Rightarrow> path_node list" where
  "upd_child name g [] = [g (PATH_NODE name 0 None [])]"
| "upd_child name g (child # items) =
     (if same_seg (pn_name child) name then g child # items else child # upd_child name g items)"

text \<open>
  \<^verbatim>\<open>File_FindPathBranche_internal\<close> without \<^verbatim>\<open>can_add\<close>, and the walk of the functions that add the missing nodes and
  change the last one.
\<close>

fun find_path :: "(wstring \<times> wstring) list \<Rightarrow> path_node list \<Rightarrow> path_node option" where
  "find_path [] items = None"
| "find_path ((seg, nxt) # rest) items =
     (case get_node seg items of
        None \<Rightarrow> None
      | Some node \<Rightarrow> if nxt = [] then Some node else find_path rest (pn_items node))"

fun set_path :: "(wstring \<times> wstring) list \<Rightarrow> (path_node \<Rightarrow> path_node) \<Rightarrow> path_node list \<Rightarrow> path_node list" where
  "set_path [] f items = items"
| "set_path ((seg, nxt) # rest) f items =
     upd_child seg (\<lambda>node. if nxt = [] then f node
        else PATH_NODE (pn_name node) (pn_flags node) (pn_reloc node) (set_path rest f (pn_items node))) items"

text \<open>\<^verbatim>\<open>List_Remove(Parent, Node)\<close> of the node that was found.\<close>

fun drop_child :: "wstring \<Rightarrow> path_node list \<Rightarrow> path_node list" where
  "drop_child name [] = []"
| "drop_child name (child # items) =
     (if same_seg (pn_name child) name then items else child # drop_child name items)"

fun remove_path :: "(wstring \<times> wstring) list \<Rightarrow> path_node list \<Rightarrow> path_node list" where
  "remove_path [] items = items"
| "remove_path ((seg, nxt) # rest) items =
     (case get_node seg items of
        None \<Rightarrow> items
      | Some node \<Rightarrow>
          if nxt = [] then drop_child seg items
          else upd_child seg (\<lambda>node. PATH_NODE (pn_name node) (pn_flags node) (pn_reloc node)
                 (remove_path rest (pn_items node))) items)"

section \<open>Flags of a path\<close>

definition set_flags :: "u32 \<Rightarrow> u32 \<Rightarrow> wstring option \<Rightarrow> path_node \<Rightarrow> path_node" where
  "set_flags setFlags clrFlags Relocation node =
     (let reloc1 = (if clrFlags AND FILE_RELOCATION_FLAG \<noteq> 0 \<or> setFlags AND FILE_RELOCATION_FLAG \<noteq> 0
                    then None else pn_reloc node);
          reloc2 = (if setFlags AND FILE_RELOCATION_FLAG \<noteq> 0 \<and> Relocation \<noteq> None \<and> Relocation \<noteq> Some []
                    then Relocation else reloc1)
      in PATH_NODE (pn_name node) ((pn_flags node OR setFlags) AND NOT clrFlags) reloc2 (pn_items node))"

definition File_SetPathFlags_internal ::
  "path_node list \<Rightarrow> wstring \<Rightarrow> u32 \<Rightarrow> u32 \<Rightarrow> wstring option \<Rightarrow> path_node list" where
  "File_SetPathFlags_internal Root Path setFlags clrFlags Relocation =
     set_path (path_segs Path) (set_flags setFlags clrFlags Relocation) Root"

text \<open>
  The loop of \<^verbatim>\<open>File_GetPathFlags_internal\<close> with \<^verbatim>\<open>Flags\<close> and the last relocation with its \<^verbatim>\<open>SubPath\<close>.  The test of
  the children compares with the flags collected so far.
\<close>

fun get_flags ::
  "(wstring \<times> wstring) list \<Rightarrow> path_node list \<Rightarrow> bool \<Rightarrow> u32 \<Rightarrow> wstring option \<times> wstring
     \<Rightarrow> u32 \<times> wstring option \<times> wstring" where
  "get_flags [] items CheckChildren Flags rel = (Flags, rel)"
| "get_flags ((seg, nxt) # rest) items CheckChildren Flags rel =
     (case get_node seg items of
        None \<Rightarrow> (Flags, rel)
      | Some node \<Rightarrow>
          let rel' = (if pn_flags node AND FILE_RELOCATION_FLAG \<noteq> 0 then (pn_reloc node, nxt) else rel)
          in if nxt = [] then
               (let Flags1 = (if pn_flags node AND FILE_RELOCATION_FLAG \<noteq> 0 then Flags OR FILE_RELOCATION_FLAG else Flags);
                    Flags2 = (if pn_flags node AND FILE_DELETED_FLAG \<noteq> 0 then Flags1 OR FILE_DELETED_FLAG else Flags1);
                    Flags3 = (if CheckChildren \<and> list_ex (\<lambda>child. pn_flags child AND Flags2 = Flags2) (pn_items node)
                              then Flags2 OR FILE_CHILDREN_DELETED_FLAG else Flags2)
                in (Flags3, rel'))
             else
               get_flags rest (pn_items node) CheckChildren
                 (if pn_flags node AND FILE_RELOCATION_FLAG \<noteq> 0 then FILE_PATH_RELOCATED_FLAG
                  else if pn_flags node AND FILE_DELETED_FLAG \<noteq> 0 then Flags OR FILE_PATH_DELETED_FLAG
                  else Flags) rel')"

definition File_GetPathFlags_internal :: "path_node list \<Rightarrow> wstring \<Rightarrow> bool \<Rightarrow> u32 \<times> wstring option" where
  "File_GetPathFlags_internal Root Path CheckChildren =
     (case get_flags (path_segs Path) Root CheckChildren 0 (None, []) of
        (Flags, Relocation, SubPath) \<Rightarrow> (Flags, map_option (\<lambda>r. r @ SubPath) Relocation))"

section \<open>Deleting and renaming\<close>

text \<open>\<^verbatim>\<open>File_MarkDeleted_internal\<close>: whether something changed, whether a branch was cut off, and the tree.\<close>

definition File_MarkDeleted_internal :: "path_node list \<Rightarrow> wstring \<Rightarrow> bool \<times> bool \<times> path_node list" where
  "File_MarkDeleted_internal Root Path =
     (case find_path (path_segs Path) Root of
        None \<Rightarrow> (True, False, File_SetPathFlags_internal Root Path FILE_DELETED_FLAG 0 None)
      | Some node \<Rightarrow>
          if pn_flags node = FILE_DELETED_FLAG \<and> pn_items node = [] then (False, False, Root)
          else (True, True, File_SetPathFlags_internal (remove_path (path_segs Path) Root) Path FILE_DELETED_FLAG 0 None))"

text \<open>
  \<^verbatim>\<open>File_SetRelocation_internal\<close>.  \<^const>\<open>None\<close> is a new path without a last segment (NULL is dereferenced), a new path inside
  the old one (its branch would be moved into itself), or the same node under another spelling with
  more than one child (the loop does not end).
\<close>

definition seg_names :: "wstring \<Rightarrow> wstring list" where
  "seg_names path = map (\<lambda>(seg, nxt). wcslwr seg) (path_segs path)"

definition complete_path :: "wstring \<Rightarrow> bool" where
  "complete_path path \<longleftrightarrow> path_segs path \<noteq> [] \<and> snd (last (path_segs path)) = []"

definition File_SetRelocation_internal :: "path_node list \<Rightarrow> wstring \<Rightarrow> wstring \<Rightarrow> path_node list option" where
  "File_SetRelocation_internal Root OldTruePath NewTruePath =
     (if wcsicmp_eq OldTruePath NewTruePath then Some Root
      else
        let old = path_segs OldTruePath; new = path_segs NewTruePath;
            Node = find_path old Root;
            relocated = (case Node of None \<Rightarrow> False | Some n \<Rightarrow> pn_flags n AND FILE_RELOCATION_FLAG \<noteq> 0);
            HasRelocation = (relocated \<and> (case Node of None \<Rightarrow> False | Some n \<Rightarrow> pn_reloc n \<noteq> None));
            Root1 = (if relocated then set_path old (\<lambda>n. PATH_NODE (pn_name n) (pn_flags n AND NOT FILE_RELOCATION_FLAG)
                       (pn_reloc n) (pn_items n)) Root else Root);
            Target = (if HasRelocation then the (pn_reloc (the Node)) else OldTruePath);
            Root2 = File_SetPathFlags_internal Root1 Target FILE_DELETED_FLAG 0 None;
            Root3 = set_path new id Root2;
            Target' = (if HasRelocation then Target
                       else case snd (File_GetPathFlags_internal Root3 Target True) of None \<Rightarrow> Target | Some t \<Rightarrow> t);
            Root4 = set_path new (\<lambda>n. PATH_NODE (pn_name n) (pn_flags n OR FILE_RELOCATION_FLAG) (Some Target') (pn_items n)) Root3;
            kids = (if Node = None then [] else case find_path old Root4 of None \<Rightarrow> [] | Some n \<Rightarrow> pn_items n);
            Root5 = (if Node = None then Root4
                     else set_path old (\<lambda>n. PATH_NODE (pn_name n) (pn_flags n) (pn_reloc n) []) Root4);
            Root6 = set_path new (\<lambda>n. PATH_NODE (pn_name n) (pn_flags n) (pn_reloc n) (pn_items n @ kids)) Root5;
            Root7 = (if HasRelocation then set_path old (\<lambda>n. PATH_NODE (pn_name n) (pn_flags n) None (pn_items n)) Root6
                     else Root6)
        in if \<not> complete_path NewTruePath then None
           else if Node \<noteq> None \<and> take (length old) (seg_names NewTruePath) = seg_names OldTruePath
                   \<and> (length old < length new \<or> 1 < length kids) then None
           else Some Root7)"

section \<open>The file\<close>

text \<open>\<^verbatim>\<open>_ultow(value, buffer, 16)\<close>.\<close>

fun ultow16 :: "nat \<Rightarrow> wstring" where
  "ultow16 n = (if n < 16 then [if n < 10 then char_of (48 + n) else char_of (87 + n)]
                else ultow16 (n div 16) @ [if n mod 16 < 10 then char_of (48 + n mod 16) else char_of (87 + n mod 16)])"

abbreviation PIPE :: wchar where "PIPE \<equiv> CHR 0x7C"
abbreviation PT_CR :: wchar where "PT_CR \<equiv> CHR 0x0D"
abbreviation PT_LF :: wchar where "PT_LF \<equiv> CHR 0x0A"

text \<open>\<^verbatim>\<open>TranslatePath\<close>: \<^const>\<open>None\<close> for no function or a NULL result, which leave the path as it is.\<close>

type_synonym translate = "wstring \<Rightarrow> wstring option"

definition translated :: "translate \<Rightarrow> wstring \<Rightarrow> wstring" where
  "translated tr path = (case tr path of None \<Rightarrow> path | Some p \<Rightarrow> p)"

definition File_AppendPathEntry_internal :: "translate \<Rightarrow> wstring \<Rightarrow> u32 \<Rightarrow> wstring option \<Rightarrow> wstring" where
  "File_AppendPathEntry_internal tr Path SetFlags Relocation =
     translated tr Path @ [PIPE] @ ultow16 (unat SetFlags)
     @ (case Relocation of None \<Rightarrow> [] | Some r \<Rightarrow> [PIPE] @ translated tr r) @ [PT_CR, PT_LF]"

text \<open>
  \<^verbatim>\<open>File_SavePathNode_internal\<close>; \<^verbatim>\<open>SetFlags\<close> stays reset for the siblings behind a relocated node.  The path is
  assumed to fit into the 0x8000 characters of its buffer.
\<close>

fun save_nodes :: "translate \<Rightarrow> wstring \<Rightarrow> u32 \<Rightarrow> path_node list \<Rightarrow> wstring" where
  "save_nodes tr path SetFlags [] = []"
| "save_nodes tr path SetFlags (PATH_NODE name flags reloc items # cs) =
     (let p = path @ [BS] @ name;
          SetFlags' = (if flags AND FILE_RELOCATION_FLAG \<noteq> 0 then 0 else SetFlags)
      in (if flags AND NOT SetFlags' \<noteq> 0 \<or> reloc \<noteq> None then File_AppendPathEntry_internal tr p flags reloc else [])
         @ save_nodes tr p (SetFlags' OR flags) items
         @ save_nodes tr path SetFlags' cs)"

definition File_SavePathTree_internal :: "translate \<Rightarrow> path_node list \<Rightarrow> wstring" where
  "File_SavePathTree_internal tr Root = save_nodes tr [] 0 Root"

text \<open>One line of the file, and the loop of \<^verbatim>\<open>File_LoadPathTree_internal\<close>.\<close>

definition load_line :: "translate \<Rightarrow> wstring \<Rightarrow> path_node list \<Rightarrow> path_node list" where
  "load_line tr line Root =
     (case wcschr line PIPE of
        None \<Rightarrow> Root
      | Some sep \<Rightarrow>
          let Path = take sep line; rest = drop (sep + 1) line;
              (v, k) = wcstoul rest 16;
              Relocation = (if deref (drop k rest) = PIPE then Some (drop (k + 1) rest) else None)
          in File_SetPathFlags_internal Root (translated tr Path) (word_of_int v) 0
               (map_option (translated tr) Relocation))"

function load_loop :: "translate \<Rightarrow> wstring \<Rightarrow> path_node list \<Rightarrow> path_node list" where
  "load_loop tr text Root =
     (if text = [] then Root
      else
        let line = takeWhile (\<lambda>c. c \<noteq> PT_LF) text;
            line' = (if line \<noteq> [] \<and> last line = PT_CR then butlast line else line)
        in load_loop tr (drop (length line + 1) text) (load_line tr line' Root))"
  by pat_completeness auto
termination by (relation "measure (\<lambda>(tr, text, Root). length text)") auto

definition File_LoadPathTree_internal :: "translate \<Rightarrow> wstring option \<Rightarrow> path_node list \<Rightarrow> bool \<times> path_node list" where
  "File_LoadPathTree_internal tr contents Root =
     (case contents of None \<Rightarrow> (False, Root) | Some text \<Rightarrow> (True, load_loop tr text []))"

section \<open>The registry keys of the processes of a box\<close>

text \<open>
  The file of a box with its attributes (size and date; the date tells every two writes apart), and
  the processes: each has its tree, the attributes it saw last, the version of its tree and its bit of
  \<^verbatim>\<open>File_BoxRootChangeBits\<close>, which every write sets.  A file that exists can be read; whether
  \<^verbatim>\<open>File_OpenDataFile\<close> opens it for writing is the argument \<open>opened\<close> of the operations.
\<close>

record key_proc =
  Key_PathRoot :: "path_node list"
  Key_PathsAttr :: "nat \<times> nat"
  Key_PathsVersion :: nat
  Key_ChangeBit :: bool

record key_box =
  kb_file :: "wstring option"
  kb_date :: nat
  kb_proc :: "nat \<Rightarrow> key_proc"

definition no_translate :: translate where "no_translate = (\<lambda>_. None)"

definition kb_attr :: "key_box \<Rightarrow> (nat \<times> nat) option" where
  "kb_attr b = map_option (\<lambda>text. (2 * length text, kb_date b)) (kb_file b)"

definition kb_upd :: "nat \<Rightarrow> (key_proc \<Rightarrow> key_proc) \<Rightarrow> key_box \<Rightarrow> key_box" where
  "kb_upd i f b = b\<lparr>kb_proc := (kb_proc b)(i := f (kb_proc b i))\<rparr>"

definition kb_write :: "wstring \<Rightarrow> key_box \<Rightarrow> key_box" where
  "kb_write text b = b\<lparr>kb_file := Some text, kb_date := kb_date b + 1,
     kb_proc := (\<lambda>i. (kb_proc b i)\<lparr>Key_ChangeBit := True\<rparr>)\<rparr>"

text \<open>\<^verbatim>\<open>File_GetAttributes_internal\<close> into the variables of the process: unchanged when there is no file.\<close>

definition see_attr :: "nat \<Rightarrow> key_box \<Rightarrow> key_box" where
  "see_attr i b = (case kb_attr b of None \<Rightarrow> b | Some a \<Rightarrow> kb_upd i (\<lambda>p. p\<lparr>Key_PathsAttr := a\<rparr>) b)"

text \<open>The attributes are read also when the file could not be opened and nothing was written.\<close>

definition Key_SavePathTree :: "bool \<Rightarrow> nat \<Rightarrow> key_box \<Rightarrow> key_box" where
  "Key_SavePathTree opened i b =
     see_attr i (if opened then kb_write (File_SavePathTree_internal no_translate (Key_PathRoot (kb_proc b i))) b else b)"

definition Key_LoadPathTree :: "nat \<Rightarrow> key_box \<Rightarrow> key_box" where
  "Key_LoadPathTree i b =
     (let tree = snd (File_LoadPathTree_internal no_translate (kb_file b) (Key_PathRoot (kb_proc b i)));
          b1 = (if kb_file b = None then kb_write [] b else b)
      in kb_upd i (\<lambda>p. p\<lparr>Key_PathRoot := tree, Key_PathsVersion := Key_PathsVersion p + 1\<rparr>) b1)"

definition Key_RefreshPathTree :: "nat \<Rightarrow> key_box \<Rightarrow> key_box" where
  "Key_RefreshPathTree i b =
     (if Key_ChangeBit (kb_proc b i) then
        let b1 = kb_upd i (\<lambda>p. p\<lparr>Key_ChangeBit := False\<rparr>) b
        in case kb_attr b1 of
             None \<Rightarrow> b1
           | Some a \<Rightarrow>
               if Key_PathsAttr (kb_proc b1 i) \<noteq> a
               then Key_LoadPathTree i (kb_upd i (\<lambda>p. p\<lparr>Key_PathsAttr := a\<rparr>) b1)
               else b1
      else b)"

text \<open>
  \<^verbatim>\<open>Key_InitDelete_v2\<close> is two steps: the tree is loaded under the mutex; the attributes are read and the
  watcher is started after the mutex is released, and another process may write between.  A watcher that is there
  already (\<open>watching\<close>, started for the files) keeps its bits, a new one has none set.
\<close>

definition Key_InitDelete_load :: "nat \<Rightarrow> key_box \<Rightarrow> key_box" where
  "Key_InitDelete_load i b =
     Key_LoadPathTree i (kb_upd i (\<lambda>p. \<lparr>Key_PathRoot = [], Key_PathsAttr = (0, 0), Key_PathsVersion = 0, Key_ChangeBit = False\<rparr>) b)"

definition Key_InitDelete_watch :: "bool \<Rightarrow> nat \<Rightarrow> key_box \<Rightarrow> key_box" where
  "Key_InitDelete_watch watching i b =
     kb_upd i (\<lambda>p. p\<lparr>Key_ChangeBit := watching \<and> Key_ChangeBit p\<rparr>) (see_attr i b)"

definition Key_InitDelete_v2 :: "bool \<Rightarrow> nat \<Rightarrow> key_box \<Rightarrow> key_box" where
  "Key_InitDelete_v2 watching i b = Key_InitDelete_watch watching i (Key_InitDelete_load i b)"

definition Key_GetPathFlags :: "nat \<Rightarrow> wstring \<Rightarrow> key_box \<Rightarrow> (u32 \<times> wstring option) \<times> key_box" where
  "Key_GetPathFlags i Path b =
     (let b1 = Key_RefreshPathTree i b
      in (File_GetPathFlags_internal (Key_PathRoot (kb_proc b1 i)) Path True, b1))"

definition key_full_path :: "wstring \<Rightarrow> wstring option \<Rightarrow> wstring" where
  "key_full_path TruePath ValueName = TruePath @ (case ValueName of None \<Rightarrow> [] | Some v \<Rightarrow> [BS, CHR ''$''] @ v)"

text \<open>
  \<^verbatim>\<open>Key_MarkDeletedEx_v2\<close>: a line is appended if nobody else wrote the file.  When it cannot be opened for that,
  the tree of the process stays changed, nothing is written and the attributes are not read.
\<close>

definition Key_MarkDeletedEx_v2 :: "bool \<Rightarrow> nat \<Rightarrow> wstring \<Rightarrow> wstring option \<Rightarrow> key_box \<Rightarrow> key_box" where
  "Key_MarkDeletedEx_v2 opened i TruePath ValueName b =
     (let FullPath = key_full_path TruePath ValueName
      in case File_MarkDeleted_internal (Key_PathRoot (kb_proc b i)) FullPath of
           (bSet, bTruncated, tree) \<Rightarrow>
             let b1 = kb_upd i (\<lambda>p. p\<lparr>Key_PathRoot := tree\<rparr>) b
             in if \<not> bSet then b1
                else if \<not> bTruncated \<and> kb_attr b1 = Some (Key_PathsAttr (kb_proc b1 i))
                then (if opened then see_attr i (kb_write (the (kb_file b1)
                        @ File_AppendPathEntry_internal no_translate FullPath FILE_DELETED_FLAG None) b1)
                      else b1)
                else Key_SavePathTree opened i b1)"

definition Key_IsDeleted_v2 :: "nat \<Rightarrow> wstring \<Rightarrow> key_box \<Rightarrow> u32 \<times> key_box" where
  "Key_IsDeleted_v2 i TruePath b =
     (case Key_GetPathFlags i TruePath b of ((Flags, _), b1) \<Rightarrow> (Flags AND FILE_DELETED_MASK, b1))"

definition Key_IsDeletedEx_v2 :: "nat \<Rightarrow> wstring \<Rightarrow> wstring option \<Rightarrow> bool \<Rightarrow> key_box \<Rightarrow> u32 \<times> key_box" where
  "Key_IsDeletedEx_v2 i TruePath ValueName IsValue b =
     Key_IsDeleted_v2 i (TruePath @ (case ValueName of None \<Rightarrow> []
        | Some v \<Rightarrow> (if IsValue then [BS, CHR ''$''] else [BS]) @ v)) b"

definition Key_HasDeleted_v2 :: "nat \<Rightarrow> wstring \<Rightarrow> key_box \<Rightarrow> bool \<times> key_box" where
  "Key_HasDeleted_v2 i TruePath b =
     (case Key_GetPathFlags i TruePath b of ((Flags, _), b1) \<Rightarrow> (Flags AND FILE_CHILDREN_DELETED_FLAG \<noteq> 0, b1))"

definition Key_GetRelocation :: "nat \<Rightarrow> wstring \<Rightarrow> key_box \<Rightarrow> wstring option \<times> key_box" where
  "Key_GetRelocation i TruePath b =
     (case Key_GetPathFlags i TruePath b of
        ((Flags, OldTruePath), b1) \<Rightarrow> (if FILE_PATH_RELOCATED Flags then OldTruePath else None, b1))"

definition Key_ResolveTruePath :: "nat \<Rightarrow> wstring \<Rightarrow> key_box \<Rightarrow> (wstring option \<times> u32) \<times> key_box" where
  "Key_ResolveTruePath i TruePath b =
     (case Key_GetPathFlags i TruePath b of ((Flags, OldTruePath), b1) \<Rightarrow> ((OldTruePath, Flags), b1))"

definition Key_SetRelocation :: "bool \<Rightarrow> nat \<Rightarrow> wstring \<Rightarrow> wstring \<Rightarrow> key_box \<Rightarrow> key_box option" where
  "Key_SetRelocation opened i OldTruePath NewTruePath b =
     map_option (\<lambda>tree. Key_SavePathTree opened i (kb_upd i (\<lambda>p. p\<lparr>Key_PathRoot := tree\<rparr>) b))
       (File_SetRelocation_internal (Key_PathRoot (kb_proc b i)) OldTruePath NewTruePath)"

end
