(* ===== verification/PathTreeLookup.thy ===== *)
theory PathTreeLookup
  imports PathTree
begin

text \<open>
  Lookups in the path tree (\<^verbatim>\<open>core/dll/file_del.c\<close>): what a tree says about a path, how updates along a path
  change that, and the meaning of the flags that \<^verbatim>\<open>File_GetPathFlags_internal\<close> returns.
\<close>

section \<open>What a tree says about a path\<close>

text \<open>
  A path is the list of its names in lower case.  The flags and the relocation of its node are all
  that lookups use; a path without a node has no flags.
\<close>

type_synonym path_info = "wstring list \<Rightarrow> u32 \<times> wstring option"

definition child_at :: "wstring \<Rightarrow> path_node list \<Rightarrow> path_node option" where
  "child_at k items = find (\<lambda>c. wcslwr (pn_name c) = k) items"

fun info :: "path_node list \<Rightarrow> path_info" where
  "info items [] = (0, None)"
| "info items (k # ks) =
     (case child_at k items of
        None \<Rightarrow> (0, None)
      | Some n \<Rightarrow> if ks = [] then (pn_flags n, pn_reloc n) else info (pn_items n) ks)"

definition node_info :: "path_node \<Rightarrow> path_info" where
  "node_info n ks = (if ks = [] then (pn_flags n, pn_reloc n) else info (pn_items n) ks)"

abbreviation names :: "(wstring \<times> wstring) list \<Rightarrow> wstring list" where
  "names rest \<equiv> map (\<lambda>(seg, nxt). wcslwr seg) rest"

text \<open>The text of a path from the root.\<close>

definition names_text :: "wstring list \<Rightarrow> wstring" where
  "names_text ns = concat (map (\<lambda>n. BS # n) ns)"

text \<open>The last segment, and only it, has nothing behind it.\<close>

fun proper :: "(wstring \<times> wstring) list \<Rightarrow> bool" where
  "proper [] = False"
| "proper ((seg, nxt) # rest) = (if rest = [] then nxt = [] else nxt \<noteq> [] \<and> proper rest)"

declare path_segs.simps [simp del]

lemma info_Nil [simp]: "info [] ks = (0, None)"
  by (cases ks) (simp_all add: child_at_def)

lemma info_Cons: "info items (k # ks) = (case child_at k items of None \<Rightarrow> (0, None) | Some n \<Rightarrow> node_info n ks)"
  by (simp add: node_info_def split: option.splits)

declare info.simps(2) [simp del]

lemma same_seg_iff: "same_seg a b \<longleftrightarrow> wcslwr a = wcslwr b"
  using wcsicmp_eq_length [of a b] by (auto simp: same_seg_def wcsnicmp_eq_def wcsicmp_eq_def)

lemma get_node_child: "get_node name items = child_at (wcslwr name) items"
  by (simp add: get_node_def child_at_def same_seg_iff)

lemma child_at_name: "child_at k items = Some n \<Longrightarrow> n \<in> set items \<and> wcslwr (pn_name n) = k"
  unfolding child_at_def by (induction items) (auto split: if_splits)

lemma path_segs_Nil [simp]: "path_segs [] = []"
  by (subst path_segs.simps) simp

lemma path_segs_props:
  "(\<forall>(seg, nxt) \<in> set (path_segs p). seg \<noteq> [] \<and> BS \<notin> set seg)
   \<and> (path_segs p \<noteq> [] \<longrightarrow> (snd (last (path_segs p)) = [] \<longrightarrow> proper (path_segs p)))
   \<and> (\<forall>(seg, nxt) \<in> set (butlast (path_segs p)). nxt \<noteq> [])"
proof (induction p rule: path_segs.induct)
  case (1 p)
  let ?seg = "takeWhile (\<lambda>c. c \<noteq> BS) p" and ?nxt = "dropWhile (\<lambda>c. c \<noteq> BS) p"
  have seg: "BS \<notin> set ?seg" by (metis set_takeWhileD)
  show ?case
  proof (cases "p = [] \<or> ?seg = []")
    case True
    then show ?thesis using 1(1) by (cases "p = []") (auto simp: path_segs.simps [of p] Let_def)
  next
    case False
    show ?thesis
    proof (cases "?nxt = []")
      case True
      then have "path_segs p = [(?seg, [])]" using False by (simp add: path_segs.simps [of p] Let_def)
      then show ?thesis using False seg by simp
    next
      case nxt: False
      then have eq: "path_segs p = (?seg, ?nxt) # path_segs (drop 1 ?nxt)"
        using False by (auto simp: path_segs.simps [of p] Let_def)
      show ?thesis unfolding eq using 1(2) [OF _ refl refl] False nxt seg by auto
    qed
  qed
qed

lemma complete_proper: "complete_path p \<longleftrightarrow> proper (path_segs p)"
proof -
  have "proper rest \<Longrightarrow> rest \<noteq> [] \<and> snd (last rest) = []" for rest
    by (induction rest rule: proper.induct) (auto split: if_splits)
  then show ?thesis using path_segs_props [of p] by (auto simp: complete_path_def)
qed

lemma seg_names_eq: "seg_names p = names (path_segs p)"
  by (simp add: seg_names_def)

lemma proper_names: "proper rest \<Longrightarrow> names rest \<noteq> []"
  by (cases rest) auto

text \<open>Updating along a path.\<close>

definition fresh :: "wstring \<Rightarrow> path_node" where
  "fresh name = PATH_NODE name 0 None []"

lemma child_at_upd:
  assumes "\<And>n. wcslwr (pn_name (g n)) = wcslwr (pn_name n)"
  shows "child_at k (upd_child name g items) =
    (if k = wcslwr name then Some (g (case child_at k items of None \<Rightarrow> fresh name | Some n \<Rightarrow> n)) else child_at k items)"
proof (induction items)
  case Nil
  show ?case using assms by (simp add: child_at_def fresh_def)
next
  case (Cons c items)
  then show ?case using assms by (auto simp: child_at_def same_seg_iff)
qed

lemma node_info_fresh [simp]: "node_info (fresh name) ks = (0, None)"
  by (simp add: node_info_def fresh_def)

fun node_of :: "(wstring \<times> wstring) list \<Rightarrow> path_node list \<Rightarrow> path_node" where
  "node_of [] items = fresh []"
| "node_of ((seg, nxt) # rest) items =
     (let n = (case child_at (wcslwr seg) items of None \<Rightarrow> fresh seg | Some n \<Rightarrow> n)
      in if rest = [] then n else node_of rest (pn_items n))"

lemma node_info_of: "proper rest \<Longrightarrow> node_info (node_of rest items) ks = info items (names rest @ ks)"
proof (induction rest arbitrary: items rule: proper.induct)
  case (2 seg nxt rest)
  show ?case
  proof (cases "rest = []")
    case True
    then show ?thesis by (simp add: info_Cons split: option.splits)
  next
    case False
    then have "names rest \<noteq> []" by auto
    then show ?thesis using 2 False by (auto simp: fresh_def info_Cons node_info_def split: option.splits)
  qed
qed simp

text \<open>The law of an update: below the path the new node counts, elsewhere nothing changes.\<close>

lemma info_set_path:
  assumes "proper rest" and "\<And>n. pn_name (f n) = pn_name n"
  shows "info (set_path rest f items) ks =
    (if take (length rest) ks = names rest then node_info (f (node_of rest items)) (drop (length rest) ks) else info items ks)"
  using assms(1)
proof (induction rest arbitrary: items ks rule: proper.induct)
  case (2 seg nxt rest)
  let ?g = "\<lambda>node. if nxt = [] then f node
      else PATH_NODE (pn_name node) (pn_flags node) (pn_reloc node) (set_path rest f (pn_items node))"
  have g: "wcslwr (pn_name (?g n)) = wcslwr (pn_name n)" for n using assms(2) by simp
  let ?n = "case child_at (wcslwr seg) items of None \<Rightarrow> fresh seg | Some n \<Rightarrow> n"
  show ?case
  proof (cases ks)
    case Nil
    then show ?thesis by simp
  next
    case (Cons k ks')
    show ?thesis
    proof (cases "k = wcslwr seg")
      case False
      then show ?thesis using Cons child_at_upd [OF g, of k seg items] by (auto simp: info_Cons)
    next
      case True
      then have at: "info (set_path ((seg, nxt) # rest) f items) ks = node_info (?g ?n) ks'"
        using Cons child_at_upd [OF g, of k seg items] by (simp add: info_Cons)
      show ?thesis
      proof (cases "rest = []")
        case True
        then show ?thesis using 2(2) Cons \<open>k = wcslwr seg\<close> at by (auto simp: Let_def)
      next
        case False
        then have nxt: "nxt \<noteq> []" and p: "proper rest" using 2(2) by auto
        have old: "info items ks = node_info ?n ks'"
          using Cons \<open>k = wcslwr seg\<close> by (auto simp: info_Cons split: option.splits)
        show ?thesis
        proof (cases "ks' = []")
          case True
          then show ?thesis using at old nxt False Cons by (auto simp: node_info_def)
        next
          case ks': False
          then have "node_info (?g ?n) ks' = info (set_path rest f (pn_items ?n)) ks'" using nxt by (simp add: node_info_def)
          then show ?thesis using at old 2(1) [OF False p, of "pn_items ?n" ks'] ks' Cons \<open>k = wcslwr seg\<close> False
            by (simp add: Let_def) (simp add: node_info_def)
        qed
      qed
    qed
  qed
qed simp

section \<open>Lookups\<close>

abbreviation is_del :: "u32 \<times> wstring option \<Rightarrow> bool" where
  "is_del i \<equiv> fst i AND FILE_DELETED_FLAG \<noteq> 0"

abbreviation is_rel :: "u32 \<times> wstring option \<Rightarrow> bool" where
  "is_rel i \<equiv> fst i AND FILE_RELOCATION_FLAG \<noteq> 0"

text \<open>The loop over what the tree says, without the test of the children.\<close>

fun pwalk :: "path_info \<Rightarrow> (wstring \<times> wstring) list \<Rightarrow> u32 \<Rightarrow> wstring option \<times> wstring \<Rightarrow> u32 \<times> wstring option \<times> wstring" where
  "pwalk I [] Flags rel = (Flags, rel)"
| "pwalk I ((seg, nxt) # rest) Flags rel =
     (let i = I [wcslwr seg]; rel' = (if is_rel i then (snd i, nxt) else rel)
      in if nxt = [] then
           (let Flags1 = (if is_rel i then Flags OR FILE_RELOCATION_FLAG else Flags)
            in (if is_del i then Flags1 OR FILE_DELETED_FLAG else Flags1, rel'))
         else pwalk (\<lambda>ks. I (wcslwr seg # ks)) rest
           (if is_rel i then FILE_PATH_RELOCATED_FLAG else if is_del i then Flags OR FILE_PATH_DELETED_FLAG else Flags) rel')"

lemma walk_zero: "\<forall>ks. I ks = (0, None) \<Longrightarrow> pwalk I rest Flags rel = (Flags, rel)"
  by (induction I rest Flags rel rule: pwalk.induct) (auto simp: Let_def)

lemma walk_cong: "(\<And>ks. ks \<noteq> [] \<Longrightarrow> I ks = J ks) \<Longrightarrow> pwalk I rest Flags rel = pwalk J rest Flags rel"
proof (induction rest arbitrary: I J Flags rel)
  case (Cons sn rest)
  obtain seg nxt where sn: "sn = (seg, nxt)" by (cases sn)
  have i: "I [wcslwr seg] = J [wcslwr seg]" using Cons.prems by simp
  have "pwalk (\<lambda>ks. I (wcslwr seg # ks)) rest F r = pwalk (\<lambda>ks. J (wcslwr seg # ks)) rest F r" for F r
    using Cons.prems by (intro Cons.IH) simp
  then show ?case by (simp add: sn i Let_def)
qed simp

lemma get_flags_walk: "get_flags rest items False Flags rel = pwalk (info items) rest Flags rel"
proof (induction rest items False Flags rel rule: get_flags.induct)
  case (2 seg nxt rest items Flags rel)
  show ?case
  proof (cases "child_at (wcslwr seg) items")
    case None
    then have "pwalk (\<lambda>ks. info items (wcslwr seg # ks)) rest Flags rel = (Flags, rel)"
      by (intro walk_zero) (simp add: info_Cons)
    then show ?thesis using None by (simp add: get_node_child info_Cons Let_def)
  next
    case (Some n)
    have i: "info items [wcslwr seg] = (pn_flags n, pn_reloc n)" using Some by (simp add: info_Cons node_info_def)
    have "pwalk (\<lambda>ks. info items (wcslwr seg # ks)) rest F r = pwalk (info (pn_items n)) rest F r" for F r
      using Some by (intro walk_cong) (simp add: info_Cons node_info_def)
    then show ?thesis using Some 2 by (simp add: get_node_child i Let_def)
  qed
qed simp

lemma get_flags_children:
  "snd (get_flags rest items c Flags rel) = snd (get_flags rest items False Flags rel)
   \<and> (fst (get_flags rest items c Flags rel) = fst (get_flags rest items False Flags rel)
      \<or> fst (get_flags rest items c Flags rel) = fst (get_flags rest items False Flags rel) OR FILE_CHILDREN_DELETED_FLAG)"
  by (induction rest items c Flags rel rule: get_flags.induct) (auto simp: Let_def split: option.splits)

lemmas flag_defs = FILE_DELETED_FLAG_def FILE_RELOCATION_FLAG_def FILE_PATH_DELETED_FLAG_def FILE_PATH_RELOCATED_FLAG_def
  FILE_CHILDREN_DELETED_FLAG_def FILE_DELETED_MASK_def FILE_RELOCATED_MASK_def

lemma and_or_zero: "(x OR y) AND m = 0 \<longleftrightarrow> x AND m = 0 \<and> y AND m = (0 :: u32)"
  by (auto simp: bit_eq_iff bit_simps)

lemma masks:
  "FILE_CHILDREN_DELETED_FLAG AND FILE_DELETED_MASK = 0" "FILE_CHILDREN_DELETED_FLAG AND FILE_RELOCATED_MASK = 0"
  "FILE_RELOCATION_FLAG AND FILE_DELETED_MASK = 0" "FILE_DELETED_FLAG AND FILE_DELETED_MASK \<noteq> 0"
  "FILE_PATH_DELETED_FLAG AND FILE_DELETED_MASK \<noteq> 0" "FILE_PATH_RELOCATED_FLAG AND FILE_DELETED_MASK = 0"
  "FILE_RELOCATION_FLAG AND FILE_RELOCATED_MASK \<noteq> 0" "FILE_DELETED_FLAG AND FILE_RELOCATED_MASK = 0"
  "FILE_PATH_DELETED_FLAG AND FILE_RELOCATED_MASK = 0" "FILE_PATH_RELOCATED_FLAG AND FILE_RELOCATED_MASK \<noteq> 0"
  "FILE_DELETED_FLAG AND FILE_RELOCATION_FLAG = 0" "FILE_RELOCATION_FLAG AND FILE_DELETED_FLAG = 0"
  "FILE_DELETED_FLAG AND FILE_DELETED_FLAG \<noteq> 0" "FILE_RELOCATION_FLAG AND FILE_RELOCATION_FLAG \<noteq> 0"
  by (simp_all add: flag_defs)

text \<open>
  The answers of a lookup: deleted, relocated, and where to.  The flag of deleted children, which only
  \<^verbatim>\<open>Key_HasDeleted_v2\<close> reads, is not one of them: it is not kept by saving and loading.
\<close>

definition answer :: "u32 \<times> wstring option \<Rightarrow> bool \<times> bool \<times> wstring option" where
  "answer r = (FILE_PATH_DELETED (fst r), FILE_PATH_RELOCATED (fst r), snd r)"

definition walk_answer :: "path_info \<Rightarrow> wstring \<Rightarrow> bool \<times> bool \<times> wstring option" where
  "walk_answer I path = (case pwalk I (path_segs path) 0 (None, []) of
     (Flags, Relocation, SubPath) \<Rightarrow> answer (Flags, map_option (\<lambda>r. r @ SubPath) Relocation))"

lemma lookup_walk: "answer (File_GetPathFlags_internal T path c) = walk_answer (info T) path"
proof -
  obtain F R S where w: "get_flags (path_segs path) T False 0 (None, []) = (F, R, S)" by (metis prod_cases3)
  obtain F' where "get_flags (path_segs path) T c 0 (None, []) = (F', R, S)" "F' = F \<or> F' = F OR FILE_CHILDREN_DELETED_FLAG"
    using get_flags_children [of "path_segs path" T c 0 "(None, [])"] w by (metis fst_conv prod.collapse snd_conv)
  then show ?thesis
    using w by (auto simp: File_GetPathFlags_internal_def walk_answer_def get_flags_walk answer_def FILE_PATH_DELETED_def
        FILE_PATH_RELOCATED_def and_or_zero masks)
qed

text \<open>
  The meaning of the flags along a path: deleted is a path with the flag itself, or below a node with
  the flag that is not relocated, with no relocation in between.  The relocation of the last segment
  does not count.
\<close>

definition path_deleted :: "path_info \<Rightarrow> wstring list \<Rightarrow> bool" where
  "path_deleted I ks \<longleftrightarrow> is_del (I ks)
     \<or> (\<exists>i. 0 < i \<and> i < length ks \<and> is_del (I (take i ks)) \<and> (\<forall>j. i \<le> j \<and> j < length ks \<longrightarrow> \<not> is_rel (I (take j ks))))"

definition path_relocated :: "path_info \<Rightarrow> wstring list \<Rightarrow> bool" where
  "path_relocated I ks \<longleftrightarrow> (\<exists>i. 0 < i \<and> i \<le> length ks \<and> is_rel (I (take i ks)))"

lemma walk_deleted:
  assumes "proper rest"
  shows "fst (pwalk I rest Flags rel) AND FILE_DELETED_MASK \<noteq> 0 \<longleftrightarrow>
    path_deleted I (names rest) \<or> (Flags AND FILE_DELETED_MASK \<noteq> 0 \<and> (\<forall>j. 0 < j \<and> j < length rest \<longrightarrow> \<not> is_rel (I (take j (names rest)))))"
  using assms
proof (induction I rest Flags rel rule: pwalk.induct)
  case (2 I seg nxt rest Flags rel)
  show ?case
  proof (cases "rest = []")
    case True
    then show ?thesis using 2(2) by (auto simp: Let_def path_deleted_def and_or_zero masks)
  next
    case False
    let ?k = "wcslwr seg" and ?ks = "names rest"
    let ?F = "if is_rel (I [?k]) then FILE_PATH_RELOCATED_FLAG else if is_del (I [?k]) then Flags OR FILE_PATH_DELETED_FLAG else Flags"
    let ?J = "\<lambda>ks. I (?k # ks)"
    have nxt: "nxt \<noteq> []" "proper rest" using 2(2) False by auto
    have IH: "fst (pwalk I ((seg, nxt) # rest) Flags rel) AND FILE_DELETED_MASK \<noteq> 0 \<longleftrightarrow>
        path_deleted ?J ?ks \<or> (?F AND FILE_DELETED_MASK \<noteq> 0 \<and> (\<forall>j. 0 < j \<and> j < length rest \<longrightarrow> \<not> is_rel (?J (take j ?ks))))"
      using 2(1) [OF refl refl nxt(1) nxt(2)] nxt by (simp add: Let_def)
    let ?N = "\<forall>j. 0 < j \<and> j < length rest \<longrightarrow> \<not> is_rel (?J (take j ?ks))"
    have F: "?F AND FILE_DELETED_MASK \<noteq> 0 \<longleftrightarrow> \<not> is_rel (I [?k]) \<and> (is_del (I [?k]) \<or> Flags AND FILE_DELETED_MASK \<noteq> 0)"
      by (auto simp: and_or_zero masks)
    have len: "0 < length rest" using False by simp
    have N: "(\<forall>j. 0 < j \<and> j < length ((seg, nxt) # rest) \<longrightarrow> \<not> is_rel (I (take j (?k # ?ks)))) \<longleftrightarrow> \<not> is_rel (I [?k]) \<and> ?N"
    proof -
      have "(\<forall>j. 0 < j \<and> j < Suc (length rest) \<longrightarrow> P j) \<longleftrightarrow> P 1 \<and> (\<forall>j. 0 < j \<and> j < length rest \<longrightarrow> P (Suc j))" for P
        using len by (auto simp: less_Suc_eq_0_disj gr0_conv_Suc)
      from this [of "\<lambda>j. \<not> is_rel (I (take j (?k # ?ks)))"] show ?thesis by simp
    qed
    have D: "path_deleted I (?k # ?ks) \<longleftrightarrow> path_deleted ?J ?ks \<or> (is_del (I [?k]) \<and> \<not> is_rel (I [?k]) \<and> ?N)"
    proof -
      have ex: "(\<exists>i. 0 < i \<and> i < Suc n \<and> P i) \<longleftrightarrow> (0 < n \<and> P 1) \<or> (\<exists>i. 0 < i \<and> i < n \<and> P (Suc i))" for P n
        by (metis One_nat_def Suc_less_eq gr0_implies_Suc not_gr_zero zero_less_Suc)
      have al: "(\<forall>j. Suc i \<le> j \<and> j < Suc n \<longrightarrow> P j) \<longleftrightarrow> (\<forall>j. i \<le> j \<and> j < n \<longrightarrow> P (Suc j))" for P and i n :: nat
        by (metis Suc_le_D Suc_le_mono Suc_less_eq)
      show ?thesis
        unfolding path_deleted_def length_Cons ex al using len N
        by (auto simp: Suc_le_eq all_conj_distrib)
    qed
    show ?thesis unfolding IH F using D N by auto
  qed
qed simp

lemma path_relocated_Cons [code]:
  "path_relocated I (k # ks) \<longleftrightarrow> is_rel (I [k]) \<or> path_relocated (\<lambda>ks. I (k # ks)) ks"
proof -
  have "(\<exists>i. 0 < i \<and> i \<le> Suc n \<and> P i) \<longleftrightarrow> P 1 \<or> (\<exists>i. 0 < i \<and> i \<le> n \<and> P (Suc i))" for P and n :: nat
  proof (intro iffI; elim disjE exE conjE)
    fix i assume "0 < i" "i \<le> Suc n" "P i"
    then show "P 1 \<or> (\<exists>i. 0 < i \<and> i \<le> n \<and> P (Suc i))" by (cases i; cases "i = 1") auto
  qed auto
  then show ?thesis by (simp add: path_relocated_def)
qed

lemma path_relocated_Nil [simp, code]: "path_relocated I [] = False"
  by (simp add: path_relocated_def)

lemma walk_relocated:
  "proper rest \<Longrightarrow> fst (pwalk I rest Flags rel) AND FILE_RELOCATED_MASK \<noteq> 0 \<longleftrightarrow>
    path_relocated I (names rest) \<or> Flags AND FILE_RELOCATED_MASK \<noteq> 0"
proof (induction rest arbitrary: I Flags rel rule: proper.induct)
  case (2 seg nxt rest)
  show ?case
  proof (cases "rest = []")
    case True
    then show ?thesis using 2(2) by (simp add: Let_def path_relocated_Cons and_or_zero masks)
  next
    case False
    then have "nxt \<noteq> []" "proper rest" using 2(2) by auto
    then show ?thesis using 2(1) [OF False] by (simp add: Let_def path_relocated_Cons and_or_zero masks)
  qed
qed simp

text \<open>The last segment with a relocation.\<close>

fun last_relocation :: "path_info \<Rightarrow> wstring list \<Rightarrow> nat option" where
  "last_relocation I [] = None"
| "last_relocation I (k # ks) =
     (case last_relocation (\<lambda>ks. I (k # ks)) ks of
        Some i \<Rightarrow> Some (Suc i)
      | None \<Rightarrow> if is_rel (I [k]) then Some 0 else None)"

lemma last_relocation_spec:
  "(case last_relocation I ks of
      None \<Rightarrow> \<forall>j < length ks. \<not> is_rel (I (take (Suc j) ks))
    | Some i \<Rightarrow> i < length ks \<and> is_rel (I (take (Suc i) ks)) \<and> (\<forall>j. i < j \<and> j < length ks \<longrightarrow> \<not> is_rel (I (take (Suc j) ks))))"
proof (induction I ks rule: last_relocation.induct)
  case (2 I k ks)
  have less: "j < Suc n \<longleftrightarrow> j = 0 \<or> (\<exists>j'. j = Suc j' \<and> j' < n)" for j n by (cases j) auto
  show ?case
  proof (cases "last_relocation (\<lambda>ks. I (k # ks)) ks")
    case None
    then show ?thesis using 2 by (auto simp: less)
  next
    case (Some i)
    then show ?thesis using 2 by (auto simp: less)
  qed
qed simp

lemma walk_target:
  "proper rest \<Longrightarrow> snd (pwalk I rest Flags rel) =
    (case last_relocation I (names rest) of
       None \<Rightarrow> rel
     | Some i \<Rightarrow> (snd (I (take (Suc i) (names rest))), snd (rest ! i)))"
proof (induction rest arbitrary: I Flags rel rule: proper.induct)
  case (2 seg nxt rest)
  show ?case
  proof (cases "rest = []")
    case True
    then show ?thesis using 2 by (auto simp: Let_def)
  next
    case False
    then show ?thesis using 2 by (auto simp: Let_def split: option.splits)
  qed
qed simp

lemma walk_answer_spec:
  assumes "complete_path path"
  shows "walk_answer I path =
    (path_deleted I (seg_names path), path_relocated I (seg_names path),
     Option.bind (last_relocation I (seg_names path))
       (\<lambda>i. map_option (\<lambda>r. r @ snd (path_segs path ! i)) (snd (I (take (Suc i) (seg_names path))))))"
proof -
  have p: "proper (path_segs path)" using assms by (simp add: complete_proper)
  obtain F R S where w: "pwalk I (path_segs path) 0 (None, []) = (F, R, S)" by (metis prod_cases3)
  show ?thesis
    using walk_deleted [OF p, of I 0 "(None, [])"] walk_relocated [OF p, of I 0 "(None, [])"]
      walk_target [OF p, of I 0 "(None, [])"] w
    by (auto simp: walk_answer_def answer_def FILE_PATH_DELETED_def FILE_PATH_RELOCATED_def seg_names_eq split: option.splits)
qed

lemma flag_nonzero: "FILE_DELETED_FLAG \<noteq> 0" "FILE_RELOCATION_FLAG \<noteq> 0"
  by (simp_all add: flag_defs)

lemma deleted_below:
  assumes "is_del (I p)" and "\<And>r. r \<noteq> [] \<Longrightarrow> \<not> is_rel (I (p @ r))" and "\<not> is_rel (I p)" and "p \<noteq> []"
  shows "path_deleted I (p @ r)"
proof (cases "r = []")
  case True
  then show ?thesis using assms(1) by (simp add: path_deleted_def)
next
  case False
  have "\<not> is_rel (I (take j (p @ r)))" if "length p \<le> j" for j
    using that assms(2) [of "take (j - length p) r"] assms(3) by (cases "take (j - length p) r = []") auto
  then show ?thesis using assms(1,4) False unfolding path_deleted_def
    by (intro disjI2 exI [of _ "length p"]) auto
qed

lemma deleted_relocated:
  assumes "is_rel (I p)" and "r \<noteq> []"
  shows "path_deleted I (p @ r) \<longleftrightarrow> path_deleted (\<lambda>ks. I (p @ ks)) r"
proof
  assume "path_deleted I (p @ r)"
  then consider "is_del (I (p @ r))"
    | i where "0 < i" "i < length (p @ r)" "is_del (I (take i (p @ r)))" "\<forall>j. i \<le> j \<and> j < length (p @ r) \<longrightarrow> \<not> is_rel (I (take j (p @ r)))"
    unfolding path_deleted_def by blast
  then show "path_deleted (\<lambda>ks. I (p @ ks)) r"
  proof cases
    case 2
    then have "length p < i" using assms by (metis append_eq_conv_conj length_append length_greater_0_conv less_add_same_cancel1 not_le)
    moreover have "\<not> is_rel (I (p @ take j r))" if "i - length p \<le> j" "j < length r" for j
      using 2(4) [rule_format, of "length p + j"] that by auto
    ultimately show ?thesis using 2 unfolding path_deleted_def by (intro disjI2 exI [of _ "i - length p"]) auto
  qed (simp add: path_deleted_def)
next
  assume "path_deleted (\<lambda>ks. I (p @ ks)) r"
  then consider "is_del (I (p @ r))"
    | i where "0 < i" "i < length r" "is_del (I (p @ take i r))" "\<forall>j. i \<le> j \<and> j < length r \<longrightarrow> \<not> is_rel (I (p @ take j r))"
    unfolding path_deleted_def by blast
  then show "path_deleted I (p @ r)"
  proof cases
    case 2
    have "\<not> is_rel (I (take j (p @ r)))" if "length p + i \<le> j" "j < length (p @ r)" for j
      using 2(4) [rule_format, of "j - length p"] that by (simp add: le_diff_conv2 less_diff_conv2)
    then show ?thesis using 2 unfolding path_deleted_def by (intro disjI2 exI [of _ "length p + i"]) auto
  qed (simp add: path_deleted_def)
qed

lemma last_relocation_at:
  assumes "is_rel (I p)" and "p \<noteq> []" and "\<not> path_relocated (\<lambda>ks. I (p @ ks)) r"
  shows "last_relocation I (p @ r) = Some (length p - 1)"
proof -
  have no: "\<not> is_rel (I (take (Suc j) (p @ r)))" if "length p - 1 < j" "j < length (p @ r)" for j
  proof -
    have "take (Suc j) (p @ r) = p @ take (Suc j - length p) r" "0 < Suc j - length p" "Suc j - length p \<le> length r"
      using that assms(2) by (auto simp: Suc_le_eq)
    then show ?thesis using assms(3) unfolding path_relocated_def by metis
  qed
  have at: "length p - 1 < length (p @ r)" "is_rel (I (take (Suc (length p - 1)) (p @ r)))"
    using assms(1,2) by (cases p; simp)+
  show ?thesis
  proof (cases "last_relocation I (p @ r)")
    case None
    then have "\<forall>j < length (p @ r). \<not> is_rel (I (take (Suc j) (p @ r)))"
      using last_relocation_spec [where I = I and ks = "p @ r"] by (simp only: option.case)
    then show ?thesis using at by blast
  next
    case (Some i)
    then have "i < length (p @ r)" "is_rel (I (take (Suc i) (p @ r)))"
        "\<forall>j. i < j \<and> j < length (p @ r) \<longrightarrow> \<not> is_rel (I (take (Suc j) (p @ r)))"
      using last_relocation_spec [where I = I and ks = "p @ r"] by simp_all
    then show ?thesis using no at Some by (metis linorder_neqE_nat)
  qed
qed

lemma not_under_take:
  assumes "take (length p) ks \<noteq> p"
  shows "take i ks \<noteq> p \<and> take (length p) (take i ks) \<noteq> p"
proof -
  have ne: "take i ks \<noteq> p" for i
  proof
    assume i: "take i ks = p"
    have "take (length (take i ks)) ks = take i ks" by (simp add: min_def)
    then show False using assms unfolding i by blast
  qed
  then show ?thesis using ne [of "min (length p) i"] by simp
qed

text \<open>Lookups use what the tree says about the path and its ancestors only.\<close>

lemma answer_cong:
  assumes "complete_path path" and "\<And>i. 0 < i \<Longrightarrow> i \<le> length (seg_names path) \<Longrightarrow> I (take i (seg_names path)) = J (take i (seg_names path))"
  shows "walk_answer I path = walk_answer J path"
proof -
  have r: "last_relocation I ks = last_relocation J ks" if "\<And>i. 0 < i \<Longrightarrow> i \<le> length ks \<Longrightarrow> I (take i ks) = J (take i ks)" for I J ks
    using that
  proof (induction ks arbitrary: I J)
    case (Cons k ks)
    have "last_relocation (\<lambda>ks. I (k # ks)) ks = last_relocation (\<lambda>ks. J (k # ks)) ks"
      using Cons.prems [of "Suc i" for i] by (intro Cons.IH) simp
    then show ?case using Cons.prems [of 1] by simp
  qed simp
  have ne: "seg_names path \<noteq> []" using assms(1) by (auto simp: complete_path_def seg_names_def)
  have d: "path_deleted I (seg_names path) = path_deleted J (seg_names path)"
    using assms(2) [of "length (seg_names path)"] assms(2) ne by (auto simp: path_deleted_def)
  have r': "last_relocation I (seg_names path) = last_relocation J (seg_names path)" using assms(2) by (rule r)
  have t: "i < length (seg_names path) \<Longrightarrow> I (take (Suc i) (seg_names path)) = J (take (Suc i) (seg_names path))" for i
    using assms(2) [of "Suc i"] by simp
  have "last_relocation J (seg_names path) = Some i \<Longrightarrow> i < length (seg_names path)" for i
    using last_relocation_spec [where I = J and ks = "seg_names path"] by simp
  then show ?thesis
    unfolding walk_answer_spec [OF assms(1)] using d r' assms(2) t
    by (cases "last_relocation J (seg_names path)") (auto simp: path_relocated_def)
qed

text \<open>
  C22. What the loop of a lookup computes, in terms of the flags along the path: a path with a last
  segment is deleted if its own node has the flag, or if a node strictly above it has the flag and no node
  from there on, still strictly above the path, is relocated.  A relocation at the last segment itself does not
  reset the deletion of an ancestor, against the comment in the loop ("if we encounter a relocation, previous deletions
  on the path will be reset"): the code returns at the last segment before it.  The path is relocated if a node
  on it, the last one included, is, and the target is that of the last such node with the rest of the path.
\<close>

theorem path_lookup_meaning:
  assumes "complete_path path"
  shows "answer (File_GetPathFlags_internal T path c) =
    (path_deleted (info T) (seg_names path), path_relocated (info T) (seg_names path),
     Option.bind (last_relocation (info T) (seg_names path))
       (\<lambda>i. map_option (\<lambda>r. r @ snd (path_segs path ! i)) (snd (info T (take (Suc i) (seg_names path))))))"
  unfolding lookup_walk by (rule walk_answer_spec [OF assms])

definition demo_tree :: "path_node list" where
  "demo_tree = [PATH_NODE ''A'' FILE_DELETED_FLAG None [PATH_NODE ''B'' FILE_RELOCATION_FLAG (Some [BS, CHR ''x'']) []], PATH_NODE ''c'' 0 None []]"

theorem path_lookup_meaning_witness:
  "answer (File_GetPathFlags_internal demo_tree (BS # ''a'') True) =
    (path_deleted (info demo_tree) (seg_names (BS # ''a'')), path_relocated (info demo_tree) (seg_names (BS # ''a'')),
     Option.bind (last_relocation (info demo_tree) (seg_names (BS # ''a'')))
       (\<lambda>i. map_option (\<lambda>r. r @ snd (path_segs (BS # ''a'') ! i))
         (snd (info demo_tree (take (Suc i) (seg_names (BS # ''a'')))))))"
  by (rule path_lookup_meaning) code_simp

end
