(* ===== verification/PathTreeUpdate.thy ===== *)
theory PathTreeUpdate
  imports PathTreeLookup
begin

text \<open>
  Changes of the path tree (\<^verbatim>\<open>core/dll/file_del.c\<close>): the form of the tree, which marking as deleted and renaming
  keep, and what both do to the lookups of all paths.
\<close>

section \<open>Well-formed trees\<close>

text \<open>
  Siblings have different names, names are segments of paths, and a node has a relocation exactly
  when it has the flag; no other bits are set.
\<close>

definition node_fields_ok :: "wstring \<Rightarrow> u32 \<Rightarrow> wstring option \<Rightarrow> bool" where
  "node_fields_ok name flags reloc \<longleftrightarrow>
     name \<noteq> [] \<and> BS \<notin> set name \<and> flags \<in> {0, 1, 2, 3} \<and> (reloc \<noteq> None \<longleftrightarrow> flags AND FILE_RELOCATION_FLAG \<noteq> 0)
     \<and> reloc \<noteq> Some []"

text \<open>A condition on the fields of every node, with different names of siblings.\<close>

type_synonym node_cond = "wstring \<Rightarrow> u32 \<Rightarrow> wstring option \<Rightarrow> bool"

fun node_all :: "node_cond \<Rightarrow> path_node \<Rightarrow> bool" where
  "node_all F (PATH_NODE name flags reloc items) \<longleftrightarrow>
     F name flags reloc \<and> distinct (map (\<lambda>n. wcslwr (pn_name n)) items) \<and> (\<forall>n \<in> set items. node_all F n)"

definition tree_all :: "node_cond \<Rightarrow> path_node list \<Rightarrow> bool" where
  "tree_all F items \<longleftrightarrow> distinct (map (\<lambda>n. wcslwr (pn_name n)) items) \<and> (\<forall>n \<in> set items. node_all F n)"

lemma node_all_iff: "node_all F n \<longleftrightarrow> F (pn_name n) (pn_flags n) (pn_reloc n) \<and> tree_all F (pn_items n)"
  by (cases n) (auto simp: tree_all_def)

lemma tree_all_Nil [simp]: "tree_all F []"
  by (simp add: tree_all_def)

lemma tree_all_Cons:
  "tree_all F (n # items) \<longleftrightarrow> wcslwr (pn_name n) \<notin> (\<lambda>n. wcslwr (pn_name n)) ` set items \<and> node_all F n \<and> tree_all F items"
  by (auto simp: tree_all_def)

lemma tree_all_child: "tree_all F items \<Longrightarrow> child_at k items = Some n \<Longrightarrow> node_all F n"
  by (auto simp: tree_all_def dest: child_at_name)

lemma upd_child_names:
  assumes "\<And>n. wcslwr (pn_name (g n)) = wcslwr (pn_name n)"
  shows "(\<lambda>n. wcslwr (pn_name n)) ` set (upd_child name g items) = insert (wcslwr name) ((\<lambda>n. wcslwr (pn_name n)) ` set items)"
  using assms by (induction items) (auto simp: same_seg_iff)

lemma upd_child_ok:
  assumes "\<And>n. wcslwr (pn_name (g n)) = wcslwr (pn_name n)" and "tree_all F items"
    and "node_all F (g (case child_at (wcslwr name) items of None \<Rightarrow> fresh name | Some n \<Rightarrow> n))"
  shows "tree_all F (upd_child name g items)"
  using assms(2,3)
proof (induction items)
  case Nil
  then show ?case by (simp add: tree_all_def child_at_def fresh_def)
next
  case (Cons c items)
  then show ?case
    using assms(1) upd_child_names [OF assms(1), of name items]
    by (auto simp: tree_all_Cons same_seg_iff child_at_def split: if_splits)
qed

lemma fresh_ok: "F seg 0 None \<Longrightarrow> node_all F (fresh seg)"
  by (simp add: fresh_def)

lemma node_of_name: "proper rest \<Longrightarrow> \<forall>(seg, nxt) \<in> set rest. F seg 0 None \<Longrightarrow> tree_all F items
  \<Longrightarrow> node_all F (node_of rest items) "
proof (induction rest arbitrary: items rule: proper.induct)
  case (2 seg nxt rest)
  let ?n = "case child_at (wcslwr seg) items of None \<Rightarrow> fresh seg | Some n \<Rightarrow> n"
  have n: "node_all F ?n" using 2(3,4) tree_all_child [of F items] fresh_ok [of F seg] by (auto split: option.splits)
  show ?case
  proof (cases "rest = []")
    case True
    then show ?thesis using n by (simp add: Let_def)
  next
    case False
    then show ?thesis using 2 n by (auto simp: Let_def node_all_iff)
  qed
qed simp

lemma set_path_ok:
  assumes "proper rest" and "\<forall>(seg, nxt) \<in> set rest. F seg 0 None" and "tree_all F items"
    and "\<And>n. pn_name (f n) = pn_name n" and "node_all F (f (node_of rest items))"
  shows "tree_all F (set_path rest f items)"
  using assms(1-3,5)
proof (induction rest arbitrary: items rule: proper.induct)
  case (2 seg nxt rest)
  let ?n = "case child_at (wcslwr seg) items of None \<Rightarrow> fresh seg | Some n \<Rightarrow> n"
  have n: "node_all F ?n" using 2(3,4) tree_all_child [of F items] fresh_ok [of F seg] by (auto split: option.splits)
  show ?case
  proof (cases "rest = []")
    case True
    then show ?thesis using 2 assms(4) by (auto simp: Let_def intro!: upd_child_ok)
  next
    case False
    then have "nxt \<noteq> []" "proper rest" using 2(2) by auto
    moreover have "tree_all F (set_path rest f (pn_items ?n))"
      using 2 n False by (auto simp: Let_def node_all_iff)
    ultimately show ?thesis using 2(4) n by (auto simp: node_all_iff intro!: upd_child_ok)
  qed
qed simp

text \<open>Removing a branch.\<close>

lemma child_at_drop:
  "tree_all F items \<Longrightarrow> child_at k (drop_child name items) = (if k = wcslwr name then None else child_at k items)"
proof (induction items)
  case (Cons c items)
  have none: "child_at (wcslwr (pn_name c)) items = None"
    using Cons.prems child_at_name [of "wcslwr (pn_name c)" items]
    by (cases "child_at (wcslwr (pn_name c)) items") (auto simp: tree_all_Cons rev_image_eqI)
  show ?case
  proof (cases "wcslwr (pn_name c) = wcslwr name")
    case True
    then show ?thesis using none by (auto simp: same_seg_iff) (auto simp: child_at_def)
  next
    case False
    then show ?thesis using Cons by (auto simp: same_seg_iff tree_all_Cons) (auto simp: child_at_def)
  qed
qed (simp add: child_at_def)

lemma drop_child_ok: "tree_all F items \<Longrightarrow> tree_all F (drop_child name items) \<and> set (drop_child name items) \<subseteq> set items"
  by (induction items) (auto simp: tree_all_Cons)

lemma info_remove_path:
  assumes "proper rest" and "tree_all F items"
  shows "info (remove_path rest items) ks = (if take (length rest) ks = names rest then (0, None) else info items ks)"
  using assms
proof (induction rest arbitrary: items ks rule: proper.induct)
  case (2 seg nxt rest)
  show ?case
  proof (cases ks)
    case Nil
    then show ?thesis by simp
  next
    case (Cons k ks')
    show ?thesis
    proof (cases "child_at (wcslwr seg) items")
      case None
      then show ?thesis using Cons by (auto simp: get_node_child info_Cons)
    next
      case (Some n)
      let ?g = "\<lambda>node. PATH_NODE (pn_name node) (pn_flags node) (pn_reloc node) (remove_path rest (pn_items node))"
      have n: "tree_all F (pn_items n)" using tree_all_child [OF 2(3) Some] by (simp add: node_all_iff)
      show ?thesis
      proof (cases "rest = []")
        case True
        then show ?thesis using 2 Some Cons by (auto simp: get_node_child info_Cons child_at_drop)
      next
        case False
        then have nxt: "nxt \<noteq> []" "proper rest" using 2(2) by auto
        have up: "child_at k (upd_child seg ?g items) = (if k = wcslwr seg then Some (?g n) else child_at k items)" for k
          using child_at_upd [of ?g k seg items] Some by auto
        have "names rest \<noteq> []" using False by auto
        then have IH: "ks' \<noteq> [] \<Longrightarrow> info (remove_path rest (pn_items n)) ks' =
            (if take (length rest) ks' = names rest then (0, None) else info (pn_items n) ks')"
          "take (length rest) [] \<noteq> names rest"
          using 2(1) [OF False nxt(2) n, of ks'] by auto
        then show ?thesis using Some Cons nxt up
          by (cases "ks' = []") (auto simp: get_node_child info_Cons node_info_def)
      qed
    qed
  qed
qed simp

lemma remove_path_ok:
  assumes "proper rest" and "tree_all F items"
  shows "tree_all F (remove_path rest items)"
  using assms
proof (induction rest arbitrary: items rule: proper.induct)
  case (2 seg nxt rest)
  show ?case
  proof (cases "child_at (wcslwr seg) items")
    case None
    then show ?thesis using 2 by (simp add: get_node_child)
  next
    case (Some n)
    have n: "node_all F n" using tree_all_child [OF 2(3) Some] .
    show ?thesis
    proof (cases "nxt = []")
      case True
      then show ?thesis using 2 Some drop_child_ok by (simp add: get_node_child)
    next
      case False
      then have "rest \<noteq> []" "proper rest" using 2(2) by (auto split: if_splits)
      then show ?thesis using 2 Some n False by (auto simp: get_node_child node_all_iff intro!: upd_child_ok)
    qed
  qed
qed simp

section \<open>Marking as deleted\<close>

lemma node_info_set_flags:
  "node_info (set_flags setFlags clrFlags Relocation n) ks =
    (if ks = [] then (pn_flags (set_flags setFlags clrFlags Relocation n), pn_reloc (set_flags setFlags clrFlags Relocation n))
     else node_info n ks)"
  by (simp add: node_info_def set_flags_def Let_def)

lemma set_flags_name [simp]: "pn_name (set_flags setFlags clrFlags Relocation n) = pn_name n"
  by (simp add: set_flags_def Let_def)

lemma find_path_node: "proper rest \<Longrightarrow> find_path rest items = Some n \<Longrightarrow> node_of rest items = n"
  by (induction rest arbitrary: items rule: proper.induct)
    (auto simp: get_node_child Let_def split: option.splits if_splits)

lemma find_path_none: "proper rest \<Longrightarrow> find_path rest items = None \<Longrightarrow> take (length rest) ks = names rest \<Longrightarrow> info items ks = (0, None)"
proof (induction rest arbitrary: items ks rule: proper.induct)
  case (2 seg nxt rest)
  then obtain ks' where ks: "ks = wcslwr seg # ks'" "take (length rest) ks' = names rest" by (cases ks) auto
  show ?case
  proof (cases "child_at (wcslwr seg) items")
    case None
    then show ?thesis by (simp add: ks info_Cons)
  next
    case (Some n)
    then have "rest \<noteq> []" "nxt \<noteq> []" "proper rest" "find_path rest (pn_items n) = None"
      using 2 by (auto simp: get_node_child split: if_splits)
    then show ?thesis using 2(1) [of "pn_items n" ks'] ks Some by (auto simp: info_Cons node_info_def)
  qed
qed simp

lemma under_iff: "proper rest \<Longrightarrow> take (length rest) ks = names rest \<longleftrightarrow> (\<exists>r. ks = names rest @ r)"
  by (metis append_eq_conv_conj append_take_drop_id length_map)

text \<open>Conditions that the marking of a path keeps.\<close>

locale marking =
  fixes F :: node_cond
  assumes fields_ok: "F name flags reloc \<Longrightarrow> node_fields_ok name flags reloc"
    and fields_mark: "F name 0 None \<Longrightarrow> F name FILE_DELETED_FLAG None"
begin

lemma info_mark:
  assumes "tree_all F T" and "\<forall>(seg, nxt) \<in> set (path_segs P). F seg 0 None" and "complete_path P" and "File_MarkDeleted_internal T P = (changed, trunc, T')"
  shows "info T' ks = (if ks = seg_names P then (FILE_DELETED_FLAG, None)
     else if take (length (seg_names P)) ks = seg_names P then (0, None) else info T ks)"
    and "tree_all F T'"
proof -
  let ?s = "path_segs P"
  have p: "proper ?s" using assms(3) by (simp add: complete_proper)
  let ?f = "set_flags FILE_DELETED_FLAG 0 None"
  have set: "info (set_path ?s ?f R) ks = (if ks = seg_names P then (FILE_DELETED_FLAG, None)
      else if take (length (seg_names P)) ks = seg_names P then (0, None) else info T ks)
    \<and> tree_all F (set_path ?s ?f R)"
    if R: "\<And>ks. info R ks = (if take (length ?s) ks = names ?s then (0, None) else info T ks)" "tree_all F R" for R
  proof -
    have z: "node_info (node_of ?s R) r = (0, None)" for r
      using node_info_of [OF p, of R r] R(1) by simp
    then have z0: "pn_flags (node_of ?s R) = 0" "pn_reloc (node_of ?s R) = None" using z [of "[]"] by (auto simp: node_info_def)
    have ok: "node_all F (node_of ?s R)" using node_of_name [OF p assms(2) R(2)] .
    then have "node_all F (?f (node_of ?s R))" using fields_mark by (simp add: node_all_iff set_flags_def Let_def z0)
    then have "tree_all F (set_path ?s ?f R)" by (intro set_path_ok p assms(2) R(2)) simp_all
    moreover have "info (set_path ?s ?f R) ks = (if ks = seg_names P then (FILE_DELETED_FLAG, None)
      else if take (length (seg_names P)) ks = seg_names P then (0, None) else info T ks)"
    proof -
      have f: "node_info (?f (node_of ?s R)) r = (if r = [] then (FILE_DELETED_FLAG, None) else (0, None))" for r
        by (simp add: node_info_set_flags z) (simp add: set_flags_def Let_def z0 masks)
      have "take (length ?s) ks = names ?s \<Longrightarrow> drop (length ?s) ks = [] \<longleftrightarrow> ks = names ?s"
        by (metis append_Nil2 append_take_drop_id drop_eq_Nil2 length_map order_refl)
      moreover have "ks = names ?s \<Longrightarrow> take (length ?s) ks = names ?s" by simp
      ultimately show ?thesis
        using info_set_path [OF p, of ?f R ks] R(1) [of ks] by (auto simp: seg_names_eq f)
    qed
    ultimately show ?thesis by blast
  qed
  have "info T' ks = (if ks = seg_names P then (FILE_DELETED_FLAG, None)
      else if take (length (seg_names P)) ks = seg_names P then (0, None) else info T ks) \<and> tree_all F T'"
  proof (cases "find_path ?s T")
    case None
    then show ?thesis using assms(4) set [of T] find_path_none [OF p None] assms(1)
      by (auto simp: File_MarkDeleted_internal_def File_SetPathFlags_internal_def)
  next
    case (Some n)
    show ?thesis
    proof (cases "pn_flags n = FILE_DELETED_FLAG \<and> pn_items n = []")
      case True
      have T: "T' = T" using assms(4) Some True by (simp add: File_MarkDeleted_internal_def)
      have n: "node_of ?s T = n" using find_path_node [OF p Some] .
      have "node_all F n" using node_of_name [OF p assms(2) assms(1)] n by simp
      then have "pn_reloc n = None" using True fields_ok [of "pn_name n" "pn_flags n" "pn_reloc n"]
        by (auto simp: node_all_iff node_fields_ok_def masks)
      then have i: "info T (names ?s @ r) = (if r = [] then (FILE_DELETED_FLAG, None) else (0, None))" for r
        using node_info_of [OF p, of T r] n True by (auto simp: node_info_def)
      show ?thesis
      proof (cases "take (length ?s) ks = names ?s")
        case True
        then obtain r where "ks = names ?s @ r" using under_iff [OF p] by blast
        then show ?thesis using T assms(1) i [of r] by (simp add: seg_names_eq)
      next
        case False
        then have "ks \<noteq> names ?s" by auto
        then show ?thesis using False T assms(1) by (simp add: seg_names_eq)
      qed
    next
      case False
      then show ?thesis using assms(1,4) Some set [of "remove_path ?s T"] info_remove_path [OF p assms(1)] remove_path_ok [OF p assms(1)]
        by (auto simp: File_MarkDeleted_internal_def File_SetPathFlags_internal_def)
    qed
  qed
  then show "info T' ks = (if ks = seg_names P then (FILE_DELETED_FLAG, None)
     else if take (length (seg_names P)) ks = seg_names P then (0, None) else info T ks)" "tree_all F T'" by blast+
qed
end

context marking
begin

lemma mark_answer_other:
  assumes "tree_all F T" "\<forall>(seg, nxt) \<in> set (path_segs P). F seg 0 None" "complete_path P" "File_MarkDeleted_internal T P = (changed, trunc, T')"
    and "complete_path Q" "take (length (seg_names P)) (seg_names Q) \<noteq> seg_names P"
  shows "walk_answer (info T') Q = walk_answer (info T) Q"
  using not_under_take [OF assms(6)] by (intro answer_cong [OF assms(5)]) (simp only: info_mark(1) [OF assms(1-4)] if_False)

lemma mark_answer_under:
  assumes "tree_all F T" "\<forall>(seg, nxt) \<in> set (path_segs P). F seg 0 None" "complete_path P" "File_MarkDeleted_internal T P = (changed, trunc, T')"
    and "complete_path Q" "take (length (seg_names P)) (seg_names Q) = seg_names P"
  shows "fst (walk_answer (info T') Q)"
proof -
  let ?p = "seg_names P"
  obtain r where q: "seg_names Q = ?p @ r" using assms(6) by (metis append_take_drop_id)
  have ne: "?p \<noteq> []" using assms(3) by (auto simp: complete_path_def seg_names_def)
  have "path_deleted (info T') (?p @ r)"
    by (rule deleted_below) (simp_all add: info_mark(1) [OF assms(1-4)] masks flag_nonzero ne)
  then show ?thesis by (simp add: walk_answer_spec [OF assms(5)] q)
qed

end

interpretation kept: marking node_fields_ok
  by unfold_locales (auto simp: node_fields_ok_def flag_defs)

abbreviation under :: "wstring \<Rightarrow> wstring \<Rightarrow> bool" where
  "under P Q \<equiv> take (length (seg_names P)) (seg_names Q) = seg_names P"

text \<open>
  C20. Marking a path as deleted deletes the path and everything below it, whatever was noted there,
  and keeps the answers for all other paths and the form of the tree.
\<close>

theorem mark_deleted:
  assumes "tree_all node_fields_ok T" and "complete_path P" and "File_MarkDeleted_internal T P = (changed, trunc, T')"
  shows "tree_all node_fields_ok T' \<and> (\<forall>Q. complete_path Q \<longrightarrow>
      (if under P Q then fst (answer (File_GetPathFlags_internal T' Q c))
       else answer (File_GetPathFlags_internal T' Q c) = answer (File_GetPathFlags_internal T Q c)))"
proof -
  have segs: "\<forall>(seg, nxt) \<in> set (path_segs P). node_fields_ok seg 0 None"
    using path_segs_props [of P] by (auto simp: node_fields_ok_def flag_defs)
  note m = assms(1) segs assms(2,3)
  show ?thesis
    using kept.info_mark(2) [OF m] kept.mark_answer_other [OF m] kept.mark_answer_under [OF m] by (simp add: lookup_walk)
qed

theorem mark_deleted_witness:
  "fst (answer (File_GetPathFlags_internal (snd (snd (File_MarkDeleted_internal demo_tree (names_text [''a'', ''B'']))))
     (names_text [''A'', ''b'', ''x'']) True))"
proof -
  let ?m = "File_MarkDeleted_internal demo_tree (names_text [''a'', ''B''])"
  have m: "?m = (fst ?m, fst (snd ?m), snd (snd ?m))" by simp
  have "tree_all node_fields_ok demo_tree" "complete_path (names_text [''a'', ''B''])"
    "complete_path (names_text [''A'', ''b'', ''x''])" "under (names_text [''a'', ''B'']) (names_text [''A'', ''b'', ''x''])"
    by code_simp+
  then show ?thesis using mark_deleted [OF _ _ m, of True] by auto
qed

text \<open>Setting the flags of a path changes what the tree says about this path only.\<close>

definition flags_set :: "u32 \<Rightarrow> u32 \<Rightarrow> wstring option \<Rightarrow> u32 \<times> wstring option \<Rightarrow> u32 \<times> wstring option" where
  "flags_set s c r i = (let n = set_flags s c r (PATH_NODE [] (fst i) (snd i) []) in (pn_flags n, pn_reloc n))"

lemma node_info_flags_set:
  "node_info (set_flags s c r n) q = (if q = [] then flags_set s c r (node_info n q) else node_info n q)"
  by (simp add: node_info_def flags_set_def set_flags_def Let_def)

lemma info_set_flags:
  assumes "complete_path P"
  shows "info (File_SetPathFlags_internal T P s c r) ks = (if ks = seg_names P then flags_set s c r (info T ks) else info T ks)"
proof -
  let ?s = "path_segs P" and ?f = "set_flags s c r"
  have p: "proper ?s" using assms by (simp add: complete_proper)
  show ?thesis
  proof (cases "take (length ?s) ks = names ?s")
    case True
    then obtain q where q: "ks = names ?s @ q" using under_iff [OF p] by blast
    have "info (set_path ?s ?f T) ks = node_info (?f (node_of ?s T)) q"
      using info_set_path [OF p, of ?f T ks] q by simp
    moreover have "node_info (node_of ?s T) q = info T ks" using node_info_of [OF p, of T q] q by simp
    ultimately show ?thesis unfolding node_info_flags_set File_SetPathFlags_internal_def seg_names_eq by (auto simp: q)
  next
    case False
    then have "ks \<noteq> names ?s" by auto
    then show ?thesis using info_set_path [OF p, of ?f T ks] False by (simp add: File_SetPathFlags_internal_def seg_names_eq)
  qed
qed

section \<open>Renaming\<close>

text \<open>Two paths of which neither is above the other.\<close>

definition apart :: "wstring list \<Rightarrow> wstring list \<Rightarrow> bool" where
  "apart ks ls \<longleftrightarrow> take (length ks) ls \<noteq> ks \<and> take (length ls) ks \<noteq> ls"

lemma apart_Cons: "apart (k # ks) (l # ls) \<longleftrightarrow> k \<noteq> l \<or> apart ks ls"
  by (auto simp: apart_def)

lemma apart_Nil [simp]: "\<not> apart [] ls" "\<not> apart ks []"
  by (auto simp: apart_def)

lemma apart_sym: "apart ks ls \<longleftrightarrow> apart ls ks"
  by (auto simp: apart_def)

lemma set_path_other:
  assumes "proper r" and "proper q" and "apart (names r) (names q)" and "\<And>n. pn_name (f n) = pn_name n"
  shows "node_of r (set_path q f T) = node_of r T \<and> find_path r (set_path q f T) = find_path r T"
  using assms(1-3)
proof (induction r arbitrary: q T rule: proper.induct)
  case (2 seg nxt r)
  obtain seg' nxt' q' where q: "q = (seg', nxt') # q'" using 2(3) by (cases q) auto
  let ?g = "\<lambda>node. if nxt' = [] then f node
      else PATH_NODE (pn_name node) (pn_flags node) (pn_reloc node) (set_path q' f (pn_items node))"
  have c: "child_at k (set_path q f T) =
      (if k = wcslwr seg' then Some (?g (case child_at k T of None \<Rightarrow> fresh seg' | Some n \<Rightarrow> n)) else child_at k T)" for k
    unfolding q set_path.simps by (rule child_at_upd) (use assms(4) in simp)
  show ?case
  proof (cases "wcslwr seg = wcslwr seg'")
    case False
    then show ?thesis using c by (simp add: Let_def get_node_child)
  next
    case True
    then have ap: "apart (names r) (names q')" using 2(4) by (simp add: q apart_Cons)
    then have ne: "r \<noteq> []" "q' \<noteq> []" by auto
    then have pr: "proper r" "proper q'" "nxt \<noteq> []" "nxt' \<noteq> []" using 2(2,3) by (auto simp: q)
    have IH: "node_of r (set_path q' f U) = node_of r U \<and> find_path r (set_path q' f U) = find_path r U" for U
      using 2(1) [OF ne(1) pr(1,2) ap] .
    have fr: "find_path r [] = None" by (cases r) (auto simp: get_node_child child_at_def)
    show ?thesis
    proof (cases "child_at (wcslwr seg) T")
      case None
      then show ?thesis using c [of "wcslwr seg"] IH [of "[]"] True ne pr fr
        by (simp add: Let_def get_node_child fresh_def)
    next
      case (Some n)
      then show ?thesis using c [of "wcslwr seg"] IH True ne pr by (simp add: Let_def get_node_child)
    qed
  qed
qed simp

lemma set_path_same:
  assumes "proper r" and "\<And>n. pn_name (f n) = pn_name n"
  shows "node_of r (set_path r f T) = f (node_of r T) \<and> find_path r (set_path r f T) = Some (f (node_of r T))"
  using assms(1)
proof (induction r arbitrary: T rule: proper.induct)
  case (2 seg nxt r)
  let ?g = "\<lambda>node. if nxt = [] then f node
      else PATH_NODE (pn_name node) (pn_flags node) (pn_reloc node) (set_path r f (pn_items node))"
  have c: "child_at (wcslwr seg) (set_path ((seg, nxt) # r) f T) =
      Some (?g (case child_at (wcslwr seg) T of None \<Rightarrow> fresh seg | Some n \<Rightarrow> n))"
    unfolding set_path.simps by (subst child_at_upd) (use assms(2) in simp_all)
  show ?case
  proof (cases "r = []")
    case True
    then show ?thesis using 2(2) c by (simp add: Let_def get_node_child)
  next
    case False
    then have "proper r" "nxt \<noteq> []" using 2(2) by auto
    then show ?thesis using 2(1) [OF False] c False by (simp add: Let_def get_node_child)
  qed
qed simp

lemma node_of_missing: "proper r \<Longrightarrow> find_path r T = None \<Longrightarrow> pn_items (node_of r T) = [] \<and> pn_flags (node_of r T) = 0 \<and> pn_reloc (node_of r T) = None"
proof (induction r arbitrary: T rule: proper.induct)
  case (2 seg nxt r)
  have fr: "r \<noteq> [] \<Longrightarrow> find_path r [] = None" by (cases r) (auto simp: get_node_child child_at_def)
  show ?case
  proof (cases "child_at (wcslwr seg) T")
    case None
    then show ?thesis using 2 fr by (cases "r = []") (auto simp: Let_def fresh_def)
  next
    case (Some n)
    then have "nxt \<noteq> []" using 2(3) by (auto simp: get_node_child)
    then have "r \<noteq> []" "proper r" using 2(2) by (auto split: if_splits)
    then show ?thesis using 2 Some \<open>nxt \<noteq> []\<close> by (simp add: Let_def get_node_child)
  qed
qed simp

lemma node_all_of:
  assumes "complete_path P" and "tree_all node_fields_ok T"
  shows "node_all node_fields_ok (node_of (path_segs P) T)"
proof -
  have "\<forall>(seg, nxt) \<in> set (path_segs P). node_fields_ok seg 0 None"
    using path_segs_props [of P] by (auto simp: node_fields_ok_def flag_defs)
  then show ?thesis using node_of_name assms complete_proper by blast
qed

lemma set_node_ok:
  assumes "complete_path P" and "tree_all node_fields_ok T" and "\<And>n. pn_name (f n) = pn_name n"
    and "node_all node_fields_ok (f (node_of (path_segs P) T))"
  shows "tree_all node_fields_ok (set_path (path_segs P) f T)"
proof -
  have "\<forall>(seg, nxt) \<in> set (path_segs P). node_fields_ok seg 0 None"
    using path_segs_props [of P] by (auto simp: node_fields_ok_def flag_defs)
  then show ?thesis using set_path_ok assms complete_proper by blast
qed

definition renamed :: "path_node list \<Rightarrow> wstring \<Rightarrow> wstring \<Rightarrow> path_info" where
  "renamed T Old New ks =
     (let old = seg_names Old; new = seg_names New
      in if ks = old then (fst (info T old) OR FILE_DELETED_FLAG, snd (info T old))
         else if take (length old) ks = old then (0, None)
         else if ks = new then (FILE_RELOCATION_FLAG, Some Old)
         else if take (length new) ks = new then info T (old @ drop (length new) ks)
         else info T ks)"

text \<open>
  The trees of \<^verbatim>\<open>File_SetRelocation_internal\<close> when the old path was not renamed before: with the flags set at both
  ends, and with the children moved.
\<close>

definition add_flag :: "wstring \<Rightarrow> path_node \<Rightarrow> path_node" where
  "add_flag Old n = PATH_NODE (pn_name n) (pn_flags n OR FILE_RELOCATION_FLAG) (Some Old) (pn_items n)"

definition with_items :: "path_node list \<Rightarrow> path_node \<Rightarrow> path_node" where
  "with_items items n = PATH_NODE (pn_name n) (pn_flags n) (pn_reloc n) items"

definition linked :: "path_node list \<Rightarrow> wstring \<Rightarrow> wstring \<Rightarrow> path_node list" where
  "linked T Old New = set_path (path_segs New) (add_flag Old)
     (set_path (path_segs New) id (File_SetPathFlags_internal T Old FILE_DELETED_FLAG 0 None))"

definition cut_off :: "path_node list \<Rightarrow> wstring \<Rightarrow> wstring \<Rightarrow> path_node list" where
  "cut_off T Old New = (if find_path (path_segs Old) T = None then linked T Old New
     else set_path (path_segs Old) (with_items []) (linked T Old New))"

definition moved :: "path_node list \<Rightarrow> wstring \<Rightarrow> wstring \<Rightarrow> path_node list" where
  "moved T Old New = set_path (path_segs New)
     (\<lambda>n. with_items (pn_items n @ pn_items (node_of (path_segs Old) T)) n) (cut_off T Old New)"

lemma rename_names [simp]: "pn_name (add_flag Old n) = pn_name n" "pn_name (with_items items n) = pn_name n"
  by (simp_all add: add_flag_def with_items_def)

abbreviation marked :: "path_node \<Rightarrow> path_node" where
  "marked \<equiv> set_flags FILE_DELETED_FLAG 0 None"

lemma marked_eq: "marked n = PATH_NODE (pn_name n) (pn_flags n OR FILE_DELETED_FLAG) (pn_reloc n) (pn_items n)"
  by (simp add: set_flags_def Let_def masks)

definition can_rename :: "path_node list \<Rightarrow> wstring \<Rightarrow> wstring \<Rightarrow> bool" where
  "can_rename T Old New \<longleftrightarrow> tree_all node_fields_ok T \<and> complete_path Old \<and> complete_path New
     \<and> apart (seg_names Old) (seg_names New) \<and> \<not> path_relocated (info T) (seg_names Old) \<and> find_path (path_segs New) T = None"

lemma can_renameD:
  assumes "can_rename T Old New"
  shows "proper (path_segs Old)" "proper (path_segs New)" "apart (names (path_segs Old)) (names (path_segs New))"
    "apart (names (path_segs New)) (names (path_segs Old))"
    "pn_items (node_of (path_segs New) T) = []" "pn_flags (node_of (path_segs New) T) = 0" "pn_reloc (node_of (path_segs New) T) = None"
  using assms apart_sym node_of_missing [of "path_segs New" T] by (auto simp: can_rename_def complete_proper seg_names_eq)

lemma linked_nodes:
  assumes "can_rename T Old New"
  shows "node_of (path_segs Old) (linked T Old New) = marked (node_of (path_segs Old) T)"
    and "find_path (path_segs Old) (linked T Old New) = Some (marked (node_of (path_segs Old) T))"
    and "node_of (path_segs New) (linked T Old New) = add_flag Old (node_of (path_segs New) T)"
  using can_renameD(1-4) [OF assms] by (simp_all add: linked_def File_SetPathFlags_internal_def set_path_other set_path_same)

lemma cut_off_nodes:
  assumes "can_rename T Old New"
  shows "node_of (path_segs Old) (cut_off T Old New) = with_items [] (marked (node_of (path_segs Old) T))"
    and "node_of (path_segs New) (cut_off T Old New) = add_flag Old (node_of (path_segs New) T)"
  using can_renameD(1-4) [OF assms] linked_nodes [OF assms] node_of_missing [of "path_segs Old" T]
  by (auto simp: cut_off_def set_path_other set_path_same marked_eq with_items_def)

lemma moved_nodes:
  assumes "can_rename T Old New"
  shows "node_of (path_segs Old) (moved T Old New) = with_items [] (marked (node_of (path_segs Old) T))"
    and "node_of (path_segs New) (moved T Old New) =
      PATH_NODE (pn_name (node_of (path_segs New) T)) FILE_RELOCATION_FLAG (Some Old) (pn_items (node_of (path_segs Old) T))"
  using can_renameD [OF assms] cut_off_nodes [OF assms]
  by (simp_all add: moved_def set_path_other set_path_same add_flag_def) (simp add: with_items_def)

lemma moved_out:
  assumes "can_rename T Old New" and "take (length (path_segs Old)) ks \<noteq> names (path_segs Old)"
    and "take (length (path_segs New)) ks \<noteq> names (path_segs New)"
  shows "info (moved T Old New) ks = info T ks"
  using assms(2,3) can_renameD(1,2) [OF assms(1)]
  by (simp add: moved_def cut_off_def linked_def File_SetPathFlags_internal_def info_set_path)

lemma moved_info:
  assumes "can_rename T Old New"
  shows "info (moved T Old New) ks = renamed T Old New ks"
proof -
  let ?o = "path_segs Old" and ?n = "path_segs New" and ?M = "moved T Old New"
  note po = can_renameD(1) [OF assms] and pn = can_renameD(2) [OF assms]
  note nodes = moved_nodes [OF assms]
  consider r where "ks = names ?o @ r" | r where "ks = names ?n @ r" "take (length ?o) ks \<noteq> names ?o"
    | "take (length ?o) ks \<noteq> names ?o" "take (length ?n) ks \<noteq> names ?n"
    using under_iff [OF po] under_iff [OF pn] by metis
  then show ?thesis
  proof cases
    case (1 r)
    have "info T (names ?o) = node_info (node_of ?o T) []" using node_info_of [OF po, of T "[]"] by simp
    moreover have "info ?M ks = node_info (node_of ?o ?M) r" using node_info_of [OF po, of ?M r] 1 by simp
    ultimately show ?thesis
      by (cases "r = []") (auto simp: nodes 1 renamed_def seg_names_eq node_info_def Let_def marked_eq with_items_def)
  next
    case (2 r)
    have "info ?M ks = node_info (node_of ?n ?M) r" using node_info_of [OF pn, of ?M r] 2 by simp
    moreover have "info T (names ?o @ r) = node_info (node_of ?o T) r" using node_info_of [OF po, of T r] by simp
    moreover have "ks \<noteq> names ?o" using 2(2) by auto
    ultimately show ?thesis using 2 by (cases "r = []") (auto simp: nodes renamed_def seg_names_eq node_info_def Let_def)
  next
    case 3
    then have "ks \<noteq> names ?o" "ks \<noteq> names ?n" by auto
    then show ?thesis using moved_out [OF assms 3] 3 by (simp add: renamed_def seg_names_eq Let_def)
  qed
qed

lemma moved_ok:
  assumes "can_rename T Old New"
  shows "tree_all node_fields_ok (moved T Old New)"
proof -
  let ?o = "path_segs Old" and ?n = "path_segs New"
  have c: "complete_path Old" "complete_path New" and ok: "tree_all node_fields_ok T" using assms by (auto simp: can_rename_def)
  note po = can_renameD(1) [OF assms] and pn = can_renameD(2) [OF assms]
  have ne: "Old \<noteq> []" using c(1) by (auto simp: complete_path_def)
  have nodes: "node_all node_fields_ok (node_of ?o T)" "node_all node_fields_ok (node_of ?n T)"
    using node_all_of c ok by blast+
  have m: "node_all node_fields_ok (marked (node_of ?o T))"
  proof -
    have "node_fields_ok n f r \<Longrightarrow> node_fields_ok n (f OR FILE_DELETED_FLAG) r" for n f r
      unfolding node_fields_ok_def by (auto simp: flag_defs)
    then show ?thesis using nodes(1) by (simp add: node_all_iff marked_eq)
  qed
  let ?T2 = "File_SetPathFlags_internal T Old FILE_DELETED_FLAG 0 None" and ?T3 = "set_path ?n id (File_SetPathFlags_internal T Old FILE_DELETED_FLAG 0 None)"
  have T2: "tree_all node_fields_ok ?T2"
    unfolding File_SetPathFlags_internal_def by (rule set_node_ok [OF c(1) ok]) (simp_all add: m)
  have n2: "node_of ?n ?T2 = node_of ?n T"
    using can_renameD(1-4) [OF assms] by (simp add: File_SetPathFlags_internal_def set_path_other)
  have T3: "tree_all node_fields_ok ?T3" by (rule set_node_ok [OF c(2) T2]) (simp_all add: n2 nodes)
  have n3: "node_of ?n ?T3 = node_of ?n T" using pn by (simp add: set_path_same n2)
  have a: "node_all node_fields_ok (add_flag Old (node_of ?n T))"
    using nodes(2) can_renameD(5-7) [OF assms] ne by (simp add: node_all_iff add_flag_def node_fields_ok_def flag_defs)
  have L: "tree_all node_fields_ok (linked T Old New)"
    unfolding linked_def by (rule set_node_ok [OF c(2) T3]) (simp_all add: n3 a)
  have C: "tree_all node_fields_ok (cut_off T Old New)"
    unfolding cut_off_def using L m linked_nodes(1) [OF assms] by (auto intro!: set_node_ok [OF c(1)] simp: node_all_iff with_items_def)
  show ?thesis unfolding moved_def
    by (rule set_node_ok [OF c(2) C])
      (use a nodes(1) can_renameD(5-7) [OF assms] in \<open>simp_all add: cut_off_nodes [OF assms] node_all_iff with_items_def add_flag_def\<close>)
qed

lemma seg_names_lwr: "names (path_segs (wcslwr p)) = names (path_segs p)"
proof (induction p rule: path_segs.induct)
  case (1 p)
  have b: "(\<lambda>c. c \<noteq> BS) \<circ> towlower = (\<lambda>c. c \<noteq> BS)"
    by (rule ext) (auto simp: towlower_def Let_def of_char_eq_iff char_of_eq_iff take_bit_nat_eq_self split: if_splits)
  have t: "takeWhile (\<lambda>c. c \<noteq> BS) (wcslwr p) = wcslwr (takeWhile (\<lambda>c. c \<noteq> BS) p)"
    "dropWhile (\<lambda>c. c \<noteq> BS) (wcslwr p) = wcslwr (dropWhile (\<lambda>c. c \<noteq> BS) p)"
    unfolding wcslwr_def by (simp_all add: takeWhile_map dropWhile_map b)
  have i: "wcslwr (wcslwr s) = wcslwr s" for s using wcslwr_idem by simp
  have n: "wcslwr s = [] \<longleftrightarrow> s = []" "drop n (wcslwr s) = wcslwr (drop n s)" for s n by (simp_all add: wcslwr_def drop_map)
  let ?seg = "takeWhile (\<lambda>c. c \<noteq> BS) p" and ?nxt = "dropWhile (\<lambda>c. c \<noteq> BS) p"
  show ?case
  proof (cases "p = []")
    case False
    have e: "path_segs p = (if ?seg = [] then path_segs (drop 1 ?nxt) else (?seg, ?nxt) # (if ?nxt = [] then [] else path_segs (drop 1 ?nxt)))"
      by (subst path_segs.simps) (simp add: False Let_def)
    have e': "path_segs (wcslwr p) = (if ?seg = [] then path_segs (wcslwr (drop 1 ?nxt))
        else (wcslwr ?seg, wcslwr ?nxt) # (if ?nxt = [] then [] else path_segs (wcslwr (drop 1 ?nxt))))"
      by (subst path_segs.simps) (simp only: Let_def t n False if_False)
    show ?thesis unfolding e e' using 1(1) [OF False refl refl] 1(2) [OF False refl refl] by (auto simp: i)
  qed simp
qed

lemma rename_target:
  assumes "can_rename T Old New"
  shows "snd (File_GetPathFlags_internal
    (set_path (path_segs New) id (File_SetPathFlags_internal T Old FILE_DELETED_FLAG 0 None)) Old True) = None"
proof -
  let ?X = "set_path (path_segs New) id (File_SetPathFlags_internal T Old FILE_DELETED_FLAG 0 None)" and ?o = "seg_names Old"
  note r = assms [unfolded can_rename_def]
  have "info ?X ks = info (File_SetPathFlags_internal T Old FILE_DELETED_FLAG 0 None) ks" for ks
    using info_set_path [OF can_renameD(2) [OF assms], of id] node_info_of [OF can_renameD(2) [OF assms]] by (auto simp: under_iff [OF can_renameD(2) [OF assms]])
  then have "is_rel (info ?X ks) \<longleftrightarrow> is_rel (info T ks)" for ks
    using r by (simp add: info_set_flags flags_set_def marked_eq and_or_zero masks)
  then have "last_relocation (info ?X) ?o = None"
  proof (cases "last_relocation (info ?X) ?o")
    case (Some i)
    then have "i < length ?o" "is_rel (info ?X (take (Suc i) ?o))"
      using last_relocation_spec [where I = "info ?X" and ks = ?o] by simp_all
    then have "path_relocated (info T) ?o"
      using \<open>\<And>ks. is_rel (info ?X ks) \<longleftrightarrow> _\<close> unfolding path_relocated_def by (intro exI [of _ "Suc i"]) simp
    then show ?thesis using r by blast
  qed simp
  then have "snd (snd (answer (File_GetPathFlags_internal ?X Old True))) = None"
    using r by (simp add: lookup_walk walk_answer_spec)
  then show ?thesis by (simp add: answer_def)
qed

lemma rename_moved:
  assumes "can_rename T Old New"
  shows "File_SetRelocation_internal T Old New = Some (moved T Old New)"
proof -
  let ?o = "path_segs Old" and ?n = "path_segs New"
  note r = assms [unfolded can_rename_def]
  note po = can_renameD(1) [OF assms] and pn = can_renameD(2) [OF assms]
  have "seg_names Old \<noteq> seg_names New" using r by (auto simp: apart_def)
  then have df: "\<not> wcsicmp_eq Old New" by (metis wcsicmp_eq_def seg_names_lwr seg_names_eq)
  have no: "pn_flags n AND FILE_RELOCATION_FLAG = 0" if "find_path ?o T = Some n" for n
  proof -
    have "info T (seg_names Old) = (pn_flags n, pn_reloc n)"
      using node_info_of [OF po, of T "[]"] find_path_node [OF po that] by (simp add: seg_names_eq node_info_def)
    moreover have "\<not> is_rel (info T (seg_names Old))"
      using r proper_names [OF po] by (auto simp: path_relocated_def seg_names_eq intro: exI [of _ "length ?o"])
    ultimately show ?thesis by simp
  qed
  have nest: "take (length ?o) (seg_names New) \<noteq> seg_names Old" using r by (simp add: apart_def seg_names_eq)
  have L: "set_path ?n (\<lambda>n. PATH_NODE (pn_name n) (pn_flags n OR FILE_RELOCATION_FLAG) (Some Old) (pn_items n))
      (set_path ?n id (File_SetPathFlags_internal T Old FILE_DELETED_FLAG 0 None)) = linked T Old New"
    by (simp add: linked_def add_flag_def [abs_def])
  note code = File_SetRelocation_internal_def Let_def rename_target [OF assms] L linked_nodes(2) [OF assms] nest
  show ?thesis
  proof (cases "find_path ?o T")
    case None
    then have "pn_items (node_of ?o T) = []" using node_of_missing [OF po] by simp
    then show ?thesis using df r None by (simp add: code moved_def cut_off_def with_items_def [abs_def])
  next
    case (Some n)
    then have "node_of ?o T = n" using find_path_node [OF po] by simp
    then show ?thesis using df r Some no [OF Some] by (simp add: code moved_def cut_off_def with_items_def [abs_def] marked_eq)
  qed
qed

lemma rename_old:
  assumes "can_rename T Old New" and "complete_path Q" and "under Old Q"
  shows "fst (walk_answer (info (moved T Old New)) Q)"
proof -
  let ?o = "seg_names Old" and ?I = "info (moved T Old New)"
  obtain r where q: "seg_names Q = ?o @ r" using assms(3) by (metis append_take_drop_id)
  have i: "?I = renamed T Old New" using moved_info [OF assms(1)] by (rule ext)
  have ne: "?o \<noteq> []" using can_renameD(1) [OF assms(1)] proper_names by (simp add: seg_names_eq)
  have "\<not> is_rel (info T ?o)"
  proof
    assume "is_rel (info T ?o)"
    then have "path_relocated (info T) ?o" using ne unfolding path_relocated_def by (intro exI [of _ "length ?o"]) simp
    then show False using assms(1) by (simp add: can_rename_def)
  qed
  then have "path_deleted ?I (?o @ r)"
    by (intro deleted_below) (auto simp: i renamed_def Let_def and_or_zero masks ne flag_nonzero)
  then show ?thesis by (simp add: walk_answer_spec [OF assms(2)] q)
qed

lemma rename_new:
  assumes "can_rename T Old New" and "complete_path Q" and "seg_names Q = seg_names New @ r"
  shows "r \<noteq> [] \<longrightarrow> fst (walk_answer (info (moved T Old New)) Q) = path_deleted (\<lambda>ks. info T (seg_names Old @ ks)) r"
    and "\<not> path_relocated (\<lambda>ks. info T (seg_names Old @ ks)) r \<longrightarrow>
      snd (walk_answer (info (moved T Old New)) Q) = (True, Some (Old @ snd (path_segs Q ! (length (seg_names New) - 1))))"
proof -
  let ?o = "seg_names Old" and ?n = "seg_names New" and ?I = "info (moved T Old New)"
  have ne: "?n \<noteq> []" using can_renameD(2) [OF assms(1)] proper_names by (simp add: seg_names_eq)
  have ap: "take (length ?o) (?n @ ks) \<noteq> ?o" for ks
  proof
    assume e: "take (length ?o) (?n @ ks) = ?o"
    have "take (length ?n) ?o = ?n" if "length ?n \<le> length ?o"
      using arg_cong [OF e, of "take (length ?n)"] that by simp
    moreover have "take (length ?o) ?n = ?o" if "length ?o \<le> length ?n" using e that by simp
    ultimately show False using assms(1) by (auto simp: can_rename_def apart_def dest: nat_le_linear [THEN disjE])
  qed
  have i: "?I (?n @ ks) = (if ks = [] then (FILE_RELOCATION_FLAG, Some Old) else info T (?o @ ks))" for ks
  proof -
    have "?n @ ks \<noteq> ?o" using ap [of ks] by (metis order_refl take_all)
    then show ?thesis using ap [of ks] moved_info [OF assms(1)] by (simp add: renamed_def Let_def)
  qed
  have rel: "is_rel (?I ?n)" using i [of "[]"] by (simp add: flag_defs)
  have del: "path_deleted (\<lambda>ks. ?I (?n @ ks)) r = path_deleted (\<lambda>ks. info T (?o @ ks)) r" if "r \<noteq> []"
    using that unfolding i path_deleted_def by auto
  have pr: "path_relocated (\<lambda>ks. ?I (?n @ ks)) r = path_relocated (\<lambda>ks. info T (?o @ ks)) r"
    unfolding i path_relocated_def by (cases "r = []") auto
  show "r \<noteq> [] \<longrightarrow> fst (walk_answer ?I Q) = path_deleted (\<lambda>ks. info T (?o @ ks)) r"
    using deleted_relocated [of ?I ?n, OF rel] del by (simp add: walk_answer_spec [OF assms(2)] assms(3))
  show "\<not> path_relocated (\<lambda>ks. info T (?o @ ks)) r \<longrightarrow>
      snd (walk_answer ?I Q) = (True, Some (Old @ snd (path_segs Q ! (length ?n - 1))))"
  proof
    assume "\<not> path_relocated (\<lambda>ks. info T (?o @ ks)) r"
    then have l: "last_relocation ?I (?n @ r) = Some (length ?n - 1)" using last_relocation_at [of ?I ?n, OF rel ne] pr by simp
    have t: "take (Suc (length ?n - 1)) (?n @ r) = ?n" using ne by (cases ?n) simp_all
    have "path_relocated ?I (?n @ r)" using rel ne unfolding path_relocated_def by (intro exI [of _ "length ?n"]) simp
    then show "snd (walk_answer ?I Q) = (True, Some (Old @ snd (path_segs Q ! (length ?n - 1))))"
      unfolding walk_answer_spec [OF assms(2)] assms(3) l Option.bind.bind_lunit t using i [of "[]"] by simp
  qed
qed

lemma rename_other:
  assumes "can_rename T Old New" and "complete_path Q" and "\<not> under Old Q" and "\<not> under New Q"
  shows "walk_answer (info (moved T Old New)) Q = walk_answer (info T) Q"
proof (rule answer_cong [OF assms(2)])
  fix i assume "0 < i" "i \<le> length (seg_names Q)"
  show "info (moved T Old New) (take i (seg_names Q)) = info T (take i (seg_names Q))"
    using not_under_take [OF assms(3), of i] not_under_take [OF assms(4), of i] moved_info [OF assms(1)] by (simp only: renamed_def Let_def if_False simp_thms)
qed

text \<open>
  C11. Renaming a branch to a place without a node, neither path inside the other: the old paths are deleted; a path below the new
  one is deleted exactly if it was below the old one, and resolves to its old place; all other
  lookups and the form of the tree are kept.
\<close>

theorem rename_resolves:
  assumes "can_rename T Old New"
  shows "\<exists>T'. File_SetRelocation_internal T Old New = Some T' \<and> tree_all node_fields_ok T'
    \<and> (\<forall>Q. complete_path Q \<and> under Old Q \<longrightarrow> fst (answer (File_GetPathFlags_internal T' Q c)))
    \<and> (\<forall>Q r. complete_path Q \<and> seg_names Q = seg_names New @ r \<longrightarrow>
         (r \<noteq> [] \<longrightarrow> fst (answer (File_GetPathFlags_internal T' Q c)) = path_deleted (\<lambda>ks. info T (seg_names Old @ ks)) r)
         \<and> (\<not> path_relocated (\<lambda>ks. info T (seg_names Old @ ks)) r \<longrightarrow>
              snd (answer (File_GetPathFlags_internal T' Q c)) = (True, Some (Old @ snd (path_segs Q ! (length (seg_names New) - 1))))))
    \<and> (\<forall>Q. complete_path Q \<and> \<not> under Old Q \<and> \<not> under New Q \<longrightarrow>
         answer (File_GetPathFlags_internal T' Q c) = answer (File_GetPathFlags_internal T Q c))"
proof -
  let ?T' = "moved T Old New"
  have "File_SetRelocation_internal T Old New = Some ?T'" by (rule rename_moved [OF assms])
  moreover have "tree_all node_fields_ok ?T'" by (rule moved_ok [OF assms])
  moreover have "fst (answer (File_GetPathFlags_internal ?T' Q c))" if "complete_path Q" "under Old Q" for Q
    using that rename_old [OF assms] by (simp add: lookup_walk)
  moreover have "(r \<noteq> [] \<longrightarrow> fst (answer (File_GetPathFlags_internal ?T' Q c)) = path_deleted (\<lambda>ks. info T (seg_names Old @ ks)) r)
      \<and> (\<not> path_relocated (\<lambda>ks. info T (seg_names Old @ ks)) r \<longrightarrow>
        snd (answer (File_GetPathFlags_internal ?T' Q c)) = (True, Some (Old @ snd (path_segs Q ! (length (seg_names New) - 1)))))"
    if "complete_path Q" "seg_names Q = seg_names New @ r" for Q r
    using rename_new [OF assms that] by (simp add: lookup_walk)
  moreover have "answer (File_GetPathFlags_internal ?T' Q c) = answer (File_GetPathFlags_internal T Q c)"
    if "complete_path Q" "\<not> under Old Q" "\<not> under New Q" for Q
    using that rename_other [OF assms] by (simp add: lookup_walk)
  ultimately show ?thesis by blast
qed

theorem rename_resolves_witness:
  "\<exists>T'. File_SetRelocation_internal demo_tree (names_text [''c'']) (names_text [''d'', ''e'']) = Some T'
     \<and> fst (answer (File_GetPathFlags_internal T' (names_text [''c'']) True))
     \<and> snd (snd (answer (File_GetPathFlags_internal T' (names_text [''d'', ''e'', ''f'']) True))) = Some (names_text [''c'', ''f''])"
proof -
  let ?o = "names_text [''c'']" and ?n = "names_text [''d'', ''e'']" and ?q = "names_text [''d'', ''e'', ''f'']"
  have can: "can_rename demo_tree ?o ?n" by code_simp
  have h: "complete_path ?o" "under ?o ?o" "complete_path ?q" "seg_names ?q = seg_names ?n @ [''f'']"
    "\<not> path_relocated (\<lambda>ks. info demo_tree (seg_names ?o @ ks)) [''f'']"
    "?o @ snd (path_segs ?q ! (length (seg_names ?n) - 1)) = names_text [''c'', ''f'']"
    by code_simp+
  obtain T' where T': "File_SetRelocation_internal demo_tree ?o ?n = Some T'"
      "\<forall>Q. complete_path Q \<and> under ?o Q \<longrightarrow> fst (answer (File_GetPathFlags_internal T' Q True))"
      "\<forall>Q r. complete_path Q \<and> seg_names Q = seg_names ?n @ r \<longrightarrow>
         (r \<noteq> [] \<longrightarrow> fst (answer (File_GetPathFlags_internal T' Q True)) = path_deleted (\<lambda>ks. info demo_tree (seg_names ?o @ ks)) r)
         \<and> (\<not> path_relocated (\<lambda>ks. info demo_tree (seg_names ?o @ ks)) r \<longrightarrow>
              snd (answer (File_GetPathFlags_internal T' Q True)) = (True, Some (?o @ snd (path_segs Q ! (length (seg_names ?n) - 1)))))"
    using rename_resolves [OF can, of True] by blast
  have "snd (answer (File_GetPathFlags_internal T' ?q True)) = (True, Some (names_text [''c'', ''f'']))"
    using T'(3) h(3-5) unfolding h(6) [symmetric] by blast
  then show ?thesis using T'(1,2) h(1,2) by (metis snd_conv)
qed

end
