(* ===== verification/PathTreeFile.thy ===== *)
theory PathTreeFile
  imports PathTreeUpdate
begin

text \<open>
  The file of the path tree (\<^verbatim>\<open>core/dll/file_del.c\<close>): reading what was written gives a tree with the same
  answers, although saving leaves out redundant deletions.
\<close>

section \<open>Writing and reading the file\<close>

text \<open>Texts that can stand in a line.\<close>

definition line_char :: "wchar \<Rightarrow> bool" where
  "line_char c \<longleftrightarrow> c \<noteq> PT_CR \<and> c \<noteq> PT_LF"

definition storable :: node_cond where
  "storable name flags reloc \<longleftrightarrow>
     node_fields_ok name flags reloc \<and> flags \<noteq> FILE_DELETED_FLAG OR FILE_RELOCATION_FLAG
     \<and> (\<forall>c \<in> set name. line_char c \<and> c \<noteq> PIPE) \<and> (case reloc of None \<Rightarrow> True | Some r \<Rightarrow> \<forall>c \<in> set r. line_char c)"

interpretation stored: marking storable
  by unfold_locales (auto simp: storable_def node_fields_ok_def flag_defs)

abbreviation plain_path :: "wstring \<Rightarrow> bool" where
  "plain_path path \<equiv> \<forall>c \<in> set path. line_char c \<and> c \<noteq> PIPE"

declare load_loop.simps [simp del] ultow16.simps [simp del]

lemma ultow16_flags:
  "ultow16 0 = ''0''" "ultow16 (Suc 0) = ''1''" "ultow16 2 = ''2''" "ultow16 3 = ''3''"
  by code_simp+

lemma flags_digit:
  assumes "fl \<in> {0, 1, 2, 3}" and "rest = [] \<or> (\<exists>r. rest = PIPE # r)"
  shows "\<exists>d \<in> {CHR ''0'', CHR ''1'', CHR ''2'', CHR ''3''}. ultow16 (unat fl) = [d] \<and> wcstoul (d # rest) 16 = (uint (fl :: u32), 1)"
proof -
  have p: "\<not> digit_val PIPE < 16" "towlower PIPE \<noteq> CHR ''x''" by code_simp+
  have n: "towlower NUL \<noteq> CHR ''x''" by code_simp
  have d: "digit_val CHR ''0'' = 0" "digit_val CHR ''1'' = 1" "digit_val CHR ''2'' = 2" "digit_val CHR ''3'' = 3"
    "\<not> c_space CHR ''0''" "\<not> c_space CHR ''1''" "\<not> c_space CHR ''2''" "\<not> c_space CHR ''3''" by code_simp+
  have "fl = 0 \<or> fl = 1 \<or> fl = 2 \<or> fl = 3" using assms(1) by blast
  then show ?thesis using assms(2)
    by (elim disjE exE) (simp_all add: wcstoul_def ultow16_flags digits_val_def Let_def p n d)
qed

lemma load_line_entry:
  assumes "PIPE \<notin> set P" and "fl \<in> {0, 1, 2, 3}"
  shows "load_line no_translate (P @ [PIPE] @ ultow16 (unat fl) @ (case rl of None \<Rightarrow> [] | Some r \<Rightarrow> [PIPE] @ r)) T =
    File_SetPathFlags_internal T P fl 0 rl"
proof -
  let ?rest = "case rl of None \<Rightarrow> [] | Some r \<Rightarrow> [PIPE] @ r"
  have "?rest = [] \<or> (\<exists>r. ?rest = PIPE # r)" by (cases rl) auto
  then obtain d where "ultow16 (unat fl) = [d]" "wcstoul (d # ?rest) 16 = (uint fl, 1)"
    using flags_digit [OF assms(2)] by metis
  moreover have "map_option (translated no_translate) x = x" for x
    by (cases x) (auto simp: translated_def no_translate_def)
  ultimately show ?thesis
    using assms(1) by (cases rl)
      (auto simp: load_line_def wcschr_append_Cons Let_def translated_def no_translate_def)
qed

lemma load_step:
  assumes "PT_LF \<notin> set L"
  shows "load_loop tr (L @ [PT_CR, PT_LF] @ text) T = load_loop tr text (load_line tr L T)"
proof -
  have "takeWhile (\<lambda>c. c \<noteq> PT_LF) ((L @ [PT_CR]) @ PT_LF # text) = L @ [PT_CR]"
    using assms by (subst takeWhile_append2) auto
  then show ?thesis by (subst load_loop.simps) (simp add: Let_def)
qed

lemma load_append:
  assumes "plain_path P" and "fl \<in> {0, 1, 2, 3}" and "case rl of None \<Rightarrow> True | Some r \<Rightarrow> \<forall>c \<in> set r. line_char c"
  shows "load_loop no_translate (File_AppendPathEntry_internal no_translate P fl rl @ text) T =
    load_loop no_translate text (File_SetPathFlags_internal T P fl 0 rl)"
proof -
  let ?line = "P @ [PIPE] @ ultow16 (unat fl) @ (case rl of None \<Rightarrow> [] | Some r \<Rightarrow> [PIPE] @ r)"
  have e: "File_AppendPathEntry_internal no_translate P fl rl = ?line @ [PT_CR, PT_LF]"
    by (cases rl) (auto simp: File_AppendPathEntry_internal_def translated_def no_translate_def)
  have u: "PT_LF \<notin> set (ultow16 (unat fl))" using flags_digit [OF assms(2), of "[]"] by auto
  have p: "PT_LF \<notin> set P" using assms(1) unfolding line_char_def by blast
  have r: "PT_LF \<notin> set r" if "rl = Some r" for r
    using assms(3) unfolding that option.case line_char_def by blast
  have nolf: "PT_LF \<notin> set ?line" by (cases rl) (simp_all add: u p r)
  have "PIPE \<notin> set P" using assms(1) by auto
  from load_line_entry [OF this assms(2), of rl T] show ?thesis
    unfolding e using load_step [OF nolf, of no_translate _ T] by simp
qed

text \<open>The file as a list of entries: names from the root, flags and relocation.\<close>

type_synonym entry = "wstring list \<times> u32 \<times> wstring option"

definition entry_text :: "entry \<Rightarrow> wstring" where
  "entry_text e = (case e of (ns, fl, rl) \<Rightarrow> File_AppendPathEntry_internal no_translate (names_text ns) fl rl)"

fun entries :: "u32 \<Rightarrow> path_node list \<Rightarrow> entry list" where
  "entries SetFlags [] = []"
| "entries SetFlags (PATH_NODE name flags reloc items # cs) =
     (let SetFlags' = (if flags AND FILE_RELOCATION_FLAG \<noteq> 0 then 0 else SetFlags)
      in (if flags AND NOT SetFlags' \<noteq> 0 \<or> reloc \<noteq> None then [([name], flags, reloc)] else [])
         @ map (apfst (Cons name)) (entries (SetFlags' OR flags) items)
         @ entries SetFlags' cs)"

lemma save_entries:
  "save_nodes no_translate (names_text ns) SetFlags items =
    concat (map (\<lambda>(r, i). entry_text (ns @ r, i)) (entries SetFlags items))"
proof (induction SetFlags items arbitrary: ns rule: entries.induct)
  case (2 SetFlags name flags reloc items cs)
  let ?S = "if flags AND FILE_RELOCATION_FLAG \<noteq> 0 then 0 else SetFlags"
  have p: "names_text ns @ BS # name = names_text (ns @ [name])" by (simp add: names_text_def)
  have c: "concat (map ((\<lambda>(r, i). entry_text (ns @ r, i)) \<circ> (apfst (Cons name))) es) =
      concat (map (\<lambda>(r, i). entry_text ((ns @ [name]) @ r, i)) es)" for es
    by (rule arg_cong [where f = concat]) auto
  have e: "File_AppendPathEntry_internal no_translate (names_text (ns @ [name])) flags reloc = entry_text (ns @ [name], flags, reloc)"
    by (simp add: entry_text_def)
  show ?case
    using 2(1) [OF refl, of "ns @ [name]"] 2(2) [OF refl, of ns] by (simp add: Let_def c p e)
qed simp

lemma entries_fit:
  "tree_all storable items \<Longrightarrow> (ns, fl, rl) \<in> set (entries SetFlags items) \<Longrightarrow>
     ns \<noteq> [] \<and> (\<forall>n \<in> set ns. storable n 0 None) \<and> storable (last ns) fl rl"
proof (induction SetFlags items arbitrary: ns rule: entries.induct)
  case (2 SetFlags name flags reloc items cs)
  have s: "storable n f r \<Longrightarrow> storable n 0 None" for n f r
    by (auto simp: storable_def node_fields_ok_def flag_defs)
  let ?S = "if flags AND FILE_RELOCATION_FLAG \<noteq> 0 then 0 else SetFlags"
  have ok: "storable name flags reloc" "tree_all storable items" "tree_all storable cs"
    using 2(3) by (auto simp: tree_all_Cons node_all_iff)
  from 2(4) consider "ns = [name]" "fl = flags" "rl = reloc"
    | ns' where "ns = name # ns'" "(ns', fl, rl) \<in> set (entries (?S OR flags) items)"
    | "(ns, fl, rl) \<in> set (entries ?S cs)"
    by (auto simp: Let_def split: if_splits)
  then show ?case
  proof cases
    case 1
    then show ?thesis using ok s by auto
  next
    case below: 2
    then show ?thesis using 2(1) [OF refl ok(2) below(2)] s [OF ok(1)] by auto
  next
    case 3
    then show ?thesis using 2(2) [OF refl ok(3)] by auto
  qed
qed simp

text \<open>
  Saving leaves out the deletions that lookups do not need: those of nodes below a deleted one with
  no relocation in between.
\<close>

fun shadow :: "bool \<Rightarrow> path_info \<Rightarrow> wstring list \<Rightarrow> bool" where
  "shadow d I [] = False"
| "shadow d I (k # ks) =
     (if ks = [] then d else shadow (\<not> is_rel (I [k]) \<and> (d \<or> is_del (I [k]))) (\<lambda>ks. I (k # ks)) ks)"

definition pruned :: "bool \<Rightarrow> path_info \<Rightarrow> path_info \<Rightarrow> bool" where
  "pruned d I' I \<longleftrightarrow> (\<forall>ks. ks \<noteq> [] \<longrightarrow> I' ks = I ks \<or> I' ks = (0, None) \<and> I ks = (FILE_DELETED_FLAG, None) \<and> shadow d I ks)"

lemma shadow_mono: "shadow d I ks \<Longrightarrow> (d \<Longrightarrow> d') \<Longrightarrow> shadow d' I ks"
proof (induction ks arbitrary: d d' I)
  case (Cons k ks)
  show ?case
  proof (cases "ks = []")
    case False
    then show ?thesis
      using Cons.IH [of "\<not> is_rel (I [k]) \<and> (d \<or> is_del (I [k]))" "\<lambda>ks. I (k # ks)" "\<not> is_rel (I [k]) \<and> (d' \<or> is_del (I [k]))"]
        Cons.prems by (simp only: shadow.simps if_False) blast
  qed (use Cons.prems in simp)
qed simp

lemma prunedD:
  "pruned d I' I \<Longrightarrow> ks \<noteq> [] \<Longrightarrow> I' ks = I ks \<or> I' ks = (0, None) \<and> I ks = (FILE_DELETED_FLAG, None) \<and> shadow d I ks"
  by (auto simp: pruned_def)

lemma pruned_below:
  assumes "pruned d I' I"
  shows "pruned (\<not> is_rel (I [k]) \<and> (d \<or> is_del (I [k]))) (\<lambda>ks. I' (k # ks)) (\<lambda>ks. I (k # ks))"
  using assms unfolding pruned_def by (metis list.distinct(1) shadow.simps(2))

text \<open>Lookups do not see the difference.\<close>

lemma walk_pruned:
  assumes "pruned d I' I" and "(F AND FILE_DELETED_MASK \<noteq> 0) = d" and "(F' AND FILE_DELETED_MASK \<noteq> 0) = d"
    and "(F AND FILE_RELOCATED_MASK \<noteq> 0) = (F' AND FILE_RELOCATED_MASK \<noteq> 0)"
  shows "snd (pwalk I' rest F' rel) = snd (pwalk I rest F rel)
    \<and> (fst (pwalk I' rest F' rel) AND FILE_DELETED_MASK \<noteq> 0) = (fst (pwalk I rest F rel) AND FILE_DELETED_MASK \<noteq> 0)
    \<and> (fst (pwalk I' rest F' rel) AND FILE_RELOCATED_MASK \<noteq> 0) = (fst (pwalk I rest F rel) AND FILE_RELOCATED_MASK \<noteq> 0)"
  using assms
proof (induction rest arbitrary: d I' I F F' rel)
  case (Cons sn rest)
  obtain seg nxt where sn: "sn = (seg, nxt)" by (cases sn)
  let ?k = "wcslwr seg"
  have k: "I' [?k] = I [?k] \<or> I' [?k] = (0, None) \<and> I [?k] = (FILE_DELETED_FLAG, None) \<and> d"
    using prunedD [OF Cons.prems(1), of "[?k]"] by simp
  then have r: "is_rel (I' [?k]) = is_rel (I [?k])" "snd (I' [?k]) = snd (I [?k])" "is_del (I' [?k]) \<or> d \<longleftrightarrow> is_del (I [?k]) \<or> d"
    by (auto simp: masks)
  let ?next = "\<lambda>I F. if is_rel (I [?k]) then FILE_PATH_RELOCATED_FLAG else if is_del (I [?k]) then F OR FILE_PATH_DELETED_FLAG else F"
  let ?rel = "if is_rel (I [?k]) then (snd (I [?k]), nxt) else rel"
  show ?case
  proof (cases "nxt = []")
    case True
    then show ?thesis using r Cons.prems by (auto simp: sn Let_def and_or_zero masks)
  next
    case False
    have "snd (pwalk (\<lambda>ks. I' (?k # ks)) rest (?next I' F') ?rel) = snd (pwalk (\<lambda>ks. I (?k # ks)) rest (?next I F) ?rel)
      \<and> (fst (pwalk (\<lambda>ks. I' (?k # ks)) rest (?next I' F') ?rel) AND FILE_DELETED_MASK \<noteq> 0)
         = (fst (pwalk (\<lambda>ks. I (?k # ks)) rest (?next I F) ?rel) AND FILE_DELETED_MASK \<noteq> 0)
      \<and> (fst (pwalk (\<lambda>ks. I' (?k # ks)) rest (?next I' F') ?rel) AND FILE_RELOCATED_MASK \<noteq> 0)
         = (fst (pwalk (\<lambda>ks. I (?k # ks)) rest (?next I F) ?rel) AND FILE_RELOCATED_MASK \<noteq> 0)"
      by (rule Cons.IH [OF pruned_below [OF Cons.prems(1)]]) (use r Cons.prems(2-4) in \<open>auto simp: and_or_zero masks\<close>)
    moreover have "pwalk I' (sn # rest) F' rel = pwalk (\<lambda>ks. I' (?k # ks)) rest (?next I' F') ?rel"
      "pwalk I (sn # rest) F rel = pwalk (\<lambda>ks. I (?k # ks)) rest (?next I F) ?rel"
      using False r by (simp_all add: sn Let_def)
    ultimately show ?thesis by (simp only:)
  qed
qed simp

lemma answer_pruned: "pruned False I' I \<Longrightarrow> walk_answer I' path = walk_answer I path"
  using walk_pruned [of False I' I 0 0 "path_segs path" "(None, [])"]
  by (auto simp: walk_answer_def answer_def FILE_PATH_DELETED_def FILE_PATH_RELOCATED_def split: prod.splits)

text \<open>The entries of a tree are what it says, less what is shadowed.\<close>

definition ekey :: "entry \<Rightarrow> wstring list \<times> u32 \<times> wstring option" where
  "ekey e = (map wcslwr (fst e), snd e)"

definition found :: "entry list \<Rightarrow> path_info" where
  "found es ks = (case map_of (map ekey es) ks of None \<Rightarrow> (0, None) | Some i \<Rightarrow> i)"

abbreviation ekeys :: "entry list \<Rightarrow> wstring list list" where
  "ekeys es \<equiv> map (\<lambda>e. map wcslwr (fst e)) es"

lemma found_append: "found (es @ fs) ks = (if ks \<in> set (ekeys es) then found es ks else found fs ks)"
proof -
  have "map_of (map ekey es) ks = None \<longleftrightarrow> ks \<notin> set (ekeys es)"
    by (auto simp: map_of_eq_None_iff ekey_def image_image)
  then show ?thesis by (auto simp: found_def map_add_def split: option.splits)
qed

lemma found_none: "ks \<notin> set (ekeys es) \<Longrightarrow> found es ks = (0, None)"
proof -
  assume "ks \<notin> set (ekeys es)"
  then have "map_of (map ekey es) ks = None" by (auto simp: map_of_eq_None_iff ekey_def image_image)
  then show ?thesis by (simp add: found_def)
qed

lemma found_Nil [simp]: "found [] ks = (0, None)"
  by (simp add: found_def)

lemma found_Cons: "found ((ns, i) # es) ks = (if ks = map wcslwr ns then i else found es ks)"
  by (auto simp: found_def ekey_def)

lemma found_below: "found (map (apfst (Cons name)) es) (k # ks) = (if k = wcslwr name then found es ks else (0, None))"
proof (induction es)
  case (Cons e es)
  obtain ns i where "e = (ns, i)" by (cases e)
  then show ?case using Cons by (auto simp: found_Cons)
qed simp

lemma entries_step:
  fixes S flags :: u32
  defines "S' \<equiv> if flags AND FILE_RELOCATION_FLAG \<noteq> 0 then 0 else S"
  shows "entries S (PATH_NODE name flags reloc items # cs) =
    (if flags AND NOT S' \<noteq> 0 \<or> reloc \<noteq> None then [([name], flags, reloc)] else [])
    @ map (apfst (Cons name)) (entries (S' OR flags) items) @ entries S' cs"
  by (simp add: S'_def Let_def)

lemma ekeys_below: "ekeys (map (apfst (Cons name)) es) = map (\<lambda>ks. wcslwr name # ks) (ekeys es)"
  by auto

declare entries.simps(2) [simp del]

lemma entries_keys: "ks \<in> set (ekeys (entries S items)) \<Longrightarrow> ks \<noteq> [] \<and> hd ks \<in> (\<lambda>n. wcslwr (pn_name n)) ` set items"
proof (induction S items arbitrary: ks rule: entries.induct)
  case (2 S name flags reloc items cs)
  let ?S = "if flags AND FILE_RELOCATION_FLAG \<noteq> 0 then 0 else S"
  have "ks = [wcslwr name] \<or> ks \<in> set (map (\<lambda>ks. wcslwr name # ks) (ekeys (entries (?S OR flags) items))) \<or> ks \<in> set (ekeys (entries ?S cs))"
    using 2(3) unfolding entries_step map_append set_append ekeys_below by (auto split: if_splits)
  then show ?case using 2(2) [OF refl, of ks] by auto
qed simp

lemma entries_distinct: "tree_all F items \<Longrightarrow> distinct (ekeys (entries S items))"
proof (induction S items rule: entries.induct)
  case (2 S name flags reloc items cs)
  let ?S = "if flags AND FILE_RELOCATION_FLAG \<noteq> 0 then 0 else S"
  let ?A = "if flags AND NOT ?S \<noteq> 0 \<or> reloc \<noteq> None then [([name], flags, reloc)] else []"
  let ?B = "map (apfst (Cons name)) (entries (?S OR flags) items)" and ?C = "entries ?S cs"
  have ok: "tree_all F items" "tree_all F cs" "wcslwr name \<notin> (\<lambda>n. wcslwr (pn_name n)) ` set cs"
    using 2(3) by (auto simp: tree_all_Cons node_all_iff)
  let ?B' = "map (\<lambda>ks. wcslwr name # ks) (ekeys (entries (?S OR flags) items))"
  have B: "distinct ?B'" using 2(1) [OF refl ok(1)] by (simp add: distinct_map inj_on_def)
  have C: "distinct (ekeys ?C)" using 2(2) [OF refl ok(2)] .
  have AB: "[wcslwr name] \<notin> set ?B'" using entries_keys [of "[]" "?S OR flags" items] by auto
  have hd: "ks \<in> set ?B' \<or> ks = [wcslwr name] \<Longrightarrow> hd ks = wcslwr name" for ks by auto
  have "hd ks \<noteq> wcslwr name" if "ks \<in> set (ekeys ?C)" for ks using entries_keys [OF that] ok(3) by auto
  then have ABC: "set ?B' \<inter> set (ekeys ?C) = {}" "[wcslwr name] \<notin> set (ekeys ?C)" using hd by blast+
  have "ekeys ?A = [] \<or> ekeys ?A = [[wcslwr name]]" by auto
  then have "distinct (ekeys ?A @ ?B' @ ekeys ?C)"
    using B C AB ABC by (elim disjE) (simp_all only: append_Nil distinct_append distinct.simps set_append append_Cons Un_iff simp_thms)
  then show ?case by (simp only: entries_step map_append ekeys_below)
qed simp

lemma shadow_cong: "(\<And>r. I (k # r) = J (k # r)) \<Longrightarrow> shadow d I (k # ks) = shadow d J (k # ks)"
  by simp

lemma found_step:
  fixes S flags :: u32
  defines "S' \<equiv> if flags AND FILE_RELOCATION_FLAG \<noteq> 0 then 0 else S"
  assumes "wcslwr name \<notin> (\<lambda>n. wcslwr (pn_name n)) ` set cs"
  shows "found (entries S (PATH_NODE name flags reloc items # cs)) (k # ks) =
    (if k \<noteq> wcslwr name then found (entries S' cs) (k # ks)
     else if ks = [] then (if flags AND NOT S' \<noteq> 0 \<or> reloc \<noteq> None then (flags, reloc) else (0, None))
     else found (entries (S' OR flags) items) ks)"
proof -
  have C: "found (entries S' cs) (k # ks) = (0, None)" if "k = wcslwr name" for ks
  proof (rule found_none, rule notI)
    assume "k # ks \<in> set (ekeys (entries S' cs))"
    from entries_keys [OF this] show False using assms(2) that by simp
  qed
  have B: "k # ks \<in> set (ekeys (map (apfst (Cons name)) es)) \<longleftrightarrow> k = wcslwr name \<and> ks \<in> set (ekeys es)" for es
    by (force simp: ekeys_below)
  have n: "found (entries (S' OR flags) items) ks = (0, None)" if "ks \<notin> set (ekeys (entries (S' OR flags) items))"
    using that by (rule found_none)
  have nil: "[] \<notin> set (ekeys (entries (S' OR flags) items))" using entries_keys by blast
  show ?thesis
    unfolding entries_step S'_def [symmetric] found_append B found_below
    using C n nil by (auto simp: found_Cons found_none)
qed

lemma storable_flags:
  assumes "storable name flags reloc"
  shows "(flags = 0 \<or> flags = 1 \<or> flags = 2) \<and> ((\<exists>r. reloc = Some r) \<longleftrightarrow> flags = 2)"
proof -
  have "flags \<noteq> FILE_DELETED_FLAG OR FILE_RELOCATION_FLAG" using assms unfolding storable_def by blast
  moreover have "flags \<in> {0, 1, 2, 3}" "reloc \<noteq> None \<longleftrightarrow> flags AND FILE_RELOCATION_FLAG \<noteq> 0"
    using assms unfolding storable_def node_fields_ok_def by blast+
  ultimately show ?thesis by (auto simp: flag_defs)
qed

lemma entries_pruned:
  "tree_all storable items \<Longrightarrow> pruned (S AND FILE_DELETED_FLAG \<noteq> 0) (found (entries S items)) (info items)"
proof (induction S items rule: entries.induct)
  case (2 S name flags reloc items cs)
  let ?S = "if flags AND FILE_RELOCATION_FLAG \<noteq> 0 then 0 else S"
  let ?n = "PATH_NODE name flags reloc items"
  have ok: "storable name flags reloc" "tree_all storable items" "tree_all storable cs"
      "wcslwr name \<notin> (\<lambda>n. wcslwr (pn_name n)) ` set cs"
    using 2(3) by (auto simp: tree_all_Cons node_all_iff)
  note B = 2(1) [OF refl ok(2)] and C = 2(2) [OF refl ok(3)]
  have i: "info (?n # cs) (k # ks) = (if k = wcslwr name then node_info ?n ks else info cs (k # ks))" for k ks
    by (auto simp: info_Cons child_at_def)
  have fl: "flags = 0 \<or> flags = 1 \<or> flags = 2" "(\<exists>r. reloc = Some r) \<longleftrightarrow> flags = 2"
    using storable_flags [OF ok(1)] by auto
  show ?case unfolding pruned_def
  proof (intro allI impI)
    fix ks assume "ks \<noteq> ([] :: wstring list)"
    then obtain k r where ks: "ks = k # r" by (cases ks) auto
    show "found (entries S (?n # cs)) ks = info (?n # cs) ks \<or> found (entries S (?n # cs)) ks = (0, None)
      \<and> info (?n # cs) ks = (FILE_DELETED_FLAG, None) \<and> shadow (S AND FILE_DELETED_FLAG \<noteq> 0) (info (?n # cs)) ks"
    proof (cases "k = wcslwr name")
      case False
      have "shadow (?S AND FILE_DELETED_FLAG \<noteq> 0) (info cs) (k # r) \<Longrightarrow> shadow (S AND FILE_DELETED_FLAG \<noteq> 0) (info cs) (k # r)"
        by (erule shadow_mono) (auto split: if_splits)
      moreover have "shadow d (info (?n # cs)) (k # r) = shadow d (info cs) (k # r)" for d
        using False by (intro shadow_cong) (simp add: i)
      moreover have "found (entries S (?n # cs)) (k # r) = found (entries ?S cs) (k # r)" "info (?n # cs) (k # r) = info cs (k # r)"
        unfolding found_step [OF ok(4)] i using False by simp_all
      ultimately show ?thesis using prunedD [OF C, of "k # r"] unfolding ks by (metis list.distinct(1))
    next
      case True
      show ?thesis
      proof (cases "r = []")
        case nil: True
        have "1 AND NOT S = 0 \<longleftrightarrow> S AND 1 \<noteq> 0" by (simp add: and.commute [of 1] and_one_eq flip: even_iff_mod_2_eq_zero odd_iff_mod_2_eq_one)
        then have "flags AND NOT ?S = 0 \<and> reloc = None \<longleftrightarrow> flags = 0 \<or> flags = 1 \<and> S AND FILE_DELETED_FLAG \<noteq> 0"
          using fl by (elim disjE) (auto simp: flag_defs)
        then show ?thesis using True nil fl
          by (auto simp: ks i found_step [OF ok(4)] node_info_def flag_defs)
      next
        case False
        have d: "(?S OR flags) AND FILE_DELETED_FLAG \<noteq> 0 \<longleftrightarrow>
          flags AND FILE_RELOCATION_FLAG = 0 \<and> (S AND FILE_DELETED_FLAG \<noteq> 0 \<or> flags AND FILE_DELETED_FLAG \<noteq> 0)"
          using fl by (auto simp: and_or_zero flag_defs)
        have b: "(\<lambda>ks. info (?n # cs) (k # ks)) = node_info ?n" using True by (simp add: i)
        have sh: "shadow d (node_info ?n) r = shadow d (info items) r" for d
          using False by (cases r) (simp_all add: node_info_def)
        have "shadow (S AND FILE_DELETED_FLAG \<noteq> 0) (info (?n # cs)) (k # r) =
            shadow ((?S OR flags) AND FILE_DELETED_FLAG \<noteq> 0) (info items) r"
          using False unfolding d shadow.simps b sh by (simp add: i True node_info_def)
        moreover have "found (entries S (?n # cs)) (k # r) = found (entries (?S OR flags) items) r" "info (?n # cs) (k # r) = info items r"
          unfolding found_step [OF ok(4)] i using True False by (simp_all add: node_info_def)
        ultimately show ?thesis using prunedD [OF B False] unfolding ks by metis
      qed
    qed
  qed
qed (simp add: pruned_def)

lemma path_segs_names:
  assumes "ns \<noteq> []" and "\<forall>n \<in> set ns. n \<noteq> [] \<and> BS \<notin> set n"
  shows "map fst (path_segs (names_text ns)) = ns \<and> proper (path_segs (names_text ns))"
  using assms
proof (induction ns)
  case (Cons n ns)
  let ?t = "names_text ns"
  have n: "n \<noteq> []" "BS \<notin> set n" using Cons.prems by auto
  have t: "names_text (n # ns) = BS # n @ ?t" by (simp add: names_text_def)
  have head: "?t = [] \<or> (\<exists>u. ?t = BS # u)" by (cases ns) (auto simp: names_text_def)
  have tw: "takeWhile (\<lambda>c. c \<noteq> BS) (n @ ?t) = n" "dropWhile (\<lambda>c. c \<noteq> BS) (n @ ?t) = ?t"
  proof -
    have c: "\<And>c. c \<in> set n \<Longrightarrow> c \<noteq> BS" using n(2) by metis
    show "takeWhile (\<lambda>c. c \<noteq> BS) (n @ ?t) = n" using head c by (subst takeWhile_append2) auto
    show "dropWhile (\<lambda>c. c \<noteq> BS) (n @ ?t) = ?t" using head c by (subst dropWhile_append2) auto
  qed
  have skip: "path_segs (BS # u) = path_segs u" for u
    by (subst path_segs.simps) (simp add: Let_def)
  have one: "path_segs (names_text (n # ns)) = (n, ?t) # (if ?t = [] then [] else path_segs (drop 1 ?t))"
    unfolding t skip by (subst path_segs.simps) (use n tw in \<open>simp add: Let_def\<close>)
  show ?case
  proof (cases "ns = []")
    case True
    then show ?thesis using one by (simp add: names_text_def)
  next
    case False
    then have ne: "?t \<noteq> []" by (cases ns) (auto simp: names_text_def)
    then have "path_segs (drop 1 ?t) = path_segs ?t" using head skip by auto
    moreover have "map fst (path_segs ?t) = ns" "proper (path_segs ?t)" using Cons False by auto
    ultimately show ?thesis using one ne by (auto simp: neq_Nil_conv)
  qed
qed simp

lemma names_text_complete:
  assumes "ns \<noteq> []" and "\<forall>n \<in> set ns. n \<noteq> [] \<and> BS \<notin> set n"
  shows "complete_path (names_text ns)" "seg_names (names_text ns) = map wcslwr ns"
proof -
  note p = path_segs_names [OF assms]
  show "complete_path (names_text ns)" using p by (simp add: complete_proper)
  have "names (path_segs (names_text ns)) = map wcslwr (map fst (path_segs (names_text ns)))" by auto
  then show "seg_names (names_text ns) = map wcslwr ns" using p by (simp add: seg_names_eq)
qed

lemma storable_name: "storable n 0 None \<Longrightarrow> storable m fl rl \<Longrightarrow> storable n fl rl"
  by (simp add: storable_def node_fields_ok_def)

lemma storable_rel: "storable n fl rl \<Longrightarrow> flags_set fl 0 rl (0, None) = (fl, rl)"
proof -
  assume st: "storable n fl rl"
  then have "rl \<noteq> Some []" by (simp add: storable_def node_fields_ok_def)
  then show ?thesis
    using storable_flags [OF st] by (elim conjE disjE; cases rl) (simp_all add: flags_set_def set_flags_def Let_def flag_defs)
qed

text \<open>Loading the entries one after the other.\<close>

definition entry_ok :: "entry \<Rightarrow> bool" where
  "entry_ok e = (case e of (ns, fl, rl) \<Rightarrow> ns \<noteq> [] \<and> (\<forall>n \<in> set ns. storable n 0 None) \<and> storable (last ns) fl rl)"

definition set_entry :: "path_node list \<Rightarrow> entry \<Rightarrow> path_node list" where
  "set_entry T e = (case e of (ns, fl, rl) \<Rightarrow> File_SetPathFlags_internal T (names_text ns) fl 0 rl)"

lemma entry_names: "entry_ok (ns, fl, rl) \<Longrightarrow> ns \<noteq> [] \<and> (\<forall>n \<in> set ns. n \<noteq> [] \<and> BS \<notin> set n)"
  unfolding entry_ok_def storable_def node_fields_ok_def by blast

lemma load_entry:
  assumes "entry_ok e"
  shows "load_loop no_translate (entry_text e @ lines) T = load_loop no_translate lines (set_entry T e)"
proof -
  obtain ns fl rl where e: "e = (ns, fl, rl)" by (cases e)
  have st: "storable (last ns) fl rl" "\<forall>n \<in> set ns. storable n 0 None" using assms by (auto simp: e entry_ok_def)
  have "plain_path (names_text ns)"
  proof
    fix c assume "c \<in> set (names_text ns)"
    then consider "c = BS" | n where "n \<in> set ns" "c \<in> set n" by (auto simp: names_text_def split: if_splits)
    then show "line_char c \<and> c \<noteq> PIPE"
    proof cases
      case 2
      then show ?thesis using st(2) unfolding storable_def by blast
    qed (simp add: line_char_def)
  qed
  moreover have "fl \<in> {0, 1, 2, 3}" "case rl of None \<Rightarrow> True | Some r \<Rightarrow> \<forall>c \<in> set r. line_char c"
    using st(1) unfolding storable_def node_fields_ok_def by blast+
  ultimately show ?thesis by (simp add: e entry_text_def set_entry_def load_append)
qed

lemma load_entries:
  "\<forall>e \<in> set es. entry_ok e \<Longrightarrow> load_loop no_translate (concat (map entry_text es)) T = foldl set_entry T es"
proof (induction es arbitrary: T)
  case Nil
  show ?case by (subst load_loop.simps) simp
qed (simp add: load_entry)

lemma set_entry_info:
  assumes "entry_ok (ns, i)" and "info T (map wcslwr ns) = (0, None)"
  shows "info (set_entry T (ns, i)) ks = (if ks = map wcslwr ns then i else info T ks)"
proof -
  obtain fl rl where i: "i = (fl, rl)" by (cases i)
  have "storable (last ns) fl rl" using assms(1) by (simp add: i entry_ok_def)
  then show ?thesis
    using assms names_text_complete [of ns] entry_names [of ns fl rl] info_set_flags [of "names_text ns" T fl 0 rl ks] storable_rel
    by (simp add: i set_entry_def)
qed

lemma set_flags_ok:
  assumes "complete_path P" and "\<forall>(seg, nxt) \<in> set (path_segs P). storable seg 0 None" and "storable n fl rl"
    and "info T (seg_names P) = (0, None)" and "tree_all storable T"
  shows "tree_all storable (File_SetPathFlags_internal T P fl 0 rl)"
proof -
  let ?s = "path_segs P" and ?f = "set_flags fl 0 rl"
  have p: "proper ?s" using assms(1) by (simp add: complete_proper)
  have nd: "node_all storable (node_of ?s T)" using node_of_name [OF p assms(2,5)] .
  have "node_info (node_of ?s T) [] = (0, None)" using node_info_of [OF p, of T "[]"] assms(4) by (simp add: seg_names_eq)
  then have z: "pn_flags (node_of ?s T) = 0" "pn_reloc (node_of ?s T) = None" by (auto simp: node_info_def)
  have "storable (pn_name (node_of ?s T)) fl rl" using storable_name [OF _ assms(3)] nd z by (simp add: node_all_iff)
  moreover have "(pn_flags (?f (node_of ?s T)), pn_reloc (?f (node_of ?s T))) = (fl, rl)"
    using storable_rel [OF assms(3)] node_info_flags_set [of fl 0 rl "node_of ?s T" "[]"] z by (simp add: node_info_def)
  moreover have "pn_items (?f (node_of ?s T)) = pn_items (node_of ?s T)" by (simp add: set_flags_def Let_def)
  ultimately have "node_all storable (?f (node_of ?s T))" using nd by (simp add: node_all_iff)
  then show ?thesis unfolding File_SetPathFlags_internal_def by (intro set_path_ok p assms(2,5)) simp_all
qed

lemma set_entry_ok:
  assumes "entry_ok (ns, i)" and "info T (map wcslwr ns) = (0, None)" and "tree_all storable T"
  shows "tree_all storable (set_entry T (ns, i))"
proof -
  obtain fl rl where i: "i = (fl, rl)" by (cases i)
  let ?s = "path_segs (names_text ns)"
  have ok: "storable (last ns) fl rl" "\<forall>n \<in> set ns. storable n 0 None" using assms(1) by (auto simp: i entry_ok_def)
  have ns: "ns \<noteq> []" "\<forall>n \<in> set ns. n \<noteq> [] \<and> BS \<notin> set n" using entry_names assms(1) i by auto
  have "storable seg 0 None" if "(seg, nxt) \<in> set ?s" for seg nxt
  proof -
    have "seg \<in> set (map fst ?s)" using that by (metis fst_conv image_eqI set_map)
    then show "storable seg 0 None" using ok(2) path_segs_names [OF ns] by simp
  qed
  then show ?thesis
    using set_flags_ok [OF names_text_complete(1) [OF ns] _ ok(1), of T] assms(2,3) names_text_complete(2) [OF ns]
    by (auto simp: i set_entry_def)
qed

lemma load_info:
  assumes "\<forall>e \<in> set es. entry_ok e" and "distinct (ekeys es)" and "\<forall>k \<in> set (ekeys es). info T k = (0, None)" and "tree_all storable T"
  shows "info (foldl set_entry T es) ks = (if ks \<in> set (ekeys es) then found es ks else info T ks)
    \<and> tree_all storable (foldl set_entry T es)"
  using assms
proof (induction es arbitrary: T)
  case (Cons e es)
  obtain ns i where e: "e = (ns, i)" by (cases e)
  have ok: "entry_ok (ns, i)" "info T (map wcslwr ns) = (0, None)" using Cons.prems by (auto simp: e)
  note T' = set_entry_info [OF ok] set_entry_ok [OF ok Cons.prems(4)]
  have "info (foldl set_entry (set_entry T e) es) ks = (if ks \<in> set (ekeys es) then found es ks else info (set_entry T e) ks)
      \<and> tree_all storable (foldl set_entry (set_entry T e) es)"
  proof (rule Cons.IH)
    show "\<forall>k \<in> set (ekeys es). info (set_entry T e) k = (0, None)"
    proof
      fix k assume k: "k \<in> set (ekeys es)"
      then have "k \<noteq> map wcslwr ns" using Cons.prems(2) unfolding e by (metis distinct.simps(2) fst_conv list.simps(9))
      then show "info (set_entry T e) k = (0, None)" using T'(1) [of k] k Cons.prems(3) by (auto simp: e)
    qed
  qed (use Cons.prems T' in \<open>simp_all add: e\<close>)
  then show ?case using Cons.prems(2) T'(1) by (auto simp: e found_Cons)
qed simp

theorem save_load:
  assumes "tree_all storable T"
  shows "\<exists>T'. load_loop no_translate (File_SavePathTree_internal no_translate T) [] = T'
    \<and> tree_all storable T' \<and> pruned False (info T') (info T)"
proof -
  let ?es = "entries 0 T"
  have ok: "\<forall>e \<in> set ?es. entry_ok e" using entries_fit [OF assms] by (auto simp: entry_ok_def)
  have "File_SavePathTree_internal no_translate T = concat (map entry_text ?es)"
    using save_entries [of "[]" 0 T] by (simp add: File_SavePathTree_internal_def names_text_def)
  then have l: "load_loop no_translate (File_SavePathTree_internal no_translate T) [] = foldl set_entry [] ?es"
    using load_entries [OF ok] by simp
  have i: "info (foldl set_entry [] ?es) ks = found ?es ks" "tree_all storable (foldl set_entry [] ?es)" for ks
    using load_info [OF ok entries_distinct [OF assms], of "[]" ks] found_none [of ks ?es] by auto
  have "info (foldl set_entry [] ?es) = found ?es" using i(1) by (rule ext)
  then have "pruned False (info (foldl set_entry [] ?es)) (info T)" using entries_pruned [OF assms, of 0] by simp
  then show ?thesis using l i(2) by blast
qed

text \<open>
  C10. Reading the file that was written for a tree gives a tree with the same answers (deleted,
  relocated, target; not the flag of deleted children) for every path, if names have no bar and no line break and no node is both deleted and relocated.
\<close>

theorem save_load_answers:
  assumes "tree_all storable T"
  shows "\<exists>T'. File_LoadPathTree_internal no_translate (Some (File_SavePathTree_internal no_translate T)) R = (True, T')
    \<and> tree_all storable T' \<and> (\<forall>Q c. answer (File_GetPathFlags_internal T' Q c) = answer (File_GetPathFlags_internal T Q c))"
proof -
  obtain T' where "load_loop no_translate (File_SavePathTree_internal no_translate T) [] = T'" "tree_all storable T'"
    "pruned False (info T') (info T)" using save_load [OF assms] by blast
  then show ?thesis using answer_pruned by (auto simp: File_LoadPathTree_internal_def lookup_walk)
qed

theorem save_load_answers_witness:
  "\<exists>T'. File_LoadPathTree_internal no_translate (Some (File_SavePathTree_internal no_translate demo_tree)) [] = (True, T')
    \<and> tree_all storable T' \<and> (\<forall>Q c. answer (File_GetPathFlags_internal T' Q c) = answer (File_GetPathFlags_internal demo_tree Q c))"
  by (rule save_load_answers) code_simp

end
