(* ===== verification/PathTreeBox.thy ===== *)
theory PathTreeBox
  imports PathTreeFile
begin

text \<open>
  The processes of a box share the path tree of the registry through its file (\<^verbatim>\<open>core/dll/key_del.c\<close>): the
  invariant of the box, that all processes answer as the file says, and where updates are lost.
\<close>

section \<open>The processes of a box\<close>

lemmas Key_InitDelete_defs = Key_InitDelete_v2_def Key_InitDelete_load_def Key_InitDelete_watch_def

text \<open>Texts of complete lines; a line that is appended to one is read after it.\<close>

definition whole_lines :: "wstring \<Rightarrow> bool" where
  "whole_lines t \<longleftrightarrow> t = [] \<or> last t = PT_LF"

lemma load_lines: "whole_lines t \<Longrightarrow> load_loop tr (t @ u) T = load_loop tr u (load_loop tr t T)"
proof (induction tr t T rule: load_loop.induct)
  case (1 tr t T)
  show ?case
  proof (cases "t = []")
    case True
    then show ?thesis by (simp add: load_loop.simps [of tr "[]"])
  next
    case False
    let ?l = "takeWhile (\<lambda>c. c \<noteq> PT_LF) t"
    have "PT_LF \<in> set t" using 1(2) False by (metis last_in_set whole_lines_def)
    then have tw: "takeWhile (\<lambda>c. c \<noteq> PT_LF) (t @ u) = ?l" by (subst takeWhile_append1) auto
    have "dropWhile (\<lambda>c. c \<noteq> PT_LF) t \<noteq> []" using \<open>PT_LF \<in> set t\<close> by (simp add: dropWhile_eq_Nil_conv)
    then have "length ?l < length t"
      using arg_cong [OF takeWhile_dropWhile_id [of "\<lambda>c. c \<noteq> PT_LF" t], of length] by (metis length_append length_greater_0_conv less_add_same_cancel1)
    then have d: "drop (length ?l + 1) (t @ u) = drop (length ?l + 1) t @ u" by simp
    have w: "whole_lines (drop (length ?l + 1) t)" using 1(2) False by (cases "length ?l + 1 < length t") (auto simp: whole_lines_def)
    show ?thesis
      using 1(1) [OF False refl refl w] False tw d
      by (simp add: load_loop.simps [of tr "t @ u"] load_loop.simps [of tr t] Let_def)
  qed
qed

lemma whole_append: "whole_lines (t @ File_AppendPathEntry_internal tr P fl rl)"
  by (simp add: whole_lines_def File_AppendPathEntry_internal_def)

lemma whole_save: "whole_lines (save_nodes tr path S items)"
proof (induction tr path S items rule: save_nodes.induct)
  case (2 tr path S name flags reloc items cs)
  have a: "whole_lines t \<Longrightarrow> whole_lines u \<Longrightarrow> whole_lines (t @ u)" for t u by (auto simp: whole_lines_def last_append)
  show ?case using 2 whole_append [of "[]"] by (simp add: Let_def a)
qed (simp add: whole_lines_def)

text \<open>What the file says, and whether a process has seen its last version.\<close>

definition file_tree :: "wstring \<Rightarrow> path_node list" where
  "file_tree t = load_loop no_translate t []"

definition shared_tree :: "key_box \<Rightarrow> path_node list" where
  "shared_tree b = (case kb_file b of None \<Rightarrow> [] | Some t \<Rightarrow> file_tree t)"

definition up_to_date :: "key_box \<Rightarrow> nat \<Rightarrow> bool" where
  "up_to_date b i \<longleftrightarrow> kb_attr b = Some (Key_PathsAttr (kb_proc b i))"

definition proc_ok :: "key_box \<Rightarrow> nat \<Rightarrow> bool" where
  "proc_ok b i \<longleftrightarrow> kb_file b \<noteq> None \<and> tree_all storable (Key_PathRoot (kb_proc b i)) \<and> snd (Key_PathsAttr (kb_proc b i)) \<le> kb_date b
     \<and> (if up_to_date b i then pruned False (info (shared_tree b)) (info (Key_PathRoot (kb_proc b i))) else Key_ChangeBit (kb_proc b i))"

definition box_ok :: "nat set \<Rightarrow> key_box \<Rightarrow> bool" where
  "box_ok S b \<longleftrightarrow> tree_all storable (shared_tree b) \<and> (case kb_file b of None \<Rightarrow> True | Some t \<Rightarrow> whole_lines t) \<and> (\<forall>i \<in> S. proc_ok b i)"

lemma file_tree_Nil [simp]: "file_tree [] = []"
  by (simp add: file_tree_def load_loop.simps)

lemma pruned_refl: "pruned d I I"
  by (simp add: pruned_def)

lemma write_ok:
  assumes "box_ok S b" and "whole_lines t" and "tree_all storable (file_tree t)" and "tree_all storable T"
    and "pruned False (info (file_tree t)) (info T)"
  shows "box_ok S (see_attr i (kb_write t (kb_upd i (\<lambda>p. p\<lparr>Key_PathRoot := T\<rparr>) b)))"
proof -
  let ?b = "see_attr i (kb_write t (kb_upd i (\<lambda>p. p\<lparr>Key_PathRoot := T\<rparr>) b))"
  have f: "kb_file ?b = Some t" "kb_date ?b = kb_date b + 1" "shared_tree ?b = file_tree t" "kb_attr ?b = Some (2 * length t, kb_date b + 1)"
    by (simp_all add: see_attr_def kb_attr_def kb_write_def kb_upd_def shared_tree_def)
  have "proc_ok ?b j" if "j \<in> S" for j
  proof (cases "j = i")
    case True
    then have "Key_PathRoot (kb_proc ?b j) = T" "Key_PathsAttr (kb_proc ?b j) = (2 * length t, kb_date b + 1)"
      by (simp_all add: see_attr_def kb_attr_def kb_write_def kb_upd_def)
    then show ?thesis using assms f by (simp add: proc_ok_def up_to_date_def)
  next
    case False
    then have p: "kb_proc ?b j = (kb_proc b j)\<lparr>Key_ChangeBit := True\<rparr>"
      by (simp add: see_attr_def kb_attr_def kb_write_def kb_upd_def)
    have "proc_ok b j" using assms(1) that by (simp add: box_ok_def)
    then have "snd (Key_PathsAttr (kb_proc b j)) \<le> kb_date b" "tree_all storable (Key_PathRoot (kb_proc b j))" by (simp_all add: proc_ok_def)
    moreover from this have "\<not> up_to_date ?b j" using f p by (auto simp: up_to_date_def dest: arg_cong [where f = snd])
    ultimately show ?thesis using f p by (simp add: proc_ok_def)
  qed
  then show ?thesis using assms f by (simp add: box_ok_def)
qed

text \<open>Marking a path in the tree of a process and in the file.\<close>

lemma segs_storable: "plain_path P \<Longrightarrow> \<forall>(seg, nxt) \<in> set (path_segs P). storable seg 0 None"
proof (induction P rule: path_segs.induct)
  case (1 p)
  let ?seg = "takeWhile (\<lambda>c. c \<noteq> BS) p" and ?nxt = "dropWhile (\<lambda>c. c \<noteq> BS) p"
  have sub: "set ?seg \<subseteq> set p" "set (drop 1 ?nxt) \<subseteq> set p" "BS \<notin> set ?seg"
    using set_dropWhileD [of _ "\<lambda>c. c \<noteq> BS" p] by (auto dest: set_takeWhileD in_set_dropD)
  have st: "?seg \<noteq> [] \<Longrightarrow> storable ?seg 0 None"
    using 1(3) sub by (auto simp: storable_def node_fields_ok_def flag_defs)
  have pl: "plain_path (drop 1 ?nxt)" using 1(3) sub(2) by blast
  show ?case
    by (subst path_segs.simps) (use 1(1) [OF _ refl refl _ pl] 1(2) [OF _ refl refl _ _ pl] st in \<open>auto simp: Let_def\<close>)
qed

lemma shadow_cong_take:
  "(\<And>i. 0 < i \<Longrightarrow> i < length ks \<Longrightarrow> I (take i ks) = J (take i ks)) \<Longrightarrow> shadow d I ks = shadow d J ks"
proof (induction ks arbitrary: I J d)
  case (Cons k ks)
  show ?case
  proof (cases "ks = []")
    case False
    have "I [k] = J [k]" using Cons.prems [of 1] False by simp
    moreover have "shadow e (\<lambda>ks. I (k # ks)) ks = shadow e (\<lambda>ks. J (k # ks)) ks" for e
      using Cons.prems [of "Suc i" for i] by (intro Cons.IH) simp
    ultimately show ?thesis using False by simp
  qed simp
qed simp

lemma mark_pruned:
  assumes "tree_all storable T" and "plain_path P" and "complete_path P" and "File_MarkDeleted_internal T P = (changed, False, T')"
    and "changed" and "pruned False (info L) (info T)"
  shows "pruned False (info (File_SetPathFlags_internal L P FILE_DELETED_FLAG 0 None)) (info T')"
    and "info L (seg_names P) = (0, None)"
proof -
  let ?p = "seg_names P" and ?L = "File_SetPathFlags_internal L P FILE_DELETED_FLAG 0 None"
  have pr: "proper (path_segs P)" using assms(3) by (simp add: complete_proper)
  have "find_path (path_segs P) T = None" using assms(4,5) by (auto simp: File_MarkDeleted_internal_def split: option.splits if_splits)
  from find_path_none [OF pr this] have z: "take (length ?p) ks = ?p \<Longrightarrow> info T ks = (0, None)" for ks by (simp add: seg_names_eq)
  have ne: "?p \<noteq> []" using assms(3) by (auto simp: complete_path_def seg_names_def)
  have zL: "info L ks = (0, None)" if "take (length ?p) ks = ?p" for ks
    using prunedD [OF assms(6), of ks] z [OF that] that ne by (cases "ks = []") auto
  then show L0: "info L ?p = (0, None)" by simp
  have d: "flags_set FILE_DELETED_FLAG 0 None (0, None) = (FILE_DELETED_FLAG, None)"
    by (simp add: flags_set_def set_flags_def Let_def flag_defs)
  note T' = stored.info_mark(1) [OF assms(1) segs_storable [OF assms(2)] assms(3,4)]
  show "pruned False (info ?L) (info T')" unfolding pruned_def
  proof (intro allI impI)
    fix ks :: "wstring list" assume ks: "ks \<noteq> []"
    show "info ?L ks = info T' ks \<or> info ?L ks = (0, None) \<and> info T' ks = (FILE_DELETED_FLAG, None) \<and> shadow False (info T') ks"
    proof (cases "take (length ?p) ks = ?p")
      case True
      then show ?thesis unfolding T' info_set_flags [OF assms(3)] using zL [OF True] L0 d by simp
    next
      case False
      note ne = not_under_take [OF False]
      have "shadow False (info T') ks = shadow False (info T) ks"
        by (rule shadow_cong_take) (simp only: T' ne if_False)
      moreover have "info T' ks = info T ks" "info ?L ks = info L ks"
        unfolding T' info_set_flags [OF assms(3)] using False by auto
      ultimately show ?thesis using prunedD [OF assms(6) ks] by simp
    qed
  qed
qed

lemma upd_other_ok:
  assumes "box_ok S b" and "\<And>j. j \<in> S \<Longrightarrow> j \<noteq> i \<Longrightarrow> kb_proc b' j = kb_proc b j" and "kb_file b' = kb_file b" and "kb_date b' = kb_date b"
    and "i \<in> S' \<Longrightarrow> proc_ok b' i" and "S' \<subseteq> insert i S"
  shows "box_ok S' b'"
proof -
  have s: "shared_tree b' = shared_tree b" "kb_attr b' = kb_attr b" using assms(3,4) by (simp_all add: shared_tree_def kb_attr_def)
  have "proc_ok b' j" if "j \<in> S'" for j
  proof (cases "j = i")
    case False
    then have "j \<in> S" using that assms(6) by auto
    then have "proc_ok b j" "kb_proc b' j = kb_proc b j" using assms(1,2) False by (auto simp: box_ok_def)
    then show ?thesis using assms(3,4) s by (simp add: proc_ok_def up_to_date_def)
  qed (use assms(5) that in simp)
  then show ?thesis using assms(1,3) s by (simp add: box_ok_def)
qed

lemma refresh_ok:
  assumes "box_ok S b" and "i \<in> S"
  shows "box_ok S (Key_RefreshPathTree i b) \<and> up_to_date (Key_RefreshPathTree i b) i \<and> kb_file (Key_RefreshPathTree i b) = kb_file b"
proof -
  let ?b = "Key_RefreshPathTree i b"
  have ok: "proc_ok b i" "tree_all storable (shared_tree b)" using assms by (auto simp: box_ok_def)
  then obtain t where t: "kb_file b = Some t" by (auto simp: proc_ok_def)
  have fd: "kb_file ?b = kb_file b" "kb_date ?b = kb_date b" "j \<noteq> i \<Longrightarrow> kb_proc ?b j = kb_proc b j" for j
    by (auto simp: Key_RefreshPathTree_def kb_upd_def kb_attr_def t Let_def Key_LoadPathTree_def)
  have "proc_ok ?b i \<and> up_to_date ?b i"
  proof (cases "up_to_date b i")
    case True
    then have "Key_RefreshPathTree i b = kb_upd i (\<lambda>p. p\<lparr>Key_ChangeBit := False\<rparr>) b \<or> Key_RefreshPathTree i b = b"
      by (auto simp: Key_RefreshPathTree_def up_to_date_def kb_upd_def kb_attr_def t Let_def)
    then show ?thesis using ok True by (auto simp: proc_ok_def up_to_date_def kb_upd_def kb_attr_def shared_tree_def)
  next
    case False
    then have c: "Key_ChangeBit (kb_proc b i)" "Key_PathsAttr (kb_proc b i) \<noteq> (2 * length t, kb_date b)"
      using ok by (auto simp: proc_ok_def up_to_date_def kb_attr_def t)
    then have p: "Key_PathRoot (kb_proc ?b i) = file_tree t" "Key_PathsAttr (kb_proc ?b i) = (2 * length t, kb_date b)"
      by (simp_all add: Key_RefreshPathTree_def kb_upd_def kb_attr_def t Let_def Key_LoadPathTree_def
          File_LoadPathTree_internal_def file_tree_def)
    have s: "shared_tree ?b = file_tree t" using fd t by (simp add: shared_tree_def)
    have "up_to_date ?b i" using fd p t by (simp add: up_to_date_def kb_attr_def)
    then show ?thesis using fd p t s ok by (simp add: proc_ok_def pruned_refl shared_tree_def)
  qed
  then show ?thesis using upd_other_ok [OF assms(1), of i ?b S] fd assms(2) by auto
qed

lemma init_ok:
  assumes "box_ok S b"
  shows "box_ok (insert i S) (Key_InitDelete_v2 w i b)"
proof (cases "kb_file b")
  case None
  then have "S = {}" using assms by (auto simp: box_ok_def proc_ok_def)
  then show ?thesis using None
    by (simp add: box_ok_def proc_ok_def Key_InitDelete_defs Key_LoadPathTree_def see_attr_def kb_upd_def kb_attr_def kb_write_def
        shared_tree_def File_LoadPathTree_internal_def up_to_date_def pruned_refl whole_lines_def)
next
  case (Some t)
  let ?b = "Key_InitDelete_v2 w i b"
  have fd: "kb_file ?b = kb_file b" "kb_date ?b = kb_date b" "j \<noteq> i \<Longrightarrow> kb_proc ?b j = kb_proc b j"
    "Key_PathRoot (kb_proc ?b i) = file_tree t" "Key_PathsAttr (kb_proc ?b i) = (2 * length t, kb_date b)" for j
    by (auto simp: Key_InitDelete_defs kb_upd_def kb_attr_def Some Let_def Key_LoadPathTree_def see_attr_def
        File_LoadPathTree_internal_def file_tree_def)
  have "shared_tree ?b = file_tree t" "shared_tree b = file_tree t" using fd Some by (simp_all add: shared_tree_def)
  moreover have "up_to_date ?b i" using fd Some by (simp add: up_to_date_def kb_attr_def)
  moreover have "tree_all storable (shared_tree b)" using assms by (simp add: box_ok_def)
  ultimately have "proc_ok ?b i" using fd Some by (simp add: proc_ok_def pruned_refl)
  then show ?thesis using upd_other_ok [OF assms, of i ?b "insert i S"] fd by auto
qed

lemma save_ok:
  assumes "box_ok S b" and "tree_all storable T"
  shows "box_ok S (Key_SavePathTree True i (kb_upd i (\<lambda>p. p\<lparr>Key_PathRoot := T\<rparr>) b))"
proof -
  let ?t = "File_SavePathTree_internal no_translate T"
  have "whole_lines ?t" by (simp add: File_SavePathTree_internal_def whole_save)
  moreover have "tree_all storable (file_tree ?t)" "pruned False (info (file_tree ?t)) (info T)"
    using save_load [OF assms(2)] by (auto simp: file_tree_def)
  ultimately show ?thesis using write_ok [OF assms(1) _ _ assms(2), of ?t i]
    by (simp add: Key_SavePathTree_def kb_upd_def)
qed

lemma mark_ok:
  assumes "box_ok S b" and "i \<in> S" and "plain_path (key_full_path P v)" and "complete_path (key_full_path P v)"
    and "File_MarkDeleted_internal (Key_PathRoot (kb_proc b i)) (key_full_path P v) = (changed, trunc, T')"
  shows "box_ok S (Key_MarkDeletedEx_v2 True i P v b)"
    and "Key_PathRoot (kb_proc (Key_MarkDeletedEx_v2 True i P v b) i) = T'"
    and "up_to_date b i \<or> changed \<Longrightarrow> up_to_date (Key_MarkDeletedEx_v2 True i P v b) i"
proof -
  let ?P = "key_full_path P v" and ?T = "Key_PathRoot (kb_proc b i)" and ?b' = "Key_MarkDeletedEx_v2 True i P v b"
  let ?b1 = "kb_upd i (\<lambda>p. p\<lparr>Key_PathRoot := T'\<rparr>) b"
  let ?app = "File_AppendPathEntry_internal no_translate ?P FILE_DELETED_FLAG None"
  have ok: "proc_ok b i" "tree_all storable (shared_tree b)" using assms by (auto simp: box_ok_def)
  then obtain t where t: "kb_file b = Some t" by (auto simp: proc_ok_def)
  have T: "tree_all storable ?T" using ok by (simp add: proc_ok_def)
  have T': "tree_all storable T'" using stored.info_mark(2) [OF T segs_storable [OF assms(3)] assms(4,5)] .
  have up1: "kb_attr ?b1 = Some (Key_PathsAttr (kb_proc ?b1 i)) \<longleftrightarrow> up_to_date b i" "kb_file ?b1 = Some t"
    by (simp_all add: up_to_date_def kb_upd_def kb_attr_def t)
  consider (same) "\<not> changed" "?b' = b" "T' = ?T"
    | (app) "changed" "\<not> trunc" "up_to_date b i" "?b' = see_attr i (kb_write (t @ ?app) ?b1)"
    | (save) "changed" "?b' = Key_SavePathTree True i ?b1"
  proof (cases "changed")
    case False
    then have "T' = ?T" using assms(5) by (auto simp: File_MarkDeleted_internal_def split: option.splits if_splits)
    moreover from this have "?b' = b" using False assms(5) by (simp add: Key_MarkDeletedEx_v2_def kb_upd_def)
    ultimately show ?thesis using same False by blast
  next
    case True
    then have "?b' = (if \<not> trunc \<and> up_to_date b i then see_attr i (kb_write (t @ ?app) ?b1) else Key_SavePathTree True i ?b1)"
      using assms(5) up1 by (simp add: Key_MarkDeletedEx_v2_def)
    then show ?thesis using app save True by (auto split: if_splits)
  qed
  then have "box_ok S ?b' \<and> Key_PathRoot (kb_proc ?b' i) = T' \<and> (up_to_date b i \<or> changed \<longrightarrow> up_to_date ?b' i)"
  proof cases
    case same
    then show ?thesis using assms(1) by simp
  next
    case app
    have s: "pruned False (info (file_tree t)) (info ?T)" "tree_all storable (file_tree t)"
      using ok app t by (simp_all add: proc_ok_def shared_tree_def)
    have m: "File_MarkDeleted_internal ?T ?P = (changed, False, T')" using assms(5) app by simp
    note mp = mark_pruned [OF T assms(3,4) m app(1) s(1)]
    have w: "whole_lines t" using assms(1) t by (simp add: box_ok_def)
    have f: "file_tree (t @ ?app) = File_SetPathFlags_internal (file_tree t) ?P FILE_DELETED_FLAG 0 None"
      using load_lines [OF w, of no_translate ?app "[]"] load_append [OF assms(3), of FILE_DELETED_FLAG None "[]"]
      by (simp add: file_tree_def flag_defs load_loop.simps [of no_translate "[]"])
    have "storable ''a'' FILE_DELETED_FLAG None" by (simp add: storable_def node_fields_ok_def line_char_def flag_defs)
    from set_flags_ok [OF assms(4) segs_storable [OF assms(3)] this mp(2) s(2)]
    have "tree_all storable (file_tree (t @ ?app))" using f by simp
    from write_ok [OF assms(1) whole_append this T', of i] show ?thesis using mp(1) f app
      by (simp add: see_attr_def kb_write_def kb_upd_def kb_attr_def up_to_date_def)
  next
    case save
    then show ?thesis using save_ok [OF assms(1) T', of i]
      by (simp add: Key_SavePathTree_def see_attr_def kb_write_def kb_upd_def kb_attr_def up_to_date_def)
  qed
  then show "box_ok S ?b'" "Key_PathRoot (kb_proc ?b' i) = T'" "up_to_date b i \<or> changed \<Longrightarrow> up_to_date ?b' i" by blast+
qed

section \<open>Runs of the processes of a box\<close>

text \<open>
  Runs in which the file can be opened, the start of a process is not interrupted by a write of another one, the
  deleted names have no bar and no line break, and renamings leave a tree that can be written.  Each
  of these is needed, as the last section shows.
\<close>

inductive box_run :: "nat set \<Rightarrow> key_box \<Rightarrow> bool" where
  fresh_box: "kb_file b = None \<Longrightarrow> box_run {} b"
| start: "box_run S b \<Longrightarrow> box_run (insert i S) (Key_InitDelete_v2 w i b)"
| leave: "box_run S b \<Longrightarrow> box_run (S - {i}) b"
| look: "box_run S b \<Longrightarrow> i \<in> S \<Longrightarrow> box_run S (snd (Key_GetPathFlags i path b))"
| mark: "box_run S b \<Longrightarrow> i \<in> S \<Longrightarrow> plain_path (key_full_path P v) \<Longrightarrow> complete_path (key_full_path P v)
    \<Longrightarrow> box_run S (Key_MarkDeletedEx_v2 True i P v b)"
| rename: "box_run S b \<Longrightarrow> i \<in> S \<Longrightarrow> File_SetRelocation_internal (Key_PathRoot (kb_proc b i)) Old New = Some T
    \<Longrightarrow> tree_all storable T \<Longrightarrow> Key_SetRelocation True i Old New b = Some b' \<Longrightarrow> box_run S b'"

lemma box_run_ok: "box_run S b \<Longrightarrow> box_ok S b"
proof (induction rule: box_run.induct)
  case (fresh_box b)
  then show ?case by (simp add: box_ok_def shared_tree_def)
next
  case (start S b i)
  then show ?case by (simp add: init_ok)
next
  case (leave S b i)
  then show ?case by (auto simp: box_ok_def)
next
  case (look S b i path)
  then show ?case using refresh_ok [of S b i] by (simp add: Key_GetPathFlags_def Let_def)
next
  case (mark S b i P v)
  then show ?case using mark_ok(1) by (metis prod_cases3)
next
  case (rename S b i Old New T b')
  then show ?case using save_ok [of S b T i] by (auto simp: Key_SetRelocation_def)
qed

lemma look_shared:
  assumes "box_ok S b" and "i \<in> S"
  shows "answer (fst (Key_GetPathFlags i path b)) = walk_answer (info (shared_tree b)) path"
proof -
  let ?b = "Key_RefreshPathTree i b"
  have r: "box_ok S ?b" "up_to_date ?b i" "kb_file ?b = kb_file b" using refresh_ok [OF assms] by auto
  then have "proc_ok ?b i" using assms(2) by (simp add: box_ok_def)
  then have "pruned False (info (shared_tree ?b)) (info (Key_PathRoot (kb_proc ?b i)))" using r(2) by (simp add: proc_ok_def)
  moreover have "shared_tree ?b = shared_tree b" using r(3) by (simp add: shared_tree_def)
  ultimately show ?thesis using answer_pruned by (simp add: Key_GetPathFlags_def Let_def lookup_walk)
qed

lemma shared_own:
  assumes "box_ok S b" and "i \<in> S" and "up_to_date b i"
  shows "walk_answer (info (shared_tree b)) path = walk_answer (info (Key_PathRoot (kb_proc b i))) path"
  using assms answer_pruned by (simp add: box_ok_def proc_ok_def)

lemma IsDeleted_answer: "fst (Key_IsDeleted_v2 j Q b) \<noteq> 0 \<longleftrightarrow> fst (answer (fst (Key_GetPathFlags j Q b)))"
  by (cases "Key_GetPathFlags j Q b") (auto simp: Key_IsDeleted_v2_def answer_def FILE_PATH_DELETED_def split: prod.splits)

text \<open>
  C21. In every run of the processes of a box each process answers lookups (deleted or not, relocated or not, the
  target; not the flag of deleted children) as the shared file says.  The runs are those of \<^const>\<open>box_run\<close>:
  processes start, end, look, delete names without bar or line break and rename with a tree that can be
  written; the file can always be opened, and nobody writes it while a process starts.
\<close>

theorem box_lookup_shared:
  assumes "box_run S b" and "i \<in> S"
  shows "answer (fst (Key_GetPathFlags i Q b)) = answer (File_GetPathFlags_internal (shared_tree b) Q True)"
  unfolding lookup_walk by (rule look_shared [OF box_run_ok [OF assms(1)] assms(2)])

definition key_demo_proc :: key_proc where
  "key_demo_proc = \<lparr>Key_PathRoot = [], Key_PathsAttr = (0, 0), Key_PathsVersion = 0, Key_ChangeBit = False\<rparr>"

definition key_demo_box :: key_box where
  "key_demo_box = Key_InitDelete_v2 True 1 (Key_InitDelete_v2 True 0 \<lparr>kb_file = None, kb_date = 0, kb_proc = (\<lambda>_. key_demo_proc)\<rparr>)"

lemma key_demo_box_run: "box_run {0, 1} key_demo_box"
proof -
  have "box_run {0} (Key_InitDelete_v2 True 0 \<lparr>kb_file = None, kb_date = 0, kb_proc = (\<lambda>_. key_demo_proc)\<rparr>)"
    using box_run.start [OF box_run.fresh_box, of "\<lparr>kb_file = None, kb_date = 0, kb_proc = (\<lambda>_. key_demo_proc)\<rparr>" 0] by simp
  from box_run.start [OF this, of 1] show ?thesis by (simp add: key_demo_box_def insert_commute)
qed

definition key_demo_marked :: key_box where
  "key_demo_marked = Key_MarkDeletedEx_v2 True 0 (names_text [''k'']) (Some ''v'') key_demo_box"

lemma key_demo_marked_run: "box_run {0, 1} key_demo_marked"
  unfolding key_demo_marked_def by (rule box_run.mark [OF key_demo_box_run]) code_simp+

theorem box_lookup_shared_witness:
  "answer (fst (Key_GetPathFlags 1 (names_text [''k'', ''$v'']) key_demo_marked)) =
     answer (File_GetPathFlags_internal (shared_tree key_demo_marked) (names_text [''k'', ''$v'']) True)"
  using box_lookup_shared [OF key_demo_marked_run, of 1] by simp

text \<open>
  C9. When a process that has seen the last version of the file marks a key or value as deleted, whose name has no
  bar and no line break, and the file can be opened, every process of the box finds it and everything
  below it deleted, and gets its earlier answers (without the flag of deleted children) for all other
  paths, whether a line was appended or the file was written anew.  The box is in a run of \<^const>\<open>box_run\<close>.
\<close>

theorem mark_visible:
  assumes "box_run S b" and "i \<in> S" and "j \<in> S" and "up_to_date b i"
    and "plain_path (key_full_path P v)" and "complete_path (key_full_path P v)" and "complete_path Q"
  shows "if under (key_full_path P v) Q then fst (Key_IsDeleted_v2 j Q (Key_MarkDeletedEx_v2 True i P v b)) \<noteq> 0
    else answer (fst (Key_GetPathFlags j Q (Key_MarkDeletedEx_v2 True i P v b))) = answer (fst (Key_GetPathFlags j Q b))"
proof -
  let ?P = "key_full_path P v" and ?T = "Key_PathRoot (kb_proc b i)" and ?b = "Key_MarkDeletedEx_v2 True i P v b"
  obtain changed trunc T' where m: "File_MarkDeleted_internal ?T ?P = (changed, trunc, T')" by (metis prod_cases3)
  note ok = box_run_ok [OF assms(1)]
  note k = mark_ok [OF ok assms(2,5,6) m]
  have T: "tree_all storable ?T" using ok assms(2) by (simp add: box_ok_def proc_ok_def)
  note mk = T segs_storable [OF assms(5)] assms(6) m
  have "answer (fst (Key_GetPathFlags j Q ?b)) = walk_answer (info T') Q"
    using look_shared [OF k(1) assms(3)] shared_own [OF k(1) assms(2) k(3)] assms(4) k(2) by simp
  moreover have "answer (fst (Key_GetPathFlags j Q b)) = walk_answer (info ?T) Q"
    using look_shared [OF ok assms(3)] shared_own [OF ok assms(2,4)] by simp
  ultimately show ?thesis
    using stored.mark_answer_other [OF mk assms(7)] stored.mark_answer_under [OF mk assms(7)] by (simp add: IsDeleted_answer)
qed
theorem mark_visible_witness:
  "fst (Key_IsDeleted_v2 1 (names_text [''K'', ''sub'', ''x'']) (Key_MarkDeletedEx_v2 True 0 (names_text [''k'', ''Sub'']) None key_demo_marked)) \<noteq> 0"
proof -
  let ?P = "names_text [''k'', ''Sub'']" and ?Q = "names_text [''K'', ''sub'', ''x'']"
  have "up_to_date key_demo_marked 0" "plain_path (key_full_path ?P None)" "complete_path (key_full_path ?P None)" "complete_path ?Q"
    "under (key_full_path ?P None) ?Q" by code_simp+
  then show ?thesis using mark_visible [OF key_demo_marked_run, of 0 1 ?P None ?Q] by simp
qed

section \<open>Where the code departs from its comments\<close>

text \<open>
  A process that has not looked since another one wrote the file overwrites it with its own tree:
  the deletion of \<^verbatim>\<open>\k\$v\<close> by process 0 is lost when process 1 deletes another key.
\<close>

theorem stale_mark_loses_deletion:
  "fst (Key_IsDeleted_v2 0 (names_text [''k'', ''$v'']) key_demo_marked) \<noteq> 0
   \<and> fst (Key_IsDeleted_v2 0 (names_text [''k'', ''$v'']) (Key_MarkDeletedEx_v2 True 1 (names_text [''other'']) None key_demo_marked)) = 0"
  by code_simp

text \<open>
  When the file cannot be opened for the line, the key is deleted for the process that marked it and for no other
  one, and looking again does not change that.
\<close>

lemma failed_open_diverges:
  "let b = Key_MarkDeletedEx_v2 False 0 (names_text [''k'']) None key_demo_box
   in fst (Key_IsDeleted_v2 0 (names_text [''k'']) b) \<noteq> 0 \<and> fst (Key_IsDeleted_v2 1 (names_text [''k'']) b) = 0
      \<and> kb_file b = kb_file key_demo_box"
  by code_simp

text \<open>
  When the whole tree cannot be written, the attributes are read all the same: the process takes the version of
  another one for seen, and never learns of the deletion it holds.
\<close>

lemma failed_save_hides_deletion:
  "let b = Key_MarkDeletedEx_v2 False 1 (names_text [''other'']) None key_demo_marked
   in fst (Key_IsDeleted_v2 0 (names_text [''k'', ''$v'']) b) \<noteq> 0 \<and> fst (Key_IsDeleted_v2 1 (names_text [''k'', ''$v'']) b) = 0
      \<and> up_to_date b 1"
  by code_simp

text \<open>
  A deletion written while a process starts, after it loaded the tree and before it reads the attributes, is never
  seen by it, whether the watcher was there before or not.
\<close>

lemma init_race:
  "let b = Key_InitDelete_watch watching 1 (Key_MarkDeletedEx_v2 True 0 (names_text [''k'']) None (Key_InitDelete_load 1
         (Key_InitDelete_v2 True 0 \<lparr>kb_file = None, kb_date = 0, kb_proc = (\<lambda>_. key_demo_proc)\<rparr>)))
   in fst (Key_IsDeleted_v2 0 (names_text [''k'']) b) \<noteq> 0 \<and> fst (Key_IsDeleted_v2 1 (names_text [''k'']) b) = 0
      \<and> up_to_date b 1"
  by (cases watching; simp only:) code_simp+

text \<open>
  The flag of deleted children is not kept by the file: below a deleted key the deletion of a child is not written,
  so the key has the flag before saving and not after loading.
\<close>

definition two_deleted :: "path_node list" where
  "two_deleted = [PATH_NODE ''a'' FILE_DELETED_FLAG None [PATH_NODE ''b'' FILE_DELETED_FLAG None []]]"

lemma children_flag_not_saved:
  "fst (File_GetPathFlags_internal two_deleted (names_text [''a'']) True) = 0x40001
   \<and> fst (File_GetPathFlags_internal
        (snd (File_LoadPathTree_internal no_translate (Some (File_SavePathTree_internal no_translate two_deleted)) [])) (names_text [''a'']) True) = 1"
proof -
  have "File_SavePathTree_internal no_translate two_deleted =
      File_AppendPathEntry_internal no_translate (names_text [''a'']) FILE_DELETED_FLAG None @ []" by code_simp
  moreover have "plain_path (names_text [''a''])" by code_simp
  ultimately have "load_loop no_translate (File_SavePathTree_internal no_translate two_deleted) [] =
      File_SetPathFlags_internal [] (names_text [''a'']) FILE_DELETED_FLAG 0 None"
    by (simp add: load_append flag_defs load_loop.simps [of no_translate "[]"] del: append_Nil2)
  moreover have "fst (File_GetPathFlags_internal two_deleted (names_text [''a'']) True) = 0x40001"
    "fst (File_GetPathFlags_internal (File_SetPathFlags_internal [] (names_text [''a'']) FILE_DELETED_FLAG 0 None) (names_text [''a'']) True) = 1"
    by code_simp+
  ultimately show ?thesis unfolding File_LoadPathTree_internal_def option.case snd_conv by simp
qed

text \<open>A bar in the name of a value is read as the end of the path: the value is not deleted for the other processes.\<close>

theorem bar_in_value_name:
  "load_line no_translate (names_text [''k'', ''$a|b''] @ ''|1'') [] = [PATH_NODE ''k'' 0 None [PATH_NODE ''$a'' 0xB (Some ''1'') []]]"
proof -
  define l where "l = names_text [''k'', ''$a|b''] @ ''|1''"
  have l: "wcschr l PIPE = Some 5" "take 5 l = names_text [''k'', ''$a'']" "drop 6 l = ''b|1''" unfolding l_def by code_simp+
  have d: "digit_val CHR ''b'' = 11" "\<not> digit_val PIPE < 16" "\<not> c_space CHR ''b''" by code_simp+
  have w: "wcstoul ''b|1'' 16 = (0xB, 1)" by (simp add: wcstoul_def digits_val_def Let_def d)
  have "load_line no_translate l [] = File_SetPathFlags_internal [] (names_text [''k'', ''$a'']) 0xB 0 (Some ''1'')"
    by (simp add: load_line_def l w translated_def no_translate_def)
  moreover have "File_SetPathFlags_internal [] (names_text [''k'', ''$a'']) 0xB 0 (Some ''1'') = [PATH_NODE ''k'' 0 None [PATH_NODE ''$a'' 0xB (Some ''1'') []]]"
    by code_simp
  ultimately show ?thesis by (simp add: l_def)
qed

text \<open>
  A key without a deleted child has one for \<^verbatim>\<open>Key_HasDeleted_v2\<close>: with no flags collected the test of the children
  holds for any child.
\<close>

theorem has_deleted_any_child:
  "let b = Key_MarkDeletedEx_v2 True 0 (names_text [''k'', ''l'']) (Some ''v'') key_demo_box
   in fst (Key_HasDeleted_v2 0 (names_text [''k'']) b) \<and> fst (Key_IsDeleted_v2 0 (names_text [''k'', ''l'']) b) = 0
      \<and> \<not> fst (Key_HasDeleted_v2 0 (names_text [''x'']) b)"
  by code_simp

text \<open>A relocation at the last segment does not reset the deletion of a parent; one further up does.\<close>

theorem relocation_below_deleted:
  "let T = [PATH_NODE ''a'' FILE_DELETED_FLAG None [PATH_NODE ''b'' FILE_RELOCATION_FLAG (Some (names_text [''x''])) []]]
   in FILE_PATH_DELETED (fst (File_GetPathFlags_internal T (names_text [''a'', ''b'']) False))
      \<and> \<not> FILE_PATH_DELETED (fst (File_GetPathFlags_internal T (names_text [''a'', ''b'', ''c'']) False))"
  by code_simp

text \<open>
  Renaming to a deleted path gives a node with both flags, and saving then loses the deletions below
  it: \<^verbatim>\<open>\b\<close> is deleted, \<^verbatim>\<open>\a\<close> renamed to it, and \<^verbatim>\<open>\b\c\<close> deleted.
\<close>

definition both_flags :: "path_node list" where
  "both_flags = [PATH_NODE ''b'' 3 (Some (names_text [''a''])) [PATH_NODE ''c'' FILE_DELETED_FLAG None []], PATH_NODE ''a'' FILE_DELETED_FLAG None []]"

lemma both_flags_reached:
  "File_SetRelocation_internal [PATH_NODE ''b'' FILE_DELETED_FLAG None []] (names_text [''a'']) (names_text [''b'']) =
     Some [PATH_NODE ''b'' 3 (Some (names_text [''a''])) [], PATH_NODE ''a'' FILE_DELETED_FLAG None []]"
  "File_MarkDeleted_internal [PATH_NODE ''b'' 3 (Some (names_text [''a''])) [], PATH_NODE ''a'' FILE_DELETED_FLAG None []] (names_text [''b'', ''c'']) =
     (True, False, both_flags)"
  by code_simp+

lemma both_flags_loaded:
  "load_loop no_translate (File_SavePathTree_internal no_translate both_flags) [] =
     [PATH_NODE ''b'' 3 (Some (names_text [''a''])) [], PATH_NODE ''a'' FILE_DELETED_FLAG None []]"
proof -
  have "File_SavePathTree_internal no_translate both_flags =
      File_AppendPathEntry_internal no_translate (names_text [''b'']) 3 (Some (names_text [''a'']))
      @ File_AppendPathEntry_internal no_translate (names_text [''a'']) FILE_DELETED_FLAG None @ []"
    by code_simp
  moreover have "plain_path (names_text [''a''])" "plain_path (names_text [''b''])" "\<forall>c \<in> set (names_text [''a'']). line_char c" by code_simp+
  ultimately have "load_loop no_translate (File_SavePathTree_internal no_translate both_flags) [] =
      File_SetPathFlags_internal (File_SetPathFlags_internal [] (names_text [''b'']) 3 0 (Some (names_text [''a'']))) (names_text [''a'']) FILE_DELETED_FLAG 0 None"
    by (simp add: load_append flag_defs load_loop.simps [of no_translate "[]"] del: append_Nil2)
  also have "\<dots> = [PATH_NODE ''b'' 3 (Some (names_text [''a''])) [], PATH_NODE ''a'' FILE_DELETED_FLAG None []]" by code_simp
  finally show ?thesis .
qed

theorem save_loses_deletion:
  "FILE_PATH_DELETED (fst (File_GetPathFlags_internal both_flags (names_text [''b'', ''c'']) False))
   \<and> \<not> FILE_PATH_DELETED (fst (File_GetPathFlags_internal
        (snd (File_LoadPathTree_internal no_translate (Some (File_SavePathTree_internal no_translate both_flags)) [])) (names_text [''b'', ''c'']) False))"
proof
  show "FILE_PATH_DELETED (fst (File_GetPathFlags_internal both_flags (names_text [''b'', ''c'']) False))" by code_simp
  show "\<not> FILE_PATH_DELETED (fst (File_GetPathFlags_internal
        (snd (File_LoadPathTree_internal no_translate (Some (File_SavePathTree_internal no_translate both_flags)) [])) (names_text [''b'', ''c'']) False))"
    unfolding File_LoadPathTree_internal_def option.case snd_conv both_flags_loaded by code_simp
qed

end
