(* ===== verification/Spec2Isabelle.thy ===== *)
theory Spec2Isabelle
  imports PatternCorrect SettingsFlow WizardCorrect PathTreeBox
begin

text \<open>
  A model of the parts of Sandboxie that decide what a sandboxed program may do, and of the
  troubleshooting wizard of its user interface, with the theorems that make them correct.

  \<^bold>\<open>The program.\<close>  The driver reads Sandboxie.ini and Templates.ini into sections and settings
  (core/drv/conf.c, over the hash maps of common/map.c).  For every sandboxed process it builds lists of
  rules from the settings that name its image (core/drv/process_util.c) and compiles each into a wildcard
  pattern (common/pattern.c); the best match decides whether a path is open, closed, read-only or copied
  into the box.  The network filter (core/drv/wfp.c) keeps a record of rules per process and decides
  about connections with the rules of common/netfw.c, whose ranges are in red-black trees
  (common/rbtree.c) and whose text has the tag syntax of common/str_util.c.  In the sandboxed programs the
  DLL keeps a tree of the files and keys they deleted or renamed and shares it through a file in the
  box (core/dll/file_del.c, core/dll/key_del.c).  The user interface SandMan has
  a wizard that loads JavaScript files with comment headers (SandMan/Engine/ScriptManager.cpp), offers
  them on pages (SandMan/Wizards/BoxAssistant.cpp) and runs them in an engine
  (SandMan/Engine/BoxEngine.cpp) that changes the settings of boxes through shadow copies.

  \<^bold>\<open>Theories.\<close>  Paths are under src/Sandboxie and src/SandboxiePlus; the definitions have the names of the C,
  C++ and JavaScript functions, loops of a function have names of their own beside it.

  \<^item> SbiePrelude: wide strings, machine integers, the C run-time functions, collections of rewrite rules.
  \<^item> Pattern, PatternCorrect (common/pattern.c): \<open>pattern\<close> is \<^verbatim>\<open>struct _PATTERN\<close>; compilation, both matchers with
    their restart loops, the choice from a list.  The matcher is sound for globs, complete for rules
    ending in a star or without one and without \<^verbatim>\<open>**\<close>, returns, and fills exactly the block it allocates, whose length is
    computed in 32 bits; where it departs from globs or loops (\<^verbatim>\<open>__hex\<close>), that is proved.
  \<^item> ProcessRules (core/drv/process_util.c): images and process groups, settings per image, the rule lists, the
    decision \<^verbatim>\<open>Process_MatchPathEx\<close>, box isolation.  Every decision is that of the list with a matching rule
    or the default; a Closed rule wins without rule specificity; settings pick the best level; process groups
    match only by a listed image.
  \<^item> HashMap (common/map.c): buckets, growth, iterators; the multimap it implements is the locale \<open>multimap\<close>,
    interpreted as \<open>hm\<close>.
  \<^item> Conf, ConfRead, ConfMerge, ConfUpdate (core/drv/conf.c): the reader, templates, lookups by index, changes at run
    time, reload.  \<open>conf_data\<close> is the pool with sections and settings addressed by index.  Reading a
    printed file gives its values back (locale \<open>ini_store\<close>, interpreted for the maps as \<open>cs\<close> and for the lists as
    \<open>cl\<close>), keeps the invariant for any stream and any pattern of failing allocations; merging ends for templates
    without nesting and does not for cycles.
  \<^item> RBTree (common/rbtree.c): insertion with fixup and the searches; order and balance are proved in the locale
    \<open>cmp_order\<close>, interpreted for ports (\<open>ports\<close>) and addresses (\<open>ips\<close>).
  \<^item> StrUtil (common/str_util.c): tags with plain and quoted values, read back as printed.
  \<^item> NetFw, NetFwRules, NetFwText (common/netfw.c): range maps, rules, merging, ranking, the parsers.  From the text
    of rules to the decision they refine a list of rules taken one by one.
  \<^item> Wfp, WfpCorrect (core/drv/wfp.c): \<open>wfp_state\<close> is the map of processes with their records on a heap; each
    operation is one step of a state machine, which refines a map from process ids to records and never
    uses a freed record.
  \<^item> PathTree (core/dll/file_del.c, core/dll/key_del.c): \<open>path_node\<close> is \<^verbatim>\<open>struct _PATH_NODE\<close>, \<open>key_box\<close> the file of a box with
    the trees of its processes.  PathTreeLookup gives the meaning of lookups, PathTreeUpdate that of
    deleting and renaming (the locale \<open>marking\<close> of conditions that marking keeps, interpreted as \<open>kept\<close> for
    the form of the tree and as \<open>stored\<close> for trees that can be written), PathTreeFile that reading
    undoes writing, PathTreeBox that the processes agree in runs without failing opens, interrupted starts and names
    with bars, and how each of these and a late refresh loses updates.
  \<^item> SettingsFlow and this theory: the settings by index (locale \<open>conf_provider\<close>, interpreted on \<^verbatim>\<open>Conf_Get\<close> as
    \<open>cp\<close>) and the properties from the text of the file to the setting of a program and to the
    decision about a connection.
  \<^item> Troubleshooting (SandMan/Troubleshooting, SandMan/Engine): every script as a state transformer over the engine,
    shadow copies of boxes and how they are applied, the compatibility check.
  \<^item> ScriptManager, Wizard, WizardCorrect (SandMan/Engine/ScriptManager.cpp, SandMan/Wizards/BoxAssistant.cpp): headers,
    builds and versions, grouping by layout.json, the script of a message, the pages as a step relation.
    In the shipped folder every message has its handler; only scripts admitted by their
    header run, in every sequence of steps; every issue can be reached.

  \<^bold>\<open>Loops and fuel.\<close>  Loops that end are recursive functions.  The matcher of patterns, process groups and
  template merging may run forever, so they take fuel and \<^const>\<open>None\<close> is missing fuel: without \<^verbatim>\<open>__hex\<close> parts
  the matcher returns with the fuel of \<open>pattern_matchX_returns\<close>; merging ends with the fuel of
  \<open>Conf_Merge_Templates_values\<close>; more fuel changes no result.  The loops over settings by index have the
  fuel \<open>conf_fuel\<close>, twice the greatest number of lines (\<^verbatim>\<open>CONF_MAX_LINES\<close>) and one, which is more than the
  values a section and GlobalSettings can have after a file was read.

  \<^bold>\<open>Parameters.\<close>  Characters have 8 bits; tests against larger ones are kept where the code has them.
  Memory is a parameter where the sources test for it (\<open>func_malloc\<close>, \<open>cd_alloc\<close>, \<open>env_alloc\<close>); \<^verbatim>\<open>map_alloc\<close> of a map
  with a pool faults instead of returning NULL, so the maps of the configuration always have memory.
  The answers of forms and of the sandbox API come from a \<open>host\<close>; the parsed layout.json and the folder
  of scripts are arguments; what an uninitialised array holds in \<^verbatim>\<open>_wntoi\<close> is an argument of the parser; registration
  with the Windows filtering platform succeeds or fails by a parameter, and the operations of the filter do not
  overlap; whether the file of deleted keys can be opened for writing is an argument; the translation of paths for the file of
  deleted files is one too.  The file system tells every process of each write, and the date of a file
  tells two writes apart.

  \<^bold>\<open>Not modelled.\<close>  The hooks of the driver on files, registry, IPC and windows, the life cycle of processes, the
  sandbox DLL apart from the path tree, the service and the injection code: they are calls of undocumented interfaces of Windows
  over structures Windows lays out.  The entry points \<^verbatim>\<open>Conf_Api_*\<close> (probing of user memory, locks), the import of
  further files, deletion in red-black trees (without users), freeing of rules, threads of Qt, widgets, the upload
  of reports and the update of scripts over the network, vendored code, translations, installers.

  \<^bold>\<open>Plan.\<close>  The expansion of variables in settings (core/drv/conf_expand.c) and forced processes
  (core/drv/process_force.c) are the next parts with logic of their own.
\<close>

section \<open>Properties\<close>

text \<open>
  C8. From the file to a setting of a program: after a file of valid lines was read, without included files and
  templates, the lookup of a setting for an
  image gives the best candidate among the values of the box in the order of the file followed by
  those of GlobalSettings: of the values whose image part applies, one of the least level, and the
  last of these.
\<close>

theorem setting_from_file:
  assumes "valid_ini ini" and "ini \<noteq> []" and "box \<noteq> []" and "setting \<noteq> []"
  shows "Process_GetConfEx fuel (data_env conf_fuel (read_ini ini) base) box img setting =
    map_option best_candidate (conf_candidates fuel (data_env conf_fuel (read_ini ini) base) box img (file_values ini box setting))"
  by (simp add: Process_GetConfEx_def getconf_loop_best_None file_env [OF assms])

text \<open>
  C1. From the file to the connections of a process.  A file of valid lines was read, without included files and
  templates; the values of \<^verbatim>\<open>NetworkAccess\<close> for the box that apply to the image of a filtered process are texts of
  rules in the form of \<^const>\<open>rule_text\<close> (IPv4 addresses), all for one protocol, with ranges that lie apart over all
  rules; the process may use the network at all; all allocations succeed; and what lies on the stack behind the
  array of \<^verbatim>\<open>_wntoi\<close> never begins with a digit.  After the process was updated, the callout of the network
  filter blocks a connection of the process exactly when, among the rules of the file that match the
  remote address, the remote port and the protocol, a best one blocks it.  Without one protocol, ranges apart or
  the condition on the stack this is false: \<open>rule_order_decides\<close>, \<open>overlapping_ranges_lose_ports\<close> and \<open>port_reads_stack\<close>.
\<close>

theorem connection_from_file:
  assumes "valid_ini ini" and "ini \<noteq> []" and "box_name (proc_box proc) \<noteq> []"
    and "env = data_env conf_fuel (read_ini ini) base"
    and "wfp_reach st" and "WFP_Enabled st" and "wfp_abs st (proc_pid proc) \<noteq> None"
    and "\<forall>i j. 10 \<le> digit_val (deref (stk i j))" and "\<forall>i. alloc i"
    and "file_values ini (box_name (proc_box proc)) ''NetworkAccess'' = map fst items"
    and "\<forall>item \<in> set items. item_applies fuel env proc item"
    and "\<forall>d \<in> set (item_rules items). rd_protocol d = pr" and "pr \<in> {IPPROTO_ANY, IPPROTO_TCP, IPPROTO_UDP, IPPROTO_ICMP}"
    and "ranges_apart NetFw_PortCmp (\<Union>d \<in> set (item_rules items). set (rd_ports d))"
    and "ranges_apart NetFw_IpCmp (\<Union>d \<in> set (item_rules items). set (rd_ips d))"
    and "allow \<or> Process_GetConf_bool fuel env proc ''AllowNetworkAccess'' True = Some True"
  shows "\<exists>st'. WFP_UpdateProcess fuel env alloc stk allow proc st = Some (True, st') \<and>
    (\<forall>c out. ci_pid c = Some (proc_pid proc) \<and> action_write out \<longrightarrow>
       WFP_classify c out st' = Some
         (if spec_blocks (item_rules items) (remote_ip c) (ci_port c) (uint (ci_protocol c))
          then out\<lparr>actionType := FWP_ACTION_BLOCK, action_write := False\<rparr> else out\<lparr>actionType := FWP_ACTION_PERMIT\<rparr>))"
proof -
  have "env_conf env (box_name (proc_box proc)) ''NetworkAccess'' = map fst items"
    unfolding assms(4) using file_env [OF assms(1-3)] assms(10) by simp
  from update_classify [OF assms(5-9) this assms(11-16)] show ?thesis .
qed

text \<open>A file with two rules, of which one is for the process of the example.\<close>

definition net_ini :: "(wstring \<times> (wstring \<times> wstring) list) list" where
  "net_ini = [(''GlobalSettings'', [(''NetworkAccess'', ''b.exe,Allow;'')]), (''Box'', [(''NetworkAccess'', ''a.exe,Block;Port=25,465;'')])]"

definition net_items :: "net_item list" where
  "net_items = [(''a.exe,Block;Port=25,465;'',
     Some (Some 0, \<lparr>rs_block = True, rs_ports = [(25, 25), (465, 465)], rs_ips = [], rs_protocol = IPPROTO_ANY\<rparr>)), (''b.exe,Allow;'', None)]"

lemma net_ini_facts:
  shows "valid_ini net_ini" and "net_ini \<noteq> []" and "box_name (proc_box demo_proc) \<noteq> []"
    and "file_values net_ini (box_name (proc_box demo_proc)) ''NetworkAccess'' = map fst net_items"
    and "\<forall>d \<in> set (item_rules net_items). rd_protocol d = IPPROTO_ANY"
    and "ranges_apart NetFw_PortCmp (\<Union>d \<in> set (item_rules net_items). set (rd_ports d))"
    and "ranges_apart NetFw_IpCmp (\<Union>d \<in> set (item_rules net_items). set (rd_ips d))"
  by code_simp+

lemma net_items_apply: "\<forall>item \<in> set net_items. item_applies 100 (data_env n data (demo_env [])) demo_proc item"
  by code_simp

theorem setting_from_file_witness:
  "Process_GetConfEx 100 (data_env conf_fuel (read_ini net_ini) (demo_env [])) ''Box'' ''a.exe'' ''NetworkAccess'' = Some (Some ''Block;Port=25,465;'')"
proof -
  have "file_values net_ini ''Box'' ''NetworkAccess'' = [''a.exe,Block;Port=25,465;'', ''b.exe,Allow;'']" by code_simp
  moreover have "conf_candidates 100 (data_env n data (demo_env [])) ''Box'' ''a.exe'' [''a.exe,Block;Port=25,465;'', ''b.exe,Allow;'']
      = Some [(''Block;Port=25,465;'', 0)]" for n data by code_simp
  moreover have "best_candidate [(''Block;Port=25,465;'', 0)] = Some ''Block;Port=25,465;''" by code_simp
  ultimately show ?thesis
    using setting_from_file [OF net_ini_facts(1,2), of "''Box''" "''NetworkAccess''" 100 "demo_env []" "''a.exe''"] by simp
qed

theorem connection_from_file_witness:
  "\<exists>st'. WFP_UpdateProcess 100 (data_env conf_fuel (read_ini net_ini) (demo_env [])) (\<lambda>_. True) (\<lambda>_ _. []) True demo_proc demo_wfp = Some (True, st')
     \<and> WFP_classify \<lparr>ci_pid = Some (proc_pid demo_proc), ci_v6 = False, ci_addr16 = [], ci_addr4 = 0x0A000001, ci_port = 25, ci_protocol = 6\<rparr>
         \<lparr>actionType = FWP_ACTION_NONE, action_write = True\<rparr> st' = Some \<lparr>actionType = FWP_ACTION_BLOCK, action_write = False\<rparr>"
proof -
  let ?c = "\<lparr>ci_pid = Some (proc_pid demo_proc), ci_v6 = False, ci_addr16 = [], ci_addr4 = 0x0A000001, ci_port = 25, ci_protocol = 6\<rparr>"
  let ?out = "\<lparr>actionType = FWP_ACTION_NONE, action_write = True\<rparr>"
  let ?env = "data_env conf_fuel (read_ini net_ini) (demo_env [])"
  have en: "WFP_Enabled demo_wfp" "wfp_abs demo_wfp (proc_pid demo_proc) \<noteq> None" using demo_wfp_facts by auto
  have stk: "\<forall>(i::nat) (j::nat). 10 \<le> digit_val (deref [])" using stk_nil by simp
  have b: "spec_blocks (item_rules net_items) (remote_ip ?c) (ci_port ?c) (uint (ci_protocol ?c))" by code_simp
  obtain st' where "WFP_UpdateProcess 100 ?env (\<lambda>_. True) (\<lambda>_ _. []) True demo_proc demo_wfp = Some (True, st')"
    "WFP_classify ?c ?out st' = Some (if spec_blocks (item_rules net_items) (remote_ip ?c) (ci_port ?c) (uint (ci_protocol ?c))
          then ?out\<lparr>actionType := FWP_ACTION_BLOCK, action_write := False\<rparr> else ?out\<lparr>actionType := FWP_ACTION_PERMIT\<rparr>)"
    using connection_from_file [OF net_ini_facts(1-3) refl demo_reach en stk _ net_ini_facts(4) net_items_apply net_ini_facts(5) _ net_ini_facts(6,7),
        where alloc = "\<lambda>_. True" and allow = True]
    by auto
  with b show ?thesis by auto
qed

end
